(* ===== verification/Dvr_Prelude.thy ===== *)
theory Dvr_Prelude
  imports Main "HOL-Library.Word"
begin

unbundle bit_operations_syntax

text \<open>
  Shared types and facts of the recorder firmware model.

  \<^item> \<open>u8\<close>, \<open>u16\<close>, \<open>u32\<close>, \<open>u64\<close> are the C types \<open>uint8_t\<close> to
    \<open>uint64_t\<close> (and \<open>rt_uint8_t\<close> and so on, \<open>rt_tick_t\<close> is \<open>u32\<close>);
    arithmetic on them wraps as it does in C.
  \<^item> \<open>rt_err\<close> is the kernel's \<open>rt_err_t\<close>, by the names the code uses.
  \<^item> \<open>le16\<close>, \<open>le32\<close> are the bytes of an integer in the memory of the little-endian
    target; \<open>rd16\<close>, \<open>rd32\<close> read them back.
  \<^item> A pointer argument that the code compares with \<open>RT_NULL\<close> is an \<open>option\<close>;
    \<open>None\<close> is the null pointer.
\<close>

section \<open>Machine types\<close>

type_synonym u8 = "8 word"
type_synonym u16 = "16 word"
type_synonym u32 = "32 word"
type_synonym u64 = "64 word"
type_synonym bytes = "8 word list"
type_synonym tick = "32 word"

named_theorems dvr_layout \<open>byte layout of records and frames\<close>
named_theorems dvr_const \<open>configuration constants of the firmware\<close>

datatype rt_err = RT_EOK | RT_ERROR | RT_ENOMEM | RT_ENOSYS | RT_EINVAL | RT_EOTHER int

section \<open>Little-endian integers\<close>

definition le16 :: "u16 \<Rightarrow> bytes" where
  "le16 w = [ucast w, ucast (drop_bit 8 w)]"

definition le32 :: "u32 \<Rightarrow> bytes" where
  "le32 w = [ucast w, ucast (drop_bit 8 w), ucast (drop_bit 16 w), ucast (drop_bit 24 w)]"

definition rd16 :: "bytes \<Rightarrow> nat \<Rightarrow> u16" where
  "rd16 bs i = ucast (bs ! i) OR push_bit 8 (ucast (bs ! (i + 1)))"

definition rd32 :: "bytes \<Rightarrow> nat \<Rightarrow> u32" where
  "rd32 bs i = ucast (bs ! i) OR push_bit 8 (ucast (bs ! (i + 1)))
     OR push_bit 16 (ucast (bs ! (i + 2))) OR push_bit 24 (ucast (bs ! (i + 3)))"

lemma length_le16 [simp]: "length (le16 w) = 2"
  by (simp add: le16_def)

lemma length_le32 [simp]: "length (le32 w) = 4"
  by (simp add: le32_def)

lemma bit_byte_at:
  fixes w :: "'a::len word"
  shows "bit (push_bit k (ucast (ucast (drop_bit k w) :: u8)) :: 'a word) n
    \<longleftrightarrow> k \<le> n \<and> n < k + 8 \<and> bit w n"
  by (auto simp: bit_simps dest: bit_imp_le_length)

lemma bit_byte_0:
  fixes w :: "'a::len word"
  shows "bit (ucast (ucast w :: u8) :: 'a word) n \<longleftrightarrow> n < 8 \<and> bit w n"
  by (auto simp: bit_simps dest: bit_imp_le_length)

lemma join16: "(ucast (ucast w :: u8) :: u16) OR push_bit 8 (ucast (ucast (drop_bit 8 w) :: u8)) = w"
proof (rule bit_word_eqI)
  fix n assume "n < LENGTH(16)"
  then show "bit ((ucast (ucast w :: u8) :: u16) OR push_bit 8 (ucast (ucast (drop_bit 8 w) :: u8))) n
      = bit w n"
    by (simp only: bit_or_iff bit_byte_at bit_byte_0) auto
qed

lemma join32: "(ucast (ucast w :: u8) :: u32) OR push_bit 8 (ucast (ucast (drop_bit 8 w) :: u8))
    OR push_bit 16 (ucast (ucast (drop_bit 16 w) :: u8))
    OR push_bit 24 (ucast (ucast (drop_bit 24 w) :: u8)) = w"
proof (rule bit_word_eqI)
  fix n assume "n < LENGTH(32)"
  then show "bit ((ucast (ucast w :: u8) :: u32) OR push_bit 8 (ucast (ucast (drop_bit 8 w) :: u8))
    OR push_bit 16 (ucast (ucast (drop_bit 16 w) :: u8))
    OR push_bit 24 (ucast (ucast (drop_bit 24 w) :: u8))) n = bit w n"
    by (simp only: bit_or_iff bit_byte_at bit_byte_0) auto
qed

lemma nth_le32: "le32 w ! 0 = ucast w" "le32 w ! 1 = ucast (drop_bit 8 w)"
    "le32 w ! 2 = ucast (drop_bit 16 w)" "le32 w ! 3 = ucast (drop_bit 24 w)"
  by (simp_all only: le32_def nth_Cons_numeral nth_Cons_0 nth_Cons_Suc One_nat_def
      numeral_2_eq_2 numeral_3_eq_3)

lemma nth_le16: "le16 w ! 0 = ucast w" "le16 w ! 1 = ucast (drop_bit 8 w)"
  by (simp_all only: le16_def nth_Cons_0 nth_Cons_Suc One_nat_def)

lemma rd16_le16_0 [dvr_layout]: "rd16 (le16 w @ post) 0 = w" "rd16 (le16 w) 0 = w"
proof -
  have lt: "(0::nat) < 2" "(1::nat) < 2" by simp_all
  show "rd16 (le16 w @ post) 0 = w" "rd16 (le16 w) 0 = w"
    by (simp_all only: rd16_def nth_append length_le16 add_0 lt if_True nth_le16 join16)
qed

lemma rd32_le32_0 [dvr_layout]: "rd32 (le32 w @ post) 0 = w" "rd32 (le32 w) 0 = w"
proof -
  have lt: "(0::nat) < 4" "(1::nat) < 4" "(2::nat) < 4" "(3::nat) < 4" by simp_all
  show "rd32 (le32 w @ post) 0 = w" "rd32 (le32 w) 0 = w"
    by (simp_all only: rd32_def nth_append length_le32 add_0 lt if_True nth_le32 join32)
qed

text \<open>Reading behind a prefix of known length.\<close>

lemma rd16_append [dvr_layout]: "length pre \<le> i \<Longrightarrow> rd16 (pre @ bs) i = rd16 bs (i - length pre)"
  by (simp add: rd16_def nth_append Suc_diff_le)

lemma rd32_append [dvr_layout]: "length pre \<le> i \<Longrightarrow> rd32 (pre @ bs) i = rd32 bs (i - length pre)"
  by (simp add: rd32_def nth_append Suc_diff_le)

lemma rd16_take [dvr_layout]: "i + 1 < n \<Longrightarrow> rd16 (take n bs) i = rd16 bs i"
  by (simp add: rd16_def)

section \<open>Segments\<close>

definition seg :: "nat \<Rightarrow> nat \<Rightarrow> 'a list \<Rightarrow> 'a list" where
  "seg i n xs = take n (drop i xs)"

lemma length_seg: "i + n \<le> length xs \<Longrightarrow> length (seg i n xs) = n"
  by (simp add: seg_def)

lemma seg_append_ge [dvr_layout]: "length pre \<le> i \<Longrightarrow> seg i n (pre @ xs) = seg (i - length pre) n xs"
  by (simp add: seg_def)

lemma seg_0_append [dvr_layout]: "length pre = n \<Longrightarrow> seg 0 n (pre @ xs) = pre"
  by (simp add: seg_def)

lemma seg_nth: "k < n \<Longrightarrow> i + n \<le> length xs \<Longrightarrow> seg i n xs ! k = xs ! (i + k)"
  by (simp add: seg_def)

section \<open>Words and naturals\<close>

lemma unat_lt_u8: "unat (w :: u8) < 256"
  using unsigned_less [of w] by simp

lemma unat_lt_u16: "unat (w :: u16) < 65536"
  using unsigned_less [of w] by simp

lemma unat_lt_u32: "unat (w :: u32) < 4294967296"
  using unsigned_less [of w] by simp

lemma unat_ucast_simps [simp]:
  "unat (ucast (a :: u8) :: u16) = unat a"
  "unat (ucast (a :: u8) :: u32) = unat a"
  "unat (ucast (a :: u8) :: u64) = unat a"
  "unat (ucast (b :: u16) :: u32) = unat b"
  "unat (ucast (b :: u16) :: u64) = unat b"
  "unat (ucast (c :: u32) :: u64) = unat c"
  by (simp_all add: unsigned_ucast_eq take_bit_nat_def unat_lt_u8 [THEN order_less_trans]
      unat_lt_u16 [THEN order_less_trans] unat_lt_u32 [THEN order_less_trans])

lemma ucast_u8_u32_eq_0 [simp]: "(ucast (a :: u8) :: u32) = 0 \<longleftrightarrow> a = 0"
proof
  assume "(ucast a :: u32) = 0"
  then have "unat (ucast a :: u32) = 0" by simp
  then show "a = 0" by (simp add: unat_eq_zero)
qed simp

lemma of_nat_u16_inj:
  "i < 65536 \<Longrightarrow> j < 65536 \<Longrightarrow> (of_nat i :: u16) = of_nat j \<longleftrightarrow> i = j"
  by (simp add: word_unat_eq_iff unsigned_of_nat take_bit_nat_eq_self)

section \<open>Memory\<close>

text \<open>\<open>upd_mem a data m\<close> is the memory \<open>m\<close> after a copy of \<open>data\<close> to the address \<open>a\<close>.\<close>

definition upd_mem :: "nat \<Rightarrow> bytes \<Rightarrow> (nat \<Rightarrow> u8) \<Rightarrow> nat \<Rightarrow> u8" where
  "upd_mem a data m = (\<lambda>k. if a \<le> k \<and> k < a + length data then data ! (k - a) else m k)"

lemma upd_mem_upd_mem:
  "upd_mem (a + length xs) ys (upd_mem a xs m) = upd_mem a (xs @ ys) m"
  by (auto simp: upd_mem_def fun_eq_iff nth_append)

section \<open>Counting semaphores\<close>

text \<open>
  The count of a semaphore that the interrupt callbacks release (\<open>rt_sem_release\<close> of
  \<open>src/rt-thread/src/ipc.c\<close>); the release of a full semaphore changes nothing. A release that resumes a
  waiting thread is the release followed by the thread's own step, which takes the count again.
\<close>

definition RT_SEM_VALUE_MAX :: nat where [dvr_const]: "RT_SEM_VALUE_MAX = 65535"

definition rt_sem_release :: "nat \<Rightarrow> nat" where
  "rt_sem_release c = (if c < RT_SEM_VALUE_MAX then c + 1 else c)"

lemma rt_sem_release_pos [simp]: "0 < rt_sem_release c" "rt_sem_release c \<noteq> 0"
  by (simp_all add: rt_sem_release_def RT_SEM_VALUE_MAX_def)

section \<open>The bounded queue\<close>

text \<open>
  What a client of a ring may assume: it is a first-in first-out queue of at most \<open>cap\<close>
  elements; a push on a full queue changes nothing and reports failure.
\<close>

locale bounded_fifo =
  fixes push :: "'r \<Rightarrow> 'a \<Rightarrow> bool \<times> 'r" and pop :: "'r \<Rightarrow> ('a \<times> 'r) option"
    and queued :: "'r \<Rightarrow> 'a list" and ok :: "'r \<Rightarrow> bool" and cap :: nat
  assumes push_room: "ok r \<Longrightarrow> length (queued r) < cap \<Longrightarrow>
      \<exists>r'. push r x = (True, r') \<and> ok r' \<and> queued r' = queued r @ [x]"
    and push_full: "ok r \<Longrightarrow> length (queued r) = cap \<Longrightarrow> push r x = (False, r)"
    and bounded: "ok r \<Longrightarrow> length (queued r) \<le> cap"
    and pop_empty: "ok r \<Longrightarrow> queued r = [] \<Longrightarrow> pop r = None"
    and pop_next: "ok r \<Longrightarrow> queued r = x # xs \<Longrightarrow> \<exists>r'. pop r = Some (x, r') \<and> ok r' \<and> queued r' = xs"
begin

definition push_all :: "'a list \<Rightarrow> 'r \<Rightarrow> 'r" where
  "push_all xs r = fold (\<lambda>x r. snd (push r x)) xs r"

lemma push_all_queued:
  "ok r \<Longrightarrow> ok (push_all xs r) \<and> queued (push_all xs r) = take cap (queued r @ xs)"
proof (induction xs arbitrary: r)
  case Nil
  then show ?case using bounded [of r] by (simp add: push_all_def)
next
  case (Cons x xs)
  show ?case
  proof (cases "length (queued r) < cap")
    case True
    then obtain r' where r': "push r x = (True, r')" "ok r'" "queued r' = queued r @ [x]"
      using push_room [OF Cons.prems] by blast
    then show ?thesis using Cons.IH [OF r'(2)] by (simp add: push_all_def)
  next
    case False
    then have full: "length (queued r) = cap" using bounded [OF Cons.prems] by simp
    then show ?thesis
      using Cons.IH [OF Cons.prems] push_full [OF Cons.prems full, of x] by (simp add: push_all_def)
  qed
qed

end

text \<open>The last \<open>n\<close> elements.\<close>

definition last_n :: "nat \<Rightarrow> 'a list \<Rightarrow> 'a list" where
  "last_n n xs = drop (length xs - n) xs"

section \<open>Runs of operations\<close>

text \<open>The outputs and the final state of a sequence of operations, and simulation of one system by another.\<close>

fun run_ops :: "('op \<Rightarrow> 's \<Rightarrow> 'o \<times> 's) \<Rightarrow> 'op list \<Rightarrow> 's \<Rightarrow> 'o list \<times> 's" where
  "run_ops step [] s = ([], s)"
| "run_ops step (p # ps) s = (let (o1, s) = step p s; (os, s) = run_ops step ps s in (o1 # os, s))"

lemma run_ops_sim:
  assumes "\<And>p s. R s \<Longrightarrow> \<exists>out s'. f p s = (out, s') \<and> g p (h s) = (out, h s') \<and> R s'"
  shows "R s \<Longrightarrow> \<exists>outs s'. run_ops f ps s = (outs, s') \<and> run_ops g ps (h s) = (outs, h s') \<and> R s'"
proof (induction ps arbitrary: s)
  case (Cons p ps)
  obtain out s1 where 1: "f p s = (out, s1)" "g p (h s) = (out, h s1)" "R s1" using assms [OF Cons.prems] by blast
  then show ?case using Cons.IH [OF 1(3)] by (auto simp: Let_def)
qed simp

end
