(* ===== verification/Lcd_Drv.thy ===== *)
theory Lcd_Drv
  imports Dvr_Prelude
begin

unbundle bit_operations_syntax

text \<open>
  The driver of the ST7567 display controller (\<open>src/applications/LCD/lcd_drv.c\<close>). What the driver
  does is write pins: each function gives the list of its pin writes, in order. The routing of the
  pads (IOC, GPIOM, output enable) and the delays are not part of it. The receiver at the other end
  of the wires shifts in the data line at a clock edge while it is selected; the results hold for
  both edges.
\<close>

section \<open>Pins\<close>

datatype lcd_pin = LCD_RSTB_PIN | LCD_BACKLIGHT_PIN | LCD_CSN_PIN | LCD_A0_PIN | LCD_SCK_PIN | LCD_SDA_PIN

type_synonym pin_writes = "(lcd_pin \<times> bool) list"

definition ST7567_CMD_DISPLAY_ON :: u8 where [dvr_const]: "ST7567_CMD_DISPLAY_ON = 0xAF"
definition ST7567_CMD_SET_START_LINE :: u8 where [dvr_const]: "ST7567_CMD_SET_START_LINE = 0x40"
definition ST7567_CMD_SET_PAGE :: u8 where [dvr_const]: "ST7567_CMD_SET_PAGE = 0xB0"
definition ST7567_CMD_SET_COL_HI :: u8 where [dvr_const]: "ST7567_CMD_SET_COL_HI = 0x10"
definition ST7567_CMD_SET_COL_LO :: u8 where [dvr_const]: "ST7567_CMD_SET_COL_LO = 0x00"
definition ST7567_CMD_SEG_NORMAL :: u8 where [dvr_const]: "ST7567_CMD_SEG_NORMAL = 0xA0"
definition ST7567_CMD_INVERSE_OFF :: u8 where [dvr_const]: "ST7567_CMD_INVERSE_OFF = 0xA6"
definition ST7567_CMD_ALL_PIXEL_OFF :: u8 where [dvr_const]: "ST7567_CMD_ALL_PIXEL_OFF = 0xA4"
definition ST7567_CMD_BIAS_1_9 :: u8 where [dvr_const]: "ST7567_CMD_BIAS_1_9 = 0xA2"
definition ST7567_CMD_POWER_ALL_ON :: u8 where [dvr_const]: "ST7567_CMD_POWER_ALL_ON = 0x2F"
definition ST7567_CMD_REG_RATIO :: u8 where [dvr_const]: "ST7567_CMD_REG_RATIO = 0x20"
definition ST7567_CMD_SET_EV :: u8 where [dvr_const]: "ST7567_CMD_SET_EV = 0x81"
definition ST7567_CMD_SET_BOOSTER :: u8 where [dvr_const]: "ST7567_CMD_SET_BOOSTER = 0xF8"
definition ST7567_CMD_BOOSTER_X5 :: u8 where [dvr_const]: "ST7567_CMD_BOOSTER_X5 = 0x01"
definition ST7567_CMD_COM_NORMAL :: u8 where [dvr_const]: "ST7567_CMD_COM_NORMAL = 0xC0"
definition ST7567_INIT_EV :: u8 where [dvr_const]: "ST7567_INIT_EV = 0x28"
definition ST7567_INIT_REG_RATIO :: u8 where [dvr_const]: "ST7567_INIT_REG_RATIO = 0x07"
definition LCD_COLS :: nat where [dvr_const]: "LCD_COLS = 132"
definition LCD_PAGES :: nat where [dvr_const]: "LCD_PAGES = 8"
definition LCD_HW_COL_OFFSET :: u8 where [dvr_const]: "LCD_HW_COL_OFFSET = 0"

definition lcd_a0_set :: "bool \<Rightarrow> pin_writes" where
  "lcd_a0_set is_data = [(LCD_A0_PIN, is_data)]"

definition lcd_csn_set :: "bool \<Rightarrow> pin_writes" where
  "lcd_csn_set active = [(LCD_CSN_PIN, \<not> active)]"

definition lcd_backlight_on :: pin_writes where
  "lcd_backlight_on = [(LCD_BACKLIGHT_PIN, True)]"

definition lcd_backlight_off :: pin_writes where
  "lcd_backlight_off = [(LCD_BACKLIGHT_PIN, False)]"

definition lcd_rst_set :: "bool \<Rightarrow> pin_writes" where
  "lcd_rst_set active = [(LCD_RSTB_PIN, \<not> active)]"

definition lcd_reset :: pin_writes where
  "lcd_reset = [(LCD_RSTB_PIN, False), (LCD_RSTB_PIN, True)]"

definition lcd_drv_sck_set :: "bool \<Rightarrow> pin_writes" where
  "lcd_drv_sck_set high = [(LCD_SCK_PIN, high)]"

definition lcd_drv_sda_set :: "bool \<Rightarrow> pin_writes" where
  "lcd_drv_sda_set high = [(LCD_SDA_PIN, high)]"

section \<open>Bytes on the wire\<close>

fun spi_bits :: "nat \<Rightarrow> u8 \<Rightarrow> pin_writes" where
  "spi_bits 0 byte = []"
| "spi_bits (Suc n) byte =
     lcd_drv_sck_set True @ lcd_drv_sda_set (byte AND 0x80 \<noteq> 0) @ lcd_drv_sck_set False @ spi_bits n (push_bit 1 byte)"

definition lcd_drv_spi_write_byte :: "u8 \<Rightarrow> pin_writes" where
  "lcd_drv_spi_write_byte byte = spi_bits 8 byte @ lcd_drv_sck_set True"

definition lcd_spi_send_byte :: "u8 \<Rightarrow> pin_writes" where
  "lcd_spi_send_byte byte = lcd_drv_spi_write_byte byte"

definition lcd_drv_write_cmd :: "u8 \<Rightarrow> pin_writes" where
  "lcd_drv_write_cmd cmd = lcd_csn_set True @ lcd_a0_set False @ lcd_drv_spi_write_byte cmd @ lcd_csn_set False"

text \<open>The buffer holds at least \<open>len\<close> bytes; the loop counts \<open>len\<close> down.\<close>

definition lcd_drv_write_data_buf :: "bytes \<Rightarrow> u16 \<Rightarrow> pin_writes" where
  "lcd_drv_write_data_buf buf len =
     lcd_csn_set True @ lcd_a0_set True @ concat (map lcd_drv_spi_write_byte (take (unat len) buf)) @ lcd_csn_set False"

definition lcd_drv_set_page_col :: "u8 \<Rightarrow> u8 \<Rightarrow> pin_writes" where
  "lcd_drv_set_page_col page col =
     (let hw_col = col + LCD_HW_COL_OFFSET;
          hw_col = (if LCD_COLS \<le> unat hw_col then hw_col - of_nat LCD_COLS else hw_col)
      in lcd_drv_write_cmd (ST7567_CMD_SET_PAGE OR (page AND 0x0F))
         @ lcd_drv_write_cmd (ST7567_CMD_SET_COL_HI OR (drop_bit 4 hw_col AND 0x0F))
         @ lcd_drv_write_cmd (ST7567_CMD_SET_COL_LO OR (hw_col AND 0x0F)))"

definition lcd_drv_write_page :: "u8 \<Rightarrow> u8 \<Rightarrow> bytes option \<Rightarrow> u16 \<Rightarrow> pin_writes" where
  "lcd_drv_write_page page col buf len =
     (case buf of None \<Rightarrow> []
      | Some b \<Rightarrow>
          if LCD_PAGES \<le> unat page \<or> LCD_COLS \<le> unat col \<or> len = 0 then []
          else lcd_drv_set_page_col page col @ lcd_drv_write_data_buf b len)"

text \<open>All pages filled with the same line.\<close>

definition fill_pages :: "bytes \<Rightarrow> pin_writes" where
  "fill_pages line =
     concat (map (\<lambda>page. lcd_drv_set_page_col (of_nat page) 0 @ lcd_drv_write_data_buf line (of_nat LCD_COLS)) [0..<LCD_PAGES])"

definition lcd_clear :: pin_writes where
  "lcd_clear = fill_pages (replicate LCD_COLS 0)"

definition lcd_fill_all :: pin_writes where
  "lcd_fill_all = fill_pages (replicate LCD_COLS 0xFF)"

section \<open>Start\<close>

definition lcd_drv_init_seq :: pin_writes where
  "lcd_drv_init_seq =
     lcd_reset
     @ lcd_drv_write_cmd ST7567_CMD_BIAS_1_9 @ lcd_drv_write_cmd ST7567_CMD_SEG_NORMAL
     @ lcd_drv_write_cmd ST7567_CMD_COM_NORMAL @ lcd_drv_write_cmd (ST7567_CMD_SET_START_LINE OR 0x00)
     @ lcd_drv_write_cmd (ST7567_CMD_REG_RATIO OR ST7567_INIT_REG_RATIO)
     @ lcd_drv_write_cmd ST7567_CMD_SET_EV @ lcd_drv_write_cmd ST7567_INIT_EV
     @ lcd_drv_write_cmd ST7567_CMD_SET_BOOSTER @ lcd_drv_write_cmd ST7567_CMD_BOOSTER_X5
     @ lcd_drv_write_cmd ST7567_CMD_POWER_ALL_ON
     @ lcd_drv_write_cmd ST7567_CMD_INVERSE_OFF @ lcd_drv_write_cmd ST7567_CMD_ALL_PIXEL_OFF
     @ lcd_clear @ lcd_drv_write_cmd ST7567_CMD_DISPLAY_ON"

text \<open>The level writes of \<open>lcd_drv_spi_hw_init\<close>; the control pins get theirs afterwards.\<close>

definition lcd_drv_spi_hw_init :: pin_writes where
  "lcd_drv_spi_hw_init = [(LCD_SCK_PIN, True), (LCD_SDA_PIN, False)]"

definition lcd_drv_init :: "pin_writes" where
  "lcd_drv_init =
     lcd_drv_spi_hw_init @ lcd_csn_set False @ lcd_a0_set True @ lcd_backlight_off @ lcd_drv_init_seq"

section \<open>The receiver\<close>

text \<open>
  The serial interface of the controller: levels of the lines, the bits shifted in since the chip
  was selected, and the bytes completed so far, each with the level of A0. \<open>rise\<close> tells which clock
  edge shifts.
\<close>

record spi_rx =
  rx_sck :: bool
  rx_sda :: bool
  rx_csn :: bool
  rx_a0 :: bool
  rx_bits :: "bool list"
  rx_bytes :: "(bool \<times> u8) list"

definition byte_of_bits :: "bool list \<Rightarrow> u8" where
  "byte_of_bits bs = fold (\<lambda>b x. 2 * x OR of_bool b) bs 0"

definition shift_in :: "spi_rx \<Rightarrow> spi_rx" where
  "shift_in r =
     (let bs = rx_bits r @ [rx_sda r]
      in if length bs = 8 then r\<lparr>rx_bits := [], rx_bytes := rx_bytes r @ [(rx_a0 r, byte_of_bits bs)]\<rparr>
         else r\<lparr>rx_bits := bs\<rparr>)"

fun rx_pin :: "bool \<Rightarrow> lcd_pin \<times> bool \<Rightarrow> spi_rx \<Rightarrow> spi_rx" where
  "rx_pin rise (LCD_SCK_PIN, v) r =
     (let edge = rx_sck r \<noteq> v \<and> v = rise; r = r\<lparr>rx_sck := v\<rparr> in if edge \<and> \<not> rx_csn r then shift_in r else r)"
| "rx_pin rise (LCD_SDA_PIN, v) r = r\<lparr>rx_sda := v\<rparr>"
| "rx_pin rise (LCD_A0_PIN, v) r = r\<lparr>rx_a0 := v\<rparr>"
| "rx_pin rise (LCD_CSN_PIN, v) r = r\<lparr>rx_csn := v, rx_bits := []\<rparr>"
| "rx_pin rise _ r = r"

definition receive :: "bool \<Rightarrow> pin_writes \<Rightarrow> spi_rx \<Rightarrow> spi_rx" where
  "receive rise ws r = fold (rx_pin rise) ws r"

text \<open>Between transfers the clock is high and no bits are pending.\<close>

definition rx_idle :: "spi_rx \<Rightarrow> bool" where
  "rx_idle r \<longleftrightarrow> rx_sck r \<and> rx_bits r = []"

lemma receive_simps [simp]:
  "receive rise [] r = r" "receive rise (w # ws) r = receive rise ws (rx_pin rise w r)"
  "receive rise (ws @ vs) r = receive rise vs (receive rise ws r)"
  by (simp_all add: receive_def)

lemma bit_byte_of_bits:
  "n < 8 \<Longrightarrow> bit (fold (\<lambda>b x. 2 * x OR of_bool b) bs a :: u8) n = (if n < length bs then rev bs ! n else bit a (n - length bs))"
proof (induction bs arbitrary: n rule: rev_induct)
  case (snoc b bs)
  then show ?case by (cases n) (auto simp: bit_simps bit_double_iff nth_append)
qed simp

lemma byte_of_bits_msb: "byte_of_bits (map (\<lambda>i. bit b (7 - i)) [0..<8]) = b" for b :: u8
proof (rule bit_eqI)
  fix n
  assume "possible_bit TYPE(u8) n"
  then have "n < 8" by (simp add: possible_bit_def)
  then show "bit (byte_of_bits (map (\<lambda>i. bit b (7 - i)) [0..<8])) n \<longleftrightarrow> bit b n"
    by (auto simp: byte_of_bits_def bit_byte_of_bits rev_nth)
qed

lemma msb: "(b AND 0x80 \<noteq> 0) = bit b 7" for b :: u8
proof -
  have "(0x80 :: u8) = push_bit 7 1" by simp
  then show ?thesis by (simp only: bit_iff_and_push_bit_not_eq_0)
qed

lemma shifted: "i < 7 \<Longrightarrow> bit (push_bit 1 b) (7 - i) = bit b (6 - i)" for b :: u8
  unfolding bit_push_bit_iff by (auto simp: possible_bit_def)

lemma spi_bits_msb:
  "n \<le> 8 \<Longrightarrow> spi_bits n b = concat (map (\<lambda>i. [(LCD_SCK_PIN, True), (LCD_SDA_PIN, bit b (7 - i)), (LCD_SCK_PIN, False)]) [0..<n])"
proof (induction n arbitrary: b)
  case (Suc n)
  have "map (\<lambda>i. [(LCD_SCK_PIN, True), (LCD_SDA_PIN, bit (push_bit 1 b) (7 - i)), (LCD_SCK_PIN, False)]) [0..<n]
      = map (\<lambda>i. [(LCD_SCK_PIN, True), (LCD_SDA_PIN, bit b (7 - Suc i)), (LCD_SCK_PIN, False)]) [0..<n]"
    using Suc.prems shifted [of _ b] by (intro map_cong) auto
  then show ?case
    using Suc by (simp only: spi_bits.simps Suc.IH msb upt_conv_Cons map_Suc_upt [symmetric])
      (simp add: lcd_drv_sck_set_def lcd_drv_sda_set_def comp_def)
qed simp

lemma upt_8: "[0..<8] = [0, 1, 2, 3, 4, 5, 6, 7]"
  by (simp add: upt_rec)

text \<open>Every bit is shifted in once, at whichever edge.\<close>

lemma receive_byte:
  assumes "rx_sck r" "\<not> rx_csn r" "rx_bits r = []"
  shows "receive rise (lcd_drv_spi_write_byte b) r
    = r\<lparr>rx_sda := bit b 0, rx_bytes := rx_bytes r @ [(rx_a0 r, b)]\<rparr>"
proof -
  have b: "byte_of_bits [bit b 7, bit b 6, bit b 5, bit b 4, bit b 3, bit b 2, bit b (Suc 0), bit b 0] = b"
    using byte_of_bits_msb [of b] by (simp add: upt_8)
  obtain sck sda csn a0 bits bs where r: "r = \<lparr>rx_sck = sck, rx_sda = sda, rx_csn = csn, rx_a0 = a0, rx_bits = bits, rx_bytes = bs\<rparr>"
    by (cases r)
  show ?thesis
    using assms
    by (cases rise) (simp_all add: r lcd_drv_spi_write_byte_def spi_bits_msb upt_8 lcd_drv_sck_set_def shift_in_def b)
qed

lemma receive_bytes:
  assumes "rx_sck r" "\<not> rx_csn r" "rx_bits r = []"
  shows "\<exists>d. receive rise (concat (map lcd_drv_spi_write_byte bs)) r
    = r\<lparr>rx_sda := d, rx_bytes := rx_bytes r @ map (Pair (rx_a0 r)) bs\<rparr>"
  using assms
proof (induction bs arbitrary: r)
  case Nil
  then show ?case by (intro exI [of _ "rx_sda r"]) simp
next
  case (Cons b bs)
  let ?r = "r\<lparr>rx_sda := bit b 0, rx_bytes := rx_bytes r @ [(rx_a0 r, b)]\<rparr>"
  obtain d where "receive rise (concat (map lcd_drv_spi_write_byte bs)) ?r
      = ?r\<lparr>rx_sda := d, rx_bytes := rx_bytes ?r @ map (Pair (rx_a0 ?r)) bs\<rparr>"
    using Cons.IH [of ?r] Cons.prems by auto
  then show ?case using receive_byte [OF Cons.prems, of rise b] by (intro exI [of _ d]) simp
qed

text \<open>What a transfer delivers, from and to an idle interface.\<close>

definition delivers :: "pin_writes \<Rightarrow> (bool \<times> u8) list \<Rightarrow> bool" where
  "delivers ws bs \<longleftrightarrow> (\<forall>rise r. rx_idle r \<longrightarrow>
     rx_idle (receive rise ws r) \<and> rx_bytes (receive rise ws r) = rx_bytes r @ bs)"

lemma delivers_append: "delivers ws bs \<Longrightarrow> delivers vs cs \<Longrightarrow> delivers (ws @ vs) (bs @ cs)"
  by (auto simp: delivers_def)

lemma delivers_Nil [simp]: "delivers [] []"
  by (simp add: delivers_def)

lemma delivers_concat:
  "list_all (\<lambda>x. delivers (f x) (g x)) xs \<Longrightarrow> delivers (concat (map f xs)) (concat (map g xs))"
  by (induction xs) (simp_all add: delivers_append)

lemma delivers_transfer: "delivers (lcd_csn_set True @ lcd_a0_set a @ concat (map lcd_drv_spi_write_byte bs) @ lcd_csn_set False) (map (Pair a) bs)"
  unfolding delivers_def
proof (intro allI impI)
  fix rise r
  assume r: "rx_idle r"
  let ?r = "r\<lparr>rx_csn := False, rx_bits := [], rx_a0 := a\<rparr>"
  obtain d where "receive rise (concat (map lcd_drv_spi_write_byte bs)) ?r
      = ?r\<lparr>rx_sda := d, rx_bytes := rx_bytes ?r @ map (Pair (rx_a0 ?r)) bs\<rparr>"
    using receive_bytes [of ?r rise bs] r by (auto simp: rx_idle_def)
  then show "rx_idle (receive rise (lcd_csn_set True @ lcd_a0_set a @ concat (map lcd_drv_spi_write_byte bs) @ lcd_csn_set False) r)
    \<and> rx_bytes (receive rise (lcd_csn_set True @ lcd_a0_set a @ concat (map lcd_drv_spi_write_byte bs) @ lcd_csn_set False) r)
      = rx_bytes r @ map (Pair a) bs"
    using r by (simp add: lcd_csn_set_def lcd_a0_set_def rx_idle_def)
qed

lemma delivers_cmd: "delivers (lcd_drv_write_cmd c) [(False, c)]"
  using delivers_transfer [of False "[c]"] by (simp add: lcd_drv_write_cmd_def)

lemma delivers_data: "delivers (lcd_drv_write_data_buf buf len) (map (Pair True) (take (unat len) buf))"
  using delivers_transfer [of True "take (unat len) buf"] by (simp add: lcd_drv_write_data_buf_def)

lemma low_nibble: "unat (x AND 0x0F) = unat x mod 16" for x :: u8
proof -
  have "x AND 0x0F = take_bit 4 x" by (simp add: take_bit_eq_mask mask_eq_exp_minus_1)
  then show ?thesis by (simp add: take_bit_eq_mod unat_mod)
qed

lemma nibbles:
  fixes page col :: u8
  shows "unat page < 16 \<Longrightarrow> page AND 0x0F = of_nat (unat page)" "drop_bit 4 col AND 0x0F = of_nat (unat col div 16)"
    "col AND 0x0F = of_nat (unat col mod 16)"
proof -
  have "unat (drop_bit 4 col) = unat col div 16" by (simp add: drop_bit_eq_div unat_div)
  moreover have "unat col div 16 < 16" using unat_lt_u8 [of col] by simp
  ultimately show "unat page < 16 \<Longrightarrow> page AND 0x0F = of_nat (unat page)" "drop_bit 4 col AND 0x0F = of_nat (unat col div 16)"
    "col AND 0x0F = of_nat (unat col mod 16)"
    by (simp_all add: word_unat_eq_iff low_nibble unsigned_of_nat take_bit_nat_eq_self)
qed

lemma delivers_page_col:
  assumes "unat page < 8" "unat col < 132"
  shows "delivers (lcd_drv_set_page_col page col)
    [(False, 0xB0 OR of_nat (unat page)), (False, 0x10 OR of_nat (unat col div 16)), (False, of_nat (unat col mod 16))]"
proof -
  have "lcd_drv_set_page_col page col = lcd_drv_write_cmd (0xB0 OR of_nat (unat page))
      @ lcd_drv_write_cmd (0x10 OR of_nat (unat col div 16)) @ lcd_drv_write_cmd (of_nat (unat col mod 16))"
    using assms nibbles(1) [of page] nibbles(2,3) [of col] by (simp add: lcd_drv_set_page_col_def dvr_const)
  then show ?thesis
    using delivers_append [OF delivers_cmd delivers_append [OF delivers_cmd delivers_cmd]] by simp
qed

section \<open>The controller\<close>

text \<open>
  What the driver relies on of the controller, \<open>ctl (a0, byte)\<close> being its reaction to a byte: the
  page and column commands set the address, a data byte is stored there and the column advances
  within the line.
\<close>

definition st7567 ::
  "(bool \<times> u8 \<Rightarrow> 's \<Rightarrow> 's) \<Rightarrow> ('s \<Rightarrow> nat) \<Rightarrow> ('s \<Rightarrow> nat) \<Rightarrow> ('s \<Rightarrow> nat \<Rightarrow> nat \<Rightarrow> u8) \<Rightarrow> bool" where
  "st7567 ctl page col ram \<longleftrightarrow>
     (\<forall>s p. p < 8 \<longrightarrow> (let s' = ctl (False, 0xB0 OR of_nat p) s in page s' = p \<and> col s' = col s \<and> ram s' = ram s))
   \<and> (\<forall>s h. h < 16 \<longrightarrow> (let s' = ctl (False, 0x10 OR of_nat h) s in
        page s' = page s \<and> col s' = 16 * h + col s mod 16 \<and> ram s' = ram s))
   \<and> (\<forall>s l. l < 16 \<longrightarrow> (let s' = ctl (False, of_nat l) s in
        page s' = page s \<and> col s' = col s div 16 * 16 + l \<and> ram s' = ram s))
   \<and> (\<forall>s b. page s < 8 \<longrightarrow> col s < 132 \<longrightarrow> (let s' = ctl (True, b) s in
        page s' = page s \<and> (col s < 131 \<longrightarrow> col s' = col s + 1)
        \<and> ram s' = (\<lambda>p c. if p = page s \<and> c = col s then b else ram s p c)))"

text \<open>The controller after the pin writes have reached it.\<close>

definition panel_after :: "bool \<Rightarrow> (bool \<times> u8 \<Rightarrow> 's \<Rightarrow> 's) \<Rightarrow> pin_writes \<Rightarrow> spi_rx \<Rightarrow> 's \<Rightarrow> 's" where
  "panel_after rise ctl ws r s = fold ctl (drop (length (rx_bytes r)) (rx_bytes (receive rise ws r))) s"

lemma panel_delivers: "delivers ws bs \<Longrightarrow> rx_idle r \<Longrightarrow> panel_after rise ctl ws r s = fold ctl bs s"
  by (simp add: panel_after_def delivers_def)

lemma st7567_address:
  assumes "st7567 ctl page col ram" "p < 8" "c < 132"
  shows "let s' = fold ctl [(False, 0xB0 OR of_nat p), (False, 0x10 OR of_nat (c div 16)), (False, of_nat (c mod 16))] s
    in page s' = p \<and> col s' = c \<and> ram s' = ram s"
proof -
  have c: "c div 16 < 16" "c mod 16 < 16" using assms(3) by auto
  define s1 where "s1 = ctl (False, 0xB0 OR of_nat p) s"
  define s2 where "s2 = ctl (False, 0x10 OR of_nat (c div 16)) s1"
  define s3 where "s3 = ctl (False, of_nat (c mod 16)) s2"
  have "page s1 = p" "ram s1 = ram s" using assms(1,2) by (simp_all add: st7567_def s1_def Let_def)
  moreover have "page s2 = page s1" "ram s2 = ram s1" "col s2 = 16 * (c div 16) + col s1 mod 16"
    using assms(1) c(1) by (simp_all add: st7567_def s2_def Let_def)
  moreover have "page s3 = page s2" "ram s3 = ram s2" "col s3 = col s2 div 16 * 16 + c mod 16"
    using assms(1) c(2) by (simp_all add: st7567_def s3_def Let_def)
  ultimately show ?thesis by (simp add: s3_def s2_def s1_def)
qed

lemma st7567_line:
  assumes "st7567 ctl page col ram"
  shows "page s < 8 \<Longrightarrow> col s + length bs \<le> 132 \<Longrightarrow>
    page (fold ctl (map (Pair True) bs) s) = page s
    \<and> ram (fold ctl (map (Pair True) bs) s) p c
      = (if p = page s \<and> col s \<le> c \<and> c < col s + length bs then bs ! (c - col s) else ram s p c)"
proof (induction bs arbitrary: s)
  case (Cons b bs)
  let ?s = "ctl (True, b) s"
  have s: "page ?s = page s" "col s < 131 \<Longrightarrow> col ?s = col s + 1"
    "ram ?s = (\<lambda>p c. if p = page s \<and> c = col s then b else ram s p c)"
    using assms Cons.prems by (simp_all add: st7567_def Let_def)
  show ?case
  proof (cases bs)
    case Nil
    then show ?thesis using s by auto
  next
    case (Cons b' bs')
    then have "col ?s = col s + 1" using s(2) Cons.prems by simp
    then show ?thesis using Cons.IH [of ?s] Cons.prems s(1,3) by (auto simp: nth_Cons')
  qed
qed auto

text \<open>A line written at a page and column, as the driver's interface does it.\<close>

lemma delivers_page:
  assumes "unat page < 8" "unat col < 132" "len \<noteq> 0"
  shows "delivers (lcd_drv_write_page page col (Some buf) len)
    ([(False, 0xB0 OR of_nat (unat page)), (False, 0x10 OR of_nat (unat col div 16)), (False, of_nat (unat col mod 16))]
     @ map (Pair True) (take (unat len) buf))"
  using delivers_append [OF delivers_page_col [OF assms(1,2)] delivers_data] assms
  by (simp add: lcd_drv_write_page_def dvr_const)

text \<open>Eight lines, each written to its page, are what the memory holds.\<close>

definition line_bytes :: "nat \<Rightarrow> bytes \<Rightarrow> (bool \<times> u8) list" where
  "line_bytes p line =
     [(False, 0xB0 OR of_nat p), (False, 0x10), (False, 0)] @ map (Pair True) line"

lemma st7567_line_bytes:
  assumes "st7567 ctl page col ram" "p < 8" "length line \<le> 132"
  shows "ram (fold ctl (line_bytes p line) s) q c = (if q = p \<and> c < length line then line ! c else ram s q c)"
proof -
  let ?s = "fold ctl [(False, 0xB0 OR of_nat p), (False, 0x10), (False, 0)] s"
  have "page ?s = p \<and> col ?s = 0 \<and> ram ?s = ram s"
    using st7567_address [OF assms(1,2), of 0 s] by (simp add: Let_def)
  then show ?thesis
    using st7567_line [OF assms(1), of ?s line q c] assms(2,3) by (simp add: line_bytes_def)
qed

lemma st7567_lines:
  assumes "st7567 ctl page col ram" "\<And>p. p < n \<Longrightarrow> length (line p) = 132" "n \<le> 8" "c < 132"
  shows "ram (fold ctl (concat (map (\<lambda>p. line_bytes p (line p)) [0..<n])) s) q c = (if q < n then line q ! c else ram s q c)"
  using assms(2,3)
proof (induction n)
  case (Suc n)
  then show ?case using assms(1,4) by (auto simp: st7567_line_bytes less_Suc_eq)
qed simp

lemma fill_pages_delivers:
  assumes "length line = 132"
  shows "delivers (fill_pages line) (concat (map (\<lambda>p. line_bytes p line) [0..<8]))"
proof -
  have "delivers (lcd_drv_set_page_col (of_nat p) 0 @ lcd_drv_write_data_buf line 132) (line_bytes p line)" if "p < 8" for p
    using delivers_append [OF delivers_page_col [of "of_nat p" 0] delivers_data [of line 132]] that assms
    by (simp add: line_bytes_def unsigned_of_nat take_bit_nat_eq_self)
  then have "list_all (\<lambda>p. delivers (lcd_drv_set_page_col (of_nat p) 0 @ lcd_drv_write_data_buf line 132) (line_bytes p line)) [0..<8]"
    by (simp add: list_all_iff)
  then show ?thesis by (simp add: fill_pages_def dvr_const delivers_concat)
qed

text \<open>After the start the display memory is blank and the display is switched on last.\<close>

definition init_bytes :: "(bool \<times> u8) list" where
  "init_bytes = map (Pair False) [0xA2, 0xA0, 0xC0, 0x40, 0x27, 0x81, 0x28, 0xF8, 0x01, 0x2F, 0xA6, 0xA4]"

lemma init_delivers:
  "delivers lcd_drv_init_seq (init_bytes @ concat (map (\<lambda>p. line_bytes p (replicate 132 0)) [0..<8]) @ [(False, 0xAF)])"
proof -
  let ?w = "lcd_drv_write_cmd"
  have r: "delivers lcd_reset []" by (simp add: delivers_def lcd_reset_def)
  have c: "delivers (concat (map ?w cs)) (map (Pair False) cs)" for cs
    using delivers_concat [of ?w "\<lambda>c. [(False, c)]" cs] by (simp add: list_all_iff delivers_cmd)
  have seq: "lcd_drv_init_seq = lcd_reset @ concat (map ?w [0xA2, 0xA0, 0xC0, 0x40, 0x27, 0x81, 0x28, 0xF8, 0x01, 0x2F, 0xA6, 0xA4])
      @ lcd_clear @ ?w 0xAF"
    by (simp add: lcd_drv_init_seq_def dvr_const)
  have "delivers (lcd_reset @ concat (map ?w cs) @ fill_pages (replicate 132 0) @ ?w 0xAF)
      ([] @ map (Pair False) cs @ concat (map (\<lambda>p. line_bytes p (replicate 132 0)) [0..<8]) @ [(False, 0xAF)])" for cs
    by (intro delivers_append r c fill_pages_delivers delivers_cmd) simp
  then show ?thesis unfolding seq init_bytes_def lcd_clear_def LCD_COLS_def append_Nil .
qed

end
