(* ===== verification/Lcd_Graphics.thy ===== *)
theory Lcd_Graphics
  imports Lcd_Drv
begin

unbundle bit_operations_syntax

text \<open>
  The frame buffer of the display (\<open>src/applications/LCD/lcd_graphics.c\<close>) and the way from the
  buffer of the u8g2 library to the panel (\<open>src/applications/u8g2_port.c\<close>). The buffer of u8g2 and
  its width in tiles are parameters: \<open>u8g2_GetBufferPtr\<close> and \<open>u8g2_GetBufferTileWidth\<close>.
\<close>

section \<open>The frame buffer\<close>

type_synonym frame = "bytes list"

definition LCD_ROWS :: nat where [dvr_const]: "LCD_ROWS = 64"

definition lcd_fb_clear :: "frame" where
  "lcd_fb_clear = replicate LCD_PAGES (replicate LCD_COLS 0)"

definition lcd_fb_set_pixel :: "u8 \<Rightarrow> u8 \<Rightarrow> bool \<Rightarrow> frame \<Rightarrow> frame" where
  "lcd_fb_set_pixel x y on fb =
     (if LCD_COLS \<le> unat x \<or> LCD_ROWS \<le> unat y then fb
      else
        let page = unat (y div 8); bit = unat (7 - y mod 8); line = fb ! page; b = line ! unat x;
            b = (if on then b OR push_bit bit 1 else b AND NOT (push_bit bit 1))
        in fb[page := line[unat x := b]])"

definition lcd_reverse_byte :: "u8 \<Rightarrow> u8" where
  "lcd_reverse_byte v =
     (let v = drop_bit 4 (v AND 0xF0) OR push_bit 4 (v AND 0x0F);
          v = drop_bit 2 (v AND 0xCC) OR push_bit 2 (v AND 0x33)
      in drop_bit 1 (v AND 0xAA) OR push_bit 1 (v AND 0x55))"

definition lcd_fb_flush :: "frame \<Rightarrow> pin_writes" where
  "lcd_fb_flush fb =
     concat (map (\<lambda>page. lcd_drv_write_page (of_nat page) 0 (Some (fb ! page)) (of_nat LCD_COLS)) [0..<LCD_PAGES])"

definition lcd_fb_public_clear :: "frame" where
  "lcd_fb_public_clear = lcd_fb_clear"

definition lcd_fb_public_set_pixel :: "u8 \<Rightarrow> u8 \<Rightarrow> bool \<Rightarrow> frame \<Rightarrow> frame" where
  "lcd_fb_public_set_pixel x y on fb = lcd_fb_set_pixel x y on fb"

definition lcd_fb_public_flush :: "frame \<Rightarrow> pin_writes" where
  "lcd_fb_public_flush fb = lcd_fb_flush fb"

text \<open>The source holds eight lines of \<open>src_stride\<close> bytes, the last at least as long as a line of the panel.\<close>

definition copy_page :: "bytes \<Rightarrow> nat \<Rightarrow> nat \<Rightarrow> frame \<Rightarrow> frame" where
  "copy_page src src_stride src_page fb =
     fb[unat ((of_nat src_page :: u8) XOR 3) := map (\<lambda>x. lcd_reverse_byte (src ! (src_page * src_stride + x))) [0..<LCD_COLS]]"

definition lcd_fb_public_copy_pages :: "bytes option \<Rightarrow> u16 \<Rightarrow> frame \<Rightarrow> frame" where
  "lcd_fb_public_copy_pages src src_stride fb =
     (case src of None \<Rightarrow> fb | Some b \<Rightarrow> fold (copy_page b (unat src_stride)) [0..<LCD_PAGES] fb)"

section \<open>From u8g2 to the panel\<close>

text \<open>The frame buffer afterwards and the pin writes.\<close>

definition u8g2_copy_to_lcd_fb :: "bytes \<Rightarrow> u8 \<Rightarrow> frame \<times> pin_writes" where
  "u8g2_copy_to_lcd_fb buf tile_width =
     (let page_stride = ucast tile_width * 8;
          fb = lcd_fb_public_clear;
          fb = lcd_fb_public_copy_pages (Some buf) page_stride fb
      in (fb, lcd_fb_public_flush fb))"

definition u8g2_port_flush_buffer :: "bytes \<Rightarrow> u8 \<Rightarrow> frame \<times> pin_writes" where
  "u8g2_port_flush_buffer buf tile_width = u8g2_copy_to_lcd_fb buf tile_width"

text \<open>
  The callbacks u8g2 would use to drive the panel itself: the result and the pin writes (the delay
  message only waits). The port registers them but leaves out \<open>u8g2_InitDisplay\<close>, so that nothing calls
  them. The buffer of a send has at least the \<open>arg_int\<close> bytes to send.
\<close>

datatype u8x8_msg =
    U8X8_MSG_BYTE_INIT
  | U8X8_MSG_BYTE_SET_DC
  | U8X8_MSG_BYTE_START_TRANSFER
  | U8X8_MSG_BYTE_END_TRANSFER
  | U8X8_MSG_BYTE_SEND
  | U8X8_MSG_GPIO_AND_DELAY_INIT
  | U8X8_MSG_DELAY_MILLI
  | U8X8_MSG_GPIO_RESET
  | U8X8_MSG_GPIO_DC
  | U8X8_MSG_GPIO_CS
  | U8X8_MSG_OTHER

definition u8x8_byte_st7567_bb :: "u8x8_msg \<Rightarrow> u8 \<Rightarrow> bytes \<Rightarrow> u8 \<times> pin_writes" where
  "u8x8_byte_st7567_bb msg arg_int arg_ptr =
     (case msg of
        U8X8_MSG_BYTE_INIT \<Rightarrow> (1, [])
      | U8X8_MSG_BYTE_SET_DC \<Rightarrow> (1, lcd_a0_set (arg_int \<noteq> 0))
      | U8X8_MSG_BYTE_START_TRANSFER \<Rightarrow> (1, lcd_csn_set True)
      | U8X8_MSG_BYTE_END_TRANSFER \<Rightarrow> (1, lcd_csn_set False)
      | U8X8_MSG_BYTE_SEND \<Rightarrow> (1, concat (map lcd_spi_send_byte (take (unat arg_int) arg_ptr)))
      | _ \<Rightarrow> (0, []))"

definition u8x8_gpio_and_delay_st7567 :: "u8x8_msg \<Rightarrow> u8 \<Rightarrow> u8 \<times> pin_writes" where
  "u8x8_gpio_and_delay_st7567 msg arg_int =
     (case msg of
        U8X8_MSG_GPIO_AND_DELAY_INIT \<Rightarrow> (1, [])
      | U8X8_MSG_DELAY_MILLI \<Rightarrow> (1, [])
      | U8X8_MSG_GPIO_RESET \<Rightarrow> (1, lcd_rst_set (arg_int \<noteq> 0))
      | U8X8_MSG_GPIO_DC \<Rightarrow> (1, lcd_a0_set (arg_int \<noteq> 0))
      | U8X8_MSG_GPIO_CS \<Rightarrow> (1, lcd_csn_set (arg_int \<noteq> 0))
      | _ \<Rightarrow> (0, []))"

section \<open>Facts\<close>

definition frame_ok :: "frame \<Rightarrow> bool" where
  "frame_ok fb \<longleftrightarrow> length fb = 8 \<and> list_all (\<lambda>l. length l = 132) fb"

definition pixel :: "frame \<Rightarrow> nat \<Rightarrow> nat \<Rightarrow> bool" where
  "pixel fb x y = bit (fb ! (y div 8) ! x) (7 - y mod 8)"

lemma reverse_bits:
  assumes "i < 8"
  shows "bit (lcd_reverse_byte v) i = bit v (7 - i)"
proof -
  have "i \<in> {0, 1, 2, 3, 4, 5, 6, 7}" using assms by auto
  then show ?thesis
    unfolding lcd_reverse_byte_def Let_def bit_or_iff bit_and_iff bit_drop_bit_eq bit_push_bit_iff comp_def insert_iff empty_iff
    by (elim disjE FalseE) simp_all
qed

lemma flush_delivers:
  assumes "frame_ok fb"
  shows "delivers (lcd_fb_flush fb) (concat (map (\<lambda>p. line_bytes p (fb ! p)) [0..<8]))"
proof -
  have "delivers (lcd_drv_write_page (of_nat p) 0 (Some (fb ! p)) 132) (line_bytes p (fb ! p))" if "p < 8" for p
    using delivers_page [of "of_nat p" 0 132 "fb ! p"] that assms
    by (simp add: line_bytes_def unsigned_of_nat take_bit_nat_eq_self frame_ok_def list_all_length)
  then have "list_all (\<lambda>p. delivers (lcd_drv_write_page (of_nat p) 0 (Some (fb ! p)) 132) (line_bytes p (fb ! p))) [0..<8]"
    by (simp add: list_all_iff)
  then show ?thesis by (simp add: lcd_fb_flush_def dvr_const delivers_concat)
qed

lemma flush_shows:
  assumes "st7567 ctl page col ram" "frame_ok fb" "rx_idle r" "p < 8" "c < 132"
  shows "ram (panel_after rise ctl (lcd_fb_flush fb) r s) p c = fb ! p ! c"
  using st7567_lines [OF assms(1), of 8 "\<lambda>p. fb ! p" c s p] assms
  by (simp add: panel_delivers [OF flush_delivers [OF assms(2)] assms(3)] frame_ok_def list_all_length)

text \<open>The page remapping exchanges the pages of each half.\<close>

definition swap_page :: "nat \<Rightarrow> nat" where
  "swap_page p = unat ((of_nat p :: u8) XOR 3)"

lemma swap_pages: "map swap_page [0..<8] = [3, 2, 1, 0, 7, 6, 5, 4]"
  by code_simp

lemma swap_page: "p < 8 \<Longrightarrow> swap_page p < 8 \<and> swap_page (swap_page p) = p"
proof -
  have "list_all (\<lambda>p. swap_page p < 8 \<and> swap_page (swap_page p) = p) [0..<8]" by code_simp
  then show "p < 8 \<Longrightarrow> swap_page p < 8 \<and> swap_page (swap_page p) = p" by (simp add: list_all_iff)
qed

lemma fold_swapped:
  assumes "length fb = 8" "p < 8"
  shows "fold (\<lambda>i f. f[swap_page i := g i]) [0..<8] fb ! p = g (swap_page p)"
proof -
  have f: "length (fold (\<lambda>i f. f[swap_page i := g i]) is f) = length f" for "is" and f :: "'a list"
    by (induction "is" arbitrary: f) simp_all
  have "q < length f \<Longrightarrow> fold (\<lambda>i f. f[swap_page i := g i]) [0..<n] f ! q = (if swap_page q < n then g (swap_page q) else f ! q)"
    if "q < 8" "n \<le> 8" for q n and f :: "'a list"
    using that(2)
  proof (induction n)
    case (Suc n)
    then have n: "n < 8" by simp
    show ?case
      using Suc swap_page [OF n] swap_page [OF that(1)] by (cases "q = swap_page n") (auto simp: f less_Suc_eq)
  qed simp
  then show ?thesis using assms swap_page [of p] by simp
qed

lemma copy_page:
  assumes "p < 8" "x < 132"
  shows "lcd_fb_public_copy_pages (Some b) stride lcd_fb_clear ! p ! x = lcd_reverse_byte (b ! (swap_page p * unat stride + x))"
  using fold_swapped [of lcd_fb_clear p "\<lambda>q. map (\<lambda>x. lcd_reverse_byte (b ! (q * unat stride + x))) [0..<132]"] assms
  by (simp add: lcd_fb_public_copy_pages_def copy_page_def [abs_def] swap_page_def [symmetric] lcd_fb_clear_def dvr_const)

lemma copied_frame_ok: "frame_ok fb \<Longrightarrow> frame_ok (lcd_fb_public_copy_pages src stride fb)"
proof -
  have "frame_ok fb \<Longrightarrow> frame_ok (fold (copy_page b st) ps fb)" for b st ps
  proof (induction ps arbitrary: fb)
    case (Cons p ps)
    have "frame_ok (copy_page b st p fb)"
      using Cons.prems by (auto simp: frame_ok_def copy_page_def list_all_iff dvr_const dest!: set_update_subset_insert [THEN subsetD])
    then show ?case using Cons.IH by simp
  qed simp
  then show "frame_ok fb \<Longrightarrow> frame_ok (lcd_fb_public_copy_pages src stride fb)"
    by (simp add: lcd_fb_public_copy_pages_def split: option.split)
qed

text \<open>
  The byte callback is a transport: the messages of a transfer deliver the bytes to the controller,
  as data or as commands. The pin callback inverts the chip select and the reset: the level u8g2 asks
  for is passed as the active state of a low-active line.
\<close>

lemma byte_callback_delivers:
  assumes "dc \<noteq> 0 \<longleftrightarrow> a" "length bs < 256"
  shows "delivers (snd (u8x8_byte_st7567_bb U8X8_MSG_BYTE_START_TRANSFER 0 []) @ snd (u8x8_byte_st7567_bb U8X8_MSG_BYTE_SET_DC dc [])
      @ snd (u8x8_byte_st7567_bb U8X8_MSG_BYTE_SEND (of_nat (length bs)) bs) @ snd (u8x8_byte_st7567_bb U8X8_MSG_BYTE_END_TRANSFER 0 []))
    (map (Pair a) bs)"
proof -
  have "unat (of_nat (length bs) :: u8) = length bs" using assms(2) by (simp add: unsigned_of_nat take_bit_nat_eq_self)
  then show ?thesis
    using delivers_transfer [of a bs] assms(1) by (simp add: u8x8_byte_st7567_bb_def lcd_spi_send_byte_def [abs_def])
qed

lemma pin_callback_inverts:
  "snd (u8x8_gpio_and_delay_st7567 U8X8_MSG_GPIO_RESET level) = [(LCD_RSTB_PIN, level = 0)]"
  "snd (u8x8_gpio_and_delay_st7567 U8X8_MSG_GPIO_CS level) = [(LCD_CSN_PIN, level = 0)]"
  by (simp_all add: u8x8_gpio_and_delay_st7567_def lcd_rst_set_def lcd_csn_set_def)

section \<open>Properties\<close>

text \<open>
  C27: what the graphics library has drawn reaches the panel: after a flush, whichever clock edge the
  controller samples at, row \<open>y\<close> of column \<open>x\<close> of the library's buffer is the bit of the controller's
  memory the panel's wiring asks for (pages exchanged within each half, bits reversed), for every
  pixel of the panel.
\<close>

theorem frame_reaches_panel:
  assumes "st7567 ctl page col ram" "rx_idle r" "x < 132" "y < 64"
  shows "bit (ram (panel_after rise ctl (snd (u8g2_port_flush_buffer buf tw)) r s) (swap_page (y div 8)) x) (7 - y mod 8)
    \<longleftrightarrow> bit (buf ! (y div 8 * unat (ucast tw * 8 :: u16) + x)) (y mod 8)"
proof -
  let ?fb = "lcd_fb_public_copy_pages (Some buf) (ucast tw * 8) lcd_fb_clear"
  have f: "frame_ok ?fb" by (rule copied_frame_ok) (simp add: frame_ok_def lcd_fb_clear_def list_all_length dvr_const)
  have p: "swap_page (y div 8) < 8" "swap_page (swap_page (y div 8)) = y div 8" using swap_page [of "y div 8"] assms(4) by auto
  have "ram (panel_after rise ctl (snd (u8g2_port_flush_buffer buf tw)) r s) (swap_page (y div 8)) x = ?fb ! swap_page (y div 8) ! x"
    using flush_shows [OF assms(1) f assms(2) p(1) assms(3)]
    by (simp add: u8g2_port_flush_buffer_def u8g2_copy_to_lcd_fb_def lcd_fb_public_flush_def lcd_fb_public_clear_def Let_def)
  then show ?thesis using copy_page [OF p(1) assms(3)] p(2) by (simp add: reverse_bits)
qed

text \<open>A controller with the assumed behaviour.\<close>

record st_panel =
  sp_page :: nat
  sp_col :: nat
  sp_ram :: "nat \<Rightarrow> nat \<Rightarrow> u8"

definition st_panel_ctl :: "bool \<times> u8 \<Rightarrow> st_panel \<Rightarrow> st_panel" where
  "st_panel_ctl x s =
     (let (a0, b) = x; n = unat (b AND 0x0F) in
      if a0 then s\<lparr>sp_ram := (\<lambda>p c. if p = sp_page s \<and> c = sp_col s then b else sp_ram s p c),
                   sp_col := if sp_col s < 131 then sp_col s + 1 else sp_col s\<rparr>
      else if drop_bit 4 b = 0xB then s\<lparr>sp_page := n\<rparr>
      else if drop_bit 4 b = 1 then s\<lparr>sp_col := 16 * n + sp_col s mod 16\<rparr>
      else if drop_bit 4 b = 0 then s\<lparr>sp_col := sp_col s div 16 * 16 + n\<rparr> else s)"

lemma st_panel_ctl: "st7567 st_panel_ctl sp_page sp_col sp_ram"
proof -
  have "list_all (\<lambda>n. drop_bit 4 (0xB0 OR of_nat n :: u8) = 0xB \<and> unat ((0xB0 OR of_nat n :: u8) AND 0x0F) = n
      \<and> drop_bit 4 (0x10 OR of_nat n :: u8) = 1 \<and> unat ((0x10 OR of_nat n :: u8) AND 0x0F) = n
      \<and> drop_bit 4 (of_nat n :: u8) = 0 \<and> unat ((of_nat n :: u8) AND 0x0F) = n) [0..<16]"
    by code_simp
  then have "drop_bit 4 (0xB0 OR of_nat n :: u8) = 0xB" "unat ((0xB0 OR of_nat n :: u8) AND 0x0F) = n"
    "drop_bit 4 (0x10 OR of_nat n :: u8) = 1" "unat ((0x10 OR of_nat n :: u8) AND 0x0F) = n"
    "drop_bit 4 (of_nat n :: u8) = 0" "unat ((of_nat n :: u8) AND 0x0F) = n" if "n < 16" for n
    using that by (simp_all add: list_all_iff)
  then show ?thesis by (simp add: st7567_def st_panel_ctl_def Let_def)
qed

definition spi_rx_idle :: spi_rx where
  "spi_rx_idle = \<lparr>rx_sck = True, rx_sda = False, rx_csn = True, rx_a0 = True, rx_bits = [], rx_bytes = []\<rparr>"

theorem frame_reaches_panel_witness:
  "\<not> bit (sp_ram (panel_after True st_panel_ctl (snd (u8g2_port_flush_buffer ((replicate 1088 0)[141 := 0x40]) 17)) spi_rx_idle
      \<lparr>sp_page = 0, sp_col = 0, sp_ram = (\<lambda>_ _. 0xFF)\<rparr>) 2 5) 0
   \<and> bit (sp_ram (panel_after True st_panel_ctl (snd (u8g2_port_flush_buffer ((replicate 1088 0)[141 := 0x40]) 17)) spi_rx_idle
      \<lparr>sp_page = 0, sp_col = 0, sp_ram = (\<lambda>_ _. 0xFF)\<rparr>) 2 5) 1"
proof -
  have s: "swap_page (Suc 0) = 2" by code_simp
  have "rx_idle spi_rx_idle" by (simp add: rx_idle_def spi_rx_idle_def)
  note p = frame_reaches_panel [OF st_panel_ctl this, of 5 _ True "(replicate 1088 0)[141 := 0x40]" 17]
  show ?thesis using p [of 15] p [of 14] by (simp add: s)
qed

text \<open>
  Setting a pixel sets exactly that pixel of the frame buffer and no other; outside the panel
  nothing is written.
\<close>

lemma set_pixel_correct:
  assumes "frame_ok fb" "x' < 132" "y' < 64"
  shows "frame_ok (lcd_fb_set_pixel x y on fb)
    \<and> pixel (lcd_fb_set_pixel x y on fb) x' y' = (if x' = unat x \<and> y' = unat y then on else pixel fb x' y')"
proof -
  have y: "unat (y div 8) = unat y div 8" "unat (7 - y mod 8) = 7 - unat y mod 8"
    by (simp_all add: unat_div unat_mod unat_sub_if' word_le_nat_alt)
  have j: "7 - y' mod 8 = 7 - unat y mod 8 \<longleftrightarrow> y' mod 8 = unat y mod 8" by arith
  have e: "y' = unat y \<longleftrightarrow> y' div 8 = unat y div 8 \<and> y' mod 8 = unat y mod 8" by (metis div_mult_mod_eq)
  have w: "7 - y' mod 8 < 8" by arith
  show ?thesis
  proof (cases "unat x < 132 \<and> unat y < 64")
    case False
    then show ?thesis using assms by (auto simp: lcd_fb_set_pixel_def dvr_const)
  next
    case True
    define b where "b = (if on then fb ! (unat y div 8) ! unat x OR push_bit (7 - unat y mod 8) 1
      else fb ! (unat y div 8) ! unat x AND NOT (push_bit (7 - unat y mod 8) 1))"
    have s: "lcd_fb_set_pixel x y on fb = fb[unat y div 8 := (fb ! (unat y div 8))[unat x := b]]"
      using True by (simp add: lcd_fb_set_pixel_def dvr_const Let_def y b_def)
    have l: "length (fb ! (unat y div 8)) = 132" "unat y div 8 < length fb"
      using assms(1) True by (auto simp: frame_ok_def list_all_length)
    have "bit b (7 - y' mod 8) = (if y' mod 8 = unat y mod 8 then on else bit (fb ! (unat y div 8) ! unat x) (7 - y' mod 8))"
      using w j by (auto simp: b_def bit_simps)
    then have "pixel (lcd_fb_set_pixel x y on fb) x' y' = (if x' = unat x \<and> y' = unat y then on else pixel fb x' y')"
      using l True assms(2) e by (auto simp: s pixel_def nth_list_update split: if_splits)
    moreover have "frame_ok (lcd_fb_set_pixel x y on fb)"
      unfolding s using assms(1) l(1)
      by (auto simp: frame_ok_def list_all_iff dest!: set_update_subset_insert [THEN subsetD])
    ultimately show ?thesis by blast
  qed
qed

end
