(* ===== verification/Svc_Adc.thy ===== *)
theory Svc_Adc
  imports Dvr_Prelude
begin

unbundle bit_operations_syntax

text \<open>
  The ADC service (\<open>src/applications/svc_adc.c\<close>): conversion of raw samples to
  millivolts, decoding of the key ladder, the key debouncer with its one-shot events, and the
  sampling loop. The ADC driver and the converter behind it are the record \<open>adc_dev\<close>:
  what \<open>rt_adc_read\<close>, \<open>rt_adc_voltage\<close> and \<open>rt_adc_enable\<close> return for a channel
  during one pass of the loop.
\<close>

section \<open>Data\<close>

record app_adc_snapshot =
  raw_bat24 :: u32
  raw_li_bat :: u32
  raw_super_c :: u32
  raw_key :: u32
  est_bat24_mv :: u32
  est_li_bat_mv :: u32
  est_super_c_mv :: u32
  mv_bat24 :: u16
  mv_li_bat :: u16
  mv_super_c :: u16
  mv_key :: u16

datatype adc_key = ADC_KEY_NONE | ADC_KEY_S1 | ADC_KEY_S2 | ADC_KEY_S3 | ADC_KEY_S4

record adc_state =
  g_adc_snapshot :: app_adc_snapshot
  g_adc_key_last :: adc_key
  g_adc_key_candidate :: adc_key
  g_adc_key_confirm :: u8
  g_adc_s1_event :: bool
  g_adc_s2_event :: bool
  g_adc_s3_event :: bool
  g_adc_s4_event :: bool

record adc_dev =
  rt_adc_read :: "nat \<Rightarrow> u32"
  rt_adc_voltage :: "nat \<Rightarrow> u16"
  rt_adc_enable :: "nat \<Rightarrow> rt_err"

definition APP_ADC_CH_BAT_24V :: nat where [dvr_const]: "APP_ADC_CH_BAT_24V = 2"
definition APP_ADC_CH_LI_BAT_4V2 :: nat where [dvr_const]: "APP_ADC_CH_LI_BAT_4V2 = 3"
definition APP_ADC_CH_SUPER_C_5V :: nat where [dvr_const]: "APP_ADC_CH_SUPER_C_5V = 4"
definition APP_ADC_CH_KEY :: nat where [dvr_const]: "APP_ADC_CH_KEY = 11"
definition APP_ADC_FULL_SCALE :: u64 where [dvr_const]: "APP_ADC_FULL_SCALE = 65535"
definition APP_ADC_VREF_MV :: u64 where [dvr_const]: "APP_ADC_VREF_MV = 3300"
definition APP_ADC_BAT24_DIV_UP_KOHM :: u32 where [dvr_const]: "APP_ADC_BAT24_DIV_UP_KOHM = 1000"
definition APP_ADC_BAT24_DIV_DOWN_KOHM :: u32 where [dvr_const]: "APP_ADC_BAT24_DIV_DOWN_KOHM = 91"
definition APP_ADC_LI_BAT_DIV_UP_KOHM :: u32 where [dvr_const]: "APP_ADC_LI_BAT_DIV_UP_KOHM = 91"
definition APP_ADC_LI_BAT_DIV_DOWN_KOHM :: u32 where [dvr_const]: "APP_ADC_LI_BAT_DIV_DOWN_KOHM = 91"

section \<open>Conversion\<close>

definition svc_adc_raw_to_pin_mv :: "u32 \<Rightarrow> u32" where
  "svc_adc_raw_to_pin_mv raw =
     (let pin_mv = (ucast raw :: u64) * APP_ADC_VREF_MV;
          pin_mv = pin_mv div APP_ADC_FULL_SCALE
      in ucast pin_mv)"

text \<open>The sum of the divider resistances is formed at 32 bits before it is widened.\<close>

definition svc_adc_estimate_input_mv :: "u32 \<Rightarrow> u32 \<Rightarrow> u32 \<Rightarrow> u32" where
  "svc_adc_estimate_input_mv raw divider_up_kohm divider_down_kohm =
     (let pin_mv = svc_adc_raw_to_pin_mv raw;
          input_mv = (ucast pin_mv :: u64) * ucast (divider_up_kohm + divider_down_kohm);
          input_mv = input_mv div ucast divider_down_kohm
      in ucast input_mv)"

section \<open>Keys\<close>

definition decode_key_raw :: "u32 \<Rightarrow> adc_key" where
  "decode_key_raw raw =
     (if raw \<le> 200 then ADC_KEY_S1
      else if 17000 \<le> raw \<and> raw \<le> 20000 then ADC_KEY_S2
      else if 28000 \<le> raw \<and> raw \<le> 31000 then ADC_KEY_S3
      else if 46000 \<le> raw \<and> raw \<le> 50000 then ADC_KEY_S4
      else ADC_KEY_NONE)"

definition svc_adc_decode_key :: "adc_state \<Rightarrow> adc_key" where
  "svc_adc_decode_key st = decode_key_raw (raw_key (g_adc_snapshot st))"

definition raise_key_event :: "adc_key \<Rightarrow> adc_state \<Rightarrow> adc_state" where
  "raise_key_event key_now st =
     (if key_now = ADC_KEY_S1 then st\<lparr>g_adc_s1_event := True\<rparr>
      else if key_now = ADC_KEY_S2 then st\<lparr>g_adc_s2_event := True\<rparr>
      else if key_now = ADC_KEY_S3 then st\<lparr>g_adc_s3_event := True\<rparr>
      else if key_now = ADC_KEY_S4 then st\<lparr>g_adc_s4_event := True\<rparr>
      else st)"

definition svc_adc_update_key_events :: "adc_state \<Rightarrow> adc_state" where
  "svc_adc_update_key_events st =
     (let key_now = svc_adc_decode_key st in
      if key_now = g_adc_key_candidate st then
        (let st = (if g_adc_key_confirm st < 2
                   then st\<lparr>g_adc_key_confirm := g_adc_key_confirm st + 1\<rparr> else st)
         in if 1 \<le> g_adc_key_confirm st \<and> key_now \<noteq> g_adc_key_last st
            then raise_key_event key_now (st\<lparr>g_adc_key_last := key_now\<rparr>)
            else st)
      else st\<lparr>g_adc_key_candidate := key_now, g_adc_key_confirm := 0\<rparr>)"

definition svc_adc_sample_snapshot :: "adc_dev \<Rightarrow> app_adc_snapshot" where
  "svc_adc_sample_snapshot d =
     (let b = rt_adc_read d APP_ADC_CH_BAT_24V;
          l = rt_adc_read d APP_ADC_CH_LI_BAT_4V2;
          s = rt_adc_read d APP_ADC_CH_SUPER_C_5V;
          k = rt_adc_read d APP_ADC_CH_KEY
      in \<lparr>raw_bat24 = b, raw_li_bat = l, raw_super_c = s, raw_key = k,
          est_bat24_mv = svc_adc_estimate_input_mv b APP_ADC_BAT24_DIV_UP_KOHM APP_ADC_BAT24_DIV_DOWN_KOHM,
          est_li_bat_mv = svc_adc_estimate_input_mv l APP_ADC_LI_BAT_DIV_UP_KOHM APP_ADC_LI_BAT_DIV_DOWN_KOHM,
          est_super_c_mv = svc_adc_raw_to_pin_mv s,
          mv_bat24 = rt_adc_voltage d APP_ADC_CH_BAT_24V,
          mv_li_bat = rt_adc_voltage d APP_ADC_CH_LI_BAT_4V2,
          mv_super_c = rt_adc_voltage d APP_ADC_CH_SUPER_C_5V,
          mv_key = rt_adc_voltage d APP_ADC_CH_KEY\<rparr>)"

definition svc_adc_sample_update :: "adc_dev \<Rightarrow> adc_state \<Rightarrow> adc_state" where
  "svc_adc_sample_update d st =
     svc_adc_update_key_events (st\<lparr>g_adc_snapshot := svc_adc_sample_snapshot d\<rparr>)"

definition svc_adc_channel_enable :: "adc_dev \<Rightarrow> rt_err" where
  "svc_adc_channel_enable d =
     (if rt_adc_enable d APP_ADC_CH_BAT_24V \<noteq> RT_EOK then RT_ERROR
      else if rt_adc_enable d APP_ADC_CH_LI_BAT_4V2 \<noteq> RT_EOK then RT_ERROR
      else if rt_adc_enable d APP_ADC_CH_SUPER_C_5V \<noteq> RT_EOK then RT_ERROR
      else if rt_adc_enable d APP_ADC_CH_KEY \<noteq> RT_EOK then RT_ERROR
      else RT_EOK)"

text \<open>
  The thread: it gives up when the device or a channel is missing, and samples for ever
  otherwise; \<open>passes\<close> holds what the converter returns in the passes run so far.
\<close>

definition svc_adc_thread_entry :: "adc_dev option \<Rightarrow> adc_dev list \<Rightarrow> adc_state \<Rightarrow> adc_state" where
  "svc_adc_thread_entry found passes st =
     (case found of
        None \<Rightarrow> st
      | Some adc_dev \<Rightarrow>
          if svc_adc_channel_enable adc_dev \<noteq> RT_EOK then st
          else fold svc_adc_sample_update passes st)"

definition svc_adc_init :: "adc_state" where
  "svc_adc_init =
     \<lparr>g_adc_snapshot =
        \<lparr>raw_bat24 = 0, raw_li_bat = 0, raw_super_c = 0, raw_key = 0,
         est_bat24_mv = 0, est_li_bat_mv = 0, est_super_c_mv = 0,
         mv_bat24 = 0, mv_li_bat = 0, mv_super_c = 0, mv_key = 0\<rparr>,
      g_adc_key_last = ADC_KEY_NONE, g_adc_key_candidate = ADC_KEY_NONE,
      g_adc_key_confirm = 0, g_adc_s1_event = False, g_adc_s2_event = False,
      g_adc_s3_event = False, g_adc_s4_event = False\<rparr>"

definition svc_adc_get_snapshot :: "adc_state \<Rightarrow> app_adc_snapshot" where
  "svc_adc_get_snapshot st = g_adc_snapshot st"

definition svc_adc_is_any_key_pressed :: "adc_state \<Rightarrow> bool" where
  "svc_adc_is_any_key_pressed st = (g_adc_key_last st \<noteq> ADC_KEY_NONE)"

definition svc_adc_consume_s1_event :: "adc_state \<Rightarrow> bool \<times> adc_state" where
  "svc_adc_consume_s1_event st = (g_adc_s1_event st, st\<lparr>g_adc_s1_event := False\<rparr>)"

definition svc_adc_consume_s2_event :: "adc_state \<Rightarrow> bool \<times> adc_state" where
  "svc_adc_consume_s2_event st = (g_adc_s2_event st, st\<lparr>g_adc_s2_event := False\<rparr>)"

definition svc_adc_consume_s3_event :: "adc_state \<Rightarrow> bool \<times> adc_state" where
  "svc_adc_consume_s3_event st = (g_adc_s3_event st, st\<lparr>g_adc_s3_event := False\<rparr>)"

definition svc_adc_consume_s4_event :: "adc_state \<Rightarrow> bool \<times> adc_state" where
  "svc_adc_consume_s4_event st = (g_adc_s4_event st, st\<lparr>g_adc_s4_event := False\<rparr>)"

section \<open>Conversion facts\<close>

lemma raw_to_pin_mv_nat:
  "unat (svc_adc_raw_to_pin_mv raw) = unat raw * 3300 div 65535"
proof -
  have lt: "unat raw < 4294967296" by (rule unat_lt_u32)
  have m: "unat ((ucast raw :: u64) * 3300) = unat raw * 3300"
    using lt by (simp add: unat_word_ariths unsigned_ucast_eq take_bit_nat_eq_self)
  have d: "unat ((ucast raw :: u64) * 3300 div 65535) = unat raw * 3300 div 65535"
    by (simp add: unat_div m)
  have "unat raw * 3300 div 65535 < 4294967296"
    using lt by (simp add: div_less_iff_less_mult)
  then show ?thesis
    by (simp add: svc_adc_raw_to_pin_mv_def dvr_const Let_def unsigned_ucast_eq d take_bit_nat_eq_self)
qed

lemma estimate_input_mv_nat:
  assumes d: "0 < unat down" and sum: "unat up + unat down < 4294967296"
    and fit: "unat (svc_adc_raw_to_pin_mv raw) * (unat up + unat down) div unat down < 4294967296"
  shows "unat (svc_adc_estimate_input_mv raw up down) =
    (unat raw * 3300 div 65535) * (unat up + unat down) div unat down"
proof -
  let ?p = "svc_adc_raw_to_pin_mv raw"
  have s: "unat (up + down) = unat up + unat down"
    using sum by (simp add: unat_word_ariths)
  have "unat ?p * (unat up + unat down) < 4294967296 * 4294967296"
    using unat_lt_u32 [of ?p] sum by (intro mult_strict_mono) auto
  then have m: "unat ((ucast ?p :: u64) * ucast (up + down)) = unat ?p * (unat up + unat down)"
    by (simp add: unat_word_ariths(2) s)
  have "unat ((ucast ?p :: u64) * ucast (up + down) div ucast down)
      = unat ?p * (unat up + unat down) div unat down"
    by (simp only: unat_div m unat_ucast_simps)
  then show ?thesis
    using fit by (simp add: svc_adc_estimate_input_mv_def Let_def unsigned_ucast_eq
        take_bit_nat_eq_self raw_to_pin_mv_nat)
qed

lemma pin_mv_bound: "unat (svc_adc_raw_to_pin_mv raw) \<le> 216272100"
proof -
  have "unat raw * 3300 \<le> 4294967295 * 3300"
    using unat_lt_u32 [of raw] by simp
  then show ?thesis
    unfolding raw_to_pin_mv_nat using div_le_mono [of "unat raw * 3300" "4294967295 * 3300" 65535]
    by simp
qed

lemma est_bat24_nat:
  "unat (svc_adc_estimate_input_mv raw APP_ADC_BAT24_DIV_UP_KOHM APP_ADC_BAT24_DIV_DOWN_KOHM)
     = (unat raw * 3300 div 65535) * 1091 div 91"
  using estimate_input_mv_nat [of APP_ADC_BAT24_DIV_DOWN_KOHM APP_ADC_BAT24_DIV_UP_KOHM raw]
    pin_mv_bound [of raw] by (simp add: dvr_const)

lemma est_li_bat_nat:
  "unat (svc_adc_estimate_input_mv raw APP_ADC_LI_BAT_DIV_UP_KOHM APP_ADC_LI_BAT_DIV_DOWN_KOHM)
     = (unat raw * 3300 div 65535) * 2"
  using estimate_input_mv_nat [of APP_ADC_LI_BAT_DIV_DOWN_KOHM APP_ADC_LI_BAT_DIV_UP_KOHM raw]
    pin_mv_bound [of raw] by (simp add: dvr_const)

section \<open>The debouncer against its specification\<close>

text \<open>
  What the debouncer is meant to compute: the key that was last seen in two consecutive
  samples (no key before the first sample), and an event for every change of that value to a
  key.
\<close>

definition settled :: "adc_key list \<Rightarrow> adc_key" where
  "settled ks = last (ADC_KEY_NONE # map snd (filter (\<lambda>(a, b). a = b) (zip (ADC_KEY_NONE # ks) ks)))"

definition pressed_at :: "adc_key list \<Rightarrow> adc_key \<Rightarrow> nat \<Rightarrow> bool" where
  "pressed_at ks k n \<longleftrightarrow> settled (take n ks) \<noteq> k \<and> settled (take (Suc n) ks) = k"

fun key_event :: "adc_key \<Rightarrow> adc_state \<Rightarrow> bool" where
  "key_event ADC_KEY_NONE st = False"
| "key_event ADC_KEY_S1 st = g_adc_s1_event st"
| "key_event ADC_KEY_S2 st = g_adc_s2_event st"
| "key_event ADC_KEY_S3 st = g_adc_s3_event st"
| "key_event ADC_KEY_S4 st = g_adc_s4_event st"

definition key_sample :: "adc_dev \<Rightarrow> adc_key" where
  "key_sample d = decode_key_raw (rt_adc_read d APP_ADC_CH_KEY)"

lemma zip_shift_snoc: "zip (a # ks @ [k]) (ks @ [k]) = zip (a # ks) ks @ [(last (a # ks), k)]"
proof (induction ks arbitrary: a)
  case (Cons b ks)
  then show ?case by (simp del: last.simps) (simp add: last_ConsR)
qed simp

lemma settled_snoc: "settled (ks @ [k]) = (if last (ADC_KEY_NONE # ks) = k then k else settled ks)"
  unfolding settled_def zip_shift_snoc by simp

lemma settled_Nil [simp]: "settled [] = ADC_KEY_NONE"
  by (simp add: settled_def)

text \<open>The confirmation counter is at least one whenever two samples in a row agree.\<close>

lemma confirm_ge_1:
  fixes c :: u8
  shows "c < 2 \<Longrightarrow> 1 \<le> c + 1" "\<not> c < 2 \<Longrightarrow> 1 \<le> c"
proof -
  show "1 \<le> c + 1" if "c < 2"
  proof -
    have "unat c < 2" using that by (simp add: word_less_nat_alt)
    then have "unat (c + 1) = unat c + 1" by (simp add: unat_word_ariths)
    then show ?thesis by (simp add: word_le_nat_alt)
  qed
  show "\<not> c < 2 \<Longrightarrow> 1 \<le> c" by (simp add: word_le_nat_alt word_less_nat_alt)
qed

lemma update_key_events_last:
  "g_adc_key_last (svc_adc_update_key_events st) =
     (if svc_adc_decode_key st = g_adc_key_candidate st then svc_adc_decode_key st
      else g_adc_key_last st)"
  "g_adc_key_candidate (svc_adc_update_key_events st) = svc_adc_decode_key st"
  using confirm_ge_1 [of "g_adc_key_confirm st"]
  by (auto simp: svc_adc_update_key_events_def Let_def raise_key_event_def)

lemma update_key_events_event:
  "k \<noteq> ADC_KEY_NONE \<Longrightarrow> key_event k (svc_adc_update_key_events st) \<longleftrightarrow>
     key_event k st \<or> g_adc_key_last st \<noteq> k \<and> g_adc_key_last (svc_adc_update_key_events st) = k"
  using confirm_ge_1 [of "g_adc_key_confirm st"]
  by (cases k; cases "g_adc_key_last st";
      auto simp: svc_adc_update_key_events_def Let_def raise_key_event_def)

lemma sample_update_key:
  "g_adc_key_last (svc_adc_sample_update d st) =
     (if key_sample d = g_adc_key_candidate st then key_sample d else g_adc_key_last st)"
  "g_adc_key_candidate (svc_adc_sample_update d st) = key_sample d"
  by (simp_all add: svc_adc_sample_update_def update_key_events_last svc_adc_decode_key_def
      svc_adc_sample_snapshot_def key_sample_def Let_def)

lemma key_event_snapshot [simp]: "key_event k (st\<lparr>g_adc_snapshot := s\<rparr>) = key_event k st"
  by (cases k) simp_all

lemma sample_update_event:
  "k \<noteq> ADC_KEY_NONE \<Longrightarrow> key_event k (svc_adc_sample_update d st) \<longleftrightarrow>
     key_event k st \<or> g_adc_key_last st \<noteq> k \<and> g_adc_key_last (svc_adc_sample_update d st) = k"
  by (simp add: svc_adc_sample_update_def update_key_events_event)

lemma debounce_state:
  "g_adc_key_last (fold svc_adc_sample_update ds svc_adc_init) = settled (map key_sample ds)
   \<and> g_adc_key_candidate (fold svc_adc_sample_update ds svc_adc_init)
       = last (ADC_KEY_NONE # map key_sample ds)"
proof (induction ds rule: rev_induct)
  case Nil
  then show ?case by (simp add: svc_adc_init_def)
next
  case (snoc d ds)
  then show ?case by (auto simp: sample_update_key settled_snoc last_map)
qed

lemma key_event_init [simp]: "\<not> key_event k svc_adc_init"
  by (cases k) (simp_all add: svc_adc_init_def)

lemma less_Suc_ex: "(\<exists>n < Suc m. P n) \<longleftrightarrow> (\<exists>n < m. P n) \<or> P m"
  by (auto simp: less_Suc_eq)

lemma pressed_at_snoc: "n < length ks \<Longrightarrow> pressed_at (ks @ [k]) j n = pressed_at ks j n"
  by (simp add: pressed_at_def)

lemma debounce_events:
  assumes "k \<noteq> ADC_KEY_NONE"
  shows "key_event k (fold svc_adc_sample_update ds svc_adc_init)
    \<longleftrightarrow> (\<exists>n < length ds. pressed_at (map key_sample ds) k n)"
proof (induction ds rule: rev_induct)
  case (snoc d ds)
  let ?st = "fold svc_adc_sample_update ds svc_adc_init"
  have l: "g_adc_key_last (svc_adc_sample_update d ?st) = settled (map key_sample (ds @ [d]))"
    using debounce_state [of "ds @ [d]"] by simp
  have "key_event k (fold svc_adc_sample_update (ds @ [d]) svc_adc_init)
    \<longleftrightarrow> (\<exists>n < length ds. pressed_at (map key_sample ds) k n)
      \<or> pressed_at (map key_sample (ds @ [d])) k (length ds)"
    using snoc assms debounce_state [of ds]
    by (simp add: sample_update_event l pressed_at_def)
  then show ?case by (auto simp: less_Suc_ex pressed_at_snoc less_Suc_eq)
qed simp

section \<open>One-shot events\<close>

text \<open>
  The contract of the four consumer functions: they report a flag once, clear it, and leave
  the other flags and the debouncer alone.
\<close>

locale one_shot_event =
  fixes key :: adc_key and consume :: "adc_state \<Rightarrow> bool \<times> adc_state"
  assumes reports: "fst (consume st) = key_event key st"
    and clears: "\<not> key_event key (snd (consume st))"
    and keeps: "k \<noteq> key \<Longrightarrow> key_event k (snd (consume st)) = key_event k st"
    and keeps_last: "g_adc_key_last (snd (consume st)) = g_adc_key_last st"
    and keeps_candidate: "g_adc_key_candidate (snd (consume st)) = g_adc_key_candidate st"
    and a_key: "key \<noteq> ADC_KEY_NONE"
begin

lemma consume_twice: "\<not> fst (consume (snd (consume st)))"
  by (simp add: reports clears)

lemma held_state:
  assumes "g_adc_key_last st = key" "g_adc_key_candidate st = key"
    "\<And>d. d \<in> set ds \<Longrightarrow> key_sample d = key"
  shows "g_adc_key_last (fold svc_adc_sample_update ds st) = key
    \<and> g_adc_key_candidate (fold svc_adc_sample_update ds st) = key
    \<and> key_event key (fold svc_adc_sample_update ds st) = key_event key st"
  using assms
proof (induction ds arbitrary: st)
  case (Cons d ds)
  let ?st = "svc_adc_sample_update d st"
  have "key_sample d = key" using Cons.prems(3) by simp
  then have "g_adc_key_last ?st = key" "g_adc_key_candidate ?st = key"
      "key_event key ?st = key_event key st"
    using Cons.prems a_key by (simp_all add: sample_update_key sample_update_event)
  then show ?case using Cons.IH [of ?st] Cons.prems(3) by simp
qed simp

lemma held_no_repeat:
  assumes "g_adc_key_last st = key" "g_adc_key_candidate st = key"
    "\<And>d. d \<in> set ds \<Longrightarrow> key_sample d = key"
  shows "\<not> fst (consume (fold svc_adc_sample_update ds (snd (consume st))))"
  using held_state [of "snd (consume st)" ds] assms
  by (simp add: reports clears keeps_last keeps_candidate)

end

interpretation s1: one_shot_event ADC_KEY_S1 svc_adc_consume_s1_event
proof
  show "k \<noteq> ADC_KEY_S1 \<Longrightarrow> key_event k (snd (svc_adc_consume_s1_event st)) = key_event k st" for k st
    by (cases k) (simp_all add: svc_adc_consume_s1_event_def)
qed (simp_all add: svc_adc_consume_s1_event_def)

interpretation s2: one_shot_event ADC_KEY_S2 svc_adc_consume_s2_event
proof
  show "k \<noteq> ADC_KEY_S2 \<Longrightarrow> key_event k (snd (svc_adc_consume_s2_event st)) = key_event k st" for k st
    by (cases k) (simp_all add: svc_adc_consume_s2_event_def)
qed (simp_all add: svc_adc_consume_s2_event_def)

interpretation s3: one_shot_event ADC_KEY_S3 svc_adc_consume_s3_event
proof
  show "k \<noteq> ADC_KEY_S3 \<Longrightarrow> key_event k (snd (svc_adc_consume_s3_event st)) = key_event k st" for k st
    by (cases k) (simp_all add: svc_adc_consume_s3_event_def)
qed (simp_all add: svc_adc_consume_s3_event_def)

interpretation s4: one_shot_event ADC_KEY_S4 svc_adc_consume_s4_event
proof
  show "k \<noteq> ADC_KEY_S4 \<Longrightarrow> key_event k (snd (svc_adc_consume_s4_event st)) = key_event k st" for k st
    by (cases k) (simp_all add: svc_adc_consume_s4_event_def)
qed (simp_all add: svc_adc_consume_s4_event_def)

section \<open>Properties\<close>

lemma sample_update_snapshot:
  "g_adc_snapshot (svc_adc_sample_update d st) = svc_adc_sample_snapshot d"
  by (simp add: svc_adc_sample_update_def svc_adc_update_key_events_def Let_def raise_key_event_def)

text \<open>
  C38: after any number of samples from the initial state, the confirmed key is the one
  last seen in two consecutive samples, and the event flag of a key is set exactly when the
  confirmed value changed to that key at some sample.
\<close>

theorem adc_debounce_spec:
  "g_adc_key_last (fold svc_adc_sample_update ds svc_adc_init) = settled (map key_sample ds)
   \<and> (\<forall>k. key_event k (fold svc_adc_sample_update ds svc_adc_init)
        = (k \<noteq> ADC_KEY_NONE \<and> (\<exists>n < length ds. pressed_at (map key_sample ds) k n)))"
proof (intro conjI allI)
  show "g_adc_key_last (fold svc_adc_sample_update ds svc_adc_init) = settled (map key_sample ds)"
    by (simp add: debounce_state)
  show "key_event k (fold svc_adc_sample_update ds svc_adc_init)
      = (k \<noteq> ADC_KEY_NONE \<and> (\<exists>n < length ds. pressed_at (map key_sample ds) k n))" for k
    by (cases "k = ADC_KEY_NONE") (simp_all add: debounce_events)
qed

text \<open>
  Once a key is confirmed and its event consumed, holding the key raises no further
  event, for any number of samples and for each of the four keys.
\<close>

theorem adc_held_key_fires_once:
  assumes "(k, consume) \<in> {(ADC_KEY_S1, svc_adc_consume_s1_event), (ADC_KEY_S2, svc_adc_consume_s2_event),
      (ADC_KEY_S3, svc_adc_consume_s3_event), (ADC_KEY_S4, svc_adc_consume_s4_event)}"
    and "key_sample d1 = k" "key_sample d2 = k"
    and "\<forall>d \<in> set held. key_sample d = k"
  shows "\<not> fst (consume (fold svc_adc_sample_update held
     (snd (consume (fold svc_adc_sample_update (ds @ [d1, d2]) svc_adc_init)))))"
proof -
  let ?st = "fold svc_adc_sample_update (ds @ [d1, d2]) svc_adc_init"
  have "g_adc_key_last ?st = k" "g_adc_key_candidate ?st = k"
    using assms(2,3) by (simp_all add: sample_update_key)
  then show ?thesis
    using assms(1,4) s1.held_no_repeat [of ?st held] s2.held_no_repeat [of ?st held]
      s3.held_no_repeat [of ?st held] s4.held_no_repeat [of ?st held] by auto
qed

definition dev_with_key :: "u32 \<Rightarrow> adc_dev" where
  "dev_with_key r = \<lparr>rt_adc_read = (\<lambda>ch. if ch = APP_ADC_CH_KEY then r else 0),
     rt_adc_voltage = (\<lambda>_. 0), rt_adc_enable = (\<lambda>_. RT_EOK)\<rparr>"

lemma key_sample_dev_with_key [simp]: "key_sample (dev_with_key r) = decode_key_raw r"
  by (simp add: key_sample_def dev_with_key_def)

theorem adc_held_key_fires_once_witness:
  "key_sample (dev_with_key 18000) = ADC_KEY_S2
   \<and> \<not> fst (svc_adc_consume_s2_event (fold svc_adc_sample_update [dev_with_key 19000]
     (snd (svc_adc_consume_s2_event (fold svc_adc_sample_update
       ([] @ [dev_with_key 18000, dev_with_key 18500]) svc_adc_init)))))"
  using adc_held_key_fires_once [of ADC_KEY_S2 svc_adc_consume_s2_event "dev_with_key 18000"
      "dev_with_key 18500" "[dev_with_key 19000]" "[]"]
  by (simp add: decode_key_raw_def)

text \<open>
  Every sample stores the exact integer value of the conversion formulas, without
  wrap-around, for every raw value the driver can return: the pin voltage scaled by the divider of
  the 24 V and of the lithium cell channel, and the pin voltage itself for the supercapacitor.
\<close>

theorem adc_snapshot_exact:
  "unat (est_bat24_mv (g_adc_snapshot (svc_adc_sample_update d st)))
     = (unat (rt_adc_read d APP_ADC_CH_BAT_24V) * 3300 div 65535) * (1000 + 91) div 91
   \<and> unat (est_li_bat_mv (g_adc_snapshot (svc_adc_sample_update d st)))
     = (unat (rt_adc_read d APP_ADC_CH_LI_BAT_4V2) * 3300 div 65535) * (91 + 91) div 91
   \<and> unat (est_super_c_mv (g_adc_snapshot (svc_adc_sample_update d st)))
     = unat (rt_adc_read d APP_ADC_CH_SUPER_C_5V) * 3300 div 65535"
  by (simp add: sample_update_snapshot svc_adc_sample_snapshot_def Let_def est_bat24_nat
      est_li_bat_nat raw_to_pin_mv_nat)

end
