(* ===== verification/Svc_Vehicle_Io.thy ===== *)
theory Svc_Vehicle_Io
  imports Svc_Adc
begin

unbundle bit_operations_syntax

text \<open>
  The vehicle input service (\<open>src/applications/svc_vehicle_io.c\<close>): the ignition lines, the ten
  switch inputs KL1 to KL10 and the lithium cell, read from GPIO with their polarity and kept as a
  snapshot; the packed switch word with its change detection. \<open>gpio_read_pin\<close> of the SDK is
  the function parameter \<open>pin\<close>, from port and pin number to the level read.
\<close>

section \<open>Data\<close>

datatype gpio_port = GPIO_DI_GPIOB | GPIO_DI_GPIOC

type_synonym pins = "gpio_port \<Rightarrow> nat \<Rightarrow> u8"

record app_vehicle_io_state =
  wk_acc :: u8
  wk_on :: u8
  sw_kl1 :: u8
  sw_kl2 :: u8
  sw_kl3 :: u8
  sw_kl4 :: u8
  sw_kl5 :: u8
  sw_kl6 :: u8
  sw_kl7 :: u8
  sw_kl8 :: u8
  sw_kl9 :: u8
  sw_kl10 :: u8
  li_bat_stdby :: u8
  li_bat_chrg :: u8
  li_bat_raw :: u32
  li_bat_est_mv :: u32

text \<open>\<open>kl_prints\<close> counts the lines the change detector has printed.\<close>

record vehicle_io =
  g_vehicle_io_state :: app_vehicle_io_state
  g_sw_kl_last_bits :: u16
  kl_prints :: nat

definition WK_ACC_PIN :: nat where [dvr_const]: "WK_ACC_PIN = 19"
definition WK_ON_PIN :: nat where [dvr_const]: "WK_ON_PIN = 20"
definition LI_BAT_STDBY_PIN :: nat where [dvr_const]: "LI_BAT_STDBY_PIN = 22"
definition LI_BAT_CHRG_PIN :: nat where [dvr_const]: "LI_BAT_CHRG_PIN = 23"

text \<open>Pin numbers and polarities of KL1 to KL10, in this order.\<close>

definition SW_KL_PINS :: "nat list" where
  [dvr_const]: "SW_KL_PINS = [0, 1, 11, 12, 13, 14, 15, 16, 17, 18]"

definition SW_KL_ACTIVE_LOW :: "u8 list" where
  [dvr_const]: "SW_KL_ACTIVE_LOW = [1, 1, 1, 1, 1, 1, 1, 1, 0, 0]"

section \<open>Operations\<close>

definition svc_vehicle_io_apply_level :: "u32 \<Rightarrow> u8 \<Rightarrow> u8" where
  "svc_vehicle_io_apply_level raw_level active_low =
     (if active_low \<noteq> 0 then (if raw_level = 0 then 1 else 0)
      else (if raw_level \<noteq> 0 then 1 else 0))"

definition read_kl :: "pins \<Rightarrow> nat \<Rightarrow> u8" where
  "read_kl pin i =
     svc_vehicle_io_apply_level (ucast (pin GPIO_DI_GPIOB (SW_KL_PINS ! i))) (SW_KL_ACTIVE_LOW ! i)"

definition svc_vehicle_io_update_state ::
  "pins \<Rightarrow> app_adc_snapshot \<Rightarrow> vehicle_io \<Rightarrow> vehicle_io" where
  "svc_vehicle_io_update_state pin adc_snapshot v =
     v\<lparr>g_vehicle_io_state :=
       \<lparr>wk_acc = (if pin GPIO_DI_GPIOC WK_ACC_PIN = 0 then 1 else 0),
        wk_on = (if pin GPIO_DI_GPIOC WK_ON_PIN = 0 then 1 else 0),
        sw_kl1 = read_kl pin 0, sw_kl2 = read_kl pin 1, sw_kl3 = read_kl pin 2,
        sw_kl4 = read_kl pin 3, sw_kl5 = read_kl pin 4, sw_kl6 = read_kl pin 5,
        sw_kl7 = read_kl pin 6, sw_kl8 = read_kl pin 7, sw_kl9 = read_kl pin 8,
        sw_kl10 = read_kl pin 9,
        li_bat_stdby = pin GPIO_DI_GPIOB LI_BAT_STDBY_PIN,
        li_bat_chrg = pin GPIO_DI_GPIOB LI_BAT_CHRG_PIN,
        li_bat_raw = raw_li_bat adc_snapshot,
        li_bat_est_mv = est_li_bat_mv adc_snapshot\<rparr>\<rparr>"

definition svc_vehicle_io_pack_sw_kl_bits :: "app_vehicle_io_state \<Rightarrow> u16" where
  "svc_vehicle_io_pack_sw_kl_bits s =
     (let b = (\<lambda>v n. if v \<noteq> (0::u8) then push_bit n (1::u16) else 0);
          bits = 0;
          bits = bits OR b (sw_kl1 s) 0;
          bits = bits OR b (sw_kl2 s) 1;
          bits = bits OR b (sw_kl3 s) 2;
          bits = bits OR b (sw_kl4 s) 3;
          bits = bits OR b (sw_kl5 s) 4;
          bits = bits OR b (sw_kl6 s) 5;
          bits = bits OR b (sw_kl7 s) 6;
          bits = bits OR b (sw_kl8 s) 7;
          bits = bits OR b (sw_kl9 s) 8;
          bits = bits OR b (sw_kl10 s) 9
      in bits)"

definition svc_vehicle_io_debug_print_sw_kl :: "vehicle_io \<Rightarrow> vehicle_io" where
  "svc_vehicle_io_debug_print_sw_kl v =
     (let bits = svc_vehicle_io_pack_sw_kl_bits (g_vehicle_io_state v) in
      if bits \<noteq> g_sw_kl_last_bits v
      then v\<lparr>g_sw_kl_last_bits := bits, kl_prints := kl_prints v + 1\<rparr> else v)"

definition svc_vehicle_io_thread_pass :: "pins \<Rightarrow> app_adc_snapshot \<Rightarrow> vehicle_io \<Rightarrow> vehicle_io" where
  "svc_vehicle_io_thread_pass pin adc v =
     svc_vehicle_io_debug_print_sw_kl (svc_vehicle_io_update_state pin adc v)"

definition svc_vehicle_io_thread_entry :: "(pins \<times> app_adc_snapshot) list \<Rightarrow> vehicle_io \<Rightarrow> vehicle_io" where
  "svc_vehicle_io_thread_entry passes v = fold (\<lambda>(pin, adc). svc_vehicle_io_thread_pass pin adc) passes v"

definition vehicle_io_zero :: app_vehicle_io_state where
  "vehicle_io_zero = \<lparr>wk_acc = 0, wk_on = 0, sw_kl1 = 0, sw_kl2 = 0, sw_kl3 = 0, sw_kl4 = 0,
     sw_kl5 = 0, sw_kl6 = 0, sw_kl7 = 0, sw_kl8 = 0, sw_kl9 = 0, sw_kl10 = 0,
     li_bat_stdby = 0, li_bat_chrg = 0, li_bat_raw = 0, li_bat_est_mv = 0\<rparr>"

definition svc_vehicle_io_init :: "vehicle_io" where
  "svc_vehicle_io_init = \<lparr>g_vehicle_io_state = vehicle_io_zero, g_sw_kl_last_bits = 0xFFFF, kl_prints = 0\<rparr>"

definition svc_vehicle_io_get_state :: "vehicle_io \<Rightarrow> app_vehicle_io_state" where
  "svc_vehicle_io_get_state v = g_vehicle_io_state v"

section \<open>Facts\<close>

definition kl :: "app_vehicle_io_state \<Rightarrow> u8 list" where
  "kl s = [sw_kl1 s, sw_kl2 s, sw_kl3 s, sw_kl4 s, sw_kl5 s, sw_kl6 s, sw_kl7 s, sw_kl8 s,
     sw_kl9 s, sw_kl10 s]"

lemma bit_flag: "bit (if v \<noteq> (0::u8) then push_bit k (1::u16) else 0) n
    \<longleftrightarrow> v \<noteq> 0 \<and> n = k \<and> k < 16"
  by (auto simp: bit_simps)

lemma less_10_cases:
  "n < (10::nat) \<Longrightarrow> n = 0 \<or> n = 1 \<or> n = 2 \<or> n = 3 \<or> n = 4 \<or> n = 5 \<or> n = 6 \<or> n = 7 \<or> n = 8 \<or> n = 9"
  by arith

lemma bit_pack:
  "bit (svc_vehicle_io_pack_sw_kl_bits s) n \<longleftrightarrow>
     (n = 0 \<and> sw_kl1 s \<noteq> 0) \<or> (n = 1 \<and> sw_kl2 s \<noteq> 0) \<or> (n = 2 \<and> sw_kl3 s \<noteq> 0)
     \<or> (n = 3 \<and> sw_kl4 s \<noteq> 0) \<or> (n = 4 \<and> sw_kl5 s \<noteq> 0) \<or> (n = 5 \<and> sw_kl6 s \<noteq> 0)
     \<or> (n = 6 \<and> sw_kl7 s \<noteq> 0) \<or> (n = 7 \<and> sw_kl8 s \<noteq> 0) \<or> (n = 8 \<and> sw_kl9 s \<noteq> 0)
     \<or> (n = 9 \<and> sw_kl10 s \<noteq> 0)"
  unfolding svc_vehicle_io_pack_sw_kl_bits_def Let_def bit_or_iff bit_flag by auto

lemma bit_pack_kl:
  "bit (svc_vehicle_io_pack_sw_kl_bits s) n \<longleftrightarrow> n < 10 \<and> kl s ! n \<noteq> 0"
proof (cases "n < 10")
  case True
  from less_10_cases [OF this] show ?thesis by (elim disjE) (simp_all add: bit_pack kl_def)
next
  case False
  then show ?thesis by (auto simp: bit_pack)
qed

lemma kl_update:
  "n < 10 \<Longrightarrow> kl (g_vehicle_io_state (svc_vehicle_io_update_state pin adc v)) ! n = read_kl pin n"
  by (drule less_10_cases, elim disjE) (simp_all add: kl_def svc_vehicle_io_update_state_def)

lemma read_kl_nonzero:
  "n < 10 \<Longrightarrow> read_kl pin n \<noteq> 0 \<longleftrightarrow>
     (if n < 8 then pin GPIO_DI_GPIOB (SW_KL_PINS ! n) = 0 else pin GPIO_DI_GPIOB (SW_KL_PINS ! n) \<noteq> 0)"
  by (drule less_10_cases, elim disjE)
     (simp_all add: read_kl_def svc_vehicle_io_apply_level_def dvr_const)

section \<open>Properties\<close>

text \<open>
  C39: one pass of the input thread turns pin levels into logical values with the polarity
  of the wiring: a low ACC or ON line reads as 1, bit n of the packed word is set exactly when switch
  KL(n+1) is active (low level for KL1 to KL8, high level for KL9 and KL10), no bit from 10
  upwards is ever set, and the remembered word is the packed word of the snapshot.
\<close>

theorem vehicle_io_pass:
  "let v' = svc_vehicle_io_thread_pass pin adc v;
       s = svc_vehicle_io_get_state v'
   in wk_acc s = (if pin GPIO_DI_GPIOC WK_ACC_PIN = 0 then 1 else 0)
    \<and> wk_on s = (if pin GPIO_DI_GPIOC WK_ON_PIN = 0 then 1 else 0)
    \<and> (\<forall>n. bit (svc_vehicle_io_pack_sw_kl_bits s) n
        = (n < 10 \<and> (n < 8) = (pin GPIO_DI_GPIOB (SW_KL_PINS ! n) = 0)))
    \<and> li_bat_est_mv s = est_li_bat_mv adc
    \<and> g_sw_kl_last_bits v' = svc_vehicle_io_pack_sw_kl_bits s"
proof -
  let ?u = "svc_vehicle_io_update_state pin adc v"
  have st: "g_vehicle_io_state (svc_vehicle_io_thread_pass pin adc v) = g_vehicle_io_state ?u"
    by (simp add: svc_vehicle_io_thread_pass_def svc_vehicle_io_debug_print_sw_kl_def Let_def)
  have "bit (svc_vehicle_io_pack_sw_kl_bits (g_vehicle_io_state ?u)) n
      = (n < 10 \<and> (n < 8) = (pin GPIO_DI_GPIOB (SW_KL_PINS ! n) = 0))" for n
    using read_kl_nonzero [of n pin] by (auto simp: bit_pack_kl kl_update split: if_splits)
  moreover have "g_sw_kl_last_bits (svc_vehicle_io_thread_pass pin adc v)
      = svc_vehicle_io_pack_sw_kl_bits (g_vehicle_io_state ?u)"
    by (simp add: svc_vehicle_io_thread_pass_def svc_vehicle_io_debug_print_sw_kl_def Let_def)
  ultimately show ?thesis
    by (simp add: Let_def svc_vehicle_io_get_state_def st)
       (simp add: svc_vehicle_io_update_state_def)
qed

end
