(* ===== verification/Svc_Power.thy ===== *)
theory Svc_Power
  imports Svc_Vehicle_Io
begin

text \<open>
  The power service (\<open>src/applications/svc_power.c\<close>): the stage machine that watches the main
  supply and the ignition lines, the staged shutdown that ends with the release of the board's own
  supply latch (\<open>PWR_HOLD\<close>), and the delayed camera supply.

  The state record holds every file-level variable of the source, the five output pins and a count
  of the calls to \<open>lcd_backlight_off\<close>. The conditional-compilation switch
  \<open>APP_PWR_SUPERCAP_MGMT_ENABLE\<close> is a constant of the model; both arms of every \<open>#if\<close> are
  written out. Each read of \<open>rt_tick_get\<close> in one pass is a field of \<open>power_ticks\<close>.
  \<open>rt_hw_cpu_reset\<close> does not return: \<open>svc_power_eval_stage\<close> then yields no stage, and the
  pass yields no state.
\<close>

section \<open>Data\<close>

datatype svc_power_stage =
    SVC_POWER_STAGE_UNKNOWN
  | SVC_POWER_STAGE_MAIN_OFF
  | SVC_POWER_STAGE_STANDBY
  | SVC_POWER_STAGE_ACC_ACTIVE
  | SVC_POWER_STAGE_ON_ACTIVE
  | SVC_POWER_STAGE_SUPERCAP_HOLD
  | SVC_POWER_STAGE_SHUTDOWN_PENDING
  | SVC_POWER_STAGE_SHUTDOWN_IN_PROGRESS

record power_state =
  g_power_stage :: svc_power_stage
  g_supercap_hold_enter_tick :: tick
  g_shutdown_pending_enter_tick :: tick
  g_power_loss_latched :: bool
  g_shutdown_prepare_done :: bool
  g_supercap_ready :: bool
  g_prev_main_present :: bool
  g_main_present_confirm_count :: u8
  g_main_loss_confirm_count :: u8
  g_supercap_ready_confirm_count :: u8
  g_supercap_low_confirm_count :: u8
  g_final_soc_cut_done :: bool
  g_final_hold_cut_done :: bool
  g_cam_12v_enable_start_tick :: tick
  g_cam_12v_enabled :: bool
  pwren_24v :: bool
  pwren_soc :: bool
  supercap_chrg :: bool
  pwr_hold :: bool
  cam_12v_en :: bool
  backlight_off_calls :: nat

record power_ticks =
  at_eval :: tick
  at_hold :: tick
  at_pending :: tick
  at_cut :: tick
  at_cam :: tick

definition APP_PWR_SUPERCAP_MGMT_ENABLE :: bool where [dvr_const]: "APP_PWR_SUPERCAP_MGMT_ENABLE = False"
definition APP_PWR_MAIN_PRESENT_THRESHOLD_MV :: u32 where [dvr_const]: "APP_PWR_MAIN_PRESENT_THRESHOLD_MV = 18000"
definition APP_PWR_SUPERCAP_READY_THRESHOLD_MV :: u32 where [dvr_const]: "APP_PWR_SUPERCAP_READY_THRESHOLD_MV = 2100"
definition APP_PWR_SUPERCAP_HOLD_THRESHOLD_MV :: u32 where [dvr_const]: "APP_PWR_SUPERCAP_HOLD_THRESHOLD_MV = 2100"
definition APP_PWR_SUPERCAP_SHUTDOWN_THRESHOLD_MV :: u32 where [dvr_const]: "APP_PWR_SUPERCAP_SHUTDOWN_THRESHOLD_MV = 1800"
definition APP_PWR_MAIN_PRESENT_CONFIRM_MS :: u32 where [dvr_const]: "APP_PWR_MAIN_PRESENT_CONFIRM_MS = 1000"
definition APP_PWR_MAIN_LOSS_CONFIRM_MS :: u32 where [dvr_const]: "APP_PWR_MAIN_LOSS_CONFIRM_MS = 1000"
definition APP_PWR_SUPERCAP_READY_CONFIRM_MS :: u32 where [dvr_const]: "APP_PWR_SUPERCAP_READY_CONFIRM_MS = 3000"
definition APP_PWR_SUPERCAP_LOW_CONFIRM_MS :: u32 where [dvr_const]: "APP_PWR_SUPERCAP_LOW_CONFIRM_MS = 2000"
definition APP_PWR_HOLD_PREPARE_TIMEOUT_MS :: u32 where [dvr_const]: "APP_PWR_HOLD_PREPARE_TIMEOUT_MS = 10000"
definition APP_PWR_SHUTDOWN_IN_PROGRESS_MS :: u32 where [dvr_const]: "APP_PWR_SHUTDOWN_IN_PROGRESS_MS = 3000"
definition APP_PWR_FINAL_SOC_CUT_DELAY_MS :: u32 where [dvr_const]: "APP_PWR_FINAL_SOC_CUT_DELAY_MS = 1000"
definition APP_PWR_FINAL_HOLD_CUT_DELAY_MS :: u32 where [dvr_const]: "APP_PWR_FINAL_HOLD_CUT_DELAY_MS = 1500"
definition APP_CAM_12V_ENABLE_DELAY_MS :: u32 where [dvr_const]: "APP_CAM_12V_ENABLE_DELAY_MS = 5000"
definition APP_POWER_TASK_PERIOD_MS :: u32 where [dvr_const]: "APP_POWER_TASK_PERIOD_MS = 100"
definition RT_TICK_PER_SECOND :: u64 where [dvr_const]: "RT_TICK_PER_SECOND = 1000"

section \<open>Helpers\<close>

fun svc_power_stage_to_str :: "svc_power_stage \<Rightarrow> string" where
  "svc_power_stage_to_str SVC_POWER_STAGE_MAIN_OFF = ''MAIN_OFF''"
| "svc_power_stage_to_str SVC_POWER_STAGE_STANDBY = ''STANDBY''"
| "svc_power_stage_to_str SVC_POWER_STAGE_ACC_ACTIVE = ''ACC_ACTIVE''"
| "svc_power_stage_to_str SVC_POWER_STAGE_ON_ACTIVE = ''ON_ACTIVE''"
| "svc_power_stage_to_str SVC_POWER_STAGE_SUPERCAP_HOLD = ''SUPERCAP_HOLD''"
| "svc_power_stage_to_str SVC_POWER_STAGE_SHUTDOWN_PENDING = ''SHUTDOWN_PENDING''"
| "svc_power_stage_to_str SVC_POWER_STAGE_SHUTDOWN_IN_PROGRESS = ''SHUTDOWN_IN_PROGRESS''"
| "svc_power_stage_to_str SVC_POWER_STAGE_UNKNOWN = ''UNKNOWN''"

definition svc_power_ms_to_confirm_count :: "u32 \<Rightarrow> u8" where
  "svc_power_ms_to_confirm_count time_ms =
     (let count = (time_ms + APP_POWER_TASK_PERIOD_MS - 1) div APP_POWER_TASK_PERIOD_MS;
          count = (if count = 0 then 1 else count);
          count = (if count > 255 then 255 else count)
      in ucast count)"

definition svc_power_update_confirm_counter :: "bool \<Rightarrow> u8 \<Rightarrow> u8" where
  "svc_power_update_confirm_counter condition counter =
     (if condition then (if counter < 255 then counter + 1 else counter) else 0)"

definition svc_power_init_ctrl_pins :: "power_state \<Rightarrow> power_state" where
  "svc_power_init_ctrl_pins st =
     st\<lparr>pwren_24v := True, pwren_soc := True, supercap_chrg := False, pwr_hold := True,
        cam_12v_en := False\<rparr>"

definition svc_power_cut_soc_outputs :: "power_state \<Rightarrow> power_state" where
  "svc_power_cut_soc_outputs st =
     (let st = st\<lparr>pwren_soc := False, pwren_24v := False\<rparr>
      in if APP_PWR_SUPERCAP_MGMT_ENABLE then st\<lparr>supercap_chrg := False\<rparr> else st)"

definition svc_power_release_mcu_hold :: "power_state \<Rightarrow> power_state" where
  "svc_power_release_mcu_hold st = st\<lparr>pwr_hold := False\<rparr>"

definition svc_power_is_main_present_raw :: "app_adc_snapshot \<Rightarrow> bool" where
  "svc_power_is_main_present_raw a \<longleftrightarrow> APP_PWR_MAIN_PRESENT_THRESHOLD_MV \<le> est_bat24_mv a"

definition svc_power_is_supercap_ready_raw :: "app_adc_snapshot \<Rightarrow> bool" where
  "svc_power_is_supercap_ready_raw a \<longleftrightarrow> APP_PWR_SUPERCAP_READY_THRESHOLD_MV \<le> est_super_c_mv a"

definition svc_power_is_supercap_available_raw :: "app_adc_snapshot \<Rightarrow> bool" where
  "svc_power_is_supercap_available_raw a \<longleftrightarrow> APP_PWR_SUPERCAP_HOLD_THRESHOLD_MV \<le> est_super_c_mv a"

definition svc_power_is_supercap_low_raw :: "app_adc_snapshot \<Rightarrow> bool" where
  "svc_power_is_supercap_low_raw a \<longleftrightarrow> est_super_c_mv a < APP_PWR_SUPERCAP_SHUTDOWN_THRESHOLD_MV"

definition svc_power_is_shutdown_flow_stage :: "svc_power_stage \<Rightarrow> bool" where
  "svc_power_is_shutdown_flow_stage stage \<longleftrightarrow>
     stage = SVC_POWER_STAGE_SUPERCAP_HOLD \<or> stage = SVC_POWER_STAGE_SHUTDOWN_PENDING
     \<or> stage = SVC_POWER_STAGE_SHUTDOWN_IN_PROGRESS"

definition svc_power_ticks_to_ms :: "tick \<Rightarrow> tick \<Rightarrow> u32" where
  "svc_power_ticks_to_ms now_tick start_tick =
     (if start_tick = 0 then 0
      else ucast ((ucast (now_tick - start_tick) :: u64) * 1000 div RT_TICK_PER_SECOND))"

definition svc_power_get_hold_elapsed_ms :: "tick \<Rightarrow> power_state \<Rightarrow> u32" where
  "svc_power_get_hold_elapsed_ms now st = svc_power_ticks_to_ms now (g_supercap_hold_enter_tick st)"

definition svc_power_get_shutdown_pending_elapsed_ms :: "tick \<Rightarrow> power_state \<Rightarrow> u32" where
  "svc_power_get_shutdown_pending_elapsed_ms now st =
     svc_power_ticks_to_ms now (g_shutdown_pending_enter_tick st)"

definition svc_power_eval_normal_stage :: "app_vehicle_io_state \<Rightarrow> svc_power_stage" where
  "svc_power_eval_normal_stage vehicle_state =
     (if wk_on vehicle_state \<noteq> 0 then SVC_POWER_STAGE_ON_ACTIVE
      else if wk_acc vehicle_state \<noteq> 0 then SVC_POWER_STAGE_ACC_ACTIVE
      else SVC_POWER_STAGE_SHUTDOWN_PENDING)"

section \<open>Stage evaluation\<close>

text \<open>The counters are updated first, whatever branch is taken afterwards.\<close>

definition update_counters :: "app_adc_snapshot \<Rightarrow> power_state \<Rightarrow> power_state" where
  "update_counters a st =
     (let raw = svc_power_is_main_present_raw a;
          st = st\<lparr>g_main_present_confirm_count :=
                 svc_power_update_confirm_counter raw (g_main_present_confirm_count st)\<rparr>;
          st = st\<lparr>g_main_loss_confirm_count :=
                 svc_power_update_confirm_counter (\<not> raw) (g_main_loss_confirm_count st)\<rparr>
      in if APP_PWR_SUPERCAP_MGMT_ENABLE
         then st\<lparr>g_supercap_ready_confirm_count := svc_power_update_confirm_counter
                   (svc_power_is_supercap_ready_raw a) (g_supercap_ready_confirm_count st),
                 g_supercap_low_confirm_count := svc_power_update_confirm_counter
                   (svc_power_is_supercap_low_raw a) (g_supercap_low_confirm_count st)\<rparr>
         else st\<lparr>g_supercap_ready_confirm_count := 0, g_supercap_low_confirm_count := 0,
                 g_supercap_ready := False\<rparr>)"

definition main_present_target :: u8 where
  "main_present_target = svc_power_ms_to_confirm_count APP_PWR_MAIN_PRESENT_CONFIRM_MS"

definition main_loss_target :: u8 where
  "main_loss_target = svc_power_ms_to_confirm_count APP_PWR_MAIN_LOSS_CONFIRM_MS"

definition supercap_ready_target :: u8 where
  "supercap_ready_target = svc_power_ms_to_confirm_count APP_PWR_SUPERCAP_READY_CONFIRM_MS"

definition supercap_low_target :: u8 where
  "supercap_low_target = svc_power_ms_to_confirm_count APP_PWR_SUPERCAP_LOW_CONFIRM_MS"

text \<open>Branch 1: the main supply is confirmed. \<open>None\<close> is the processor reset.\<close>

definition eval_main_present ::
  "tick \<Rightarrow> app_vehicle_io_state \<Rightarrow> power_state \<Rightarrow> (svc_power_stage \<times> power_state) option" where
  "eval_main_present now vehicle_state st =
     (let main_rising_edge = (\<not> g_prev_main_present st) in
      if main_rising_edge \<and> svc_power_is_shutdown_flow_stage (g_power_stage st) then None
      else
        let st = st\<lparr>g_power_loss_latched := False\<rparr>;
            st = (if APP_PWR_SUPERCAP_MGMT_ENABLE
                  then (if supercap_ready_target \<le> g_supercap_ready_confirm_count st
                        then st\<lparr>g_supercap_ready := True\<rparr> else st)
                  else st\<lparr>g_supercap_ready := False\<rparr>);
            st = st\<lparr>g_prev_main_present := True\<rparr>;
            normal_stage = svc_power_eval_normal_stage vehicle_state
        in if normal_stage = SVC_POWER_STAGE_SHUTDOWN_PENDING
              \<and> g_power_stage st = SVC_POWER_STAGE_SHUTDOWN_PENDING
              \<and> APP_PWR_SHUTDOWN_IN_PROGRESS_MS \<le> svc_power_get_shutdown_pending_elapsed_ms now st
           then Some (SVC_POWER_STAGE_SHUTDOWN_IN_PROGRESS, st)
           else Some (normal_stage, st))"

text \<open>Branch 4: the loss of the main supply is latched.\<close>

definition eval_latched :: "tick \<Rightarrow> power_state \<Rightarrow> svc_power_stage" where
  "eval_latched now st =
     (if g_power_stage st = SVC_POWER_STAGE_SHUTDOWN_PENDING
         \<or> g_power_stage st = SVC_POWER_STAGE_SHUTDOWN_IN_PROGRESS
      then (if APP_PWR_SHUTDOWN_IN_PROGRESS_MS \<le> svc_power_get_shutdown_pending_elapsed_ms now st
            then SVC_POWER_STAGE_SHUTDOWN_IN_PROGRESS else SVC_POWER_STAGE_SHUTDOWN_PENDING)
      else if supercap_low_target \<le> g_supercap_low_confirm_count st
         \<or> APP_PWR_HOLD_PREPARE_TIMEOUT_MS \<le> svc_power_get_hold_elapsed_ms now st
      then SVC_POWER_STAGE_SHUTDOWN_PENDING
      else if APP_PWR_SUPERCAP_MGMT_ENABLE then SVC_POWER_STAGE_SUPERCAP_HOLD
      else SVC_POWER_STAGE_SHUTDOWN_PENDING)"

definition svc_power_eval_stage ::
  "tick \<Rightarrow> app_adc_snapshot \<Rightarrow> app_vehicle_io_state \<Rightarrow> power_state
    \<Rightarrow> (svc_power_stage \<times> power_state) option" where
  "svc_power_eval_stage now adc_snapshot vehicle_state st =
     (let st = update_counters adc_snapshot st;
          main_present = (main_present_target \<le> g_main_present_confirm_count st);
          main_falling_edge = (g_prev_main_present st \<and> main_loss_target \<le> g_main_loss_confirm_count st);
          supercap_available = (APP_PWR_SUPERCAP_MGMT_ENABLE
                                \<and> svc_power_is_supercap_available_raw adc_snapshot)
      in if main_present then eval_main_present now vehicle_state st
         else
           let st = (if main_loss_target \<le> g_main_loss_confirm_count st
                     then st\<lparr>g_prev_main_present := False\<rparr> else st)
           in if main_falling_edge \<and> \<not> g_power_loss_latched st
              then let st = st\<lparr>g_power_loss_latched := True\<rparr>
                   in if APP_PWR_SUPERCAP_MGMT_ENABLE \<and> g_supercap_ready st \<and> supercap_available
                      then Some (SVC_POWER_STAGE_SUPERCAP_HOLD, st)
                      else Some (SVC_POWER_STAGE_SHUTDOWN_PENDING, st)
              else if g_power_loss_latched st then Some (eval_latched now st, st)
              else Some (SVC_POWER_STAGE_MAIN_OFF, st))"

section \<open>Transitions and the thread\<close>

definition svc_power_handle_final_power_cut :: "tick \<Rightarrow> power_state \<Rightarrow> power_state" where
  "svc_power_handle_final_power_cut now st =
     (if g_power_stage st \<noteq> SVC_POWER_STAGE_SHUTDOWN_IN_PROGRESS then st
      else
        let pending_ms = svc_power_get_shutdown_pending_elapsed_ms now st;
            st = (if \<not> g_final_soc_cut_done st \<and> APP_PWR_FINAL_SOC_CUT_DELAY_MS \<le> pending_ms
                  then svc_power_cut_soc_outputs (st\<lparr>g_final_soc_cut_done := True\<rparr>) else st)
        in if \<not> g_final_hold_cut_done st \<and> APP_PWR_FINAL_HOLD_CUT_DELAY_MS \<le> pending_ms
           then svc_power_release_mcu_hold (st\<lparr>g_final_hold_cut_done := True\<rparr>) else st)"

definition svc_power_handle_stage_transition ::
  "tick \<Rightarrow> tick \<Rightarrow> svc_power_stage \<Rightarrow> power_state \<Rightarrow> power_state" where
  "svc_power_handle_stage_transition now_hold now_pending new_stage st =
     (if new_stage = g_power_stage st then st
      else
        let st =
          (if new_stage = SVC_POWER_STAGE_SUPERCAP_HOLD then
             st\<lparr>g_supercap_hold_enter_tick := now_hold, g_shutdown_pending_enter_tick := 0,
                g_shutdown_prepare_done := False, g_final_soc_cut_done := False,
                g_final_hold_cut_done := False, backlight_off_calls := backlight_off_calls st + 1\<rparr>
           else if new_stage = SVC_POWER_STAGE_SHUTDOWN_PENDING \<and> \<not> g_shutdown_prepare_done st then
             (let st = (if g_supercap_hold_enter_tick st = 0
                        then st\<lparr>g_supercap_hold_enter_tick := now_hold\<rparr> else st)
              in st\<lparr>g_shutdown_pending_enter_tick := now_pending, g_shutdown_prepare_done := True,
                    g_final_soc_cut_done := False, g_final_hold_cut_done := False,
                    backlight_off_calls := backlight_off_calls st + 1\<rparr>)
           else if new_stage = SVC_POWER_STAGE_SHUTDOWN_IN_PROGRESS
              \<and> g_power_stage st \<noteq> SVC_POWER_STAGE_SHUTDOWN_IN_PROGRESS then st
           else if new_stage = SVC_POWER_STAGE_STANDBY \<or> new_stage = SVC_POWER_STAGE_ACC_ACTIVE
              \<or> new_stage = SVC_POWER_STAGE_ON_ACTIVE \<or> new_stage = SVC_POWER_STAGE_MAIN_OFF then
             st\<lparr>g_supercap_hold_enter_tick := 0, g_shutdown_pending_enter_tick := 0,
                g_shutdown_prepare_done := False, g_final_soc_cut_done := False,
                g_final_hold_cut_done := False\<rparr>
           else st)
        in st\<lparr>g_power_stage := new_stage\<rparr>)"

definition svc_power_handle_cam_12v_enable :: "tick \<Rightarrow> power_state \<Rightarrow> power_state" where
  "svc_power_handle_cam_12v_enable now st =
     (if g_cam_12v_enabled st then st
      else if APP_CAM_12V_ENABLE_DELAY_MS \<le> svc_power_ticks_to_ms now (g_cam_12v_enable_start_tick st)
      then st\<lparr>cam_12v_en := True, g_cam_12v_enabled := True\<rparr>
      else st)"

text \<open>One pass of the thread's loop; \<open>None\<close> when the pass resets the processor.\<close>

definition svc_power_thread_pass ::
  "power_ticks \<Rightarrow> app_adc_snapshot \<Rightarrow> app_vehicle_io_state \<Rightarrow> power_state \<Rightarrow> power_state option" where
  "svc_power_thread_pass t adc_snapshot vehicle_state st =
     (case svc_power_eval_stage (at_eval t) adc_snapshot vehicle_state st of
        None \<Rightarrow> None
      | Some (power_stage, st) \<Rightarrow>
          let st = svc_power_handle_stage_transition (at_hold t) (at_pending t) power_stage st;
              st = svc_power_handle_final_power_cut (at_cut t) st
          in Some (svc_power_handle_cam_12v_enable (at_cam t) st))"

type_synonym power_input = "power_ticks \<times> app_adc_snapshot \<times> app_vehicle_io_state"

fun svc_power_thread_entry :: "power_input list \<Rightarrow> power_state \<Rightarrow> power_state option" where
  "svc_power_thread_entry [] st = Some st"
| "svc_power_thread_entry ((t, a, v) # ps) st =
     (case svc_power_thread_pass t a v st of None \<Rightarrow> None | Some st' \<Rightarrow> svc_power_thread_entry ps st')"

definition svc_power_init :: "tick \<Rightarrow> power_state \<Rightarrow> power_state" where
  "svc_power_init now st =
     (svc_power_init_ctrl_pins st)
       \<lparr>g_power_stage := SVC_POWER_STAGE_UNKNOWN, g_supercap_hold_enter_tick := 0,
        g_shutdown_pending_enter_tick := 0, g_power_loss_latched := False,
        g_shutdown_prepare_done := False, g_supercap_ready := False, g_prev_main_present := False,
        g_main_present_confirm_count := 0, g_main_loss_confirm_count := 0,
        g_supercap_ready_confirm_count := 0, g_supercap_low_confirm_count := 0,
        g_final_soc_cut_done := False, g_final_hold_cut_done := False,
        g_cam_12v_enable_start_tick := now, g_cam_12v_enabled := False\<rparr>"

section \<open>Basic facts\<close>

lemma power_targets [simp]:
  "main_present_target = 10" "main_loss_target = 10" "supercap_low_target = 20"
  "supercap_ready_target = 30"
  by (simp_all add: main_present_target_def main_loss_target_def supercap_low_target_def
      supercap_ready_target_def svc_power_ms_to_confirm_count_def dvr_const Let_def)

lemma ticks_to_ms_eq: "svc_power_ticks_to_ms now start = (if start = 0 then 0 else now - start)"
proof -
  have "unat ((ucast (now - start) :: u64) * 1000) = unat (now - start) * 1000"
    using unat_lt_u32 [of "now - start"] by (simp add: unat_word_ariths(2))
  then have "unat ((ucast (now - start) :: u64) * 1000 div 1000) = unat (now - start)"
    by (simp add: unat_div)
  then have "(ucast ((ucast (now - start) :: u64) * 1000 div 1000) :: u32) = now - start"
    using unat_lt_u32 [of "now - start"]
    by (simp add: word_unat_eq_iff unsigned_ucast_eq take_bit_nat_eq_self)
  then show ?thesis by (simp add: svc_power_ticks_to_ms_def dvr_const)
qed

abbreviation pending_ms :: "tick \<Rightarrow> power_state \<Rightarrow> u32" where
  "pending_ms now st \<equiv> svc_power_get_shutdown_pending_elapsed_ms now st"

lemma pending_ms_eq:
  "pending_ms now st = (if g_shutdown_pending_enter_tick st = 0 then 0
     else now - g_shutdown_pending_enter_tick st)"
  by (simp add: svc_power_get_shutdown_pending_elapsed_ms_def ticks_to_ms_eq)

lemma confirm_counter_nat:
  "unat (svc_power_update_confirm_counter b c) = (if b then min 255 (unat c + 1) else 0)"
proof (cases "c < 255")
  case True
  then have "unat c < 255" by (simp add: word_less_nat_alt)
  then show ?thesis using True
    by (simp add: svc_power_update_confirm_counter_def unat_word_ariths(1))
next
  case False
  then have "unat c = 255" using unat_lt_u8 [of c] by (simp add: word_less_nat_alt)
  then show ?thesis using False by (simp add: svc_power_update_confirm_counter_def)
qed

definition run_length :: "bool list \<Rightarrow> nat" where
  "run_length bs = length (takeWhile id (rev bs))"

lemma confirm_counter_run:
  "unat (fold svc_power_update_confirm_counter bs 0) = min 255 (run_length bs)"
  by (induction bs rule: rev_induct) (auto simp: confirm_counter_nat run_length_def)

lemma update_counters_frame [simp]:
  "g_power_stage (update_counters a st) = g_power_stage st"
  "g_supercap_hold_enter_tick (update_counters a st) = g_supercap_hold_enter_tick st"
  "g_shutdown_pending_enter_tick (update_counters a st) = g_shutdown_pending_enter_tick st"
  "g_power_loss_latched (update_counters a st) = g_power_loss_latched st"
  "g_shutdown_prepare_done (update_counters a st) = g_shutdown_prepare_done st"
  "g_prev_main_present (update_counters a st) = g_prev_main_present st"
  "g_main_present_confirm_count (update_counters a st) =
     svc_power_update_confirm_counter (svc_power_is_main_present_raw a) (g_main_present_confirm_count st)"
  "g_main_loss_confirm_count (update_counters a st) =
     svc_power_update_confirm_counter (\<not> svc_power_is_main_present_raw a) (g_main_loss_confirm_count st)"
  "g_supercap_low_confirm_count (update_counters a st) = 0"
  "g_final_soc_cut_done (update_counters a st) = g_final_soc_cut_done st"
  "g_final_hold_cut_done (update_counters a st) = g_final_hold_cut_done st"
  "g_cam_12v_enabled (update_counters a st) = g_cam_12v_enabled st"
  "g_cam_12v_enable_start_tick (update_counters a st) = g_cam_12v_enable_start_tick st"
  "pwren_24v (update_counters a st) = pwren_24v st"
  "pwren_soc (update_counters a st) = pwren_soc st"
  "supercap_chrg (update_counters a st) = supercap_chrg st"
  "pwr_hold (update_counters a st) = pwr_hold st"
  "cam_12v_en (update_counters a st) = cam_12v_en st"
  by (simp_all add: update_counters_def dvr_const Let_def)

text \<open>The fields a stage evaluation leaves alone.\<close>

definition same_outputs :: "power_state \<Rightarrow> power_state \<Rightarrow> bool" where
  "same_outputs s s' \<longleftrightarrow>
     g_power_stage s' = g_power_stage s
     \<and> g_supercap_hold_enter_tick s' = g_supercap_hold_enter_tick s
     \<and> g_shutdown_pending_enter_tick s' = g_shutdown_pending_enter_tick s
     \<and> g_shutdown_prepare_done s' = g_shutdown_prepare_done s
     \<and> g_final_soc_cut_done s' = g_final_soc_cut_done s
     \<and> g_final_hold_cut_done s' = g_final_hold_cut_done s
     \<and> g_cam_12v_enabled s' = g_cam_12v_enabled s
     \<and> g_cam_12v_enable_start_tick s' = g_cam_12v_enable_start_tick s
     \<and> pwren_24v s' = pwren_24v s \<and> pwren_soc s' = pwren_soc s
     \<and> supercap_chrg s' = supercap_chrg s \<and> pwr_hold s' = pwr_hold s
     \<and> cam_12v_en s' = cam_12v_en s"

lemma eval_main_present_cases:
  "eval_main_present now v st = Some (s, st') \<Longrightarrow>
     same_outputs st st' \<and> s \<in> {SVC_POWER_STAGE_ON_ACTIVE, SVC_POWER_STAGE_ACC_ACTIVE,
       SVC_POWER_STAGE_SHUTDOWN_PENDING, SVC_POWER_STAGE_SHUTDOWN_IN_PROGRESS}
     \<and> (s = SVC_POWER_STAGE_SHUTDOWN_IN_PROGRESS \<longrightarrow>
          g_power_stage st = SVC_POWER_STAGE_SHUTDOWN_PENDING \<and> 3000 \<le> pending_ms now st)
     \<and> (s = SVC_POWER_STAGE_SHUTDOWN_PENDING \<longrightarrow> wk_on v = 0 \<and> wk_acc v = 0)"
  by (auto simp: eval_main_present_def Let_def dvr_const same_outputs_def pending_ms_eq
      svc_power_eval_normal_stage_def split: if_splits)

lemma same_outputs_simps [simp]:
  "same_outputs st (update_counters a st)"
  "same_outputs s (s'\<lparr>g_prev_main_present := b\<rparr>) = same_outputs s s'"
  "same_outputs s (s'\<lparr>g_power_loss_latched := b\<rparr>) = same_outputs s s'"
  by (simp_all add: same_outputs_def)

lemma pending_ms_simps [simp]:
  "pending_ms now (update_counters a st) = pending_ms now st"
  "pending_ms now (st\<lparr>g_prev_main_present := b\<rparr>) = pending_ms now st"
  "pending_ms now (st\<lparr>g_power_loss_latched := b\<rparr>) = pending_ms now st"
  by (simp_all add: pending_ms_eq)

text \<open>The evaluation when the main supply is not confirmed, in this build.\<close>

lemma eval_absent:
  assumes "\<not> 10 \<le> g_main_present_confirm_count (update_counters a st)"
  shows "svc_power_eval_stage now a v st =
    (let lost = (10 \<le> g_main_loss_confirm_count (update_counters a st));
         st1 = (if lost then (update_counters a st)\<lparr>g_prev_main_present := False\<rparr> else update_counters a st)
     in if g_prev_main_present st \<and> lost \<and> \<not> g_power_loss_latched st
        then Some (SVC_POWER_STAGE_SHUTDOWN_PENDING, st1\<lparr>g_power_loss_latched := True\<rparr>)
        else if g_power_loss_latched st then Some (eval_latched now st1, st1)
        else Some (SVC_POWER_STAGE_MAIN_OFF, st1))"
  using assms by (simp add: svc_power_eval_stage_def Let_def dvr_const)

lemma eval_present:
  assumes "10 \<le> g_main_present_confirm_count (update_counters a st)"
  shows "svc_power_eval_stage now a v st = eval_main_present now v (update_counters a st)"
  using assms by (simp add: svc_power_eval_stage_def Let_def)

lemma eval_latched_eq:
  "g_supercap_low_confirm_count st = 0 \<Longrightarrow> eval_latched now st =
     (if g_power_stage st \<in> {SVC_POWER_STAGE_SHUTDOWN_PENDING, SVC_POWER_STAGE_SHUTDOWN_IN_PROGRESS}
         \<and> 3000 \<le> pending_ms now st
      then SVC_POWER_STAGE_SHUTDOWN_IN_PROGRESS else SVC_POWER_STAGE_SHUTDOWN_PENDING)"
  by (auto simp: eval_latched_def dvr_const)

definition eval_ok :: "tick \<Rightarrow> power_state \<Rightarrow> svc_power_stage \<Rightarrow> power_state \<Rightarrow> bool" where
  "eval_ok now st s st' \<longleftrightarrow> same_outputs st st'
     \<and> s \<in> {SVC_POWER_STAGE_ON_ACTIVE, SVC_POWER_STAGE_ACC_ACTIVE, SVC_POWER_STAGE_MAIN_OFF,
          SVC_POWER_STAGE_SHUTDOWN_PENDING, SVC_POWER_STAGE_SHUTDOWN_IN_PROGRESS}
     \<and> (s = SVC_POWER_STAGE_SHUTDOWN_IN_PROGRESS \<longrightarrow>
       g_power_stage st \<in> {SVC_POWER_STAGE_SHUTDOWN_PENDING, SVC_POWER_STAGE_SHUTDOWN_IN_PROGRESS}
       \<and> 3000 \<le> pending_ms now st)"

lemma eval_stage_ok:
  assumes "svc_power_eval_stage now a v st = Some (s, st')"
  shows "eval_ok now st s st'"
proof (cases "10 \<le> g_main_present_confirm_count (update_counters a st)")
  case True
  then have "eval_main_present now v (update_counters a st) = Some (s, st')"
    using assms by (simp add: eval_present)
  from eval_main_present_cases [OF this] show ?thesis
    by (auto simp: eval_ok_def same_outputs_def)
next
  case False
  then show ?thesis
    using assms unfolding eval_absent [OF False] Let_def
    by (auto simp: eval_ok_def eval_latched_eq split: if_splits)
qed

section \<open>The invariant\<close>

definition shutdown_stage :: "svc_power_stage \<Rightarrow> bool" where
  "shutdown_stage s \<longleftrightarrow> s \<in> {SVC_POWER_STAGE_SHUTDOWN_PENDING, SVC_POWER_STAGE_SHUTDOWN_IN_PROGRESS}"

definition power_inv :: "power_state \<Rightarrow> bool" where
  "power_inv st \<longleftrightarrow>
     g_power_stage st \<notin> {SVC_POWER_STAGE_STANDBY, SVC_POWER_STAGE_SUPERCAP_HOLD}
     \<and> (g_shutdown_prepare_done st \<longleftrightarrow> shutdown_stage (g_power_stage st))
     \<and> (g_final_soc_cut_done st \<longrightarrow> \<not> pwren_soc st)
     \<and> (g_final_hold_cut_done st \<longrightarrow> g_final_soc_cut_done st \<and> \<not> pwr_hold st)
     \<and> (\<not> pwr_hold st \<longrightarrow> \<not> pwren_soc st)
     \<and> pwren_24v st = pwren_soc st
     \<and> \<not> supercap_chrg st
     \<and> cam_12v_en st = g_cam_12v_enabled st"

lemma power_inv_init: "power_inv (svc_power_init now st)"
  by (simp add: power_inv_def svc_power_init_def svc_power_init_ctrl_pins_def shutdown_stage_def)

lemma power_inv_same_outputs: "same_outputs st st' \<Longrightarrow> power_inv st' = power_inv st"
  by (simp add: power_inv_def same_outputs_def)

lemma power_inv_transition:
  assumes "power_inv st" "eval_ok now st0 s st"
  shows "power_inv (svc_power_handle_stage_transition h p s st)"
proof (cases "s = g_power_stage st")
  case True
  then show ?thesis using assms(1) by (simp add: svc_power_handle_stage_transition_def)
next
  case False
  have "s \<in> {SVC_POWER_STAGE_ON_ACTIVE, SVC_POWER_STAGE_ACC_ACTIVE, SVC_POWER_STAGE_MAIN_OFF,
      SVC_POWER_STAGE_SHUTDOWN_PENDING, SVC_POWER_STAGE_SHUTDOWN_IN_PROGRESS}"
    and "s = SVC_POWER_STAGE_SHUTDOWN_IN_PROGRESS \<Longrightarrow> shutdown_stage (g_power_stage st)"
    using assms(2) by (auto simp: eval_ok_def same_outputs_def shutdown_stage_def)
  then show ?thesis
    using assms(1) False
    by (auto simp: svc_power_handle_stage_transition_def Let_def power_inv_def shutdown_stage_def)
qed

lemma final_cut_eq:
  "svc_power_handle_final_power_cut now st =
     (if g_power_stage st \<noteq> SVC_POWER_STAGE_SHUTDOWN_IN_PROGRESS \<or> pending_ms now st < 1000 then st
      else let st1 = (if g_final_soc_cut_done st then st
              else st\<lparr>g_final_soc_cut_done := True, pwren_soc := False, pwren_24v := False\<rparr>)
        in if \<not> g_final_hold_cut_done st \<and> 1500 \<le> pending_ms now st
           then st1\<lparr>g_final_hold_cut_done := True, pwr_hold := False\<rparr> else st1)"
proof (cases "pending_ms now st < 1000")
  case True
  then have "\<not> 1500 \<le> pending_ms now st" "\<not> 1000 \<le> pending_ms now st"
    by (auto simp: word_less_nat_alt word_le_nat_alt)
  then show ?thesis using True
    by (simp add: svc_power_handle_final_power_cut_def Let_def dvr_const)
next
  case False
  then have "1000 \<le> pending_ms now st" by simp
  then show ?thesis
    by (simp add: svc_power_handle_final_power_cut_def Let_def dvr_const
        svc_power_cut_soc_outputs_def svc_power_release_mcu_hold_def)
qed

lemma power_inv_final_cut:
  "power_inv st \<Longrightarrow> power_inv (svc_power_handle_final_power_cut now st)"
  unfolding final_cut_eq Let_def by (auto simp: power_inv_def)

lemma power_inv_cam:
  "power_inv st \<Longrightarrow> power_inv (svc_power_handle_cam_12v_enable now st)"
  by (simp add: svc_power_handle_cam_12v_enable_def power_inv_def)

lemma pass_SomeE:
  assumes "svc_power_thread_pass t a v st = Some st'"
  obtains s st1 where "svc_power_eval_stage (at_eval t) a v st = Some (s, st1)"
    "eval_ok (at_eval t) st s st1"
    "st' = svc_power_handle_cam_12v_enable (at_cam t) (svc_power_handle_final_power_cut (at_cut t)
       (svc_power_handle_stage_transition (at_hold t) (at_pending t) s st1))"
  using assms by (auto simp: svc_power_thread_pass_def Let_def eval_stage_ok split: option.splits)

lemma power_inv_pass:
  assumes "power_inv st" "svc_power_thread_pass t a v st = Some st'"
  shows "power_inv st'"
proof -
  from assms(2) obtain s st1 where ok: "eval_ok (at_eval t) st s st1"
    and st': "st' = svc_power_handle_cam_12v_enable (at_cam t) (svc_power_handle_final_power_cut (at_cut t)
       (svc_power_handle_stage_transition (at_hold t) (at_pending t) s st1))"
    by (rule pass_SomeE)
  have "power_inv st1"
    using assms(1) ok power_inv_same_outputs [of st st1] by (simp add: eval_ok_def)
  then show ?thesis
    unfolding st' using ok by (intro power_inv_cam power_inv_final_cut power_inv_transition)
qed

text \<open>
  States the thread can be in: after initialisation, after a pass, and after a reset, which runs
  the initialisation again.
\<close>

inductive power_reach :: "power_state \<Rightarrow> bool" where
  power_boot: "power_reach (svc_power_init now st)"
| power_pass: "power_reach st \<Longrightarrow> svc_power_thread_pass t a v st = Some st' \<Longrightarrow> power_reach st'"
| power_reset: "power_reach st \<Longrightarrow> svc_power_thread_pass t a v st = None
    \<Longrightarrow> power_reach (svc_power_init now st)"

lemma power_reach_inv: "power_reach st \<Longrightarrow> power_inv st"
  by (induction rule: power_reach.induct) (auto intro: power_inv_init power_inv_pass)

lemma eval_prev_latched:
  "svc_power_eval_stage now a v st = Some (s, st1) \<Longrightarrow> (g_prev_main_present st \<longrightarrow> \<not> g_power_loss_latched st)
   \<Longrightarrow> g_prev_main_present st1 \<longrightarrow> \<not> g_power_loss_latched st1"
  by (cases "10 \<le> g_main_present_confirm_count (update_counters a st)")
     (auto simp: eval_present eval_absent eval_main_present_def Let_def dvr_const split: if_splits)

lemma post_eval_frame [simp]:
  "g_prev_main_present (svc_power_handle_stage_transition h p s st) = g_prev_main_present st"
  "g_power_loss_latched (svc_power_handle_stage_transition h p s st) = g_power_loss_latched st"
  "g_main_loss_confirm_count (svc_power_handle_stage_transition h p s st) = g_main_loss_confirm_count st"
  "g_main_present_confirm_count (svc_power_handle_stage_transition h p s st) = g_main_present_confirm_count st"
  "g_power_stage (svc_power_handle_stage_transition h p s st) = s"
  "g_prev_main_present (svc_power_handle_final_power_cut c st) = g_prev_main_present st"
  "g_power_loss_latched (svc_power_handle_final_power_cut c st) = g_power_loss_latched st"
  "g_main_loss_confirm_count (svc_power_handle_final_power_cut c st) = g_main_loss_confirm_count st"
  "g_main_present_confirm_count (svc_power_handle_final_power_cut c st) = g_main_present_confirm_count st"
  "g_power_stage (svc_power_handle_final_power_cut c st) = g_power_stage st"
  "g_shutdown_pending_enter_tick (svc_power_handle_final_power_cut c st) = g_shutdown_pending_enter_tick st"
  "g_prev_main_present (svc_power_handle_cam_12v_enable c st) = g_prev_main_present st"
  "g_power_loss_latched (svc_power_handle_cam_12v_enable c st) = g_power_loss_latched st"
  "g_main_loss_confirm_count (svc_power_handle_cam_12v_enable c st) = g_main_loss_confirm_count st"
  "g_main_present_confirm_count (svc_power_handle_cam_12v_enable c st) = g_main_present_confirm_count st"
  "g_power_stage (svc_power_handle_cam_12v_enable c st) = g_power_stage st"
  "g_shutdown_pending_enter_tick (svc_power_handle_cam_12v_enable c st) = g_shutdown_pending_enter_tick st"
  "pwr_hold (svc_power_handle_cam_12v_enable c st) = pwr_hold st"
  "pwren_soc (svc_power_handle_cam_12v_enable c st) = pwren_soc st"
  "g_final_hold_cut_done (svc_power_handle_cam_12v_enable c st) = g_final_hold_cut_done st"
  "g_final_soc_cut_done (svc_power_handle_cam_12v_enable c st) = g_final_soc_cut_done st"
  by (simp_all add: svc_power_handle_stage_transition_def final_cut_eq
      svc_power_handle_cam_12v_enable_def Let_def)

lemma power_reach_latch: "power_reach st \<Longrightarrow> g_prev_main_present st \<longrightarrow> \<not> g_power_loss_latched st"
proof (induction rule: power_reach.induct)
  case (power_pass st t a v st')
  from power_pass.hyps(2) obtain s st1 where "svc_power_eval_stage (at_eval t) a v st = Some (s, st1)"
    "st' = svc_power_handle_cam_12v_enable (at_cam t) (svc_power_handle_final_power_cut (at_cut t)
       (svc_power_handle_stage_transition (at_hold t) (at_pending t) s st1))"
    by (rule pass_SomeE)
  then show ?case using eval_prev_latched power_pass.IH by simp
qed (simp_all add: svc_power_init_def)

lemma power_reach_run:
  "power_reach st \<Longrightarrow> svc_power_thread_entry ps st = Some st' \<Longrightarrow> power_reach st'"
  by (induction ps st rule: svc_power_thread_entry.induct)
     (auto split: option.splits intro: power_pass)

section \<open>Losing the main supply\<close>

text \<open>A pass whose sample shows no main supply never resets; its stage is given by \<open>eval_absent\<close>.\<close>

lemma low_counters:
  assumes "\<not> svc_power_is_main_present_raw a"
  shows "g_main_present_confirm_count (update_counters a st) = 0"
    "unat (g_main_loss_confirm_count (update_counters a st)) = min 255 (unat (g_main_loss_confirm_count st) + 1)"
  using assms by (simp add: svc_power_update_confirm_counter_def)
     (use assms in \<open>simp add: confirm_counter_nat\<close>)

lemma ge_10_iff: "(10 :: u8) \<le> c \<longleftrightarrow> 10 \<le> unat c"
  by (simp add: word_le_nat_alt)

lemma low_pass_waiting:
  assumes "\<not> svc_power_is_main_present_raw a" "g_prev_main_present st" "\<not> g_power_loss_latched st"
    "unat (g_main_loss_confirm_count st) + 1 < 10"
  obtains st' where "svc_power_thread_pass t a v st = Some st'" "g_prev_main_present st'"
    "\<not> g_power_loss_latched st'" "g_power_stage st' = SVC_POWER_STAGE_MAIN_OFF"
    "unat (g_main_loss_confirm_count st') = unat (g_main_loss_confirm_count st) + 1"
proof -
  have "svc_power_eval_stage (at_eval t) a v st = Some (SVC_POWER_STAGE_MAIN_OFF, update_counters a st)"
    using assms low_counters [OF assms(1), of st]
    by (simp add: eval_absent Let_def ge_10_iff)
  then show thesis
    using that assms low_counters [OF assms(1), of st] by (simp add: svc_power_thread_pass_def Let_def)
qed

lemma low_pass_confirming:
  assumes "\<not> svc_power_is_main_present_raw a" "g_prev_main_present st" "\<not> g_power_loss_latched st"
    "unat (g_main_loss_confirm_count st) = 9" "g_power_stage st = SVC_POWER_STAGE_MAIN_OFF" "power_inv st"
  obtains st' where "svc_power_thread_pass t a v st = Some st'" "g_power_loss_latched st'"
    "g_power_stage st' = SVC_POWER_STAGE_SHUTDOWN_PENDING"
    "g_shutdown_pending_enter_tick st' = at_pending t"
    "unat (g_main_loss_confirm_count st') = 10"
proof -
  have "svc_power_eval_stage (at_eval t) a v st = Some (SVC_POWER_STAGE_SHUTDOWN_PENDING,
      (update_counters a st)\<lparr>g_prev_main_present := False, g_power_loss_latched := True\<rparr>)"
    using assms low_counters [OF assms(1), of st] by (simp add: eval_absent Let_def ge_10_iff)
  moreover have "\<not> g_shutdown_prepare_done st"
    using assms(5,6) by (simp add: power_inv_def shutdown_stage_def)
  ultimately show thesis
    using that assms low_counters [OF assms(1), of st]
    by (simp add: svc_power_thread_pass_def svc_power_handle_stage_transition_def Let_def)
qed

definition shutting_down :: "tick \<Rightarrow> power_state \<Rightarrow> bool" where
  "shutting_down p st \<longleftrightarrow> power_inv st \<and> g_power_loss_latched st \<and> shutdown_stage (g_power_stage st)
     \<and> g_shutdown_pending_enter_tick st = p"

lemma low_pass_shutdown:
  assumes low: "\<not> svc_power_is_main_present_raw a" and sd: "shutting_down p st"
  obtains st' where "svc_power_thread_pass t a v st = Some st'" "shutting_down p st'"
    "p \<noteq> 0 \<Longrightarrow> 3000 \<le> at_eval t - p \<Longrightarrow> 3000 \<le> at_cut t - p \<Longrightarrow>
      g_power_stage st' = SVC_POWER_STAGE_SHUTDOWN_IN_PROGRESS \<and> \<not> pwr_hold st' \<and> \<not> pwren_soc st'
      \<and> \<not> pwren_24v st'"
proof -
  let ?s = "if 3000 \<le> pending_ms (at_eval t) st then SVC_POWER_STAGE_SHUTDOWN_IN_PROGRESS
     else SVC_POWER_STAGE_SHUTDOWN_PENDING"
  let ?c = "update_counters a st"
  let ?st1 = "if 10 \<le> g_main_loss_confirm_count ?c then ?c\<lparr>g_prev_main_present := False\<rparr> else ?c"
  let ?st2 = "svc_power_handle_stage_transition (at_hold t) (at_pending t) ?s ?st1"
  let ?st3 = "svc_power_handle_final_power_cut (at_cut t) ?st2"
  let ?st4 = "svc_power_handle_cam_12v_enable (at_cam t) ?st3"
  have stg: "shutdown_stage (g_power_stage st)" and la: "g_power_loss_latched st"
    and p: "g_shutdown_pending_enter_tick st = p" and inv: "power_inv st"
    using sd by (auto simp: shutting_down_def)
  have ev: "svc_power_eval_stage (at_eval t) a v st = Some (?s, ?st1)"
    using stg la low_counters [OF low, of st]
    by (auto simp: eval_absent Let_def eval_latched_eq shutdown_stage_def)
  then have pass: "svc_power_thread_pass t a v st = Some ?st4"
    by (simp add: svc_power_thread_pass_def Let_def)
  have inv4: "power_inv ?st4" by (rule power_inv_pass [OF inv pass])
  have prep: "g_shutdown_prepare_done st"
    using inv stg by (simp add: power_inv_def)
  have tick2: "g_shutdown_pending_enter_tick ?st2 = p"
    using stg prep p by (auto simp: svc_power_handle_stage_transition_def Let_def shutdown_stage_def)
  have sd4: "shutting_down p ?st4"
    using inv4 tick2 la by (simp add: shutting_down_def shutdown_stage_def)
  have fin: "g_power_stage ?st4 = SVC_POWER_STAGE_SHUTDOWN_IN_PROGRESS \<and> \<not> pwr_hold ?st4 \<and> \<not> pwren_soc ?st4
      \<and> \<not> pwren_24v ?st4"
    if "p \<noteq> 0" "3000 \<le> at_eval t - p" "3000 \<le> at_cut t - p"
  proof -
    have s: "?s = SVC_POWER_STAGE_SHUTDOWN_IN_PROGRESS"
      using that p by (simp add: pending_ms_eq)
    have "1500 \<le> pending_ms (at_cut t) ?st2" "\<not> pending_ms (at_cut t) ?st2 < 1000"
      using that tick2 by (simp_all add: pending_ms_eq word_le_nat_alt word_less_nat_alt)
    then have "g_final_hold_cut_done ?st3"
      unfolding final_cut_eq s by (simp add: Let_def)
    then show ?thesis using inv4 s by (simp add: power_inv_def)
  qed
  show thesis by (rule that [OF pass sd4 fin])
qed

lemma low_run_waiting:
  assumes "power_reach st" "g_prev_main_present st" "ps \<noteq> []"
    "\<forall>(t, a, v) \<in> set ps. \<not> svc_power_is_main_present_raw a"
    "unat (g_main_loss_confirm_count st) + length ps < 10"
  shows "\<exists>st'. svc_power_thread_entry ps st = Some st' \<and> power_reach st' \<and> g_prev_main_present st'
    \<and> g_power_stage st' = SVC_POWER_STAGE_MAIN_OFF
    \<and> unat (g_main_loss_confirm_count st') = unat (g_main_loss_confirm_count st) + length ps"
  using assms
proof (induction ps arbitrary: st)
  case (Cons p ps)
  obtain t a v where p: "p = (t, a, v)" by (cases p) auto
  have la: "\<not> g_power_loss_latched st"
    using power_reach_latch [OF Cons.prems(1)] Cons.prems(2) by simp
  obtain st1 where st1: "svc_power_thread_pass t a v st = Some st1" "g_prev_main_present st1"
      "g_power_stage st1 = SVC_POWER_STAGE_MAIN_OFF"
      "unat (g_main_loss_confirm_count st1) = unat (g_main_loss_confirm_count st) + 1"
    using low_pass_waiting [of a st t v] Cons.prems la p by auto
  have r: "power_reach st1" using Cons.prems(1) st1(1) by (rule power_reach.power_pass)
  show ?case
  proof (cases "ps = []")
    case True
    then show ?thesis using p st1 r by simp
  next
    case False
    then show ?thesis using Cons.IH [OF r st1(2) False] Cons.prems p st1 by simp
  qed
qed simp

lemma low_run_shutdown:
  assumes "shutting_down p st" "\<forall>(t, a, v) \<in> set ps. \<not> svc_power_is_main_present_raw a"
  shows "\<exists>st'. svc_power_thread_entry ps st = Some st' \<and> shutting_down p st'"
  using assms
proof (induction ps arbitrary: st)
  case (Cons q ps)
  obtain t a v where q: "q = (t, a, v)" by (cases q) auto
  obtain st1 where "svc_power_thread_pass t a v st = Some st1" "shutting_down p st1"
    using low_pass_shutdown [of a p st t v] Cons.prems q by auto
  then show ?case using Cons.IH [of st1] Cons.prems q by simp
qed simp

lemma thread_entry_append:
  "svc_power_thread_entry (ps @ qs) st =
     (case svc_power_thread_entry ps st of None \<Rightarrow> None | Some st' \<Rightarrow> svc_power_thread_entry qs st')"
  by (induction ps st rule: svc_power_thread_entry.induct) (auto split: option.splits)

lemma cut_pass_facts:
  assumes "svc_power_thread_pass t a v st = Some st'"
    and "(pwr_hold st', pwren_soc st', pwren_24v st') \<noteq> (pwr_hold st, pwren_soc st, pwren_24v st)"
  shows "g_power_stage st' = SVC_POWER_STAGE_SHUTDOWN_IN_PROGRESS
    \<and> g_shutdown_pending_enter_tick st \<noteq> 0
    \<and> g_shutdown_pending_enter_tick st' = g_shutdown_pending_enter_tick st
    \<and> 3000 \<le> at_eval t - g_shutdown_pending_enter_tick st
    \<and> (pwr_hold st' \<longrightarrow> pwr_hold st) \<and> (pwren_soc st' \<longrightarrow> pwren_soc st)"
proof -
  from assms(1) obtain s st1 where ok: "eval_ok (at_eval t) st s st1"
    and st': "st' = svc_power_handle_cam_12v_enable (at_cam t) (svc_power_handle_final_power_cut (at_cut t)
       (svc_power_handle_stage_transition (at_hold t) (at_pending t) s st1))"
    by (rule pass_SomeE)
  let ?st2 = "svc_power_handle_stage_transition (at_hold t) (at_pending t) s st1"
  have pins: "pwr_hold ?st2 = pwr_hold st" "pwren_soc ?st2 = pwren_soc st" "pwren_24v ?st2 = pwren_24v st"
    and stg: "g_power_stage ?st2 = s"
    using ok by (auto simp: svc_power_handle_stage_transition_def Let_def eval_ok_def same_outputs_def)
  have s: "s = SVC_POWER_STAGE_SHUTDOWN_IN_PROGRESS"
    using assms(2) pins stg unfolding st' final_cut_eq
    by (auto simp: svc_power_handle_cam_12v_enable_def split: if_splits)
  have "g_shutdown_pending_enter_tick ?st2 = g_shutdown_pending_enter_tick st"
    using ok s by (auto simp: svc_power_handle_stage_transition_def Let_def eval_ok_def same_outputs_def)
  then show ?thesis
    using ok s pins stg unfolding st' final_cut_eq
    by (auto simp: svc_power_handle_cam_12v_enable_def eval_ok_def pending_ms_eq Let_def split: if_splits)
qed

lemma cut_pass_hold:
  assumes "power_inv st" "svc_power_thread_pass t a v st = Some st'"
    and "g_power_stage st' = SVC_POWER_STAGE_SHUTDOWN_IN_PROGRESS"
    and "g_shutdown_pending_enter_tick st' \<noteq> 0" "1500 \<le> at_cut t - g_shutdown_pending_enter_tick st'"
  shows "\<not> pwr_hold st' \<and> \<not> pwren_soc st'"
proof -
  from assms(2) obtain s st1
    where st': "st' = svc_power_handle_cam_12v_enable (at_cam t) (svc_power_handle_final_power_cut (at_cut t)
       (svc_power_handle_stage_transition (at_hold t) (at_pending t) s st1))"
    by (rule pass_SomeE)
  let ?st2 = "svc_power_handle_stage_transition (at_hold t) (at_pending t) s st1"
  have s: "g_power_stage ?st2 = SVC_POWER_STAGE_SHUTDOWN_IN_PROGRESS"
    using assms(3) st' by simp
  have "1500 \<le> pending_ms (at_cut t) ?st2" "\<not> pending_ms (at_cut t) ?st2 < 1000"
    using assms(4,5) st' by (simp_all add: pending_ms_eq word_le_nat_alt word_less_nat_alt)
  then have "g_final_hold_cut_done (svc_power_handle_final_power_cut (at_cut t) ?st2)"
    using s unfolding final_cut_eq by (simp add: Let_def)
  then show ?thesis
    using power_inv_pass [OF assms(1,2)] st' by (simp add: power_inv_def)
qed

section \<open>Concrete inputs\<close>

definition snap_mv :: "u32 \<Rightarrow> app_adc_snapshot" where
  "snap_mv mv = (g_adc_snapshot svc_adc_init)\<lparr>est_bat24_mv := mv\<rparr>"

definition ignition :: "u8 \<Rightarrow> u8 \<Rightarrow> app_vehicle_io_state" where
  "ignition acc on = vehicle_io_zero\<lparr>wk_acc := acc, wk_on := on\<rparr>"

definition ticks_at :: "tick \<Rightarrow> power_ticks" where
  "ticks_at t = \<lparr>at_eval = t, at_hold = t, at_pending = t, at_cut = t, at_cam = t\<rparr>"

definition power_zero :: power_state where
  "power_zero = \<lparr>g_power_stage = SVC_POWER_STAGE_UNKNOWN, g_supercap_hold_enter_tick = 0,
     g_shutdown_pending_enter_tick = 0, g_power_loss_latched = False, g_shutdown_prepare_done = False,
     g_supercap_ready = False, g_prev_main_present = False, g_main_present_confirm_count = 0,
     g_main_loss_confirm_count = 0, g_supercap_ready_confirm_count = 0,
     g_supercap_low_confirm_count = 0, g_final_soc_cut_done = False, g_final_hold_cut_done = False,
     g_cam_12v_enable_start_tick = 0, g_cam_12v_enabled = False, pwren_24v = False,
     pwren_soc = False, supercap_chrg = False, pwr_hold = False, cam_12v_en = False,
     backlight_off_calls = 0\<rparr>"

definition booted :: power_state where
  "booted = svc_power_init 5 power_zero"

definition present_inputs :: "power_input list" where
  "present_inputs = map (\<lambda>i. (ticks_at (of_nat (100 * i)), snap_mv 24000, ignition 1 1)) [1..<11]"

lemma present_run:
  "case svc_power_thread_entry present_inputs booted of None \<Rightarrow> False
   | Some st \<Rightarrow> g_prev_main_present st \<and> g_main_loss_confirm_count st = 0
       \<and> g_power_stage st = SVC_POWER_STAGE_ON_ACTIVE"
  by code_simp

lemma low_input: "\<not> svc_power_is_main_present_raw (snap_mv 12000)"
  by (simp add: svc_power_is_main_present_raw_def snap_mv_def dvr_const)

text \<open>A state in the middle of a shutdown whose grace period is over.\<close>

definition late_pending :: power_state where
  "late_pending = booted\<lparr>g_power_stage := SVC_POWER_STAGE_SHUTDOWN_PENDING,
     g_shutdown_pending_enter_tick := 100, g_shutdown_prepare_done := True,
     g_power_loss_latched := True, g_main_loss_confirm_count := 10\<rparr>"

section \<open>Properties\<close>

text \<open>
  C3: in every reachable state the board's own supply latch is released only when the SOC
  and 24 V outputs are already off, the latch flag implies the SOC flag, the supercapacitor charger
  stays off and the camera pin equals its flag; the stages STANDBY and SUPERCAP_HOLD are never
  entered in this build.
\<close>

theorem power_cut_order:
  assumes "power_reach st"
  shows "(\<not> pwr_hold st \<longrightarrow> \<not> pwren_soc st \<and> \<not> pwren_24v st)
    \<and> (g_final_hold_cut_done st \<longrightarrow> g_final_soc_cut_done st)
    \<and> \<not> supercap_chrg st \<and> cam_12v_en st = g_cam_12v_enabled st
    \<and> g_power_stage st \<noteq> SVC_POWER_STAGE_STANDBY
    \<and> g_power_stage st \<noteq> SVC_POWER_STAGE_SUPERCAP_HOLD"
  using power_reach_inv [OF assms] by (auto simp: power_inv_def)

theorem power_cut_order_witness:
  "power_reach booted \<and> pwr_hold booted \<and> \<not> supercap_chrg booted
   \<and> g_power_stage booted \<noteq> SVC_POWER_STAGE_STANDBY"
proof -
  have "power_reach booted" unfolding booted_def by (rule power_boot)
  then show ?thesis
    using power_cut_order [of booted]
    by (simp add: booted_def svc_power_init_def svc_power_init_ctrl_pins_def)
qed

text \<open>
  A pass that drops the SOC supply or the latch ends in SHUTDOWN_IN_PROGRESS, and at
  least 3000 ms have passed since the recorded entry into SHUTDOWN_PENDING; outside that no pass
  touches either pin, and no pass ever raises one.
\<close>

theorem power_cut_after_grace:
  assumes "svc_power_thread_pass t a v st = Some st'"
    and "(pwr_hold st', pwren_soc st', pwren_24v st') \<noteq> (pwr_hold st, pwren_soc st, pwren_24v st)"
  shows "g_power_stage st' = SVC_POWER_STAGE_SHUTDOWN_IN_PROGRESS
    \<and> g_shutdown_pending_enter_tick st \<noteq> 0
    \<and> g_shutdown_pending_enter_tick st' = g_shutdown_pending_enter_tick st
    \<and> 3000 \<le> at_eval t - g_shutdown_pending_enter_tick st
    \<and> (pwr_hold st' \<longrightarrow> pwr_hold st) \<and> (pwren_soc st' \<longrightarrow> pwren_soc st)"
  using assms by (rule cut_pass_facts)

theorem power_cut_after_grace_witness:
  "\<exists>st'. svc_power_thread_pass (ticks_at 4000) (snap_mv 12000) (ignition 0 0) late_pending = Some st'
     \<and> pwr_hold late_pending \<and> \<not> pwr_hold st' \<and> (3000 :: u32) \<le> 4000 - 100
     \<and> g_power_stage st' = SVC_POWER_STAGE_SHUTDOWN_IN_PROGRESS"
proof -
  have r: "case svc_power_thread_pass (ticks_at 4000) (snap_mv 12000) (ignition 0 0) late_pending of
      None \<Rightarrow> False | Some st' \<Rightarrow> pwr_hold late_pending \<and> \<not> pwr_hold st'"
    by code_simp
  then obtain st' where st': "svc_power_thread_pass (ticks_at 4000) (snap_mv 12000) (ignition 0 0)
      late_pending = Some st'" "pwr_hold late_pending" "\<not> pwr_hold st'"
    by (auto split: option.splits)
  then show ?thesis
    using power_cut_after_grace [OF st'(1)] by (auto simp: late_pending_def ticks_at_def)
qed

text \<open>
  The two steps of the final cut coincide: in any reachable state, the pass that drops the
  SOC supply also releases the supply latch, because the stage that allows the cut is entered only
  after both delays (1000 ms and 1500 ms) have run out. The clock is assumed not to run backwards
  between the evaluation and the cut of a pass.
\<close>

theorem power_cut_same_pass:
  assumes "power_reach st" "svc_power_thread_pass t a v st = Some st'"
    and "pwren_soc st" "\<not> pwren_soc st'"
    and "at_eval t - g_shutdown_pending_enter_tick st \<le> at_cut t - g_shutdown_pending_enter_tick st"
  shows "pwr_hold st \<and> \<not> pwr_hold st'"
proof -
  have f: "g_power_stage st' = SVC_POWER_STAGE_SHUTDOWN_IN_PROGRESS" "g_shutdown_pending_enter_tick st \<noteq> 0"
    "g_shutdown_pending_enter_tick st' = g_shutdown_pending_enter_tick st"
    "3000 \<le> at_eval t - g_shutdown_pending_enter_tick st"
    using cut_pass_facts [OF assms(2)] assms(3,4) by auto
  then have "1500 \<le> at_cut t - g_shutdown_pending_enter_tick st'"
    using assms(5) by (simp add: word_le_nat_alt)
  then show ?thesis
    using cut_pass_hold [OF power_reach_inv [OF assms(1)] assms(2)] f power_reach_inv [OF assms(1)]
      assms(3) by (auto simp: power_inv_def)
qed

theorem power_cut_same_pass_witness:
  "\<exists>st st'. power_reach st \<and> svc_power_thread_pass (ticks_at 6000) (snap_mv 12000) (ignition 0 0) st = Some st'
     \<and> pwren_soc st \<and> \<not> pwren_soc st' \<and> \<not> pwr_hold st'"
proof -
  let ?in = "present_inputs @ replicate 10 (ticks_at 2000, snap_mv 12000, ignition 0 0)"
  have "case svc_power_thread_entry ?in booted of None \<Rightarrow> False | Some st \<Rightarrow>
     pwren_soc st \<and> g_shutdown_pending_enter_tick st = 2000 \<and>
     (case svc_power_thread_pass (ticks_at 6000) (snap_mv 12000) (ignition 0 0) st of None \<Rightarrow> False
      | Some st' \<Rightarrow> \<not> pwren_soc st')"
    by code_simp
  then obtain st st' where r: "svc_power_thread_entry ?in booted = Some st" "pwren_soc st"
      "g_shutdown_pending_enter_tick st = 2000"
      "svc_power_thread_pass (ticks_at 6000) (snap_mv 12000) (ignition 0 0) st = Some st'" "\<not> pwren_soc st'"
    by (auto split: option.splits)
  have "power_reach st"
    by (rule power_reach_run [OF _ r(1)]) (simp add: booted_def power_boot)
  then show ?thesis
    using power_cut_same_pass [OF _ r(4,2,5)] r by (auto simp: ticks_at_def)
qed



text \<open>
  A pass resets the processor exactly when the main supply has just been confirmed
  again (ten present samples in a row, the previous confirmed value being absent) while the
  shutdown flow is running; every other pass completes.
\<close>

theorem power_reset_iff:
  "svc_power_thread_pass t a v st = None \<longleftrightarrow>
     svc_power_is_main_present_raw a \<and> 9 \<le> unat (g_main_present_confirm_count st)
     \<and> \<not> g_prev_main_present st \<and> svc_power_is_shutdown_flow_stage (g_power_stage st)"
proof -
  have "10 \<le> g_main_present_confirm_count (update_counters a st) \<longleftrightarrow>
      svc_power_is_main_present_raw a \<and> 9 \<le> unat (g_main_present_confirm_count st)"
    by (simp add: ge_10_iff confirm_counter_nat)
  then show ?thesis
    by (cases "10 \<le> g_main_present_confirm_count (update_counters a st)")
       (auto simp: svc_power_thread_pass_def eval_present eval_absent eval_main_present_def Let_def
         dvr_const split: option.splits if_splits)
qed

text \<open>
  While the main supply is confirmed and no reset is due, the ignition lines alone
  decide the stage: ON gives ON_ACTIVE, else ACC gives ACC_ACTIVE and both disarm the shutdown; with
  neither the shutdown is pending, and it moves on only after 3000 ms in SHUTDOWN_PENDING.
\<close>

theorem power_normal_stage:
  assumes "svc_power_thread_pass t a v st = Some st'"
    and "svc_power_is_main_present_raw a" "9 \<le> unat (g_main_present_confirm_count st)"
  shows "g_power_stage st' =
     (if wk_on v \<noteq> 0 then SVC_POWER_STAGE_ON_ACTIVE
      else if wk_acc v \<noteq> 0 then SVC_POWER_STAGE_ACC_ACTIVE
      else if g_power_stage st = SVC_POWER_STAGE_SHUTDOWN_PENDING
         \<and> g_shutdown_pending_enter_tick st \<noteq> 0
         \<and> 3000 \<le> at_eval t - g_shutdown_pending_enter_tick st
      then SVC_POWER_STAGE_SHUTDOWN_IN_PROGRESS
      else SVC_POWER_STAGE_SHUTDOWN_PENDING)
    \<and> g_prev_main_present st' \<and> \<not> g_power_loss_latched st'"
proof -
  have c: "10 \<le> g_main_present_confirm_count (update_counters a st)"
    using assms(2,3) by (simp add: ge_10_iff confirm_counter_nat)
  show ?thesis
    using assms(1) c
    by (auto simp: svc_power_thread_pass_def eval_present eval_main_present_def Let_def dvr_const
        svc_power_eval_normal_stage_def pending_ms_eq split: option.splits if_splits)
qed

theorem power_normal_stage_witness:
  "\<exists>st st'. svc_power_thread_pass (ticks_at 2000) (snap_mv 24000) (ignition 1 0) st = Some st'
     \<and> g_power_stage st = SVC_POWER_STAGE_ON_ACTIVE \<and> g_power_stage st' = SVC_POWER_STAGE_ACC_ACTIVE"
proof -
  let ?st = "booted\<lparr>g_power_stage := SVC_POWER_STAGE_ON_ACTIVE, g_main_present_confirm_count := 20,
    g_prev_main_present := True\<rparr>"
  have pr: "svc_power_is_main_present_raw (snap_mv 24000)"
    by (simp add: svc_power_is_main_present_raw_def snap_mv_def dvr_const)
  have "svc_power_thread_pass (ticks_at 2000) (snap_mv 24000) (ignition 1 0) ?st \<noteq> None"
    by (simp add: svc_power_thread_pass_def svc_power_eval_stage_def eval_main_present_def Let_def
        svc_power_update_confirm_counter_def pr del: power_targets)
  then obtain st' where "svc_power_thread_pass (ticks_at 2000) (snap_mv 24000) (ignition 1 0) ?st = Some st'"
    by auto
  then show ?thesis
    using power_normal_stage [of "ticks_at 2000" "snap_mv 24000" "ignition 1 0" ?st st'] pr
    by (intro exI [of _ ?st] exI [of _ st']) (simp add: ignition_def vehicle_io_zero_def)
qed

text \<open>
  A confirmation counter holds the length of the current run of agreeing samples,
  capped at 255, so the confirmed state is reached after exactly ten agreeing samples in a row.
\<close>

theorem power_confirm_counter:
  "unat (fold svc_power_update_confirm_counter bs 0) = min 255 (run_length bs)
   \<and> (svc_power_ms_to_confirm_count APP_PWR_MAIN_PRESENT_CONFIRM_MS
        \<le> fold svc_power_update_confirm_counter bs 0) = (10 \<le> run_length bs)"
  using confirm_counter_run [of bs] power_targets(1)
  by (auto simp: main_present_target_def [symmetric] ge_10_iff)

text \<open>
  The 18 V threshold of the power service, seen at the converter: a snapshot taken by the
  ADC service counts as \<open>main supply present\<close> exactly when the raw reading of the 24 V channel is
  at least 29829.
\<close>

theorem main_present_raw_threshold:
  "svc_power_is_main_present_raw (svc_adc_get_snapshot (svc_adc_sample_update d st))
     = (29829 \<le> unat (rt_adc_read d APP_ADC_CH_BAT_24V))"
proof -
  let ?r = "unat (rt_adc_read d APP_ADC_CH_BAT_24V)"
  have "18000 \<le> p * 1091 div 91 \<longleftrightarrow> 1502 \<le> p" for p :: nat
    by (simp only: less_eq_div_iff_mult_less_eq zero_less_numeral) linarith
  moreover have "1502 \<le> r * 3300 div 65535 \<longleftrightarrow> 29829 \<le> r" for r :: nat
    by (simp only: less_eq_div_iff_mult_less_eq zero_less_numeral) linarith
  ultimately have "18000 \<le> ?r * 3300 div 65535 * 1091 div 91 \<longleftrightarrow> 29829 \<le> ?r"
    by simp
  then show ?thesis
    by (simp add: svc_power_is_main_present_raw_def dvr_const word_le_nat_alt svc_adc_get_snapshot_def
        sample_update_snapshot svc_adc_sample_snapshot_def Let_def est_bat24_nat [simplified dvr_const])
qed


end
