(* ===== verification/App_Can.thy ===== *)
theory App_Can
  imports Dvr_Prelude
begin

text \<open>
  CAN (\<open>src/applications/app_can.c\<close> with its wrapper \<open>svc_can.c\<close>): three nodes, their start
  sequence with every error return, the receive threads and the monitor that decides which node is
  alive, and transmission.

  The kernel is the record \<open>can_env\<close>: what each kernel call of the start sequence returns.
  A semaphore handle carries its count. \<open>rt_device_write\<close> is a function parameter, and the
  send functions also return the message they passed to it.
\<close>

section \<open>Data\<close>

record rt_can_msg =
  msg_id :: "29 word"
  msg_ide :: bool
  msg_rtr :: bool
  msg_len :: u8
  msg_hdr_index :: u8
  msg_data :: bytes

record app_can_node =
  dev_name :: "string option"
  sem_name :: "string option"
  dev :: "nat option"
  rx_sem :: "nat option"
  rx_thread :: bool
  last_rx_ms :: tick
  life :: u8
  online :: bool

record can_state =
  g_can_nodes :: "app_can_node list"
  g_can_monitor_thread :: bool
  g_can_started :: bool

datatype can_cmd = RT_CAN_CMD_SET_BAUD | RT_CAN_CMD_SET_MODE | RT_CAN_CMD_SET_FILTER

record can_env =
  rt_device_find :: "string \<Rightarrow> nat option"
  rt_sem_create :: "string \<Rightarrow> bool"
  rt_device_open :: "nat \<Rightarrow> rt_err"
  rt_device_control :: "nat \<Rightarrow> can_cmd \<Rightarrow> rt_err"
  rt_device_set_rx_indicate :: "nat \<Rightarrow> rt_err"
  rt_thread_create :: "string \<Rightarrow> bool"

definition CAN_NODE_ALL :: nat where [dvr_const]: "CAN_NODE_ALL = 3"
definition CAN_NODE1 :: u8 where [dvr_const]: "CAN_NODE1 = 0"
definition APP_CAN_STD_LIFE_ID :: "29 word" where [dvr_const]: "APP_CAN_STD_LIFE_ID = 0x605"
definition APP_CAN_EXT_LIFE_ID :: "29 word" where [dvr_const]: "APP_CAN_EXT_LIFE_ID = 0x16FF0018"
definition APP_CAN_LIFE_TIMEOUT_MS :: u32 where [dvr_const]: "APP_CAN_LIFE_TIMEOUT_MS = 5000"

definition can_node :: "string option \<Rightarrow> string option \<Rightarrow> app_can_node" where
  "can_node d s = \<lparr>dev_name = d, sem_name = s, dev = None, rx_sem = None, rx_thread = False,
     last_rx_ms = 0, life = 0, online = False\<rparr>"

definition can_nodes_boot :: "app_can_node list" where
  "can_nodes_boot = [can_node (Some ''can0'') (Some ''can0_sem''),
     can_node (Some ''can2'') (Some ''can2_sem''), can_node None None]"

definition can_boot :: can_state where
  "can_boot = \<lparr>g_can_nodes = can_nodes_boot, g_can_monitor_thread = False, g_can_started = False\<rparr>"

definition upd_node :: "nat \<Rightarrow> (app_can_node \<Rightarrow> app_can_node) \<Rightarrow> can_state \<Rightarrow> can_state" where
  "upd_node i f st = st\<lparr>g_can_nodes := (g_can_nodes st)[i := f (g_can_nodes st ! i)]\<rparr>"

section \<open>Reception and supervision\<close>

definition app_can_handle_rx :: "tick \<Rightarrow> u8 \<Rightarrow> rt_can_msg option \<Rightarrow> can_state \<Rightarrow> can_state" where
  "app_can_handle_rx now node_index msg st =
     (if CAN_NODE_ALL \<le> unat node_index then st
      else case msg of None \<Rightarrow> st
      | Some m \<Rightarrow>
          if msg_id m = APP_CAN_STD_LIFE_ID \<or> msg_id m = APP_CAN_EXT_LIFE_ID
          then upd_node (unat node_index)
                 (\<lambda>n. n\<lparr>life := msg_data m ! 0, last_rx_ms := now, online := True\<rparr>) st
          else st)"

text \<open>The interrupt callbacks of the three nodes release the node's semaphore.\<close>

definition app_can_rx_indicate :: "nat \<Rightarrow> can_state \<Rightarrow> can_state" where
  "app_can_rx_indicate i st =
     (case rx_sem (g_can_nodes st ! i) of
        None \<Rightarrow> st
      | Some c \<Rightarrow> upd_node i (\<lambda>n. n\<lparr>rx_sem := Some (rt_sem_release c)\<rparr>) st)"

definition app_can_rx_indicate_0 :: "can_state \<Rightarrow> can_state" where
  "app_can_rx_indicate_0 = app_can_rx_indicate 0"

definition app_can_rx_indicate_2 :: "can_state \<Rightarrow> can_state" where
  "app_can_rx_indicate_2 = app_can_rx_indicate 1"

definition app_can_rx_indicate_3 :: "can_state \<Rightarrow> can_state" where
  "app_can_rx_indicate_3 = app_can_rx_indicate 2"

text \<open>
  One message read by the receive thread, and one round of its outer loop: it takes the
  semaphore (it sleeps while the count is 0) and reads until the device has no more messages.
\<close>

definition rx_one :: "u8 \<Rightarrow> tick \<times> rt_can_msg \<Rightarrow> can_state \<Rightarrow> can_state" where
  "rx_one node_index r st =
     (if 8 < msg_len (snd r) then st else app_can_handle_rx (fst r) node_index (Some (snd r)) st)"

definition app_can_rx_thread :: "u8 \<Rightarrow> (tick \<times> rt_can_msg) list \<Rightarrow> can_state \<Rightarrow> can_state" where
  "app_can_rx_thread node_index fifo st =
     (if CAN_NODE_ALL \<le> unat node_index then st
      else case rx_sem (g_can_nodes st ! unat node_index) of
        Some (Suc c) \<Rightarrow> fold (rx_one node_index) fifo
                        (upd_node (unat node_index) (\<lambda>n. n\<lparr>rx_sem := Some c\<rparr>) st)
      | _ \<Rightarrow> st)"

definition monitor_node :: "tick \<Rightarrow> app_can_node \<Rightarrow> app_can_node" where
  "monitor_node now n =
     (if online n \<and> APP_CAN_LIFE_TIMEOUT_MS \<le> now - last_rx_ms n
      then n\<lparr>online := False, life := 0\<rparr> else n)"

definition app_can_monitor_thread :: "tick \<Rightarrow> can_state \<Rightarrow> can_state" where
  "app_can_monitor_thread now st =
     fold (\<lambda>i st. upd_node i (monitor_node now) st) [0..<CAN_NODE_ALL] st"

section \<open>Start\<close>

text \<open>Steps 3 to 7 of the configuration: the first call that fails gives the result.\<close>

definition can_open_steps :: "can_env \<Rightarrow> nat \<Rightarrow> rt_err" where
  "can_open_steps e d =
     (let result = rt_device_open e d in if result \<noteq> RT_EOK then result else
      let result = rt_device_control e d RT_CAN_CMD_SET_BAUD in if result \<noteq> RT_EOK then result else
      let result = rt_device_control e d RT_CAN_CMD_SET_MODE in if result \<noteq> RT_EOK then result else
      let result = rt_device_control e d RT_CAN_CMD_SET_FILTER in if result \<noteq> RT_EOK then result else
      let result = rt_device_set_rx_indicate e d in if result \<noteq> RT_EOK then result else RT_EOK)"

definition app_can_config_node :: "can_env \<Rightarrow> u8 \<Rightarrow> can_state \<Rightarrow> rt_err \<times> can_state" where
  "app_can_config_node e node_index st =
     (if CAN_NODE_ALL \<le> unat node_index then (RT_EINVAL, st)
      else
        let i = unat node_index; node = g_can_nodes st ! i in
        case (dev_name node, sem_name node) of
          (Some dn, Some sn) \<Rightarrow>
            (let d = rt_device_find e dn;
                 st = upd_node i (\<lambda>n. n\<lparr>dev := d\<rparr>) st
             in case d of None \<Rightarrow> (RT_ENOSYS, st)
                | Some h \<Rightarrow>
                    if rt_sem_create e sn
                    then (can_open_steps e h, upd_node i (\<lambda>n. n\<lparr>rx_sem := Some 0\<rparr>) st)
                    else (RT_ENOMEM, upd_node i (\<lambda>n. n\<lparr>rx_sem := None\<rparr>) st))
        | _ \<Rightarrow> (RT_EOK, st))"

definition app_can_init :: "can_state \<Rightarrow> rt_err \<times> can_state" where
  "app_can_init st =
     (RT_EOK, \<lparr>g_can_nodes = map (\<lambda>n. n\<lparr>dev := None, rx_sem := None, rx_thread := False,
                 last_rx_ms := 0, life := 0, online := False\<rparr>) (g_can_nodes st),
               g_can_monitor_thread = False, g_can_started = False\<rparr>)"

fun start_nodes :: "can_env \<Rightarrow> nat list \<Rightarrow> can_state \<Rightarrow> rt_err \<times> can_state" where
  "start_nodes e [] st = (RT_EOK, st)"
| "start_nodes e (i # is) st =
     (let (result, st) = app_can_config_node e (of_nat i) st in
      if result \<noteq> RT_EOK then (result, st)
      else if dev (g_can_nodes st ! i) = None then start_nodes e is st
      else
        let ok = (case dev_name (g_can_nodes st ! i) of Some n \<Rightarrow> rt_thread_create e n | None \<Rightarrow> False);
            st = upd_node i (\<lambda>n. n\<lparr>rx_thread := ok\<rparr>) st
        in if \<not> ok then (RT_ENOMEM, st) else start_nodes e is st)"

definition app_can_start :: "can_env \<Rightarrow> can_state \<Rightarrow> rt_err \<times> can_state" where
  "app_can_start e st =
     (if g_can_started st then (RT_EOK, st)
      else
        let (result, st) = start_nodes e [0..<CAN_NODE_ALL] st in
        if result \<noteq> RT_EOK then (result, st)
        else
          let ok = rt_thread_create e ''can_tx'';
              st = st\<lparr>g_can_monitor_thread := ok\<rparr>
          in if \<not> ok then (RT_ENOMEM, st) else (RT_EOK, st\<lparr>g_can_started := True\<rparr>))"

section \<open>Transmission and queries\<close>

definition can_tx_msg :: "u32 \<Rightarrow> bytes option \<Rightarrow> u8 \<Rightarrow> rt_can_msg" where
  "can_tx_msg can_id data len =
     \<lparr>msg_id = ucast can_id, msg_ide = (can_id > 0x7FF), msg_rtr = False, msg_len = len, msg_hdr_index = 0,
      msg_data = (case data of
          None \<Rightarrow> replicate 64 0
        | Some bs \<Rightarrow> if 0 < len then take (unat len) bs @ drop (unat len) (replicate 64 0)
                     else replicate 64 0)\<rparr>"

definition app_can_send_ex ::
  "(nat \<Rightarrow> rt_can_msg \<Rightarrow> int) \<Rightarrow> u8 \<Rightarrow> u32 \<Rightarrow> bytes option \<Rightarrow> u8 \<Rightarrow> can_state
    \<Rightarrow> rt_err \<times> (nat \<times> rt_can_msg) option" where
  "app_can_send_ex rt_device_write node_index can_id data len st =
     (if CAN_NODE_ALL \<le> unat node_index then (RT_EINVAL, None)
      else case dev (g_can_nodes st ! unat node_index) of
        None \<Rightarrow> (RT_ENOSYS, None)
      | Some d \<Rightarrow>
          if 8 < len then (RT_EINVAL, None)
          else
            let msg = can_tx_msg can_id data len in
            if rt_device_write d msg \<le> 0 then (RT_ERROR, Some (d, msg)) else (RT_EOK, Some (d, msg)))"

definition app_can_send ::
  "(nat \<Rightarrow> rt_can_msg \<Rightarrow> int) \<Rightarrow> u32 \<Rightarrow> bytes option \<Rightarrow> u8 \<Rightarrow> can_state
    \<Rightarrow> rt_err \<times> (nat \<times> rt_can_msg) option" where
  "app_can_send w can_id data len st = app_can_send_ex w CAN_NODE1 can_id data len st"

definition app_can_get_life :: "u8 \<Rightarrow> can_state \<Rightarrow> u8" where
  "app_can_get_life node_index st =
     (if CAN_NODE_ALL \<le> unat node_index then 0 else life (g_can_nodes st ! unat node_index))"

definition app_can_is_online :: "u8 \<Rightarrow> can_state \<Rightarrow> bool" where
  "app_can_is_online node_index st =
     (if CAN_NODE_ALL \<le> unat node_index then False else online (g_can_nodes st ! unat node_index))"

definition svc_can_init :: "can_state \<Rightarrow> rt_err \<times> can_state" where
  "svc_can_init st = app_can_init st"

definition svc_can_task_start :: "can_env \<Rightarrow> can_state \<Rightarrow> rt_err \<times> can_state" where
  "svc_can_task_start e st = app_can_start e st"

definition svc_can_send ::
  "(nat \<Rightarrow> rt_can_msg \<Rightarrow> int) \<Rightarrow> u32 \<Rightarrow> bytes option \<Rightarrow> u8 \<Rightarrow> can_state
    \<Rightarrow> rt_err \<times> (nat \<times> rt_can_msg) option" where
  "svc_can_send w can_id data len st = app_can_send w can_id data len st"

definition svc_can_send_ex ::
  "(nat \<Rightarrow> rt_can_msg \<Rightarrow> int) \<Rightarrow> u8 \<Rightarrow> u32 \<Rightarrow> bytes option \<Rightarrow> u8 \<Rightarrow> can_state
    \<Rightarrow> rt_err \<times> (nat \<times> rt_can_msg) option" where
  "svc_can_send_ex w node_index can_id data len st = app_can_send_ex w node_index can_id data len st"

section \<open>Facts\<close>

lemma nodes_upd_node [simp]:
  "g_can_nodes (upd_node i f st) = (g_can_nodes st)[i := f (g_can_nodes st ! i)]"
  "g_can_started (upd_node i f st) = g_can_started st"
  "g_can_monitor_thread (upd_node i f st) = g_can_monitor_thread st"
  by (simp_all add: upd_node_def)

text \<open>Events of the running system: a message handled for a node, or a monitor round.\<close>

datatype can_event = CanRx u8 tick rt_can_msg | CanMonitor tick

fun can_step :: "can_event \<Rightarrow> can_state \<Rightarrow> can_state" where
  "can_step (CanRx i now m) st = rx_one i (now, m) st"
| "can_step (CanMonitor now) st = app_can_monitor_thread now st"

definition is_life :: "rt_can_msg \<Rightarrow> bool" where
  "is_life m \<longleftrightarrow> msg_len m \<le> 8 \<and> (msg_id m = APP_CAN_STD_LIFE_ID \<or> msg_id m = APP_CAN_EXT_LIFE_ID)"

text \<open>
  The specification of the supervision of one node: the time and value of the life frame the node
  currently lives on, if any.
\<close>

fun life_spec :: "u8 \<Rightarrow> can_event \<Rightarrow> (tick \<times> u8) option \<Rightarrow> (tick \<times> u8) option" where
  "life_spec i (CanRx j now m) s = (if j = i \<and> is_life m then Some (now, msg_data m ! 0) else s)"
| "life_spec i (CanMonitor now) s =
     (case s of None \<Rightarrow> None | Some (t, d) \<Rightarrow> if 5000 \<le> now - t then None else Some (t, d))"

definition alive :: "app_can_node \<Rightarrow> (tick \<times> u8) option" where
  "alive n = (if online n then Some (last_rx_ms n, life n) else None)"

definition can_wf :: "can_state \<Rightarrow> bool" where
  "can_wf st \<longleftrightarrow> length (g_can_nodes st) = 3
     \<and> (\<forall>i < 3. \<not> online (g_can_nodes st ! i) \<longrightarrow> life (g_can_nodes st ! i) = 0)"

lemma upt_3: "[0..<3] = [0, 1, 2 :: nat]"
  by (simp add: upt_rec)

lemma less_3_cases: "i < (3::nat) \<Longrightarrow> i = 0 \<or> i = 1 \<or> i = 2"
  by arith

lemma monitor_nodes:
  "length (g_can_nodes st) = 3 \<Longrightarrow> i < 3 \<Longrightarrow>
     g_can_nodes (app_can_monitor_thread now st) ! i = monitor_node now (g_can_nodes st ! i)"
  by (drule less_3_cases, elim disjE) (simp_all add: app_can_monitor_thread_def dvr_const upt_3)

lemma monitor_length [simp]:
  "length (g_can_nodes (app_can_monitor_thread now st)) = length (g_can_nodes st)"
  by (simp add: app_can_monitor_thread_def dvr_const upt_3)

lemma rx_one_nodes:
  "rx_one i (now, m) st =
     (if unat i < 3 \<and> is_life m
      then upd_node (unat i) (\<lambda>n. n\<lparr>life := msg_data m ! 0, last_rx_ms := now, online := True\<rparr>) st
      else st)"
  by (auto simp: rx_one_def app_can_handle_rx_def is_life_def dvr_const not_le)

lemma can_wf_step: "can_wf st \<Longrightarrow> can_wf (can_step e st)"
proof (cases e)
  case (CanRx i now m)
  then show "can_wf st \<Longrightarrow> ?thesis"
    by (auto simp: can_wf_def rx_one_nodes nth_list_update)
next
  case (CanMonitor now)
  then show "can_wf st \<Longrightarrow> ?thesis"
    by (auto simp: can_wf_def monitor_nodes monitor_node_def)
qed

lemma can_step_refines:
  assumes "can_wf st" "unat i < 3"
  shows "alive (g_can_nodes (can_step e st) ! unat i) = life_spec i e (alive (g_can_nodes st ! unat i))"
proof (cases e)
  case (CanRx j now m)
  then show ?thesis
    using assms by (auto simp: rx_one_nodes can_wf_def nth_list_update alive_def dest: unsigned_word_eqI)
next
  case (CanMonitor now)
  then show ?thesis
    using assms by (auto simp: can_wf_def monitor_nodes monitor_node_def alive_def dvr_const)
qed

lemma can_run_refines:
  "can_wf st \<Longrightarrow> unat i < 3 \<Longrightarrow>
     alive (g_can_nodes (fold can_step es st) ! unat i)
       = fold (life_spec i) es (alive (g_can_nodes st ! unat i)) \<and> can_wf (fold can_step es st)"
  by (induction es arbitrary: st) (simp_all add: can_step_refines can_wf_step)

lemma life_spec_keeps:
  assumes "\<forall>e \<in> set post. case e of CanRx j now m \<Rightarrow> \<not> (j = i \<and> is_life m) | CanMonitor now \<Rightarrow> now - t < 5000"
  shows "fold (life_spec i) post (Some (t, d)) = Some (t, d)"
  using assms
proof (induction post)
  case (Cons e post)
  then show ?case by (cases e) (auto simp: not_le)
qed simp

lemma life_spec_Some:
  assumes "fold (life_spec i) es None = Some (t, d)"
  shows "\<exists>pre m post. es = pre @ CanRx i t m # post \<and> is_life m \<and> msg_data m ! 0 = d
    \<and> (\<forall>e \<in> set post. case e of CanRx j now m \<Rightarrow> \<not> (j = i \<and> is_life m) | CanMonitor now \<Rightarrow> now - t < 5000)"
  using assms
proof (induction es arbitrary: t d rule: rev_induct)
  case (snoc e es)
  show ?case
  proof (cases "\<exists>now m. e = CanRx i now m \<and> is_life m")
    case True
    then show ?thesis using snoc.prems by fastforce
  next
    case False
    have same: "fold (life_spec i) es None = Some (t, d)"
      and ok: "case e of CanRx j now m \<Rightarrow> \<not> (j = i \<and> is_life m) | CanMonitor now \<Rightarrow> now - t < 5000"
      using snoc.prems False by (cases e; auto split: option.splits if_splits simp: not_le)+
    from snoc.IH [OF same] obtain pre m post where es: "es = pre @ CanRx i t m # post" "is_life m"
      "msg_data m ! 0 = d"
      "\<forall>e \<in> set post. case e of CanRx j now m \<Rightarrow> \<not> (j = i \<and> is_life m) | CanMonitor now \<Rightarrow> now - t < 5000"
      by blast
    then have "es @ [e] = pre @ CanRx i t m # (post @ [e])" by simp
    moreover have "\<forall>e \<in> set (post @ [e]). case e of CanRx j now m \<Rightarrow> \<not> (j = i \<and> is_life m)
        | CanMonitor now \<Rightarrow> now - t < 5000"
      using es(4) ok by simp
    ultimately show ?thesis using es(2,3) by blast
  qed
qed simp

text \<open>The start sequence neither marks a node alive nor changes the number of nodes.\<close>

definition can_quiet :: "can_state \<Rightarrow> bool" where
  "can_quiet st \<longleftrightarrow> length (g_can_nodes st) = 3
     \<and> (\<forall>i < 3. \<not> online (g_can_nodes st ! i) \<and> life (g_can_nodes st ! i) = 0)"

lemma can_quiet_upd:
  "can_quiet st \<Longrightarrow> (\<And>n. online (f n) = online n \<and> life (f n) = life n) \<Longrightarrow> can_quiet (upd_node i f st)"
  unfolding can_quiet_def nodes_upd_node length_list_update
  by (metis nth_list_update_eq nth_list_update_neq)

lemma can_quiet_config: "can_quiet st \<Longrightarrow> can_quiet (snd (app_can_config_node e i st))"
  by (auto simp: app_can_config_node_def Let_def can_quiet_upd split: option.splits)

lemma can_quiet_start_nodes: "can_quiet st \<Longrightarrow> can_quiet (snd (start_nodes e is st))"
proof (induction e "is" st rule: start_nodes.induct)
  case (2 e i "is" st)
  obtain r st1 where c: "app_can_config_node e (of_nat i) st = (r, st1)" by (cases "app_can_config_node e (of_nat i) st")
  have "can_quiet st1" using can_quiet_config [OF 2(3), of e "of_nat i"] c by simp
  then show ?case
    using 2(1) [OF c [symmetric] refl] 2(2) [OF c [symmetric] refl] c
    by (auto simp: Let_def can_quiet_upd)
qed simp

lemma can_quiet_start: "can_quiet st \<Longrightarrow> can_quiet (snd (app_can_start e st))"
  using can_quiet_start_nodes [of st e "[0..<CAN_NODE_ALL]"]
  by (auto simp: app_can_start_def Let_def can_quiet_def split: prod.splits)

definition can_running :: "can_env \<Rightarrow> can_state" where
  "can_running e = snd (app_can_start e (snd (app_can_init can_boot)))"

lemma can_quiet_running: "can_quiet (can_running e)"
proof -
  have "can_quiet (snd (app_can_init can_boot))"
    by (auto simp: can_quiet_def app_can_init_def can_boot_def can_nodes_boot_def can_node_def
        dest!: less_3_cases)
  then show ?thesis unfolding can_running_def by (rule can_quiet_start)
qed

lemma online_iff_state:
  assumes st_def: "st = fold can_step es (can_running env)"
  shows "app_can_is_online i st = (unat i < 3 \<and>
      (\<exists>pre t m post. es = pre @ CanRx i t m # post \<and> is_life m \<and> app_can_get_life i st = msg_data m ! 0
        \<and> list_all (\<lambda>e. case e of CanRx j now m \<Rightarrow> j \<noteq> i \<or> \<not> is_life m
                      | CanMonitor now \<Rightarrow> now - t < 5000) post))
    \<and> (app_can_is_online i st \<or> app_can_get_life i st = 0)"
proof (cases "unat i < 3")
  case False
  then show ?thesis by (simp add: app_can_is_online_def app_can_get_life_def dvr_const)
next
  case True
  let ?n = "g_can_nodes st ! unat i"
  have q: "can_wf (can_running env)" "alive (g_can_nodes (can_running env) ! unat i) = None"
    using can_quiet_running [of env] True by (auto simp: can_quiet_def can_wf_def alive_def)
  have al: "alive ?n = fold (life_spec i) es None" and wf: "can_wf st"
    using can_run_refines [OF q(1) True, of es] q(2) by (simp_all add: st_def)
  have on: "app_can_is_online i st = online ?n" "app_can_get_life i st = life ?n"
    using True by (simp_all add: app_can_is_online_def app_can_get_life_def dvr_const)
  have "online ?n \<longleftrightarrow> (\<exists>pre t m post. es = pre @ CanRx i t m # post \<and> is_life m \<and> life ?n = msg_data m ! 0
      \<and> (\<forall>e \<in> set post. case e of CanRx j now m \<Rightarrow> \<not> (j = i \<and> is_life m) | CanMonitor now \<Rightarrow> now - t < 5000))"
    (is "_ \<longleftrightarrow> (\<exists>pre t m post. ?R pre t m post)")
  proof
    assume "online ?n"
    then have "fold (life_spec i) es None = Some (last_rx_ms ?n, life ?n)"
      using al by (simp add: alive_def)
    from life_spec_Some [OF this] show "\<exists>pre t m post. ?R pre t m post" by metis
  next
    assume "\<exists>pre t m post. ?R pre t m post"
    then obtain pre t m post where "?R pre t m post" by blast
    then have "fold (life_spec i) es None = Some (t, msg_data m ! 0)"
      using life_spec_keeps [of post i t "msg_data m ! 0"] by simp
    then show "online ?n" using al by (auto simp: alive_def split: if_splits)
  qed
  moreover have "online ?n \<or> life ?n = 0"
    using wf True by (auto simp: can_wf_def)
  ultimately show ?thesis
    using True unfolding on list_all_iff
    by (simp add: de_Morgan_conj cong: can_event.case_cong)
qed

section \<open>Properties\<close>

text \<open>
  C37: a node counts as online exactly when some valid life frame of that node was handled
  and no monitor round since then, with no newer life frame in between, saw it 5000 ms old or older;
  the reported life value is then the first data byte of that frame, and an offline node reports 0.
  This holds after any sequence of messages and monitor rounds from the started system.
\<close>

theorem can_online_iff:
  "let st = fold can_step es (can_running env) in
    app_can_is_online i st = (unat i < 3 \<and>
      (\<exists>pre t m post. es = pre @ CanRx i t m # post \<and> is_life m \<and> app_can_get_life i st = msg_data m ! 0
        \<and> list_all (\<lambda>e. case e of CanRx j now m \<Rightarrow> \<not> (j = i \<and> is_life m)
                      | CanMonitor now \<Rightarrow> now - t < 5000) post))
    \<and> (app_can_is_online i st \<or> app_can_get_life i st = 0)"
  unfolding Let_def de_Morgan_conj by (rule online_iff_state) (rule refl)

text \<open>
  The start sequence reports success exactly when it marks the system started; then both
  enabled nodes have a device, a semaphore with count 0 and a receive thread, and the monitor
  runs; a second start of a started system changes nothing. The disabled third node is left without
  a device in every case.
\<close>

theorem can_start_outcome:
  "(fst (app_can_start e (snd (app_can_init can_boot))) = RT_EOK \<longleftrightarrow> g_can_started (can_running e))
   \<and> (g_can_started (can_running e) \<longrightarrow> g_can_monitor_thread (can_running e)
        \<and> list_all (\<lambda>n. rx_thread n \<and> rx_sem n = Some 0 \<and> dev n \<noteq> None) (take 2 (g_can_nodes (can_running e)))
        \<and> app_can_start e' (can_running e) = (RT_EOK, can_running e))
   \<and> dev (g_can_nodes (can_running e) ! 2) = None"
  by (auto simp: can_running_def app_can_start_def app_can_init_def can_boot_def can_nodes_boot_def
      can_node_def upt_3 dvr_const app_can_config_node_def Let_def upd_node_def
      split: option.splits if_splits)

definition can_env_ok :: can_env where
  "can_env_ok = \<lparr>rt_device_find = (\<lambda>n. Some 7), rt_sem_create = (\<lambda>_. True),
     rt_device_open = (\<lambda>_. RT_EOK), rt_device_control = (\<lambda>_ _. RT_EOK),
     rt_device_set_rx_indicate = (\<lambda>_. RT_EOK), rt_thread_create = (\<lambda>_. True)\<rparr>"

theorem can_start_outcome_witness:
  "g_can_started (can_running can_env_ok) \<and> g_can_monitor_thread (can_running can_env_ok)"
proof -
  have "g_can_started (can_running can_env_ok)"
    by code_simp
  then show ?thesis using can_start_outcome [of can_env_ok can_env_ok] by blast
qed

text \<open>
  Transmission: an invalid node, a node without device and a length over 8 are refused
  without touching the device; otherwise exactly one message goes to the node's device, an extended
  frame exactly when the identifier exceeds 0x7FF, carrying the identifier modulo 2 to the 29, the
  length, the given bytes and zero padding, and the result tells whether the device accepted it.
\<close>

theorem can_send_format:
  assumes "unat len \<le> length bs"
  shows "(case app_can_send_ex w i cid (Some bs) len st of
      (r, None) \<Rightarrow> r = (if unat i < 3 \<and> dev (g_can_nodes st ! unat i) = None then RT_ENOSYS else RT_EINVAL)
                   \<and> (3 \<le> unat i \<or> dev (g_can_nodes st ! unat i) = None \<or> 8 < unat len)
    | (r, Some (d, m)) \<Rightarrow> unat i < 3 \<and> dev (g_can_nodes st ! unat i) = Some d \<and> unat len \<le> 8
        \<and> unat (msg_id m) = unat cid mod 2 ^ 29 \<and> msg_ide m = (0x7FF < unat cid)
        \<and> msg_len m = len \<and> length (msg_data m) = 64
        \<and> take (unat len) (msg_data m) = take (unat len) bs
        \<and> drop (unat len) (msg_data m) = replicate (64 - unat len) 0
        \<and> r = (if w d m \<le> 0 then RT_ERROR else RT_EOK))"
proof (cases "unat i < 3 \<and> dev (g_can_nodes st ! unat i) \<noteq> None \<and> unat len \<le> 8")
  case False
  then show ?thesis
    by (auto simp: app_can_send_ex_def dvr_const word_less_nat_alt split: option.splits)
next
  case True
  then obtain d where d: "dev (g_can_nodes st ! unat i) = Some d" by auto
  have z: "len = 0 \<Longrightarrow> unat len = 0" by simp
  have "unat (ucast cid :: 29 word) = unat cid mod 2 ^ 29"
    by (simp add: unsigned_ucast_eq take_bit_eq_mod)
  then show ?thesis
    using True d assms z
    by (cases "len = 0") (auto simp: app_can_send_ex_def dvr_const word_less_nat_alt can_tx_msg_def Let_def)
qed

theorem can_send_format_witness:
  "unat (2 :: u8) \<le> length [0x11, 0x22, 0x33 :: u8]
   \<and> (case app_can_send_ex (\<lambda>_ _. 16) 0 0x18FF0001 (Some [0x11, 0x22, 0x33]) 2 (can_running can_env_ok) of
       (r, None) \<Rightarrow> False
     | (r, Some (d, m)) \<Rightarrow> r = RT_EOK \<and> d = 7 \<and> msg_ide m \<and> take 2 (msg_data m) = [0x11, 0x22])"
proof -
  have d: "dev (g_can_nodes (can_running can_env_ok) ! 0) = Some 7" by code_simp
  then have "snd (app_can_send_ex (\<lambda>_ _. 16) 0 0x18FF0001 (Some [0x11, 0x22, 0x33]) 2
      (can_running can_env_ok)) \<noteq> None"
    by (simp add: app_can_send_ex_def dvr_const Let_def)
  then show ?thesis
    using can_send_format [where len = 2 and bs = "[0x11, 0x22, 0x33]" and w = "\<lambda>_ _. 16" and i = 0
        and cid = "0x18FF0001" and st = "can_running can_env_ok"] d
    by (auto split: prod.splits option.splits)
qed

end
