(* ===== verification/Uart_Ring.thy ===== *)
theory Uart_Ring
  imports Dvr_Prelude
begin

text \<open>
  The receive ring of the serial protocol (\<open>app_uart_cmd_ring_push\<close>,
  \<open>app_uart_cmd_ring_pop\<close> of \<open>src/applications/app_usart_cmd.c\<close>), an instance of the locale
  \<open>bounded_fifo\<close> its clients rely on. The buffer is a function from index to byte; only the indices
  below the buffer size are ever used.
\<close>

section \<open>Data\<close>

record app_uart_cmd_ring =
  rbuf :: "nat \<Rightarrow> u8"
  rhead :: nat
  rtail :: nat
  rcount :: nat

definition APP_UART_CMD_RX_BUF_SIZE :: nat where [dvr_const]: "APP_UART_CMD_RX_BUF_SIZE = 4096"

section \<open>Operations\<close>

definition app_uart_cmd_ring_push :: "app_uart_cmd_ring \<Rightarrow> u8 \<Rightarrow> bool \<times> app_uart_cmd_ring" where
  "app_uart_cmd_ring_push ring byte =
     (if APP_UART_CMD_RX_BUF_SIZE \<le> rcount ring then (False, ring)
      else (True, ring\<lparr>rbuf := (rbuf ring)(rhead ring := byte),
                       rhead := ((rhead ring + 1) mod APP_UART_CMD_RX_BUF_SIZE) mod 65536,
                       rcount := (rcount ring + 1) mod 65536\<rparr>))"

definition app_uart_cmd_ring_pop :: "app_uart_cmd_ring \<Rightarrow> (u8 \<times> app_uart_cmd_ring) option" where
  "app_uart_cmd_ring_pop ring =
     (if rcount ring = 0 then None
      else Some (rbuf ring (rtail ring),
                 ring\<lparr>rtail := ((rtail ring + 1) mod APP_UART_CMD_RX_BUF_SIZE) mod 65536,
                      rcount := rcount ring - 1\<rparr>))"

definition ring_zero :: app_uart_cmd_ring where
  "ring_zero = \<lparr>rbuf = (\<lambda>_. 0), rhead = 0, rtail = 0, rcount = 0\<rparr>"

section \<open>The ring as a bounded queue\<close>

definition ring_ok :: "app_uart_cmd_ring \<Rightarrow> bool" where
  "ring_ok r \<longleftrightarrow> rtail r < 4096 \<and> rcount r \<le> 4096 \<and> rhead r = (rtail r + rcount r) mod 4096"

definition ring_queue :: "app_uart_cmd_ring \<Rightarrow> bytes" where
  "ring_queue r = map (\<lambda>i. rbuf r ((rtail r + i) mod 4096)) [0..<rcount r]"

lemma length_ring_queue [simp]: "length (ring_queue r) = rcount r"
  by (simp add: ring_queue_def)

lemma slot_neq_head:
  assumes "t < (4096::nat)" "i < c" "c < 4096"
  shows "(t + i) mod 4096 \<noteq> (t + c) mod 4096"
proof
  assume "(t + i) mod 4096 = (t + c) mod 4096"
  then have "(t + c - (t + i)) mod 4096 = 0"
    using assms by (metis mod_eq_dvd_iff_nat dvd_imp_mod_0 add_le_cancel_left less_imp_le)
  then show False using assms by simp
qed

lemma ring_push_ok:
  assumes "ring_ok r" "rcount r < 4096"
  shows "\<exists>r'. app_uart_cmd_ring_push r x = (True, r') \<and> ring_ok r' \<and> ring_queue r' = ring_queue r @ [x]"
proof -
  let ?r' = "r\<lparr>rbuf := (rbuf r)(rhead r := x), rhead := (rhead r + 1) mod 4096, rcount := rcount r + 1\<rparr>"
  have t: "rtail r < 4096" and h: "rhead r = (rtail r + rcount r) mod 4096"
    using assms by (auto simp: ring_ok_def)
  have "app_uart_cmd_ring_push r x = (True, ?r')"
    using assms by (simp add: app_uart_cmd_ring_push_def dvr_const)
  moreover have "ring_ok ?r'"
    using assms by (simp add: ring_ok_def mod_Suc_eq)
  moreover have "ring_queue ?r' = ring_queue r @ [x]"
    using slot_neq_head [OF t _ assms(2)] by (auto simp: ring_queue_def h)
  ultimately show ?thesis by blast
qed

lemma upt_Suc_shift: "[0..<Suc n] = 0 # map Suc [0..<n]"
  by (simp add: map_Suc_upt upt_conv_Cons del: upt_Suc)

lemma ring_pop_ok:
  assumes "ring_ok r" "ring_queue r = x # xs"
  shows "\<exists>r'. app_uart_cmd_ring_pop r = Some (x, r') \<and> ring_ok r' \<and> ring_queue r' = xs"
proof -
  have c: "rcount r = Suc (length xs)" using assms(2) length_ring_queue [of r] by simp
  have t: "rtail r < 4096" using assms(1) by (simp add: ring_ok_def)
  let ?r' = "r\<lparr>rtail := (rtail r + 1) mod 4096, rcount := length xs\<rparr>"
  have q: "rbuf r (rtail r) # map (\<lambda>i. rbuf r ((rtail r + Suc i) mod 4096)) [0..<length xs] = x # xs"
    using assms(2) t unfolding ring_queue_def c upt_Suc_shift by (simp add: comp_def)
  then have "app_uart_cmd_ring_pop r = Some (x, ?r')"
    using c by (simp add: app_uart_cmd_ring_pop_def dvr_const)
  moreover have "ring_ok ?r'" using assms(1) c by (simp add: ring_ok_def mod_simps)
  moreover have "ring_queue ?r' = xs"
    using q by (simp add: ring_queue_def mod_simps)
  ultimately show ?thesis by blast
qed

interpretation ring: bounded_fifo app_uart_cmd_ring_push app_uart_cmd_ring_pop ring_queue ring_ok 4096
proof
  show "ring_ok r \<Longrightarrow> length (ring_queue r) = 4096 \<Longrightarrow> app_uart_cmd_ring_push r x = (False, r)" for r x
    by (simp add: app_uart_cmd_ring_push_def dvr_const)
  show "ring_ok r \<Longrightarrow> length (ring_queue r) \<le> 4096" for r
    by (simp add: ring_ok_def)
  show "ring_ok r \<Longrightarrow> ring_queue r = [] \<Longrightarrow> app_uart_cmd_ring_pop r = None" for r
    by (metis app_uart_cmd_ring_pop_def length_0_conv length_ring_queue)
qed (use ring_push_ok ring_pop_ok in auto)

lemma ring_zero_ok: "ring_ok ring_zero" "ring_queue ring_zero = []"
  by (simp_all add: ring_zero_def ring_ok_def ring_queue_def)

section \<open>Properties\<close>

text \<open>
  The ring is a bounded first-in first-out queue: from a cleared ring, after pushing any
  bytes it holds the first 4096 of them in order (the rest are refused, not overwritten), pushes keep
  the invariant, and a pop delivers the oldest byte or reports an empty ring.
\<close>

theorem ring_is_fifo:
  "ring_queue (fold (\<lambda>x r. snd (app_uart_cmd_ring_push r x)) bs ring_zero) = take 4096 bs
   \<and> (case app_uart_cmd_ring_pop (fold (\<lambda>x r. snd (app_uart_cmd_ring_push r x)) bs ring_zero) of
        None \<Rightarrow> bs = []
      | Some (b, r') \<Rightarrow> bs \<noteq> [] \<and> b = hd bs \<and> ring_queue r' = tl (take 4096 bs) \<and> ring_ok r')"
proof -
  let ?r = "fold (\<lambda>x r. snd (app_uart_cmd_ring_push r x)) bs ring_zero"
  have r: "ring_ok ?r" "ring_queue ?r = take 4096 bs"
    using ring.push_all_queued [OF ring_zero_ok(1), of bs] ring_zero_ok(2) by (simp_all add: ring.push_all_def)
  show ?thesis
  proof (cases bs)
    case Nil
    then show ?thesis using r ring.pop_empty [OF r(1)] by simp
  next
    case (Cons b bs')
    then have "ring_queue ?r = b # take 4095 bs'" using r(2) by (simp add: take_Cons')
    from ring.pop_next [OF r(1) this] show ?thesis using r(2) Cons by (auto simp: take_Cons')
  qed
qed

end
