(* ===== verification/Uart_Crc.thy ===== *)
theory Uart_Crc
  imports Dvr_Prelude
begin

unbundle bit_operations_syntax

text \<open>
  The CRC of the serial protocol (\<open>app_uart_cmd_crc16\<close>, \<open>app_uart_cmd_check_crc\<close> of
  \<open>src/applications/app_usart_cmd.c\<close>): a table-driven routine that works on half bytes, with a
  bitwise reference it is proved equal to.
\<close>

section \<open>The routine\<close>

definition crc16_half_byte :: "u16 list" where
  "crc16_half_byte =
     [0x0000, 0x1021, 0x2042, 0x3063, 0x4084, 0x50A5, 0x60C6, 0x70E7,
      0x8108, 0x9129, 0xA14A, 0xB16B, 0xC18C, 0xD1AD, 0xE1CE, 0xF1EF]"

definition crc_half :: "u8 \<Rightarrow> u16 \<Rightarrow> u16" where
  "crc_half nib crc =
     (let da = (ucast (drop_bit 4 (drop_bit 8 crc)) :: u8)
      in push_bit 4 crc XOR crc16_half_byte ! unat (da XOR nib))"

definition app_uart_cmd_crc16 :: "bytes option \<Rightarrow> nat \<Rightarrow> u16" where
  "app_uart_cmd_crc16 data len =
     (case data of None \<Rightarrow> 0
      | Some bs \<Rightarrow> fold (\<lambda>b crc. crc_half (b AND 0x0F) (crc_half (drop_bit 4 b) crc)) (take len bs) 0)"

definition app_uart_cmd_check_crc :: "bytes option \<Rightarrow> nat \<Rightarrow> bool" where
  "app_uart_cmd_check_crc buf len =
     (case buf of None \<Rightarrow> False
      | Some bs \<Rightarrow>
          if len < 6 then False
          else
            let data_len = (len - 6) mod 256;
                calc_crc = app_uart_cmd_crc16 (Some (drop 3 bs)) data_len;
                recv_crc = (ucast (bs ! (len - 3)) :: u16) OR push_bit 8 (ucast (bs ! (len - 2)))
            in calc_crc = recv_crc)"

section \<open>The bitwise reference\<close>

text \<open>CRC-16 with polynomial 0x1021, initial value 0, most significant bit first.\<close>

definition crc_bit :: "u16 \<Rightarrow> u16" where
  "crc_bit crc = (if bit crc 15 then push_bit 1 crc XOR 0x1021 else push_bit 1 crc)"

definition crc_byte_ref :: "u8 \<Rightarrow> u16 \<Rightarrow> u16" where
  "crc_byte_ref b crc = (crc_bit ^^ 8) (crc XOR push_bit 8 (ucast b))"

definition crc16_ref :: "bytes \<Rightarrow> u16" where
  "crc16_ref bs = fold crc_byte_ref bs 0"

section \<open>Equivalence\<close>

definition poly_if :: "bool \<Rightarrow> u16 \<Rightarrow> u16" where
  "poly_if c w = (if c then w else 0)"

lemma crc_bit_eq: "crc_bit x = push_bit 1 x XOR poly_if (bit x 15) 0x1021"
  by (simp add: crc_bit_def poly_if_def)

lemma bit_poly_if: "bit (poly_if c w) n \<longleftrightarrow> c \<and> bit w n"
  by (simp add: poly_if_def)

lemma push_poly_if: "push_bit k (poly_if c w) = poly_if c (push_bit k w)"
  by (simp add: poly_if_def)

lemma crc_bit_4:
  "(crc_bit ^^ 4) x = push_bit 4 x XOR poly_if (bit x 15) 0x8108 XOR poly_if (bit x 14) 0x4084
     XOR poly_if (bit x 13) 0x2042 XOR poly_if (bit x 12) 0x1021"
proof -
  let ?x1 = "push_bit 1 x XOR poly_if (bit x 15) 0x1021"
  let ?x2 = "push_bit 2 x XOR poly_if (bit x 15) 0x2042 XOR poly_if (bit x 14) 0x1021"
  let ?x3 = "push_bit 3 x XOR poly_if (bit x 15) 0x4084 XOR poly_if (bit x 14) 0x2042 XOR poly_if (bit x 13) 0x1021"
  have b1: "bit ?x1 15 = bit x 14" by (simp only: bit_xor_iff bit_push_bit_iff bit_poly_if) simp
  have b2: "bit ?x2 15 = bit x 13" by (simp only: bit_xor_iff bit_push_bit_iff bit_poly_if) simp
  have b3: "bit ?x3 15 = bit x 12" by (simp only: bit_xor_iff bit_push_bit_iff bit_poly_if) simp
  have p: "push_bit 1 (0x1021 :: u16) = 0x2042" "push_bit 1 (0x2042 :: u16) = 0x4084"
      "push_bit 1 (0x4084 :: u16) = 0x8108" and a: "1 + 1 = (2::nat)" "1 + 2 = (3::nat)" "1 + 3 = (4::nat)"
    by simp_all
  have s1: "crc_bit x = ?x1" by (rule crc_bit_eq)
  have s2: "crc_bit ?x1 = ?x2"
    unfolding crc_bit_eq [of ?x1] b1 by (simp only: push_bit_xor push_poly_if push_bit_push_bit p a xor.assoc)
  have s3: "crc_bit ?x2 = ?x3"
    unfolding crc_bit_eq [of ?x2] b2 by (simp only: push_bit_xor push_poly_if push_bit_push_bit p a xor.assoc)
  have "(crc_bit ^^ 4) x = crc_bit (crc_bit (crc_bit (crc_bit x)))"
    by (simp add: numeral_eq_Suc)
  also have "\<dots> = crc_bit ?x3" by (simp only: s1 s2 s3)
  finally show ?thesis
    unfolding crc_bit_eq [of ?x3] b3 by (simp only: push_bit_xor push_poly_if push_bit_push_bit p a xor.assoc)
qed

text \<open>The table entry of a half byte is the sum of the polynomials of its bits.\<close>

lemma table_entry:
  assumes "n < 16"
  shows "crc16_half_byte ! n = poly_if (bit n 3) 0x8108 XOR poly_if (bit n 2) 0x4084
     XOR poly_if (bit n 1) 0x2042 XOR poly_if (bit n 0) 0x1021"
proof -
  have "n \<in> set [0..<16]" using assms by simp
  moreover have "\<forall>n \<in> set [0..<16]. crc16_half_byte ! n = poly_if (bit n 3) 0x8108 XOR poly_if (bit n 2) 0x4084
     XOR poly_if (bit n 1) 0x2042 XOR poly_if (bit n 0) 0x1021"
    by code_simp
  ultimately show ?thesis by blast
qed

lemma half_index:
  fixes crc :: u16 and nib :: u8
  assumes "nib < 16"
  defines "n \<equiv> unat ((ucast (drop_bit 4 (drop_bit 8 crc)) :: u8) XOR nib)"
  shows "n < 16" "k < 4 \<Longrightarrow> bit n k = (bit crc (12 + k) \<noteq> bit nib k)"
proof -
  have hi: "\<not> bit nib j" if "4 \<le> j" for j
  proof -
    have "nib = take_bit 4 nib"
      using assms(1)
      by (simp add: word_unat_eq_iff unsigned_take_bit_eq take_bit_nat_eq_self word_less_nat_alt)
    then show ?thesis using that by (metis bit_take_bit_iff not_le)
  qed
  have b: "bit n j = (j < 8 \<and> bit crc (12 + j) \<noteq> bit nib j)" for j
    unfolding n_def using bit_imp_le_length [of crc "12 + j"] bit_imp_le_length [of nib j]
    by (auto simp: bit_unsigned_iff bit_xor_iff bit_ucast_iff bit_drop_bit_eq)
  have "take_bit 4 n = n"
  proof (rule bit_eqI)
    fix j
    show "bit (take_bit 4 n) j = bit n j"
      using b [of j] hi [of j] bit_imp_le_length [of crc "12 + j"]
      by (cases "j < 4") (auto simp: bit_take_bit_iff)
  qed
  then show "n < 16" using take_bit_nat_less_exp [of 4 n] by simp
  show "k < 4 \<Longrightarrow> bit n k = (bit crc (12 + k) \<noteq> bit nib k)" using b [of k] by simp
qed

lemma crc_half_bits:
  assumes "nib < 16"
  shows "crc_half nib crc = (crc_bit ^^ 4) (crc XOR push_bit 12 (ucast nib))"
proof -
  let ?x = "crc XOR push_bit 12 (ucast nib)"
  have low: "push_bit 4 ?x = push_bit 4 crc"
    by (rule bit_word_eqI) (auto simp: bit_push_bit_iff bit_xor_iff)
  have top: "bit ?x (12 + k) = (bit crc (12 + k) \<noteq> bit nib k)" if "k < 4" for k
    using that by (auto simp: bit_push_bit_iff bit_xor_iff bit_ucast_iff)
  show ?thesis
    unfolding crc_bit_4 low crc_half_def Let_def table_entry [OF half_index(1) [OF assms]]
    using half_index(2) [OF assms, of 0 crc] half_index(2) [OF assms, of 1 crc] half_index(2) [OF assms, of 2 crc]
      half_index(2) [OF assms, of 3 crc] top [of 0] top [of 1] top [of 2] top [of 3]
    by (simp add: xor.assoc)
qed

lemma crc_bit_pow_8: "(crc_bit ^^ 8) x = (crc_bit ^^ 4) ((crc_bit ^^ 4) x)"
  by (simp add: funpow_add [symmetric, THEN fun_cong, simplified comp_def])

lemma crc_bit_4_xor_low:
  assumes "push_bit 4 y = push_bit 4 y'" "\<And>k. 12 \<le> k \<Longrightarrow> bit y k = bit y' k"
  shows "(crc_bit ^^ 4) y = (crc_bit ^^ 4) y'"
  using assms unfolding crc_bit_4 by simp

lemma crc_bit_4_split:
  "(crc_bit ^^ 4) (x XOR z) = (crc_bit ^^ 4) x XOR push_bit 4 z" if "\<And>k. 12 \<le> k \<Longrightarrow> \<not> bit z k"
  using that unfolding crc_bit_4 by (simp add: bit_xor_iff push_bit_xor xor.assoc xor.commute xor.left_commute)

lemma crc_byte_halves:
  "crc_half (b AND 0x0F) (crc_half (drop_bit 4 b) crc) = crc_byte_ref b crc"
proof -
  have t: "b AND 0x0F = take_bit 4 b" by (simp add: take_bit_eq_mask mask_numeral)
  have h: "drop_bit 4 b < 16"
    using unat_lt_u8 [of b]
    by (simp add: word_less_nat_alt drop_bit_eq_div unat_div div_less_iff_less_mult)
  have l: "b AND 0x0F < 16"
    unfolding t using take_bit_nat_less_exp [of 4 "unat b"]
    by (simp add: word_less_nat_alt unsigned_take_bit_eq)
  let ?hi = "push_bit 12 (ucast (drop_bit 4 b) :: u16)" and ?lo = "push_bit 8 (ucast (b AND 0x0F) :: u16)"
  have lo: "\<not> bit ?lo k" if "12 \<le> k" for k
    unfolding t using that by (auto simp: bit_push_bit_iff bit_ucast_iff bit_take_bit_iff)
  have split: "push_bit 8 (ucast b :: u16) = ?hi XOR ?lo"
  proof (rule bit_word_eqI)
    fix n assume n: "n < LENGTH(16)"
    have "12 \<le> n \<Longrightarrow> 4 + (n - 12) = n - 8" by simp
    then show "bit (push_bit 8 (ucast b :: u16)) n = bit (?hi XOR ?lo) n"
      unfolding t using n by (cases "12 \<le> n")
        (auto simp: bit_push_bit_iff bit_xor_iff bit_ucast_iff bit_take_bit_iff bit_drop_bit_eq)
  qed
  have "crc_byte_ref b crc = (crc_bit ^^ 4) ((crc_bit ^^ 4) ((crc XOR ?hi) XOR ?lo))"
    by (simp only: crc_byte_ref_def crc_bit_pow_8 split xor.assoc)
  also have "\<dots> = (crc_bit ^^ 4) ((crc_bit ^^ 4) (crc XOR ?hi) XOR push_bit 4 ?lo)"
    by (subst crc_bit_4_split [OF lo]) simp_all
  also have "push_bit 4 ?lo = push_bit 12 (ucast (b AND 0x0F))" by (simp add: push_bit_push_bit)
  finally show ?thesis by (simp only: crc_half_bits [OF h] crc_half_bits [OF l])
qed

lemma crc16_eq_ref: "app_uart_cmd_crc16 (Some bs) len = crc16_ref (take len bs)"
  by (simp add: app_uart_cmd_crc16_def crc16_ref_def crc_byte_halves)

section \<open>Error detection\<close>

lemma xor_cancel: "(a :: u16) XOR c = b XOR c \<Longrightarrow> a = b"
  by (drule arg_cong [of _ _ "\<lambda>z. z XOR c"]) (simp add: xor.assoc)

lemma crc_bit_inj: "crc_bit x = crc_bit y \<Longrightarrow> x = y"
proof -
  assume eq: "crc_bit x = crc_bit y"
  have b0: "bit (crc_bit w) 0 = bit w 15" for w
    by (simp only: crc_bit_eq bit_xor_iff bit_push_bit_iff bit_poly_if) simp
  then have top: "bit x 15 = bit y 15" using eq by metis
  then have sh: "push_bit 1 x = push_bit 1 y"
    using eq xor_cancel unfolding crc_bit_eq by simp
  show "x = y"
  proof (rule bit_word_eqI)
    fix n assume n: "n < LENGTH(16)"
    show "bit x n = bit y n"
    proof (cases "n = 15")
      case False
      then have "bit (push_bit 1 x) (Suc n) = bit x n" "bit (push_bit 1 y) (Suc n) = bit y n"
        using n by (simp_all only: bit_push_bit_iff) simp_all
      then show ?thesis using sh by simp
    qed (use top in simp)
  qed
qed

lemma crc_bit_pow_inj: "(crc_bit ^^ n) x = (crc_bit ^^ n) y \<Longrightarrow> x = y"
  by (induction n) (auto dest: crc_bit_inj)

lemma crc_byte_inj: "crc_byte_ref b x = crc_byte_ref b y \<Longrightarrow> x = y"
  unfolding crc_byte_ref_def by (drule crc_bit_pow_inj) (rule xor_cancel)

lemma crc_byte_change: "crc_byte_ref b x = crc_byte_ref c x \<Longrightarrow> b = c"
proof -
  assume "crc_byte_ref b x = crc_byte_ref c x"
  then have "x XOR push_bit 8 (ucast b) = x XOR push_bit 8 (ucast c)"
    unfolding crc_byte_ref_def by (rule crc_bit_pow_inj)
  then have eq: "push_bit 8 (ucast b :: u16) = push_bit 8 (ucast c)"
    using xor_cancel [of "push_bit 8 (ucast b)" x "push_bit 8 (ucast c)"] by (simp only: xor.commute)
  show "b = c"
  proof (rule bit_word_eqI)
    fix n assume n: "n < LENGTH(8)"
    have "bit (push_bit 8 (ucast w :: u16)) (8 + n) = bit w n" for w :: u8
      using n by (simp add: bit_push_bit_iff bit_ucast_iff)
    then show "bit b n = bit c n" using eq by metis
  qed
qed

lemma crc16_ref_inj: "fold crc_byte_ref bs x = fold crc_byte_ref bs y \<Longrightarrow> x = y"
  by (induction bs arbitrary: x y) (auto dest: crc_byte_inj)

lemma crc16_ref_update:
  assumes "i < length bs" "b \<noteq> bs ! i"
  shows "crc16_ref (bs[i := b]) \<noteq> crc16_ref bs"
proof
  assume eq: "crc16_ref (bs[i := b]) = crc16_ref bs"
  have bs: "bs = take i bs @ bs ! i # drop (Suc i) bs"
    using assms(1) by (simp add: id_take_nth_drop)
  have "fold crc_byte_ref (take i bs @ b # drop (Suc i) bs) 0
      = fold crc_byte_ref (take i bs @ bs ! i # drop (Suc i) bs) 0"
    using eq assms(1) unfolding crc16_ref_def by (simp add: upd_conv_take_nth_drop bs [symmetric])
  then have "fold crc_byte_ref (drop (Suc i) bs) (crc_byte_ref b (fold crc_byte_ref (take i bs) 0))
      = fold crc_byte_ref (drop (Suc i) bs) (crc_byte_ref (bs ! i) (fold crc_byte_ref (take i bs) 0))"
    by simp
  then show False using assms(2) by (auto dest!: crc16_ref_inj crc_byte_change)
qed

section \<open>Properties\<close>

text \<open>
  C35: the half-byte table routine computes the CRC-16 with polynomial 0x1021 and initial value
  0, bit by bit and most significant bit first, over the given number of bytes.
\<close>

theorem crc16_table_correct:
  "app_uart_cmd_crc16 (Some bs) len = fold (\<lambda>b crc. (crc_bit ^^ 8) (crc XOR push_bit 8 (ucast b))) (take len bs) 0"
  by (simp add: crc16_eq_ref crc16_ref_def crc_byte_ref_def [abs_def])

end
