(* ===== verification/Uart_Parser.thy ===== *)
theory Uart_Parser
  imports Uart_Ring Uart_Crc
begin

unbundle bit_operations_syntax

text \<open>
  The frame parser of the serial protocol (the body of \<open>app_uart_cmd_try_parse_frame\<close> in
  \<open>src/applications/app_usart_cmd.c\<close>): a byte-driven state machine that cuts frames
  (0xAA, length, type, payload, CRC low, CRC high, 0x55) out of a byte stream and resynchronises on
  the next head byte after a bad frame. \<open>parser_byte\<close> is one iteration of its loop; the 8-bit
  counters are naturals with the wrap-around written out.
\<close>

section \<open>Data\<close>

definition APP_UART_CMD_FRAME_HEAD :: u8 where [dvr_const]: "APP_UART_CMD_FRAME_HEAD = 0xAA"
definition APP_UART_CMD_FRAME_TAIL :: u8 where [dvr_const]: "APP_UART_CMD_FRAME_TAIL = 0x55"
definition APP_UART_CMD_FRAME_MAX_SIZE :: nat where [dvr_const]: "APP_UART_CMD_FRAME_MAX_SIZE = 512"
definition APP_UART_CMD_TEXT_FRAME_TYPE :: u8 where [dvr_const]: "APP_UART_CMD_TEXT_FRAME_TYPE = 0x02"
definition APP_UART_CMD_TYPE_SOC_STATUS :: u8 where [dvr_const]: "APP_UART_CMD_TYPE_SOC_STATUS = 0x01"
definition APP_UART_CMD_TYPE_MCU_VERSION :: u8 where [dvr_const]: "APP_UART_CMD_TYPE_MCU_VERSION = 0x11"

record app_uart_cmd_frame =
  fr_data :: bytes
  fr_length :: nat

record uart_parser =
  ptemp :: "nat \<Rightarrow> u8"
  pindex :: nat
  pexpect :: nat

text \<open>
  What one iteration ends with: go on, return a frame, or go on after forcing the end of a text
  message (the call of \<open>app_uart_cmd_force_finish_text_frame\<close>).
\<close>

datatype parse_out = PContinue | PFrame app_uart_cmd_frame | PForceFinish

section \<open>The state machine\<close>

definition temp_bytes :: "uart_parser \<Rightarrow> nat \<Rightarrow> bytes" where
  "temp_bytes p n = map (ptemp p) [0..<n]"

definition parser_resync :: "uart_parser \<Rightarrow> uart_parser" where
  "parser_resync p =
     (case find (\<lambda>i. ptemp p i = APP_UART_CMD_FRAME_HEAD) [1..<pindex p] of
        None \<Rightarrow> p\<lparr>pindex := 0, pexpect := 0\<rparr>
      | Some next_head \<Rightarrow>
          let remain_len = (pindex p - next_head) mod 256;
              p = p\<lparr>ptemp := (\<lambda>i. if i < remain_len then ptemp p (next_head + i) else ptemp p i),
                    pindex := remain_len, pexpect := 0\<rparr>
          in if 2 \<le> pindex p
             then let e = unat (ptemp p 1)
                  in if e < 6 \<or> APP_UART_CMD_FRAME_MAX_SIZE < e
                     then p\<lparr>pindex := 0, pexpect := 0\<rparr> else p\<lparr>pexpect := e\<rparr>
             else p)"

definition parser_byte :: "u8 \<Rightarrow> uart_parser \<Rightarrow> parse_out \<times> uart_parser" where
  "parser_byte byte p =
     (if pindex p = 0
      then (if byte \<noteq> APP_UART_CMD_FRAME_HEAD then (PContinue, p)
            else (PContinue, p\<lparr>ptemp := (ptemp p)(0 := byte), pindex := 1, pexpect := 0\<rparr>))
      else
        let p = p\<lparr>ptemp := (ptemp p)(pindex p := byte), pindex := (pindex p + 1) mod 256\<rparr> in
        if pindex p = 2
        then (let e = unat (ptemp p 1) in
              if e < 6 \<or> APP_UART_CMD_FRAME_MAX_SIZE < e
              then (let p = p\<lparr>pindex := 0, pexpect := 0\<rparr>
                    in (PContinue, if byte = APP_UART_CMD_FRAME_HEAD
                                   then p\<lparr>ptemp := (ptemp p)(0 := byte), pindex := 1\<rparr> else p))
              else (PContinue, p\<lparr>pexpect := e\<rparr>))
        else if pindex p = 3 \<and> ptemp p 2 \<noteq> APP_UART_CMD_TYPE_SOC_STATUS
                \<and> ptemp p 2 \<noteq> APP_UART_CMD_TEXT_FRAME_TYPE
        then (PContinue, p\<lparr>pindex := 0, pexpect := 0\<rparr>)
        else if pindex p < pexpect p then (PContinue, p)
        else if ptemp p (pexpect p - 1) = APP_UART_CMD_FRAME_TAIL
                \<and> app_uart_cmd_check_crc (Some (temp_bytes p (pexpect p))) (pexpect p)
        then (PFrame \<lparr>fr_data = temp_bytes p (pexpect p), fr_length = pexpect p\<rparr>,
              p\<lparr>pindex := 0, pexpect := 0\<rparr>)
        else (if 7 \<le> pexpect p \<and> ptemp p 2 = APP_UART_CMD_TEXT_FRAME_TYPE \<and> ptemp p 3 = 1
              then PForceFinish else PContinue,
              parser_resync p))"

text \<open>The outputs of the parser over a byte sequence.\<close>

fun parser_run :: "bytes \<Rightarrow> uart_parser \<Rightarrow> parse_out list \<times> uart_parser" where
  "parser_run [] p = ([], p)"
| "parser_run (b # bs) p =
     (let (out, p) = parser_byte b p; (outs, p) = parser_run bs p in (out # outs, p))"

definition frames_of :: "parse_out list \<Rightarrow> app_uart_cmd_frame list" where
  "frames_of outs = List.map_filter (\<lambda>out. case out of PFrame f \<Rightarrow> Some f | _ \<Rightarrow> None) outs"

definition parser_zero :: uart_parser where
  "parser_zero = \<lparr>ptemp = (\<lambda>_. 0), pindex = 0, pexpect = 0\<rparr>"

section \<open>Well-formed frames\<close>

definition wf_frame :: "bytes \<Rightarrow> bool" where
  "wf_frame f \<longleftrightarrow> 6 \<le> length f \<and> unat (f ! 1) = length f \<and> f ! 0 = 0xAA \<and> f ! (length f - 1) = 0x55
     \<and> (ucast (f ! (length f - 3)) :: u16) OR push_bit 8 (ucast (f ! (length f - 2)))
         = crc16_ref (take (length f - 6) (drop 3 f))"

lemma wf_frame_length: "wf_frame f \<Longrightarrow> 6 \<le> length f \<and> length f \<le> 255"
  using unat_lt_u8 [of "f ! 1"] by (auto simp: wf_frame_def)

lemma check_crc_iff:
  assumes "length f = n" "6 \<le> n" "n \<le> 255"
  shows "app_uart_cmd_check_crc (Some f) n \<longleftrightarrow>
    (ucast (f ! (n - 3)) :: u16) OR push_bit 8 (ucast (f ! (n - 2))) = crc16_ref (take (n - 6) (drop 3 f))"
  using assms by (auto simp: app_uart_cmd_check_crc_def Let_def crc16_eq_ref)

text \<open>The frame with a given type and payload, as the protocol defines it.\<close>

definition mk_frame :: "u8 \<Rightarrow> bytes \<Rightarrow> bytes" where
  "mk_frame t payload =
     [0xAA, of_nat (length payload + 6), t] @ payload
     @ [ucast (crc16_ref payload), ucast (drop_bit 8 (crc16_ref payload)), 0x55]"

lemma mk_frame_wf:
  assumes "length payload \<le> 249"
  shows "wf_frame (mk_frame t payload)" "mk_frame t payload ! 2 = t"
proof -
  let ?f = "mk_frame t payload" and ?n = "length payload + 6"
  have l: "length ?f = ?n" by (simp add: mk_frame_def)
  have u: "unat (of_nat ?n :: u8) = ?n"
    using assms by (simp only: unsigned_of_nat) (simp add: take_bit_nat_eq_self)
  have tl: "?f ! (?n - 1) = 0x55" "?f ! (?n - 3) = ucast (crc16_ref payload)"
      "?f ! (?n - 2) = ucast (drop_bit 8 (crc16_ref payload))"
    by (simp_all add: mk_frame_def nth_append)
  have pl: "take (?n - 6) (drop 3 ?f) = payload" by (simp add: mk_frame_def)
  show "wf_frame ?f"
    unfolding wf_frame_def l tl pl using u join16 [of "crc16_ref payload"] by (simp add: mk_frame_def)
  show "?f ! 2 = t" by (simp add: mk_frame_def)
qed

section \<open>The invariant\<close>

definition parser_inv :: "uart_parser \<Rightarrow> bool" where
  "parser_inv p \<longleftrightarrow> pindex p \<le> 254
     \<and> (1 \<le> pindex p \<longrightarrow> ptemp p 0 = 0xAA)
     \<and> (2 \<le> pindex p \<longrightarrow> pexpect p = unat (ptemp p 1) \<and> 6 \<le> pexpect p)"

lemma parser_inv_zero: "parser_inv parser_zero"
  by (simp add: parser_inv_def parser_zero_def)

lemma find_SomeD: "find P xs = Some x \<Longrightarrow> x \<in> set xs \<and> P x"
  by (induction xs) (auto split: if_splits)

lemma parser_inv_resync:
  assumes "pindex p \<le> 255"
  shows "parser_inv (parser_resync p)"
proof (cases "find (\<lambda>i. ptemp p i = APP_UART_CMD_FRAME_HEAD) [1..<pindex p]")
  case None
  then show ?thesis by (simp add: parser_resync_def parser_inv_def)
next
  case (Some i)
  have i: "1 \<le> i" "i < pindex p" "ptemp p i = 0xAA"
    using find_SomeD [OF Some] by (auto simp: dvr_const)
  have m: "(pindex p - i) mod 256 = pindex p - i" "pindex p - i \<le> 254" "0 < pindex p - i"
    using i assms by auto
  show ?thesis
    unfolding parser_resync_def Some option.case Let_def m
    using m i unat_lt_u8 by (auto simp: parser_inv_def)
qed

text \<open>One iteration, by the number of bytes already collected.\<close>

definition pushed :: "u8 \<Rightarrow> uart_parser \<Rightarrow> uart_parser" where
  "pushed b p = p\<lparr>ptemp := (ptemp p)(pindex p := b), pindex := pindex p + 1\<rparr>"

lemma parser_byte_0:
  "pindex p = 0 \<Longrightarrow> parser_byte b p =
     (PContinue, if b = 0xAA then p\<lparr>ptemp := (ptemp p)(0 := b), pindex := 1, pexpect := 0\<rparr> else p)"
  by (simp add: parser_byte_def dvr_const)

lemma parser_byte_1:
  "pindex p = 1 \<Longrightarrow> parser_byte b p =
     (PContinue, if unat b < 6 then (pushed b p)\<lparr>pindex := 0, pexpect := 0\<rparr>
                 else (pushed b p)\<lparr>pexpect := unat b\<rparr>)"
  using unat_lt_u8 [of b] by (auto simp: parser_byte_def dvr_const Let_def pushed_def)

lemma parser_byte_2:
  assumes "2 \<le> pindex p" "pindex p \<le> 254"
  shows "parser_byte b p =
    (let q = pushed b p in
     if pindex q = 3 \<and> b \<noteq> 1 \<and> b \<noteq> 2 then (PContinue, q\<lparr>pindex := 0, pexpect := 0\<rparr>)
     else if pindex q < pexpect q then (PContinue, q)
     else if ptemp q (pexpect q - 1) = 0x55
        \<and> app_uart_cmd_check_crc (Some (temp_bytes q (pexpect q))) (pexpect q)
     then (PFrame \<lparr>fr_data = temp_bytes q (pexpect q), fr_length = pexpect q\<rparr>, q\<lparr>pindex := 0, pexpect := 0\<rparr>)
     else (if 7 \<le> pexpect q \<and> ptemp q 2 = 2 \<and> ptemp q 3 = 1 then PForceFinish else PContinue,
           parser_resync q))"
proof -
  have i: "(pindex p + 1) mod 256 = pindex p + 1" and n: "pindex p \<noteq> 0" "pindex p + 1 \<noteq> 2"
    using assms by simp_all
  have t: "pindex p + 1 = 3 \<Longrightarrow> ((ptemp p)(pindex p := b)) 2 = b"
    by (simp add: numeral_eq_Suc)
  show ?thesis
    unfolding parser_byte_def Let_def pushed_def uart_parser.select_convs uart_parser.update_convs
      uart_parser.surjective dvr_const
    using i n t by simp
qed

lemma length_temp_bytes [simp]: "length (temp_bytes p n) = n"
  by (simp add: temp_bytes_def)

lemma nth_temp_bytes: "i < n \<Longrightarrow> temp_bytes p n ! i = ptemp p i"
  by (simp add: temp_bytes_def)

lemma pushed_simps [simp]:
  "pindex (pushed b p) = pindex p + 1" "pexpect (pushed b p) = pexpect p"
  "i < pindex p \<Longrightarrow> ptemp (pushed b p) i = ptemp p i" "ptemp (pushed b p) (pindex p) = b"
  by (simp_all add: pushed_def)

lemma parser_inv_byte:
  assumes "parser_inv p"
  shows "parser_inv (snd (parser_byte b p))"
    and "fst (parser_byte b p) = PFrame f \<Longrightarrow> wf_frame (fr_data f) \<and> fr_length f = length (fr_data f)"
proof -
  consider "pindex p = 0" | "pindex p = 1" | "2 \<le> pindex p" by linarith
  then have "parser_inv (snd (parser_byte b p))
    \<and> (fst (parser_byte b p) = PFrame f \<longrightarrow> wf_frame (fr_data f) \<and> fr_length f = length (fr_data f))"
  proof cases
    case 1
    then show ?thesis using assms by (simp add: parser_byte_0 parser_inv_def)
  next
    case 2
    then show ?thesis
      using assms unat_lt_u8 [of b] by (auto simp: parser_byte_1 parser_inv_def pushed_def)
  next
    case 3
    let ?q = "pushed b p"
    have le: "pindex p \<le> 254" and ex: "pexpect p = unat (ptemp p 1)" "6 \<le> pexpect p" and hd: "ptemp p 0 = 0xAA"
      using assms 3 by (auto simp: parser_inv_def)
    have t: "ptemp ?q 0 = 0xAA" "ptemp ?q 1 = ptemp p 1" using 3 hd by (simp_all add: pushed_def)
    have e255: "pexpect p \<le> 255" using ex unat_lt_u8 [of "ptemp p 1"] by simp
    have rs: "parser_inv (parser_resync ?q)" using le by (intro parser_inv_resync) simp
    have more: "pindex p + 1 < pexpect p \<Longrightarrow> parser_inv ?q"
      using 3 t ex e255 by (simp add: parser_inv_def)
    let ?f = "temp_bytes ?q (pexpect p)"
    have wf: "wf_frame ?f" if "ptemp ?q (pexpect p - 1) = 0x55"
        "app_uart_cmd_check_crc (Some ?f) (pexpect p)"
      using that t ex e255 check_crc_iff [of ?f "pexpect p"] by (simp add: wf_frame_def nth_temp_bytes)
    show ?thesis
      unfolding parser_byte_2 [OF 3 le] Let_def
      using rs more wf by (auto simp: parser_inv_def)
  qed
  then show "parser_inv (snd (parser_byte b p))"
    and "fst (parser_byte b p) = PFrame f \<Longrightarrow> wf_frame (fr_data f) \<and> fr_length f = length (fr_data f)"
    by simp_all
qed

lemma parser_run_append:
  "parser_run (xs @ ys) p =
     (let (o1, p1) = parser_run xs p; (o2, p2) = parser_run ys p1 in (o1 @ o2, p2))"
  by (induction xs arbitrary: p) (simp_all add: Let_def split: prod.splits)

lemma frames_of_append [simp]: "frames_of (xs @ ys) = frames_of xs @ frames_of ys"
  by (simp add: frames_of_def map_filter_def)

lemma frames_of_simps [simp]:
  "frames_of [] = []" "frames_of (PContinue # os) = frames_of os"
  "frames_of (PForceFinish # os) = frames_of os" "frames_of (PFrame f # os) = f # frames_of os"
  by (simp_all add: frames_of_def List.map_filter_simps)

lemma frames_of_replicate [simp]: "frames_of (replicate n PContinue) = []"
  by (induction n) simp_all

lemma parser_run_inv:
  "parser_inv p \<Longrightarrow> parser_inv (snd (parser_run bs p))
     \<and> list_all (\<lambda>f. wf_frame (fr_data f) \<and> fr_length f = length (fr_data f)) (frames_of (fst (parser_run bs p)))"
proof (induction bs arbitrary: p)
  case (Cons b bs)
  obtain out q where q: "parser_byte b p = (out, q)" by (cases "parser_byte b p")
  have "parser_inv q" using parser_inv_byte(1) [OF Cons.prems, of b] q by simp
  note IH = Cons.IH [OF this]
  show ?case
    using IH q parser_inv_byte(2) [OF Cons.prems, of b] by (cases out) (auto split: prod.splits)
qed simp

lemma parser_run_junk:
  "pindex p = 0 \<Longrightarrow> 0xAA \<notin> set junk \<Longrightarrow> parser_run junk p = (replicate (length junk) PContinue, p)"
  by (induction junk) (auto simp: parser_byte_0)

text \<open>While a frame with a good head and length comes in, the parser holds the bytes so far.\<close>

definition framed :: "bytes \<Rightarrow> bool" where
  "framed f \<longleftrightarrow> 6 \<le> length f \<and> unat (f ! 1) = length f \<and> f ! 0 = 0xAA"

lemma wf_framed: "wf_frame f \<Longrightarrow> framed f"
  by (simp add: wf_frame_def framed_def)

lemma framed_length: "framed f \<Longrightarrow> 6 \<le> length f \<and> length f \<le> 255"
  using unat_lt_u8 [of "f ! 1"] by (auto simp: framed_def)

lemma parser_run_prefix:
  assumes wf: "framed f" and ty: "f ! 2 = 1 \<or> f ! 2 = 2" and p0: "pindex p = 0"
  shows "1 \<le> k \<Longrightarrow> k < length f \<Longrightarrow>
    \<exists>q. parser_run (take k f) p = (replicate k PContinue, q) \<and> pindex q = k \<and> (\<forall>i < k. ptemp q i = f ! i)
      \<and> (2 \<le> k \<longrightarrow> pexpect q = length f)"
proof (induction k)
  case (Suc k)
  have len: "6 \<le> length f" "length f \<le> 255" using framed_length [OF wf] by simp_all
  have tk: "take (Suc k) f = take k f @ [f ! k]" using Suc.prems by (simp add: take_Suc_conv_app_nth)
  show ?case
  proof (cases "k = 0")
    case True
    have "f ! 0 = 0xAA" using wf by (simp add: framed_def)
    then show ?thesis using True Suc.prems p0 tk by (simp add: parser_byte_0)
  next
    case False
    then obtain q where q: "parser_run (take k f) p = (replicate k PContinue, q)" "pindex q = k"
        "\<forall>i < k. ptemp q i = f ! i" "2 \<le> k \<longrightarrow> pexpect q = length f"
      using Suc by auto
    have run: "parser_run (take (Suc k) f) p = (replicate k PContinue @ [fst (parser_byte (f ! k) q)], snd (parser_byte (f ! k) q))"
      unfolding tk parser_run_append q(1) by (simp split: prod.splits)
    have rep: "replicate k PContinue @ [PContinue] = replicate (Suc k) PContinue"
      by (simp add: replicate_append_same)
    show ?thesis
    proof (cases "k = 1")
      case True
      have l: "unat (f ! 1) = length f" using wf by (simp add: framed_def)
      have "parser_byte (f ! k) q = (PContinue, (pushed (f ! k) q)\<lparr>pexpect := length f\<rparr>)"
        using q(2) True l len by (simp add: parser_byte_1)
      then show ?thesis
        using run rep q True by (auto simp: pushed_def less_Suc_eq)
    next
      case f2: False
      then have k2: "2 \<le> k" using False by simp
      have "k \<le> 254" using Suc.prems len by simp
      moreover have "k = 2 \<Longrightarrow> f ! k = 1 \<or> f ! k = 2" using ty by simp
      ultimately have "parser_byte (f ! k) q = (PContinue, pushed (f ! k) q)"
        using k2 q(2,4) Suc.prems by (auto simp: parser_byte_2 Let_def)
      then show ?thesis
        using run rep q k2 by (auto simp: pushed_def less_Suc_eq)
    qed
  qed
qed simp

lemma parser_run_frame:
  assumes wf: "wf_frame f" and ty: "f ! 2 = 1 \<or> f ! 2 = 2" and p0: "pindex p = 0"
  shows "\<exists>q. parser_run f p = (replicate (length f - 1) PContinue @ [PFrame \<lparr>fr_data = f, fr_length = length f\<rparr>], q)
    \<and> pindex q = 0"
proof -
  let ?k = "length f - 1"
  have len: "6 \<le> length f" "length f \<le> 255" using wf_frame_length [OF wf] by simp_all
  have kb: "1 \<le> ?k" "?k < length f" "2 \<le> ?k" using len by simp_all
  then obtain q where q: "parser_run (take ?k f) p = (replicate ?k PContinue, q)" "pindex q = ?k"
      "\<forall>i < ?k. ptemp q i = f ! i" "pexpect q = length f"
    using parser_run_prefix [OF wf_framed [OF wf] ty p0 kb(1,2)] by blast
  have f: "f = take ?k f @ [f ! ?k]"
    using len take_Suc_conv_app_nth [of ?k f] by simp
  let ?q = "pushed (f ! ?k) q"
  have tb: "temp_bytes ?q (length f) = f"
    using q(2,3) len by (intro nth_equalityI) (auto simp: nth_temp_bytes pushed_def)
  have tl: "ptemp ?q (length f - 1) = 0x55" using wf q(2) by (simp add: pushed_def wf_frame_def)
  have crc: "app_uart_cmd_check_crc (Some f) (length f)"
    using wf check_crc_iff [of f "length f"] len by (simp add: wf_frame_def)
  have "parser_byte (f ! ?k) q = (PFrame \<lparr>fr_data = f, fr_length = length f\<rparr>, ?q\<lparr>pindex := 0, pexpect := 0\<rparr>)"
    using parser_byte_2 [of q "f ! ?k"] q(2,4) len tb tl crc by (simp add: Let_def)
  then have "parser_run (take ?k f @ [f ! ?k]) p
      = (replicate ?k PContinue @ [PFrame \<lparr>fr_data = f, fr_length = length f\<rparr>], ?q\<lparr>pindex := 0, pexpect := 0\<rparr>)"
    unfolding parser_run_append q(1) by simp
  then show ?thesis unfolding f [symmetric] by auto
qed

text \<open>A stream of frames with noise between them.\<close>

fun stream :: "(bytes \<times> bytes) list \<Rightarrow> bytes" where
  "stream [] = []"
| "stream ((junk, f) # rest) = junk @ f @ stream rest"

lemma parser_run_stream:
  "pindex p = 0 \<Longrightarrow>
   list_all (\<lambda>(junk, f). 0xAA \<notin> set junk \<and> wf_frame f \<and> (f ! 2 = 1 \<or> f ! 2 = 2)) items \<Longrightarrow>
   frames_of (fst (parser_run (stream items) p)) = map (\<lambda>(junk, f). \<lparr>fr_data = f, fr_length = length f\<rparr>) items
   \<and> pindex (snd (parser_run (stream items) p)) = 0"
proof (induction items arbitrary: p)
  case (Cons it items)
  obtain junk f where it: "it = (junk, f)" by (cases it)
  then have h: "0xAA \<notin> set junk" "wf_frame f" "f ! 2 = 1 \<or> f ! 2 = 2" using Cons.prems by auto
  obtain q where q: "parser_run f p
      = (replicate (length f - 1) PContinue @ [PFrame \<lparr>fr_data = f, fr_length = length f\<rparr>], q)" "pindex q = 0"
    using parser_run_frame [OF h(2,3) Cons.prems(1)] by blast
  have c: "frames_of (replicate n PContinue) = []" for n by (induction n) simp_all
  obtain outs q' where r: "parser_run (stream items) q = (outs, q')" by (cases "parser_run (stream items) q")
  show ?case
    using Cons.IH [OF q(2)] Cons.prems(2) it c r
    by (simp add: parser_run_append parser_run_junk [OF Cons.prems(1) h(1)] q(1))
qed simp

section \<open>Properties\<close>

text \<open>
  C6: whatever bytes arrive, in whatever state the parser was left, every frame it returns is
  well formed: it starts with 0xAA, ends with 0x55, its second byte is its length, between 6 and 255,
  and its CRC matches its payload; and the collecting index never exceeds 254 between bytes, so
  neither the 8-bit counter nor the 512-byte buffer can overflow.
\<close>

theorem parser_frames_well_formed:
  assumes "parser_inv p"
  shows "pindex (snd (parser_run bs p)) \<le> 254
    \<and> parser_inv (snd (parser_run bs p))
    \<and> list_all (\<lambda>f. wf_frame (fr_data f) \<and> fr_length f = length (fr_data f))
        (frames_of (fst (parser_run bs p)))"
  using parser_run_inv [OF assms, of bs] unfolding parser_inv_def by blast

theorem parser_frames_well_formed_witness:
  "parser_inv parser_zero
   \<and> list_all (\<lambda>f. wf_frame (fr_data f) \<and> fr_length f = length (fr_data f))
       (frames_of (fst (parser_run [0xAA, 6, 1, 0, 0, 0x55, 0xAA, 9] parser_zero)))"
  using parser_frames_well_formed [OF parser_inv_zero, of "[0xAA, 6, 1, 0, 0, 0x55, 0xAA, 9]"] parser_inv_zero
  by blast

text \<open>
  C5: no frame is lost or altered: from the idle state, a stream of well-formed status and text
  frames, with any bytes other than the head byte between them, yields exactly these frames in order,
  and the parser is idle again.
\<close>

theorem parser_roundtrip:
  assumes "pindex p = 0"
    and "list_all (\<lambda>(junk, t, payload). 0xAA \<notin> set junk \<and> length payload \<le> 249 \<and> (t = 1 \<or> t = 2)) items"
  shows "map fr_data (frames_of (fst (parser_run (stream (map (\<lambda>(junk, t, payload). (junk, mk_frame t payload)) items)) p)))
      = map (\<lambda>(junk, t, payload). mk_frame t payload) items
    \<and> pindex (snd (parser_run (stream (map (\<lambda>(junk, t, payload). (junk, mk_frame t payload)) items)) p)) = 0"
proof -
  have "list_all (\<lambda>(junk, f). 0xAA \<notin> set junk \<and> wf_frame f \<and> (f ! 2 = 1 \<or> f ! 2 = 2))
      (map (\<lambda>(junk, t, payload). (junk, mk_frame t payload)) items)"
    using assms(2) by (auto simp: list_all_iff mk_frame_wf)
  from parser_run_stream [OF assms(1) this] show ?thesis by (simp add: case_prod_unfold)
qed

theorem parser_roundtrip_witness:
  "map fr_data (frames_of (fst (parser_run (stream [([0x55, 1], mk_frame 2 [1, 2, 3]), ([], mk_frame 1 [])]) parser_zero)))
     = [mk_frame 2 [1, 2, 3], mk_frame 1 []]"
  using parser_roundtrip [of parser_zero "[([0x55, 1], 2, [1, 2, 3]), ([], 1, [])]"]
  by (simp add: parser_zero_def)

lemma split16:
  fixes a b :: u8
  shows "ucast ((ucast a :: u16) OR push_bit 8 (ucast b)) = a"
    "ucast (drop_bit 8 ((ucast a :: u16) OR push_bit 8 (ucast b))) = b"
  by (rule bit_word_eqI, auto simp: bit_simps dest: bit_imp_le_length)+

lemma join16_inj:
  "((ucast a :: u16) OR push_bit 8 (ucast b)) = (ucast c OR push_bit 8 (ucast d)) \<Longrightarrow> (a :: u8) = c \<and> (b :: u8) = d"
  by (metis split16)

lemma wf_frame_update:
  assumes wf: "wf_frame f" and i: "i < length f"
  shows "wf_frame (f[i := b]) \<longleftrightarrow> b = f ! i \<or> i = 2"
proof (cases "b = f ! i")
  case True
  then show ?thesis using wf by simp
next
  case False
  let ?n = "length f" and ?g = "f[i := b]"
  have gi: "?g ! i = b" using i by simp
  have n: "6 \<le> ?n" using wf_frame_length [OF wf] by simp
  have w: "unat (f ! 1) = ?n" "f ! 0 = 0xAA" "f ! (?n - 1) = 0x55"
      "(ucast (f ! (?n - 3)) :: u16) OR push_bit 8 (ucast (f ! (?n - 2))) = crc16_ref (take (?n - 6) (drop 3 f))"
    using wf by (auto simp: wf_frame_def)
  consider "i = 0" | "i = 1" | "i = 2" | "3 \<le> i" "i < ?n - 3" | "i = ?n - 3" | "i = ?n - 2" | "i = ?n - 1"
    using i by linarith
  then show ?thesis
  proof cases
    case 1
    then have "?g ! 0 = b" using gi by simp
    then show ?thesis using False 1 w by (auto simp: wf_frame_def)
  next
    case 2
    then have "?g ! 1 = b" using gi by simp
    then show ?thesis using False 2 w by (auto simp: wf_frame_def word_unat_eq_iff)
  next
    case 3
    then show ?thesis using n w by (simp add: wf_frame_def drop_update_cancel)
  next
    case 4
    have "take (?n - 6) (drop 3 ?g) = (take (?n - 6) (drop 3 f))[i - 3 := b]"
      using 4 by (simp add: drop_update_swap take_update_swap)
    then have "crc16_ref (take (?n - 6) (drop 3 ?g)) \<noteq> crc16_ref (take (?n - 6) (drop 3 f))"
      using crc16_ref_update [of "i - 3" "take (?n - 6) (drop 3 f)" b] 4 False n by simp
    moreover have "?g ! (?n - 3) = f ! (?n - 3)" "?g ! (?n - 2) = f ! (?n - 2)" using 4 by simp_all
    ultimately show ?thesis using False 4 w by (auto simp: wf_frame_def)
  next
    case 5
    have "take (?n - 6) (drop 3 ?g) = take (?n - 6) (drop 3 f)" using 5 n by (simp add: drop_update_swap)
    moreover have "?g ! (?n - 3) = b" "?g ! (?n - 2) = f ! (?n - 2)" using 5 n gi by simp_all
    ultimately show ?thesis using False 5 w n join16_inj [of b "f ! (?n - 2)" "f ! i" "f ! (?n - 2)"] by (auto simp: wf_frame_def)
  next
    case 6
    have "take (?n - 6) (drop 3 ?g) = take (?n - 6) (drop 3 f)" using 6 n by (simp add: drop_update_swap)
    moreover have "?g ! (?n - 2) = b" "?g ! (?n - 3) = f ! (?n - 3)" using 6 n gi by simp_all
    ultimately show ?thesis using False 6 w n join16_inj [of "f ! (?n - 3)" b "f ! (?n - 3)" "f ! i"] by (auto simp: wf_frame_def)
  next
    case 7
    then have "?g ! (?n - 1) = b" using gi by simp
    then show ?thesis using False 7 w n by (auto simp: wf_frame_def)
  qed
qed

text \<open>A frame that is not well formed is consumed without being returned.\<close>

lemma parser_run_bad_frame:
  assumes fr: "framed f" and bad: "\<not> wf_frame f" and ty: "f ! 2 = 1 \<or> f ! 2 = 2" and p0: "pindex p = 0"
  shows "frames_of (fst (parser_run f p)) = []"
proof -
  let ?k = "length f - 1"
  have len: "6 \<le> length f" "length f \<le> 255" using framed_length [OF fr] by simp_all
  have kb: "1 \<le> ?k" "?k < length f" "2 \<le> ?k" using len by simp_all
  then obtain q where q: "parser_run (take ?k f) p = (replicate ?k PContinue, q)" "pindex q = ?k"
      "\<forall>i < ?k. ptemp q i = f ! i" "pexpect q = length f"
    using parser_run_prefix [OF fr ty p0 kb(1,2)] by blast
  have f: "f = take ?k f @ [f ! ?k]"
    using len take_Suc_conv_app_nth [of ?k f] by simp
  let ?q = "pushed (f ! ?k) q"
  have tb: "temp_bytes ?q (length f) = f"
    using q(2,3) len by (intro nth_equalityI) (auto simp: nth_temp_bytes pushed_def)
  have tl: "ptemp ?q (length f - 1) = f ! ?k" using q(2) by (simp add: pushed_def)
  have rej: "\<not> (f ! ?k = 0x55 \<and> app_uart_cmd_check_crc (Some f) (length f))"
    using fr bad check_crc_iff [of f "length f"] len by (simp add: wf_frame_def framed_def)
  have le: "2 \<le> pindex q" "pindex q \<le> 254" and nx: "pindex ?q = length f" "pexpect ?q = length f" "length f \<noteq> 3"
    using q(2,4) len by simp_all
  have "fst (parser_byte (f ! ?k) q) \<in> {PContinue, PForceFinish}"
    unfolding parser_byte_2 [OF le] Let_def nx tb tl using rej by auto
  then have "frames_of [fst (parser_byte (f ! ?k) q)] = []"
    by (auto simp: frames_of_def map_filter_simps)
  then have "frames_of (fst (parser_run (take ?k f @ [f ! ?k]) p)) = []"
    unfolding parser_run_append q(1) by (auto split: prod.splits)
  then show ?thesis unfolding f [symmetric] .
qed

text \<open>
  C7: a frame in which any one byte of the payload, of the CRC or the tail was changed on the line is
  not returned by the parser. The type byte is outside the range the CRC covers: a frame whose type
  was changed into the other known type is returned with the wrong type.
\<close>

theorem corrupted_frame_rejected:
  assumes "wf_frame f" "f ! 2 = 1 \<or> f ! 2 = 2" "pindex p = 0"
    and "3 \<le> i" "i < length f" "b \<noteq> f ! i" "t = 1 \<or> t = 2"
  shows "frames_of (fst (parser_run (f[i := b]) p)) = []
    \<and> map fr_data (frames_of (fst (parser_run (f[2 := t]) p))) = [f[2 := t]]"
proof
  have "framed (f[i := b])" using wf_framed [OF assms(1)] assms(4) by (simp add: framed_def)
  moreover have "\<not> wf_frame (f[i := b])" using wf_frame_update [OF assms(1,5)] assms(4,6) by simp
  ultimately show "frames_of (fst (parser_run (f[i := b]) p)) = []"
    using assms by (intro parser_run_bad_frame) auto
next
  have l: "6 \<le> length f" using wf_frame_length [OF assms(1)] by simp
  then have "wf_frame (f[2 := t])" using wf_frame_update [OF assms(1), of 2 t] by simp
  moreover have "f[2 := t] ! 2 = 1 \<or> f[2 := t] ! 2 = 2" using l assms(7) by simp
  ultimately show "map fr_data (frames_of (fst (parser_run (f[2 := t]) p))) = [f[2 := t]]"
    using parser_run_frame [OF _ _ assms(3)] by fastforce
qed

theorem corrupted_frame_rejected_witness:
  "frames_of (fst (parser_run ((mk_frame 1 [7, 8])[3 := 9]) parser_zero)) = []
   \<and> map fr_data (frames_of (fst (parser_run ((mk_frame 1 [7, 8])[2 := 2]) parser_zero))) = [(mk_frame 1 [7, 8])[2 := 2]]"
proof -
  have "wf_frame (mk_frame 1 [7, 8])" "mk_frame 1 [7, 8] ! 2 = 1" by (simp_all add: mk_frame_wf)
  moreover have "length (mk_frame 1 [7, 8]) = 8" "mk_frame 1 [7, 8] ! 3 = 7" by (simp_all add: mk_frame_def)
  ultimately show ?thesis
    using corrupted_frame_rejected [of "mk_frame 1 [7, 8]" parser_zero 3 9 2] by (simp add: parser_zero_def)
qed

end
