(* ===== verification/Svc_Storage.thy ===== *)
theory Svc_Storage
  imports Dvr_Prelude
begin

unbundle bit_operations_syntax

text \<open>
  The storage service (\<open>src/applications/svc_storage.c\<close>): records kept in an I2C EEPROM with a
  header (magic, version, length) and a checksum, written page by page and read back, for the
  mileage, the configuration, the VIN, the province and the city identifier; single-field access to
  the configuration by read-modify-write.

  The I2C bus with the chip behind it and the delay are the record \<open>i2c_ops\<close>, over a state
  type \<open>'b\<close> of the outside world: \<open>rt_i2c_transfer\<close> gives the number of messages
  transferred and, for a read, the bytes received. A struct in memory that the code casts to bytes
  is the list of its bytes; its fields are read at their offsets on the 32-bit target (the
  configuration record has three padding bytes before its checksum, the city record two).
\<close>

section \<open>Data\<close>

record i2c_msg =
  i2c_addr :: u16
  i2c_rd :: bool
  i2c_buf :: bytes
  i2c_len :: u16

record 'b i2c_ops =
  rt_i2c_transfer :: "i2c_msg \<Rightarrow> 'b \<Rightarrow> int \<times> bytes \<times> 'b"
  rt_thread_mdelay :: "nat \<Rightarrow> 'b \<Rightarrow> 'b"

record svc_storage_mileage =
  odo_km :: u32
  odo_rem_m :: u16
  odo_reserved :: u16

record svc_storage_plate_number =
  pn_valid :: u8
  province_index :: u8
  letter :: u8
  digits :: bytes

record svc_storage_config =
  local_phone :: bytes
  plate_class :: u8
  plate_color :: u8
  plate_number :: svc_storage_plate_number

text \<open>The VIN, province and city structs all are a validity byte and a character array.\<close>

record svc_storage_text =
  tx_valid :: u8
  tx_chars :: bytes

record 'b storage =
  g_eeprom_i2c_bus :: bool
  g_storage_mileage_shadow :: svc_storage_mileage
  bus :: 'b

definition SVC_EEPROM_I2C_ADDR_7BIT :: u16 where [dvr_const]: "SVC_EEPROM_I2C_ADDR_7BIT = 0x50"
definition SVC_EEPROM_PAGE_SIZE :: nat where [dvr_const]: "SVC_EEPROM_PAGE_SIZE = 32"
definition SVC_EEPROM_WRITE_DELAY_MS :: nat where [dvr_const]: "SVC_EEPROM_WRITE_DELAY_MS = 5"
definition SVC_STORAGE_MILEAGE_ADDR :: u16 where [dvr_const]: "SVC_STORAGE_MILEAGE_ADDR = 0x0000"
definition SVC_STORAGE_MAGIC :: u32 where [dvr_const]: "SVC_STORAGE_MAGIC = 0x4D494C45"
definition SVC_STORAGE_VERSION :: u16 where [dvr_const]: "SVC_STORAGE_VERSION = 1"
definition SVC_STORAGE_CONFIG_ADDR :: u16 where [dvr_const]: "SVC_STORAGE_CONFIG_ADDR = 0x0040"
definition SVC_STORAGE_CONFIG_MAGIC :: u32 where [dvr_const]: "SVC_STORAGE_CONFIG_MAGIC = 0x434F4E46"
definition SVC_STORAGE_CONFIG_VERSION :: u16 where [dvr_const]: "SVC_STORAGE_CONFIG_VERSION = 2"
definition SVC_STORAGE_VIN_ADDR :: u16 where [dvr_const]: "SVC_STORAGE_VIN_ADDR = 0x0100"
definition SVC_STORAGE_VIN_MAGIC :: u32 where [dvr_const]: "SVC_STORAGE_VIN_MAGIC = 0x56494E31"
definition SVC_STORAGE_VIN_VERSION :: u16 where [dvr_const]: "SVC_STORAGE_VIN_VERSION = 1"
definition SVC_STORAGE_PROVINCE_ID_ADDR :: u16 where [dvr_const]: "SVC_STORAGE_PROVINCE_ID_ADDR = 0x0140"
definition SVC_STORAGE_PROVINCE_ID_MAGIC :: u32 where [dvr_const]: "SVC_STORAGE_PROVINCE_ID_MAGIC = 0x50524944"
definition SVC_STORAGE_PROVINCE_ID_VERSION :: u16 where [dvr_const]: "SVC_STORAGE_PROVINCE_ID_VERSION = 1"
definition SVC_STORAGE_CITY_ID_ADDR :: u16 where [dvr_const]: "SVC_STORAGE_CITY_ID_ADDR = 0x0180"
definition SVC_STORAGE_CITY_ID_MAGIC :: u32 where [dvr_const]: "SVC_STORAGE_CITY_ID_MAGIC = 0x43495459"
definition SVC_STORAGE_CITY_ID_VERSION :: u16 where [dvr_const]: "SVC_STORAGE_CITY_ID_VERSION = 1"
definition SVC_STORAGE_PLATE_PROVINCE_COUNT :: u8 where [dvr_const]: "SVC_STORAGE_PLATE_PROVINCE_COUNT = 31"
definition SVC_STORAGE_VIN_LEN :: nat where [dvr_const]: "SVC_STORAGE_VIN_LEN = 17"
definition SVC_STORAGE_PROVINCE_ID_LEN :: nat where [dvr_const]: "SVC_STORAGE_PROVINCE_ID_LEN = 2"
definition SVC_STORAGE_CITY_ID_LEN :: nat where [dvr_const]: "SVC_STORAGE_CITY_ID_LEN = 4"

definition mileage_zero :: svc_storage_mileage where
  "mileage_zero = \<lparr>odo_km = 0, odo_rem_m = 0, odo_reserved = 0\<rparr>"

definition g_default_config :: svc_storage_config where
  "g_default_config =
     \<lparr>local_phone = replicate 11 0x30 @ [0], plate_class = 1, plate_color = 1,
      plate_number = \<lparr>pn_valid = 0, province_index = 0, letter = 0x41, digits = replicate 5 0x30 @ [0]\<rparr>\<rparr>"

section \<open>Checksum\<close>

definition svc_storage_checksum :: "bytes option \<Rightarrow> u16 \<Rightarrow> u32" where
  "svc_storage_checksum data len =
     (case data of None \<Rightarrow> 0
      | Some bs \<Rightarrow> fold (\<lambda>b sum. push_bit 5 sum - sum + ucast b) (take (unat len) bs) 0)"

definition svc_storage_config_set_default :: "svc_storage_config option \<Rightarrow> svc_storage_config option" where
  "svc_storage_config_set_default config = map_option (\<lambda>_. g_default_config) config"

section \<open>EEPROM access\<close>

definition mem_addr_bytes :: "u16 \<Rightarrow> bytes" where
  "mem_addr_bytes mem_addr = [ucast (drop_bit 8 mem_addr), ucast (mem_addr AND 0xFF)]"

definition svc_eeprom_write_page ::
  "'b i2c_ops \<Rightarrow> u16 \<Rightarrow> bytes option \<Rightarrow> u16 \<Rightarrow> 'b storage \<Rightarrow> bool \<times> 'b storage" where
  "svc_eeprom_write_page ops mem_addr data len st =
     (case data of
        None \<Rightarrow> (False, st)
      | Some bs \<Rightarrow>
          if \<not> g_eeprom_i2c_bus st \<or> len = 0 \<or> SVC_EEPROM_PAGE_SIZE < unat len then (False, st)
          else
            let buf = mem_addr_bytes mem_addr @ take (unat len) bs;
                msg = \<lparr>i2c_addr = SVC_EEPROM_I2C_ADDR_7BIT, i2c_rd = False, i2c_buf = buf,
                       i2c_len = len + 2\<rparr>;
                (n, _, b) = rt_i2c_transfer ops msg (bus st);
                st = st\<lparr>bus := b\<rparr>
            in if n \<noteq> 1 then (False, st)
               else (True, st\<lparr>bus := rt_thread_mdelay ops SVC_EEPROM_WRITE_DELAY_MS (bus st)\<rparr>))"

text \<open>
  The loop of \<open>svc_eeprom_write\<close>. The 16-bit casts are written out; the loop ends because
  \<open>write_len\<close> is at least one and never exceeds what is left.
\<close>

definition page_chunk :: "u16 \<Rightarrow> u16 \<Rightarrow> nat \<Rightarrow> nat" where
  "page_chunk mem_addr len offset =
     (let page_remain = (SVC_EEPROM_PAGE_SIZE - (unat mem_addr + offset) mod SVC_EEPROM_PAGE_SIZE) mod 65536;
          write_len = (unat len - offset) mod 65536
      in if page_remain < write_len then page_remain else write_len)"

lemma page_chunk_bounds:
  "offset < unat len \<Longrightarrow> 0 < page_chunk mem_addr len offset
     \<and> offset + page_chunk mem_addr len offset \<le> unat len
     \<and> (unat mem_addr + offset) mod 32 + page_chunk mem_addr len offset \<le> 32"
  using unat_lt_u16 [of len] by (auto simp: page_chunk_def Let_def dvr_const)

function eeprom_write_loop ::
  "'b i2c_ops \<Rightarrow> u16 \<Rightarrow> bytes \<Rightarrow> u16 \<Rightarrow> nat \<Rightarrow> 'b storage \<Rightarrow> bool \<times> 'b storage" where
  "eeprom_write_loop ops mem_addr data len offset st =
     (if \<not> offset < unat len then (True, st)
      else
        let write_len = page_chunk mem_addr len offset;
            (ok, st) = svc_eeprom_write_page ops (mem_addr + of_nat offset) (Some (drop offset data))
                         (of_nat write_len) st
        in if \<not> ok then (False, st)
           else eeprom_write_loop ops mem_addr data len ((offset + write_len) mod 65536) st)"
  by auto
termination
proof (relation "measure (\<lambda>(ops, a, d, len, offset, st). unat len - offset)", goal_cases)
  case (2 ops a d len offset st w x ok st')
  have b: "0 < page_chunk a len offset" "offset + page_chunk a len offset \<le> unat len"
    using 2(1) page_chunk_bounds [of offset len a] by simp_all
  then have "(offset + page_chunk a len offset) mod 65536 = offset + page_chunk a len offset"
    using unat_lt_u16 [of len] by simp
  then show ?case using 2(1,2) b by simp
qed simp

definition svc_eeprom_write ::
  "'b i2c_ops \<Rightarrow> u16 \<Rightarrow> bytes option \<Rightarrow> u16 \<Rightarrow> 'b storage \<Rightarrow> bool \<times> 'b storage" where
  "svc_eeprom_write ops mem_addr data len st =
     (case data of None \<Rightarrow> (False, st)
      | Some bs \<Rightarrow> if len = 0 then (False, st) else eeprom_write_loop ops mem_addr bs len 0 st)"

text \<open>
  The destination is a buffer of the caller: the model returns the bytes received. It is never null
  at the call sites.
\<close>

definition svc_eeprom_read :: "'b i2c_ops \<Rightarrow> u16 \<Rightarrow> u16 \<Rightarrow> 'b storage \<Rightarrow> bool \<times> bytes \<times> 'b storage" where
  "svc_eeprom_read ops mem_addr len st =
     (if \<not> g_eeprom_i2c_bus st \<or> len = 0 then (False, [], st)
      else
        let msg = \<lparr>i2c_addr = SVC_EEPROM_I2C_ADDR_7BIT, i2c_rd = False,
                   i2c_buf = mem_addr_bytes mem_addr, i2c_len = 2\<rparr>;
            (n, _, b) = rt_i2c_transfer ops msg (bus st);
            st = st\<lparr>bus := b\<rparr>
        in if n \<noteq> 1 then (False, [], st)
           else
             let msg = \<lparr>i2c_addr = SVC_EEPROM_I2C_ADDR_7BIT, i2c_rd = True, i2c_buf = [], i2c_len = len\<rparr>;
                 (n, data, b) = rt_i2c_transfer ops msg (bus st)
             in (n = 1, data, st\<lparr>bus := b\<rparr>))"

section \<open>Validity of records\<close>

definition header_ok :: "u32 \<Rightarrow> u16 \<Rightarrow> u16 \<Rightarrow> bytes \<Rightarrow> bool" where
  "header_ok mgc ver sz r \<longleftrightarrow> rd32 r 0 = mgc \<and> rd16 r 4 = ver \<and> rd16 r 6 = sz"

definition checksum_ok :: "u16 \<Rightarrow> bytes \<Rightarrow> bool" where
  "checksum_ok sz r \<longleftrightarrow> svc_storage_checksum (Some r) (sz - 4) = rd32 r (unat sz - 4)"

definition svc_storage_record_is_valid :: "bytes option \<Rightarrow> bool" where
  "svc_storage_record_is_valid rec =
     (case rec of None \<Rightarrow> False
      | Some r \<Rightarrow> header_ok SVC_STORAGE_MAGIC SVC_STORAGE_VERSION 20 r \<and> checksum_ok 20 r)"

definition is_digit :: "u8 \<Rightarrow> bool" where
  "is_digit ch \<longleftrightarrow> 0x30 \<le> ch \<and> ch \<le> 0x39"

definition is_upper :: "u8 \<Rightarrow> bool" where
  "is_upper ch \<longleftrightarrow> 0x41 \<le> ch \<and> ch \<le> 0x5A"

definition svc_storage_phone_digits_valid :: "bytes option \<Rightarrow> bool" where
  "svc_storage_phone_digits_valid d =
     (case d of None \<Rightarrow> False
      | Some ds \<Rightarrow> list_all (\<lambda>i. is_digit (ds ! i)) [0..<11] \<and> ds ! 11 = 0)"

definition svc_storage_plate_class_valid :: "u8 \<Rightarrow> bool" where
  "svc_storage_plate_class_valid c \<longleftrightarrow> 1 \<le> c \<and> c \<le> 5"

definition svc_storage_plate_color_valid :: "u8 \<Rightarrow> bool" where
  "svc_storage_plate_color_valid c \<longleftrightarrow> 1 \<le> c \<and> c \<le> 5"

definition svc_storage_plate_number_valid :: "svc_storage_plate_number option \<Rightarrow> bool" where
  "svc_storage_plate_number_valid p =
     (case p of None \<Rightarrow> False
      | Some pn \<Rightarrow> \<not> 1 < pn_valid pn \<and> province_index pn < SVC_STORAGE_PLATE_PROVINCE_COUNT
          \<and> is_upper (letter pn)
          \<and> list_all (\<lambda>i. is_digit (digits pn ! i) \<or> is_upper (digits pn ! i)) [0..<5]
          \<and> digits pn ! 5 = 0)"

definition svc_storage_vin_valid :: "svc_storage_text option \<Rightarrow> bool" where
  "svc_storage_vin_valid v =
     (case v of None \<Rightarrow> False
      | Some t \<Rightarrow> \<not> 1 < tx_valid t \<and> tx_chars t ! SVC_STORAGE_VIN_LEN = 0
          \<and> (tx_valid t = 0 \<or>
             list_all (\<lambda>i. is_digit (tx_chars t ! i) \<or> is_upper (tx_chars t ! i)) [0..<SVC_STORAGE_VIN_LEN]))"

definition svc_storage_province_id_valid :: "svc_storage_text option \<Rightarrow> bool" where
  "svc_storage_province_id_valid v =
     (case v of None \<Rightarrow> False
      | Some t \<Rightarrow> \<not> 1 < tx_valid t \<and> tx_chars t ! SVC_STORAGE_PROVINCE_ID_LEN = 0
          \<and> (tx_valid t = 0 \<or> list_all (\<lambda>i. is_digit (tx_chars t ! i)) [0..<SVC_STORAGE_PROVINCE_ID_LEN]))"

definition svc_storage_city_id_valid :: "svc_storage_text option \<Rightarrow> bool" where
  "svc_storage_city_id_valid v =
     (case v of None \<Rightarrow> False
      | Some t \<Rightarrow> \<not> 1 < tx_valid t \<and> tx_chars t ! SVC_STORAGE_CITY_ID_LEN = 0
          \<and> (tx_valid t = 0 \<or> list_all (\<lambda>i. is_digit (tx_chars t ! i)) [0..<SVC_STORAGE_CITY_ID_LEN]))"

text \<open>The payload fields of the records in memory.\<close>

definition mileage_of_record :: "bytes \<Rightarrow> svc_storage_mileage" where
  "mileage_of_record r = \<lparr>odo_km = rd32 r 8, odo_rem_m = rd16 r 12, odo_reserved = rd16 r 14\<rparr>"

definition text_of_record :: "nat \<Rightarrow> bytes \<Rightarrow> svc_storage_text" where
  "text_of_record n r = \<lparr>tx_valid = r ! 8, tx_chars = seg 9 (n + 1) r\<rparr>"

definition config_of_record :: "bytes \<Rightarrow> svc_storage_config" where
  "config_of_record r =
     \<lparr>local_phone = seg 8 12 r, plate_class = r ! 20, plate_color = r ! 21,
      plate_number = \<lparr>pn_valid = r ! 22, province_index = r ! 23, letter = r ! 24, digits = seg 25 6 r\<rparr>\<rparr>"

definition svc_storage_vin_record_is_valid :: "bytes option \<Rightarrow> bool" where
  "svc_storage_vin_record_is_valid rec =
     (case rec of None \<Rightarrow> False
      | Some r \<Rightarrow> header_ok SVC_STORAGE_VIN_MAGIC SVC_STORAGE_VIN_VERSION 32 r
          \<and> svc_storage_vin_valid (Some (text_of_record SVC_STORAGE_VIN_LEN r)) \<and> checksum_ok 32 r)"

definition svc_storage_province_id_record_is_valid :: "bytes option \<Rightarrow> bool" where
  "svc_storage_province_id_record_is_valid rec =
     (case rec of None \<Rightarrow> False
      | Some r \<Rightarrow> header_ok SVC_STORAGE_PROVINCE_ID_MAGIC SVC_STORAGE_PROVINCE_ID_VERSION 16 r
          \<and> svc_storage_province_id_valid (Some (text_of_record SVC_STORAGE_PROVINCE_ID_LEN r))
          \<and> checksum_ok 16 r)"

definition svc_storage_city_id_record_is_valid :: "bytes option \<Rightarrow> bool" where
  "svc_storage_city_id_record_is_valid rec =
     (case rec of None \<Rightarrow> False
      | Some r \<Rightarrow> header_ok SVC_STORAGE_CITY_ID_MAGIC SVC_STORAGE_CITY_ID_VERSION 20 r
          \<and> svc_storage_city_id_valid (Some (text_of_record SVC_STORAGE_CITY_ID_LEN r))
          \<and> checksum_ok 20 r)"

definition config_fields_valid :: "svc_storage_config \<Rightarrow> bool" where
  "config_fields_valid c \<longleftrightarrow> svc_storage_phone_digits_valid (Some (local_phone c))
     \<and> svc_storage_plate_class_valid (plate_class c)
     \<and> svc_storage_plate_color_valid (plate_color c)
     \<and> svc_storage_plate_number_valid (Some (plate_number c))"

definition svc_storage_config_record_is_valid :: "bytes option \<Rightarrow> bool" where
  "svc_storage_config_record_is_valid rec =
     (case rec of None \<Rightarrow> False
      | Some r \<Rightarrow> header_ok SVC_STORAGE_CONFIG_MAGIC SVC_STORAGE_CONFIG_VERSION 40 r
          \<and> config_fields_valid (config_of_record r) \<and> checksum_ok 40 r)"

section \<open>Building records\<close>

text \<open>
  A record under construction: zeroed memory, the header, the payload with its padding, and the
  checksum over everything before the checksum field.
\<close>

definition mk_record :: "u32 \<Rightarrow> u16 \<Rightarrow> u16 \<Rightarrow> bytes \<Rightarrow> bytes" where
  "mk_record mgc ver sz payload =
     (let body = le32 mgc @ le16 ver @ le16 sz @ payload;
          checksum = svc_storage_checksum (Some (body @ le32 0)) (sz - 4)
      in body @ le32 checksum)"

definition mileage_record :: "svc_storage_mileage \<Rightarrow> bytes" where
  "mileage_record m = mk_record SVC_STORAGE_MAGIC SVC_STORAGE_VERSION 20
     (le32 (odo_km m) @ le16 (odo_rem_m m) @ le16 (odo_reserved m))"

definition config_record :: "svc_storage_config \<Rightarrow> bytes" where
  "config_record c = mk_record SVC_STORAGE_CONFIG_MAGIC SVC_STORAGE_CONFIG_VERSION 40
     (local_phone c @ [plate_class c, plate_color c]
      @ [pn_valid (plate_number c), province_index (plate_number c), letter (plate_number c)]
      @ digits (plate_number c) @ replicate 2 0 @ replicate 3 0)"

definition vin_record :: "svc_storage_text \<Rightarrow> bytes" where
  "vin_record t = mk_record SVC_STORAGE_VIN_MAGIC SVC_STORAGE_VIN_VERSION 32
     (tx_valid t # tx_chars t @ [0])"

definition province_id_record :: "svc_storage_text \<Rightarrow> bytes" where
  "province_id_record t = mk_record SVC_STORAGE_PROVINCE_ID_MAGIC SVC_STORAGE_PROVINCE_ID_VERSION 16
     (tx_valid t # tx_chars t)"

definition city_id_record :: "svc_storage_text \<Rightarrow> bytes" where
  "city_id_record t = mk_record SVC_STORAGE_CITY_ID_MAGIC SVC_STORAGE_CITY_ID_VERSION 20
     (tx_valid t # tx_chars t @ replicate 2 0)"

section \<open>Operations\<close>

definition storage_boot :: "'b \<Rightarrow> 'b storage" where
  "storage_boot b = \<lparr>g_eeprom_i2c_bus = False, g_storage_mileage_shadow = mileage_zero, bus = b\<rparr>"

definition svc_storage_init :: "bool \<Rightarrow> 'b storage \<Rightarrow> rt_err \<times> 'b storage" where
  "svc_storage_init found st =
     (let st = st\<lparr>g_eeprom_i2c_bus := found\<rparr> in if \<not> found then (RT_ERROR, st) else (RT_EOK, st))"

text \<open>
  The common shape of the load functions (null bus, failed read or invalid record on one side, the
  record on the other) and of the save functions (write, read back, check the copy).
\<close>

definition read_record ::
  "'b i2c_ops \<Rightarrow> u16 \<Rightarrow> u16 \<Rightarrow> (bytes option \<Rightarrow> bool) \<Rightarrow> 'b storage \<Rightarrow> bytes option \<times> 'b storage" where
  "read_record ops addr sz is_valid st =
     (if \<not> g_eeprom_i2c_bus st then (None, st)
      else
        let (ok, r, st) = svc_eeprom_read ops addr sz st
        in if \<not> ok \<or> \<not> is_valid (Some r) then (None, st) else (Some r, st))"

definition write_verify ::
  "'b i2c_ops \<Rightarrow> u16 \<Rightarrow> u16 \<Rightarrow> (bytes option \<Rightarrow> bool) \<Rightarrow> bytes \<Rightarrow> 'b storage \<Rightarrow> bool \<times> 'b storage" where
  "write_verify ops addr sz is_valid rec st =
     (let (ok, st) = svc_eeprom_write ops addr (Some rec) sz st in
      if \<not> ok then (False, st)
      else
        let (ok, verify, st) = svc_eeprom_read ops addr sz st
        in if \<not> ok then (False, st) else (is_valid (Some verify), st))"

definition svc_storage_load_mileage ::
  "'b i2c_ops \<Rightarrow> svc_storage_mileage option \<Rightarrow> 'b storage
    \<Rightarrow> bool \<times> svc_storage_mileage option \<times> 'b storage" where
  "svc_storage_load_mileage ops mileage st =
     (case mileage of None \<Rightarrow> (False, None, st)
      | Some _ \<Rightarrow>
          let (r, st) = read_record ops SVC_STORAGE_MILEAGE_ADDR 20 svc_storage_record_is_valid st;
              m = (case r of None \<Rightarrow> mileage_zero | Some rec \<Rightarrow> mileage_of_record rec)
          in (True, Some m, st\<lparr>g_storage_mileage_shadow := m\<rparr>))"

definition svc_storage_save_mileage ::
  "'b i2c_ops \<Rightarrow> svc_storage_mileage option \<Rightarrow> 'b storage \<Rightarrow> bool \<times> 'b storage" where
  "svc_storage_save_mileage ops mileage st =
     (case mileage of None \<Rightarrow> (False, st)
      | Some m \<Rightarrow>
          let st = st\<lparr>g_storage_mileage_shadow := m\<rparr> in
          if \<not> g_eeprom_i2c_bus st then (False, st)
          else write_verify ops SVC_STORAGE_MILEAGE_ADDR 20 svc_storage_record_is_valid (mileage_record m) st)"

definition svc_storage_load_config ::
  "'b i2c_ops \<Rightarrow> svc_storage_config option \<Rightarrow> 'b storage
    \<Rightarrow> bool \<times> svc_storage_config option \<times> 'b storage" where
  "svc_storage_load_config ops config st =
     (case config of None \<Rightarrow> (False, None, st)
      | Some _ \<Rightarrow>
          let (r, st) = read_record ops SVC_STORAGE_CONFIG_ADDR 40 svc_storage_config_record_is_valid st
          in case r of None \<Rightarrow> (False, svc_storage_config_set_default config, st)
             | Some rec \<Rightarrow> (True, Some (config_of_record rec), st))"

definition svc_storage_save_config ::
  "'b i2c_ops \<Rightarrow> svc_storage_config option \<Rightarrow> 'b storage \<Rightarrow> bool \<times> 'b storage" where
  "svc_storage_save_config ops config st =
     (case config of None \<Rightarrow> (False, st)
      | Some c \<Rightarrow>
          if \<not> config_fields_valid c then (False, st)
          else if \<not> g_eeprom_i2c_bus st then (False, st)
          else write_verify ops SVC_STORAGE_CONFIG_ADDR 40 svc_storage_config_record_is_valid (config_record c) st)"

text \<open>The single-field functions work on a local configuration, never null.\<close>

definition load_local_config :: "'b i2c_ops \<Rightarrow> 'b storage \<Rightarrow> bool \<times> svc_storage_config \<times> 'b storage" where
  "load_local_config ops st =
     (let (result, c, st) = svc_storage_load_config ops (Some g_default_config) st
      in (result, the c, st))"

definition svc_storage_load_local_phone ::
  "'b i2c_ops \<Rightarrow> bytes option \<Rightarrow> 'b storage \<Rightarrow> bool \<times> bytes option \<times> 'b storage" where
  "svc_storage_load_local_phone ops phone st =
     (case phone of None \<Rightarrow> (False, None, st)
      | Some _ \<Rightarrow> let (result, c, st) = load_local_config ops st in (result, Some (local_phone c), st))"

definition svc_storage_save_local_phone :: "'b i2c_ops \<Rightarrow> bytes option \<Rightarrow> 'b storage \<Rightarrow> bool \<times> 'b storage" where
  "svc_storage_save_local_phone ops phone st =
     (if \<not> svc_storage_phone_digits_valid phone then (False, st)
      else let (_, c, st) = load_local_config ops st
           in svc_storage_save_config ops (Some (c\<lparr>local_phone := take 12 (the phone)\<rparr>)) st)"

definition svc_storage_load_plate_class ::
  "'b i2c_ops \<Rightarrow> u8 option \<Rightarrow> 'b storage \<Rightarrow> bool \<times> u8 option \<times> 'b storage" where
  "svc_storage_load_plate_class ops p st =
     (case p of None \<Rightarrow> (False, None, st)
      | Some _ \<Rightarrow> let (result, c, st) = load_local_config ops st in (result, Some (plate_class c), st))"

definition svc_storage_save_plate_class :: "'b i2c_ops \<Rightarrow> u8 option \<Rightarrow> 'b storage \<Rightarrow> bool \<times> 'b storage" where
  "svc_storage_save_plate_class ops p st =
     (case p of None \<Rightarrow> (False, st)
      | Some v \<Rightarrow>
          if \<not> svc_storage_plate_class_valid v then (False, st)
          else let (_, c, st) = load_local_config ops st
               in svc_storage_save_config ops (Some (c\<lparr>plate_class := v\<rparr>)) st)"

definition svc_storage_load_plate_color ::
  "'b i2c_ops \<Rightarrow> u8 option \<Rightarrow> 'b storage \<Rightarrow> bool \<times> u8 option \<times> 'b storage" where
  "svc_storage_load_plate_color ops p st =
     (case p of None \<Rightarrow> (False, None, st)
      | Some _ \<Rightarrow> let (result, c, st) = load_local_config ops st in (result, Some (plate_color c), st))"

definition svc_storage_save_plate_color :: "'b i2c_ops \<Rightarrow> u8 option \<Rightarrow> 'b storage \<Rightarrow> bool \<times> 'b storage" where
  "svc_storage_save_plate_color ops p st =
     (case p of None \<Rightarrow> (False, st)
      | Some v \<Rightarrow>
          if \<not> svc_storage_plate_color_valid v then (False, st)
          else let (_, c, st) = load_local_config ops st
               in svc_storage_save_config ops (Some (c\<lparr>plate_color := v\<rparr>)) st)"

definition svc_storage_load_plate_number ::
  "'b i2c_ops \<Rightarrow> svc_storage_plate_number option \<Rightarrow> 'b storage
    \<Rightarrow> bool \<times> svc_storage_plate_number option \<times> 'b storage" where
  "svc_storage_load_plate_number ops p st =
     (case p of None \<Rightarrow> (False, None, st)
      | Some _ \<Rightarrow> let (result, c, st) = load_local_config ops st in (result, Some (plate_number c), st))"

definition svc_storage_save_plate_number ::
  "'b i2c_ops \<Rightarrow> svc_storage_plate_number option \<Rightarrow> 'b storage \<Rightarrow> bool \<times> 'b storage" where
  "svc_storage_save_plate_number ops p st =
     (if \<not> svc_storage_plate_number_valid p then (False, st)
      else let (_, c, st) = load_local_config ops st
           in svc_storage_save_config ops (Some (c\<lparr>plate_number := the p\<rparr>)) st)"

definition load_text ::
  "'b i2c_ops \<Rightarrow> u16 \<Rightarrow> u16 \<Rightarrow> nat \<Rightarrow> (bytes option \<Rightarrow> bool) \<Rightarrow> svc_storage_text option \<Rightarrow> 'b storage
    \<Rightarrow> bool \<times> svc_storage_text option \<times> 'b storage" where
  "load_text ops addr sz n is_valid p st =
     (case p of None \<Rightarrow> (False, None, st)
      | Some _ \<Rightarrow>
          let (r, st) = read_record ops addr sz is_valid st
          in case r of None \<Rightarrow> (False, Some \<lparr>tx_valid = 0, tx_chars = replicate (n + 1) 0\<rparr>, st)
             | Some rec \<Rightarrow> (True, Some (text_of_record n rec), st))"

definition svc_storage_load_vin ::
  "'b i2c_ops \<Rightarrow> svc_storage_text option \<Rightarrow> 'b storage \<Rightarrow> bool \<times> svc_storage_text option \<times> 'b storage" where
  "svc_storage_load_vin ops =
     load_text ops SVC_STORAGE_VIN_ADDR 32 SVC_STORAGE_VIN_LEN svc_storage_vin_record_is_valid"

definition svc_storage_save_vin ::
  "'b i2c_ops \<Rightarrow> svc_storage_text option \<Rightarrow> 'b storage \<Rightarrow> bool \<times> 'b storage" where
  "svc_storage_save_vin ops vin st =
     (if \<not> svc_storage_vin_valid vin then (False, st)
      else if \<not> g_eeprom_i2c_bus st then (False, st)
      else write_verify ops SVC_STORAGE_VIN_ADDR 32 svc_storage_vin_record_is_valid (vin_record (the vin)) st)"

definition svc_storage_load_province_id ::
  "'b i2c_ops \<Rightarrow> svc_storage_text option \<Rightarrow> 'b storage \<Rightarrow> bool \<times> svc_storage_text option \<times> 'b storage" where
  "svc_storage_load_province_id ops =
     load_text ops SVC_STORAGE_PROVINCE_ID_ADDR 16 SVC_STORAGE_PROVINCE_ID_LEN
       svc_storage_province_id_record_is_valid"

definition svc_storage_save_province_id ::
  "'b i2c_ops \<Rightarrow> svc_storage_text option \<Rightarrow> 'b storage \<Rightarrow> bool \<times> 'b storage" where
  "svc_storage_save_province_id ops p st =
     (if \<not> svc_storage_province_id_valid p then (False, st)
      else if \<not> g_eeprom_i2c_bus st then (False, st)
      else write_verify ops SVC_STORAGE_PROVINCE_ID_ADDR 16 svc_storage_province_id_record_is_valid
             (province_id_record (the p)) st)"

definition svc_storage_load_city_id ::
  "'b i2c_ops \<Rightarrow> svc_storage_text option \<Rightarrow> 'b storage \<Rightarrow> bool \<times> svc_storage_text option \<times> 'b storage" where
  "svc_storage_load_city_id ops =
     load_text ops SVC_STORAGE_CITY_ID_ADDR 20 SVC_STORAGE_CITY_ID_LEN svc_storage_city_id_record_is_valid"

definition svc_storage_save_city_id ::
  "'b i2c_ops \<Rightarrow> svc_storage_text option \<Rightarrow> 'b storage \<Rightarrow> bool \<times> 'b storage" where
  "svc_storage_save_city_id ops p st =
     (if \<not> svc_storage_city_id_valid p then (False, st)
      else if \<not> g_eeprom_i2c_bus st then (False, st)
      else write_verify ops SVC_STORAGE_CITY_ID_ADDR 20 svc_storage_city_id_record_is_valid
             (city_id_record (the p)) st)"

section \<open>The checksum\<close>

definition sum_step :: "u8 \<Rightarrow> u32 \<Rightarrow> u32" where
  "sum_step b acc = 31 * acc + ucast b"

lemma sum_step_eq: "push_bit 5 acc - acc + ucast b = sum_step b acc"
  by (simp add: sum_step_def push_bit_eq_mult algebra_simps)

lemma checksum_fold: "svc_storage_checksum (Some bs) len = fold sum_step (take (unat len) bs) 0"
  by (simp add: svc_storage_checksum_def sum_step_eq)

lemma mult_31_inj: "(31 * s :: u32) = 31 * t \<Longrightarrow> s = t"
proof -
  assume "(31 * s :: u32) = 31 * t"
  then have "(3186588639 * 31) * s = (3186588639 * 31) * t" by (simp only: mult.assoc)
  moreover have "(3186588639 * 31 :: u32) = 1" by simp
  ultimately show "s = t" by (simp only: mult_1)
qed

lemma fold_sum_inj: "fold sum_step bs s = fold sum_step bs t \<Longrightarrow> s = t"
proof (induction bs arbitrary: s t)
  case (Cons b bs)
  then have "sum_step b s = sum_step b t" by simp
  then show ?case using mult_31_inj by (simp add: sum_step_def)
qed simp

lemma ucast_u8_u32_inj: "(ucast (a :: u8) :: u32) = ucast b \<Longrightarrow> a = b"
proof -
  assume "(ucast a :: u32) = ucast b"
  then have "unat (ucast a :: u32) = unat (ucast b :: u32)" by simp
  then show "a = b" by (simp add: word_unat_eq_iff)
qed

lemma fold_sum_change:
  assumes "i < length bs" "b \<noteq> bs ! i"
  shows "fold sum_step (bs[i := b]) s \<noteq> fold sum_step bs s"
proof
  assume eq: "fold sum_step (bs[i := b]) s = fold sum_step bs s"
  have bs: "bs = take i bs @ bs ! i # drop (Suc i) bs"
    using assms(1) by (simp add: id_take_nth_drop)
  have upd: "bs[i := b] = take i bs @ b # drop (Suc i) bs"
    using assms(1) by (simp add: upd_conv_take_nth_drop)
  have "fold sum_step (drop (Suc i) bs) (sum_step b (fold sum_step (take i bs) s))
      = fold sum_step (drop (Suc i) bs) (sum_step (bs ! i) (fold sum_step (take i bs) s))"
    using eq unfolding upd by (subst (asm) (2) bs) simp
  then have "sum_step b (fold sum_step (take i bs) s) = sum_step (bs ! i) (fold sum_step (take i bs) s)"
    by (rule fold_sum_inj)
  then show False
    using assms(2) ucast_u8_u32_inj [of b "bs ! i"] by (simp add: sum_step_def)
qed

text \<open>The polynomial the checksum is meant to compute.\<close>

definition poly31 :: "bytes \<Rightarrow> nat" where
  "poly31 bs = foldl (\<lambda>s b. 31 * s + unat b) 0 bs"

lemma fold_sum_poly: "unat (fold sum_step bs 0) = poly31 bs mod 2 ^ 32"
proof (induction bs rule: rev_induct)
  case (snoc b bs)
  then show ?case
    by (simp add: poly31_def sum_step_def unat_word_ariths mod_simps)
qed (simp add: poly31_def)

text \<open>A record with one byte changed fails its checksum, whichever byte it is.\<close>

lemma bit_byte_part:
  fixes a b c d :: u8
  assumes "n < 8"
  shows "bit ((ucast a :: u32) OR push_bit 8 (ucast b) OR push_bit 16 (ucast c) OR push_bit 24 (ucast d)) n = bit a n"
    "bit ((ucast a :: u32) OR push_bit 8 (ucast b) OR push_bit 16 (ucast c) OR push_bit 24 (ucast d)) (8 + n) = bit b n"
    "bit ((ucast a :: u32) OR push_bit 8 (ucast b) OR push_bit 16 (ucast c) OR push_bit 24 (ucast d)) (16 + n) = bit c n"
    "bit ((ucast a :: u32) OR push_bit 8 (ucast b) OR push_bit 16 (ucast c) OR push_bit 24 (ucast d)) (24 + n) = bit d n"
  using assms by (auto simp: bit_simps dest: bit_imp_le_length)

lemma split32:
  fixes a b c d :: u8
  defines "w \<equiv> (ucast a :: u32) OR push_bit 8 (ucast b) OR push_bit 16 (ucast c) OR push_bit 24 (ucast d)"
  shows "ucast w = a" "ucast (drop_bit 8 w) = b" "ucast (drop_bit 16 w) = c" "ucast (drop_bit 24 w) = d"
  unfolding w_def
  by (rule bit_word_eqI, simp only: bit_ucast_iff bit_drop_bit_eq o_def bit_byte_part len_num1 len_bit0, simp)+

lemma le32_rd32: "le32 (rd32 r k) = [r ! k, r ! (k + 1), r ! (k + 2), r ! (k + 3)]"
  by (simp only: le32_def rd32_def split32)

lemma rd32_cong: "rd32 r k = rd32 r' k \<Longrightarrow> j < 4 \<Longrightarrow> r ! (k + j) = r' ! (k + j)"
proof -
  assume eq: "rd32 r k = rd32 r' k" and j: "j < 4"
  have "[r ! k, r ! (k + 1), r ! (k + 2), r ! (k + 3)] = [r' ! k, r' ! (k + 1), r' ! (k + 2), r' ! (k + 3)]"
    using le32_rd32 [of r k] le32_rd32 [of r' k] eq by simp
  moreover have "j = 0 \<or> j = 1 \<or> j = 2 \<or> j = 3" using j by arith
  ultimately show "r ! (k + j) = r' ! (k + j)" by auto
qed

lemma checksum_ok_detects:
  assumes ok: "checksum_ok sz r" and len: "length r = unat sz" "4 \<le> unat sz"
    and i: "i < length r" "b \<noteq> r ! i"
  shows "\<not> checksum_ok sz (r[i := b])"
proof
  let ?n = "unat sz - 4"
  assume ok': "checksum_ok sz (r[i := b])"
  have n: "unat (sz - 4) = ?n"
    using len(2) by (simp add: unat_sub_if' word_le_nat_alt)
  have cs: "fold sum_step (take ?n r) 0 = rd32 r ?n"
      "fold sum_step (take ?n (r[i := b])) 0 = rd32 (r[i := b]) ?n"
    using ok ok' by (simp_all add: checksum_ok_def checksum_fold n)
  show False
  proof (cases "i < ?n")
    case True
    then have "take ?n (r[i := b]) = (take ?n r)[i := b]" by (simp add: take_update_swap)
    moreover have "rd32 (r[i := b]) ?n = rd32 r ?n" using True by (simp add: rd32_def)
    ultimately show False
      using cs fold_sum_change [of i "take ?n r" b 0] True i len by simp
  next
    case False
    then have "take ?n (r[i := b]) = take ?n r" by simp
    then have "rd32 (r[i := b]) ?n = rd32 r ?n" using cs by simp
    moreover have "i - ?n < 4" "?n + (i - ?n) = i" using False i(1) len by auto
    ultimately show False
      using rd32_cong [of "r[i := b]" ?n r "i - ?n"] i by simp
  qed
qed

section \<open>Layout of records\<close>

lemma length_mk_record [simp]: "length (mk_record mgc ver sz payload) = 12 + length payload"
  by (simp add: mk_record_def Let_def)

lemma mk_record_nth:
  "i < length payload \<Longrightarrow> mk_record mgc ver sz payload ! (8 + i) = payload ! i"
  by (simp add: mk_record_def Let_def nth_append)

lemma mk_record_header: "header_ok mgc ver sz (mk_record mgc ver sz payload)"
  by (simp add: header_ok_def mk_record_def Let_def dvr_layout)

lemma mk_record_checksum:
  assumes "12 + length payload = unat sz"
  shows "checksum_ok sz (mk_record mgc ver sz payload)"
proof -
  let ?body = "le32 mgc @ le16 ver @ le16 sz @ payload"
  have n: "unat (sz - 4) = unat sz - 4"
    using assms by (simp add: unat_sub_if' word_le_nat_alt)
  have l: "length ?body = unat sz - 4" using assms by simp
  have "rd32 (?body @ le32 c) (unat sz - 4) = c" for c
    using rd32_append [of ?body "unat sz - 4" "le32 c"] l by (simp add: rd32_le32_0)
  then show ?thesis
    using l by (simp add: checksum_ok_def mk_record_def Let_def checksum_fold n)
qed

lemma mk_record_seg:
  assumes "i + n \<le> length payload"
  shows "seg (8 + i) n (mk_record mgc ver sz payload) = seg i n payload"
  using assms
  by (intro nth_equalityI) (auto simp: length_seg seg_nth mk_record_nth add.assoc)

lemma mk_record_rd16:
  "i + 1 < length payload \<Longrightarrow> rd16 (mk_record mgc ver sz payload) (8 + i) = rd16 payload i"
  unfolding rd16_def using mk_record_nth [of i payload mgc ver sz] mk_record_nth [of "i + 1" payload mgc ver sz]
  by (simp add: add.assoc)

lemma mk_record_rd32:
  "i + 3 < length payload \<Longrightarrow> rd32 (mk_record mgc ver sz payload) (8 + i) = rd32 payload i"
  unfolding rd32_def using mk_record_nth [of i payload mgc ver sz] mk_record_nth [of "i + 1" payload mgc ver sz]
    mk_record_nth [of "i + 2" payload mgc ver sz] mk_record_nth [of "i + 3" payload mgc ver sz]
  by (simp add: add.assoc)

section \<open>The chip\<close>

text \<open>
  What the code relies on of the EEPROM, for a memory \<open>mem\<close>, a readiness \<open>rdy\<close> (no write
  cycle running) and an address pointer \<open>ptr\<close>: a write of at most one page that does not cross a
  page boundary is accepted by a ready chip and stored; after the write-cycle time the chip is ready
  again; a two-byte write sets the address pointer; a read of up to 256 bytes returns the bytes from the pointer on.
\<close>

definition wr_msg :: "bytes \<Rightarrow> i2c_msg" where
  "wr_msg buf = \<lparr>i2c_addr = SVC_EEPROM_I2C_ADDR_7BIT, i2c_rd = False, i2c_buf = buf,
     i2c_len = of_nat (length buf)\<rparr>"

definition rd_msg :: "u16 \<Rightarrow> i2c_msg" where
  "rd_msg n = \<lparr>i2c_addr = SVC_EEPROM_I2C_ADDR_7BIT, i2c_rd = True, i2c_buf = [], i2c_len = n\<rparr>"

definition eeprom_chip ::
  "'b i2c_ops \<Rightarrow> ('b \<Rightarrow> nat \<Rightarrow> u8) \<Rightarrow> ('b \<Rightarrow> bool) \<Rightarrow> ('b \<Rightarrow> nat) \<Rightarrow> bool" where
  "eeprom_chip ops mem rdy ptr \<longleftrightarrow>
     (\<forall>b a data. rdy b \<and> data \<noteq> [] \<and> unat a mod 32 + length data \<le> 32 \<longrightarrow>
        (\<exists>x b'. rt_i2c_transfer ops (wr_msg (mem_addr_bytes a @ data)) b = (1, x, b')
           \<and> mem b' = upd_mem (unat a) data (mem b)))
     \<and> (\<forall>b n. 5 \<le> n \<longrightarrow> rdy (rt_thread_mdelay ops n b) \<and> mem (rt_thread_mdelay ops n b) = mem b)
     \<and> (\<forall>b a. rdy b \<longrightarrow> (\<exists>x b'. rt_i2c_transfer ops (wr_msg (mem_addr_bytes a)) b = (1, x, b')
           \<and> rdy b' \<and> mem b' = mem b \<and> ptr b' = unat a))
     \<and> (\<forall>b n. rdy b \<and> 0 < unat n \<and> unat n \<le> 256 \<and> ptr b + unat n \<le> 65536 \<longrightarrow>
          (\<exists>b'. rt_i2c_transfer ops (rd_msg n) b = (1, map (mem b) [ptr b ..< ptr b + unat n], b')
             \<and> rdy b' \<and> mem b' = mem b))"

text \<open>A state in which the service can work: the bus is known and the chip is ready.\<close>

definition usable :: "('b \<Rightarrow> bool) \<Rightarrow> 'b storage \<Rightarrow> bool" where
  "usable rdy st \<longleftrightarrow> g_eeprom_i2c_bus st \<and> rdy (bus st)"

lemma length_mem_addr_bytes [simp]: "length (mem_addr_bytes a) = 2"
  by (simp add: mem_addr_bytes_def)

lemma write_page_chip:
  assumes chip: "eeprom_chip ops mem rdy ptr" and us: "usable rdy st"
    and len: "unat len \<le> length bs" "0 < unat len" "unat a mod 32 + unat len \<le> 32"
  obtains st' where "svc_eeprom_write_page ops a (Some bs) len st = (True, st')" "usable rdy st'"
    "mem (bus st') = upd_mem (unat a) (take (unat len) bs) (mem (bus st))"
    "g_storage_mileage_shadow st' = g_storage_mileage_shadow st"
proof -
  let ?d = "take (unat len) bs"
  have msg: "\<lparr>i2c_addr = SVC_EEPROM_I2C_ADDR_7BIT, i2c_rd = False, i2c_buf = mem_addr_bytes a @ ?d,
      i2c_len = len + 2\<rparr> = wr_msg (mem_addr_bytes a @ ?d)"
    using len(1) by (simp add: wr_msg_def min_absorb2)
  have l: "rdy (bus st)" "?d \<noteq> []" "unat a mod 32 + length ?d \<le> 32"
    using us len by (auto simp: usable_def)
  then obtain x b' where t: "rt_i2c_transfer ops (wr_msg (mem_addr_bytes a @ ?d)) (bus st) = (1, x, b')"
      "mem b' = upd_mem (unat a) ?d (mem (bus st))"
    using chip unfolding eeprom_chip_def by blast
  have d: "rdy (rt_thread_mdelay ops 5 b')" "mem (rt_thread_mdelay ops 5 b') = mem b'"
    using chip unfolding eeprom_chip_def by simp_all
  let ?st' = "st\<lparr>bus := rt_thread_mdelay ops 5 b'\<rparr>"
  have "len \<noteq> 0" using len(2) by auto
  then have "svc_eeprom_write_page ops a (Some bs) len st = (True, ?st')"
    using us len msg t by (simp add: svc_eeprom_write_page_def Let_def usable_def dvr_const)
  then show thesis using that d t us by (simp add: usable_def)
qed

lemma unat_add_nat_u16: "unat (a :: u16) + n < 65536 \<Longrightarrow> unat (a + of_nat n) = unat a + n"
  by (simp add: unat_word_ariths unsigned_of_nat take_bit_nat_eq_self)

declare eeprom_write_loop.simps [simp del]

lemma write_loop_chip:
  assumes chip: "eeprom_chip ops mem rdy ptr"
  shows "usable rdy st \<Longrightarrow> length data = unat len \<Longrightarrow> unat a + unat len \<le> 65536 \<Longrightarrow> offset \<le> unat len \<Longrightarrow>
    \<exists>st'. eeprom_write_loop ops a data len offset st = (True, st') \<and> usable rdy st'
      \<and> mem (bus st') = upd_mem (unat a + offset) (drop offset data) (mem (bus st))
      \<and> g_storage_mileage_shadow st' = g_storage_mileage_shadow st"
proof (induction "unat len - offset" arbitrary: offset st rule: less_induct)
  case less
  show ?case
  proof (cases "offset < unat len")
    case False
    then show ?thesis
      using less.prems by (auto simp: eeprom_write_loop.simps [of ops a data len] upd_mem_def fun_eq_iff)
  next
    case True
    let ?w = "page_chunk a len offset"
    have w: "0 < ?w" "offset + ?w \<le> unat len" "(unat a + offset) mod 32 + ?w \<le> 32"
      using page_chunk_bounds [OF True, of a] by auto
    have a: "unat (a + of_nat offset) = unat a + offset"
      using True less.prems(3) by (intro unat_add_nat_u16) simp
    have uw: "unat (of_nat ?w :: u16) = ?w"
      using w unat_lt_u16 [of len] by (simp add: unsigned_of_nat take_bit_nat_eq_self)
    have pre: "unat (of_nat ?w :: u16) \<le> length (drop offset data)" "0 < unat (of_nat ?w :: u16)"
        "unat (a + of_nat offset) mod 32 + unat (of_nat ?w :: u16) \<le> 32"
      unfolding uw a using w less.prems(2) by simp_all
    from write_page_chip [OF chip less.prems(1) pre] obtain st1 where
        st1: "svc_eeprom_write_page ops (a + of_nat offset) (Some (drop offset data)) (of_nat ?w) st = (True, st1)"
        "usable rdy st1"
        "mem (bus st1) = upd_mem (unat a + offset) (take ?w (drop offset data)) (mem (bus st))"
        "g_storage_mileage_shadow st1 = g_storage_mileage_shadow st"
      unfolding uw a .
    have nw: "(offset + ?w) mod 65536 = offset + ?w"
      using w unat_lt_u16 [of len] by simp
    have "unat len - (offset + ?w) < unat len - offset" using w(1) True by simp
    from less.hyps [OF this st1(2) less.prems(2,3) w(2)] obtain st2 where
        st2: "eeprom_write_loop ops a data len (offset + ?w) st1 = (True, st2)" "usable rdy st2"
        "mem (bus st2) = upd_mem (unat a + (offset + ?w)) (drop (offset + ?w) data) (mem (bus st1))"
        "g_storage_mileage_shadow st2 = g_storage_mileage_shadow st1"
      by blast
    have l: "length (take ?w (drop offset data)) = ?w" using w less.prems by simp
    have "mem (bus st2) = upd_mem (unat a + offset) (drop offset data) (mem (bus st))"
    proof -
      have "take ?w (drop offset data) @ drop (offset + ?w) data = drop offset data"
        by (metis append_take_drop_id drop_drop add.commute)
      then show ?thesis
        using upd_mem_upd_mem [of "unat a + offset" "take ?w (drop offset data)" "drop (offset + ?w) data"
            "mem (bus st)"] by (simp only: st2(3) st1(3) l add.assoc)
    qed
    then show ?thesis
      using True st1 st2 nw by (simp add: eeprom_write_loop.simps [of ops a data len offset] Let_def)
  qed
qed

lemma write_chip:
  assumes "eeprom_chip ops mem rdy ptr" "usable rdy st" "length data = unat len" "0 < unat len"
    "unat a + unat len \<le> 65536"
  obtains st' where "svc_eeprom_write ops a (Some data) len st = (True, st')" "usable rdy st'"
    "mem (bus st') = upd_mem (unat a) data (mem (bus st))"
    "g_storage_mileage_shadow st' = g_storage_mileage_shadow st"
proof -
  have "len \<noteq> 0" using assms(4) by auto
  then show thesis
    using write_loop_chip [OF assms(1,2,3,5), of 0] that by (auto simp: svc_eeprom_write_def)
qed

definition stored :: "(nat \<Rightarrow> u8) \<Rightarrow> u16 \<Rightarrow> u16 \<Rightarrow> bytes" where
  "stored m a len = map m [unat a ..< unat a + unat len]"

lemma read_chip:
  assumes chip: "eeprom_chip ops mem rdy ptr" and us: "usable rdy st" and len: "0 < unat len \<and> unat len \<le> 256"
    and rg: "unat a + unat len \<le> 65536"
  obtains st' where "svc_eeprom_read ops a len st = (True, stored (mem (bus st)) a len, st')"
    "usable rdy st'" "mem (bus st') = mem (bus st)"
    "g_storage_mileage_shadow st' = g_storage_mileage_shadow st"
proof -
  have msg: "\<lparr>i2c_addr = SVC_EEPROM_I2C_ADDR_7BIT, i2c_rd = False, i2c_buf = mem_addr_bytes a, i2c_len = 2\<rparr>
      = wr_msg (mem_addr_bytes a)"
    "\<lparr>i2c_addr = SVC_EEPROM_I2C_ADDR_7BIT, i2c_rd = True, i2c_buf = [], i2c_len = len\<rparr> = rd_msg len"
    by (simp_all add: wr_msg_def rd_msg_def)
  obtain x b1 where b1: "rt_i2c_transfer ops (wr_msg (mem_addr_bytes a)) (bus st) = (1, x, b1)"
      "rdy b1" "mem b1 = mem (bus st)" "ptr b1 = unat a"
    using chip us unfolding eeprom_chip_def usable_def by blast
  moreover have "0 < unat len \<and> unat len \<le> 256 \<and> ptr b1 + unat len \<le> 65536" using b1 rg len by simp
  ultimately obtain b2 where b2: "rt_i2c_transfer ops (rd_msg len) b1
      = (1, map (mem b1) [ptr b1 ..< ptr b1 + unat len], b2)" "rdy b2" "mem b2 = mem b1"
    using chip unfolding eeprom_chip_def by blast
  have "len \<noteq> 0" using len by auto
  then have "svc_eeprom_read ops a len st = (True, stored (mem (bus st)) a len, st\<lparr>bus := b2\<rparr>)"
    using us b1 b2 msg by (simp add: svc_eeprom_read_def Let_def usable_def stored_def)
  then show thesis using that b1 b2 us by (simp add: usable_def)
qed

lemma stored_upd_same: "length data = unat len \<Longrightarrow> stored (upd_mem (unat a) data m) a len = data"
  by (rule nth_equalityI) (auto simp: stored_def upd_mem_def)

lemma stored_upd_other:
  "n + length data \<le> unat a' \<or> unat a' + unat len \<le> n \<Longrightarrow>
     stored (upd_mem n data m) a' len = stored m a' len"
  by (auto simp: stored_def upd_mem_def)

section \<open>Records as persistent variables\<close>

definition rec_view ::
  "u16 \<Rightarrow> u16 \<Rightarrow> (bytes option \<Rightarrow> bool) \<Rightarrow> (bytes \<Rightarrow> 'a) \<Rightarrow> (nat \<Rightarrow> u8) \<Rightarrow> 'a option" where
  "rec_view addr sz is_valid dec m =
     (let r = stored m addr sz in if is_valid (Some r) then Some (dec r) else None)"

lemma read_record_chip:
  assumes chip: "eeprom_chip ops mem rdy ptr" and us: "usable rdy st"
    and rg: "0 < unat sz \<and> unat sz \<le> 256" "unat addr + unat sz \<le> 65536"
  obtains r st' where "read_record ops addr sz is_valid st = (r, st')" "usable rdy st'"
    "mem (bus st') = mem (bus st)" "g_storage_mileage_shadow st' = g_storage_mileage_shadow st"
    "map_option dec r = rec_view addr sz is_valid dec (mem (bus st))"
proof -
  obtain st' where st': "svc_eeprom_read ops addr sz st = (True, stored (mem (bus st)) addr sz, st')"
      "usable rdy st'" "mem (bus st') = mem (bus st)" "g_storage_mileage_shadow st' = g_storage_mileage_shadow st"
    by (rule read_chip [OF chip us rg])
  let ?r = "stored (mem (bus st)) addr sz"
  have "read_record ops addr sz is_valid st = (if is_valid (Some ?r) then Some ?r else None, st')"
    using us st'(1) by (simp add: read_record_def usable_def)
  from that [OF this st'(2,3,4)] show thesis by (simp add: rec_view_def Let_def)
qed

text \<open>
  The contract between a kind of record and its users: the encoding has the size of the record,
  passes the validity check and decodes to the same value, and the record lies inside the memory.
\<close>

locale nv_record =
  fixes addr :: u16 and sz :: u16 and is_valid :: "bytes option \<Rightarrow> bool"
    and enc :: "'a \<Rightarrow> bytes" and dec :: "bytes \<Rightarrow> 'a" and ok :: "'a \<Rightarrow> bool"
  assumes enc_length: "ok x \<Longrightarrow> length (enc x) = unat sz"
    and enc_valid: "ok x \<Longrightarrow> is_valid (Some (enc x))"
    and dec_enc: "ok x \<Longrightarrow> dec (enc x) = x"
    and in_range: "unat addr + unat sz \<le> 65536"
    and one_read: "0 < unat sz \<and> unat sz \<le> 256"
begin

lemma view_saved: "n = unat addr \<Longrightarrow> ok x \<Longrightarrow> rec_view addr sz is_valid dec (upd_mem n (enc x) m) = Some x"
  by (simp add: rec_view_def stored_upd_same enc_length enc_valid dec_enc)

lemma view_other:
  "n + length data \<le> unat addr \<or> unat addr + unat sz \<le> n \<Longrightarrow>
     rec_view addr sz is_valid dec (upd_mem n data m) = rec_view addr sz is_valid dec m"
  by (simp add: rec_view_def stored_upd_other)

lemma save_stores:
  assumes chip: "eeprom_chip ops mem rdy ptr" and us: "usable rdy st" and okx: "ok x"
  shows "\<exists>st'. write_verify ops addr sz is_valid (enc x) st = (True, st') \<and> usable rdy st'
    \<and> mem (bus st') = upd_mem (unat addr) (enc x) (mem (bus st))
    \<and> g_storage_mileage_shadow st' = g_storage_mileage_shadow st"
proof -
  obtain st1 where st1: "svc_eeprom_write ops addr (Some (enc x)) sz st = (True, st1)" "usable rdy st1"
      "mem (bus st1) = upd_mem (unat addr) (enc x) (mem (bus st))"
      "g_storage_mileage_shadow st1 = g_storage_mileage_shadow st"
    by (rule write_chip [OF chip us enc_length [OF okx] one_read [THEN conjunct1] in_range])
  obtain st2 where st2: "svc_eeprom_read ops addr sz st1 = (True, stored (mem (bus st1)) addr sz, st2)"
      "usable rdy st2" "mem (bus st2) = mem (bus st1)"
      "g_storage_mileage_shadow st2 = g_storage_mileage_shadow st1"
    by (rule read_chip [OF chip st1(2) one_read in_range])
  have "stored (mem (bus st1)) addr sz = enc x"
    using st1(3) stored_upd_same [OF enc_length [OF okx]] by simp
  then have "write_verify ops addr sz is_valid (enc x) st = (True, st2)"
    using st1(1) st2(1) enc_valid [OF okx] by (simp add: write_verify_def)
  then show ?thesis using st1 st2 by simp
qed

end

definition config_ok :: "svc_storage_config \<Rightarrow> bool" where
  "config_ok c \<longleftrightarrow> length (local_phone c) = 12 \<and> length (digits (plate_number c)) = 6 \<and> config_fields_valid c"

definition text_ok :: "nat \<Rightarrow> (svc_storage_text option \<Rightarrow> bool) \<Rightarrow> svc_storage_text \<Rightarrow> bool" where
  "text_ok n valid t \<longleftrightarrow> length (tx_chars t) = n + 1 \<and> valid (Some t)"

lemma seg_all: "length xs = n \<Longrightarrow> seg 0 n xs = xs"
  by (simp add: seg_def)

lemma mileage_of_mileage_record: "mileage_of_record (mileage_record m) = m"
proof -
  let ?p = "le32 (odo_km m) @ le16 (odo_rem_m m) @ le16 (odo_reserved m)"
  have "rd32 ?p 0 = odo_km m" "rd16 ?p 4 = odo_rem_m m" "rd16 ?p 6 = odo_reserved m"
    by (simp_all add: dvr_layout)
  then show ?thesis
    using mk_record_rd32 [of 0 ?p SVC_STORAGE_MAGIC SVC_STORAGE_VERSION 20]
      mk_record_rd16 [of 4 ?p SVC_STORAGE_MAGIC SVC_STORAGE_VERSION 20]
      mk_record_rd16 [of 6 ?p SVC_STORAGE_MAGIC SVC_STORAGE_VERSION 20]
    by (simp add: mileage_of_record_def mileage_record_def)
qed

lemma text_of_mk_record:
  assumes "length (tx_chars t) = n + 1"
  shows "text_of_record n (mk_record mgc ver sz (tx_valid t # tx_chars t @ pad)) = t"
proof -
  let ?p = "tx_valid t # tx_chars t @ pad"
  have "seg (8 + 1) (n + 1) (mk_record mgc ver sz ?p) = seg 1 (n + 1) ?p"
    using assms by (intro mk_record_seg) simp
  also have "\<dots> = tx_chars t" using assms by (simp add: seg_def)
  finally show ?thesis
    using mk_record_nth [of 0 ?p mgc ver sz] by (simp add: text_of_record_def)
qed

lemma config_of_config_record:
  assumes "length (local_phone c) = 12" "length (digits (plate_number c)) = 6"
  shows "config_of_record (config_record c) = c"
proof -
  let ?pn = "plate_number c"
  let ?p = "local_phone c @ [plate_class c, plate_color c] @ [pn_valid ?pn, province_index ?pn, letter ?pn]
      @ digits ?pn @ replicate 2 0 @ replicate 3 0"
  let ?r = "mk_record SVC_STORAGE_CONFIG_MAGIC SVC_STORAGE_CONFIG_VERSION 40 ?p"
  have len: "length ?p = 28" using assms by simp
  have nth: "?r ! (8 + i) = ?p ! i" if "i < 28" for i
    using mk_record_nth [of i ?p] that len by simp
  have "seg (8 + 0) 12 ?r = seg 0 12 ?p" "seg (8 + 17) 6 ?r = seg 17 6 ?p"
    using len by (intro mk_record_seg; simp)+
  then have segs: "seg 8 12 ?r = local_phone c" "seg 25 6 ?r = digits ?pn"
    using assms by (simp_all add: dvr_layout seg_def)
  have "?r ! 20 = plate_class c" "?r ! 21 = plate_color c" "?r ! 22 = pn_valid ?pn"
      "?r ! 23 = province_index ?pn" "?r ! 24 = letter ?pn"
    using nth [of 12] nth [of 13] nth [of 14] nth [of 15] nth [of 16] assms by (simp_all add: nth_append)
  then show ?thesis
    using segs unfolding config_of_record_def config_record_def by simp
qed

interpretation mil: nv_record SVC_STORAGE_MILEAGE_ADDR 20 svc_storage_record_is_valid mileage_record
  mileage_of_record "\<lambda>_. True"
  by unfold_locales (simp_all add: mileage_record_def svc_storage_record_is_valid_def mk_record_header
      mk_record_checksum dvr_const mileage_of_mileage_record [unfolded mileage_record_def dvr_const])

interpretation cfg: nv_record SVC_STORAGE_CONFIG_ADDR 40 svc_storage_config_record_is_valid config_record
  config_of_record config_ok
proof
  fix c assume c: "config_ok c"
  then show "length (config_record c) = unat (40 :: u16)" by (simp add: config_record_def config_ok_def)
  show d: "config_of_record (config_record c) = c"
    using c by (simp add: config_ok_def config_of_config_record)
  show "svc_storage_config_record_is_valid (Some (config_record c))"
    using c d by (simp add: svc_storage_config_record_is_valid_def config_ok_def)
      (simp add: config_record_def mk_record_header mk_record_checksum)
qed (simp_all add: dvr_const)

interpretation vin: nv_record SVC_STORAGE_VIN_ADDR 32 svc_storage_vin_record_is_valid vin_record
  "text_of_record SVC_STORAGE_VIN_LEN" "text_ok SVC_STORAGE_VIN_LEN svc_storage_vin_valid"
proof
  fix t assume t: "text_ok SVC_STORAGE_VIN_LEN svc_storage_vin_valid t"
  then show "length (vin_record t) = unat (32 :: u16)"
    by (simp add: vin_record_def text_ok_def SVC_STORAGE_VIN_LEN_def)
  show d: "text_of_record SVC_STORAGE_VIN_LEN (vin_record t) = t"
    using t by (simp add: text_ok_def vin_record_def text_of_mk_record)
  show "svc_storage_vin_record_is_valid (Some (vin_record t))"
    using t d by (simp add: svc_storage_vin_record_is_valid_def text_ok_def)
      (simp add: vin_record_def mk_record_header mk_record_checksum SVC_STORAGE_VIN_LEN_def)
qed (simp_all add: dvr_const)

interpretation prov: nv_record SVC_STORAGE_PROVINCE_ID_ADDR 16 svc_storage_province_id_record_is_valid
  province_id_record "text_of_record SVC_STORAGE_PROVINCE_ID_LEN"
  "text_ok SVC_STORAGE_PROVINCE_ID_LEN svc_storage_province_id_valid"
proof
  fix t assume t: "text_ok SVC_STORAGE_PROVINCE_ID_LEN svc_storage_province_id_valid t"
  then show "length (province_id_record t) = unat (16 :: u16)"
    by (simp add: province_id_record_def text_ok_def SVC_STORAGE_PROVINCE_ID_LEN_def)
  show d: "text_of_record SVC_STORAGE_PROVINCE_ID_LEN (province_id_record t) = t"
    using t text_of_mk_record [of t SVC_STORAGE_PROVINCE_ID_LEN _ _ _ "[]"]
    by (simp add: text_ok_def province_id_record_def)
  show "svc_storage_province_id_record_is_valid (Some (province_id_record t))"
    using t d by (simp add: svc_storage_province_id_record_is_valid_def text_ok_def)
      (simp add: province_id_record_def mk_record_header mk_record_checksum SVC_STORAGE_PROVINCE_ID_LEN_def)
qed (simp_all add: dvr_const)

interpretation city: nv_record SVC_STORAGE_CITY_ID_ADDR 20 svc_storage_city_id_record_is_valid
  city_id_record "text_of_record SVC_STORAGE_CITY_ID_LEN"
  "text_ok SVC_STORAGE_CITY_ID_LEN svc_storage_city_id_valid"
proof
  fix t assume t: "text_ok SVC_STORAGE_CITY_ID_LEN svc_storage_city_id_valid t"
  then show "length (city_id_record t) = unat (20 :: u16)"
    by (simp add: city_id_record_def text_ok_def SVC_STORAGE_CITY_ID_LEN_def)
  show d: "text_of_record SVC_STORAGE_CITY_ID_LEN (city_id_record t) = t"
    using t by (simp add: text_ok_def city_id_record_def text_of_mk_record)
  show "svc_storage_city_id_record_is_valid (Some (city_id_record t))"
    using t d by (simp add: svc_storage_city_id_record_is_valid_def text_ok_def)
      (simp add: city_id_record_def mk_record_header mk_record_checksum SVC_STORAGE_CITY_ID_LEN_def)
qed (simp_all add: dvr_const)

section \<open>The abstract store\<close>

text \<open>
  What the service promises: five independent persistent variables, each unset or holding a value.
\<close>

record nv_view =
  v_mileage :: "svc_storage_mileage option"
  v_config :: "svc_storage_config option"
  v_vin :: "svc_storage_text option"
  v_province :: "svc_storage_text option"
  v_city :: "svc_storage_text option"

definition nv_view_of :: "(nat \<Rightarrow> u8) \<Rightarrow> nv_view" where
  "nv_view_of m =
     \<lparr>v_mileage = rec_view SVC_STORAGE_MILEAGE_ADDR 20 svc_storage_record_is_valid mileage_of_record m,
      v_config = rec_view SVC_STORAGE_CONFIG_ADDR 40 svc_storage_config_record_is_valid config_of_record m,
      v_vin = rec_view SVC_STORAGE_VIN_ADDR 32 svc_storage_vin_record_is_valid
        (text_of_record SVC_STORAGE_VIN_LEN) m,
      v_province = rec_view SVC_STORAGE_PROVINCE_ID_ADDR 16 svc_storage_province_id_record_is_valid
        (text_of_record SVC_STORAGE_PROVINCE_ID_LEN) m,
      v_city = rec_view SVC_STORAGE_CITY_ID_ADDR 20 svc_storage_city_id_record_is_valid
        (text_of_record SVC_STORAGE_CITY_ID_LEN) m\<rparr>"

datatype nv_save =
    SaveMileage svc_storage_mileage
  | SaveConfig svc_storage_config
  | SavePhone bytes
  | SaveClass u8
  | SaveColor u8
  | SavePlate svc_storage_plate_number
  | SaveVin svc_storage_text
  | SaveProvince svc_storage_text
  | SaveCity svc_storage_text

fun run_save :: "'b i2c_ops \<Rightarrow> nv_save \<Rightarrow> 'b storage \<Rightarrow> bool \<times> 'b storage" where
  "run_save ops (SaveMileage m) = svc_storage_save_mileage ops (Some m)"
| "run_save ops (SaveConfig c) = svc_storage_save_config ops (Some c)"
| "run_save ops (SavePhone d) = svc_storage_save_local_phone ops (Some d)"
| "run_save ops (SaveClass v) = svc_storage_save_plate_class ops (Some v)"
| "run_save ops (SaveColor v) = svc_storage_save_plate_color ops (Some v)"
| "run_save ops (SavePlate p) = svc_storage_save_plate_number ops (Some p)"
| "run_save ops (SaveVin t) = svc_storage_save_vin ops (Some t)"
| "run_save ops (SaveProvince t) = svc_storage_save_province_id ops (Some t)"
| "run_save ops (SaveCity t) = svc_storage_save_city_id ops (Some t)"

fun run_saves :: "'b i2c_ops \<Rightarrow> nv_save list \<Rightarrow> 'b storage \<Rightarrow> bool \<times> 'b storage" where
  "run_saves ops [] st = (True, st)"
| "run_saves ops (s # ss) st =
     (let (ok, st) = run_save ops s st; (oks, st) = run_saves ops ss st in (ok \<and> oks, st))"

fun save_ok :: "nv_save \<Rightarrow> bool" where
  "save_ok (SaveMileage m) = True"
| "save_ok (SaveConfig c) = config_ok c"
| "save_ok (SavePhone d) = (length d = 12 \<and> svc_storage_phone_digits_valid (Some d))"
| "save_ok (SaveClass v) = svc_storage_plate_class_valid v"
| "save_ok (SaveColor v) = svc_storage_plate_color_valid v"
| "save_ok (SavePlate p) = (length (digits p) = 6 \<and> svc_storage_plate_number_valid (Some p))"
| "save_ok (SaveVin t) = text_ok SVC_STORAGE_VIN_LEN svc_storage_vin_valid t"
| "save_ok (SaveProvince t) = text_ok SVC_STORAGE_PROVINCE_ID_LEN svc_storage_province_id_valid t"
| "save_ok (SaveCity t) = text_ok SVC_STORAGE_CITY_ID_LEN svc_storage_city_id_valid t"

definition the_config :: "nv_view \<Rightarrow> svc_storage_config" where
  "the_config v = (case v_config v of None \<Rightarrow> g_default_config | Some c \<Rightarrow> c)"

fun spec_save :: "nv_save \<Rightarrow> nv_view \<Rightarrow> nv_view" where
  "spec_save (SaveMileage m) v = v\<lparr>v_mileage := Some m\<rparr>"
| "spec_save (SaveConfig c) v = v\<lparr>v_config := Some c\<rparr>"
| "spec_save (SavePhone d) v = v\<lparr>v_config := Some ((the_config v)\<lparr>local_phone := d\<rparr>)\<rparr>"
| "spec_save (SaveClass x) v = v\<lparr>v_config := Some ((the_config v)\<lparr>plate_class := x\<rparr>)\<rparr>"
| "spec_save (SaveColor x) v = v\<lparr>v_config := Some ((the_config v)\<lparr>plate_color := x\<rparr>)\<rparr>"
| "spec_save (SavePlate p) v = v\<lparr>v_config := Some ((the_config v)\<lparr>plate_number := p\<rparr>)\<rparr>"
| "spec_save (SaveVin t) v = v\<lparr>v_vin := Some t\<rparr>"
| "spec_save (SaveProvince t) v = v\<lparr>v_province := Some t\<rparr>"
| "spec_save (SaveCity t) v = v\<lparr>v_city := Some t\<rparr>"

lemma default_config_ok: "config_ok g_default_config"
  by code_simp

lemma view_config_ok: "config_ok (the_config (nv_view_of m))"
proof (cases "v_config (nv_view_of m)")
  case None
  then show ?thesis by (simp add: the_config_def default_config_ok)
next
  case (Some c)
  let ?r = "stored m SVC_STORAGE_CONFIG_ADDR 40"
  have len: "length ?r = 40" by (simp add: stored_def)
  have "svc_storage_config_record_is_valid (Some ?r)" "c = config_of_record ?r"
    using Some by (auto simp: nv_view_of_def rec_view_def Let_def split: if_splits)
  then have "config_fields_valid c" "length (local_phone c) = 12" "length (digits (plate_number c)) = 6"
    using len by (auto simp: svc_storage_config_record_is_valid_def config_of_record_def length_seg)
  then show ?thesis using Some by (simp add: the_config_def config_ok_def)
qed

text \<open>Writing one record changes its own variable and no other.\<close>

lemma view_upd:
  "nv_view_of (upd_mem (unat SVC_STORAGE_MILEAGE_ADDR) (mileage_record x) m) = (nv_view_of m)\<lparr>v_mileage := Some x\<rparr>"
  "config_ok c \<Longrightarrow> nv_view_of (upd_mem (unat SVC_STORAGE_CONFIG_ADDR) (config_record c) m)
     = (nv_view_of m)\<lparr>v_config := Some c\<rparr>"
  "text_ok SVC_STORAGE_VIN_LEN svc_storage_vin_valid t \<Longrightarrow>
     nv_view_of (upd_mem (unat SVC_STORAGE_VIN_ADDR) (vin_record t) m) = (nv_view_of m)\<lparr>v_vin := Some t\<rparr>"
  "text_ok SVC_STORAGE_PROVINCE_ID_LEN svc_storage_province_id_valid t \<Longrightarrow>
     nv_view_of (upd_mem (unat SVC_STORAGE_PROVINCE_ID_ADDR) (province_id_record t) m)
     = (nv_view_of m)\<lparr>v_province := Some t\<rparr>"
  "text_ok SVC_STORAGE_CITY_ID_LEN svc_storage_city_id_valid t \<Longrightarrow>
     nv_view_of (upd_mem (unat SVC_STORAGE_CITY_ID_ADDR) (city_id_record t) m) = (nv_view_of m)\<lparr>v_city := Some t\<rparr>"
proof -
  have addrs: "unat SVC_STORAGE_MILEAGE_ADDR = 0" "unat SVC_STORAGE_CONFIG_ADDR = 64"
      "unat SVC_STORAGE_VIN_ADDR = 256" "unat SVC_STORAGE_PROVINCE_ID_ADDR = 320"
      "unat SVC_STORAGE_CITY_ID_ADDR = 384"
    by (simp_all add: dvr_const)
  show "nv_view_of (upd_mem (unat SVC_STORAGE_MILEAGE_ADDR) (mileage_record x) m)
      = (nv_view_of m)\<lparr>v_mileage := Some x\<rparr>"
    using mil.enc_length [of x]
    by (simp add: nv_view_of_def mil.view_saved cfg.view_other vin.view_other prov.view_other city.view_other addrs)
  show "config_ok c \<Longrightarrow> nv_view_of (upd_mem (unat SVC_STORAGE_CONFIG_ADDR) (config_record c) m)
     = (nv_view_of m)\<lparr>v_config := Some c\<rparr>"
    using cfg.enc_length [of c]
    by (simp add: nv_view_of_def mil.view_other cfg.view_saved vin.view_other prov.view_other city.view_other addrs)
  show "text_ok SVC_STORAGE_VIN_LEN svc_storage_vin_valid t \<Longrightarrow>
     nv_view_of (upd_mem (unat SVC_STORAGE_VIN_ADDR) (vin_record t) m) = (nv_view_of m)\<lparr>v_vin := Some t\<rparr>"
    using vin.enc_length [of t]
    by (simp add: nv_view_of_def mil.view_other cfg.view_other vin.view_saved prov.view_other city.view_other addrs)
  show "text_ok SVC_STORAGE_PROVINCE_ID_LEN svc_storage_province_id_valid t \<Longrightarrow>
     nv_view_of (upd_mem (unat SVC_STORAGE_PROVINCE_ID_ADDR) (province_id_record t) m)
     = (nv_view_of m)\<lparr>v_province := Some t\<rparr>"
    using prov.enc_length [of t]
    by (simp add: nv_view_of_def mil.view_other cfg.view_other vin.view_other prov.view_saved city.view_other addrs)
  show "text_ok SVC_STORAGE_CITY_ID_LEN svc_storage_city_id_valid t \<Longrightarrow>
     nv_view_of (upd_mem (unat SVC_STORAGE_CITY_ID_ADDR) (city_id_record t) m) = (nv_view_of m)\<lparr>v_city := Some t\<rparr>"
    using city.enc_length [of t]
    by (simp add: nv_view_of_def mil.view_other cfg.view_other vin.view_other prov.view_other city.view_saved addrs)
qed

lemma load_local_config_chip:
  assumes "eeprom_chip ops mem rdy ptr" "usable rdy st"
  obtains r st' where "load_local_config ops st = (r, the_config (nv_view_of (mem (bus st))), st')"
    "r \<longleftrightarrow> v_config (nv_view_of (mem (bus st))) \<noteq> None" "usable rdy st'" "mem (bus st') = mem (bus st)"
proof -
  have rg: "0 < unat (40 :: u16) \<and> unat (40 :: u16) \<le> 256" "unat SVC_STORAGE_CONFIG_ADDR + unat (40 :: u16) \<le> 65536"
    by (simp_all add: dvr_const)
  obtain r st' where r: "read_record ops SVC_STORAGE_CONFIG_ADDR 40 svc_storage_config_record_is_valid st = (r, st')"
      "usable rdy st'" "mem (bus st') = mem (bus st)"
      "map_option config_of_record r = v_config (nv_view_of (mem (bus st)))"
    by (rule read_record_chip [OF assms rg, of svc_storage_config_record_is_valid config_of_record])
       (simp add: nv_view_of_def)
  then have "load_local_config ops st = (r \<noteq> None, the_config (nv_view_of (mem (bus st))), st')"
    by (auto simp: load_local_config_def svc_storage_load_config_def the_config_def
        svc_storage_config_set_default_def split: option.splits)
  moreover have "r \<noteq> None \<longleftrightarrow> v_config (nv_view_of (mem (bus st))) \<noteq> None" using r(4) [symmetric] by (cases r) auto
  ultimately show thesis using that r by blast
qed

lemma save_config_chip:
  assumes "eeprom_chip ops mem rdy ptr" "usable rdy st" "config_ok c"
  shows "\<exists>st'. svc_storage_save_config ops (Some c) st = (True, st') \<and> usable rdy st'
    \<and> nv_view_of (mem (bus st')) = (nv_view_of (mem (bus st)))\<lparr>v_config := Some c\<rparr>"
proof -
  obtain st' where "write_verify ops SVC_STORAGE_CONFIG_ADDR 40 svc_storage_config_record_is_valid
      (config_record c) st = (True, st')" "usable rdy st'"
      "mem (bus st') = upd_mem (unat SVC_STORAGE_CONFIG_ADDR) (config_record c) (mem (bus st))"
    using cfg.save_stores [OF assms] by blast
  then show ?thesis
    using assms view_upd(2) [of c] by (auto simp: svc_storage_save_config_def usable_def config_ok_def)
qed

lemma save_field_chip:
  assumes chip: "eeprom_chip ops mem rdy ptr" and us: "usable rdy st"
    and upd: "\<And>c. config_ok c \<Longrightarrow> config_ok (f c)"
  shows "\<exists>r st1 st'. load_local_config ops st = (r, the_config (nv_view_of (mem (bus st))), st1)
    \<and> svc_storage_save_config ops (Some (f (the_config (nv_view_of (mem (bus st)))))) st1 = (True, st')
    \<and> usable rdy st'
    \<and> nv_view_of (mem (bus st')) =
       (nv_view_of (mem (bus st)))\<lparr>v_config := Some (f (the_config (nv_view_of (mem (bus st)))))\<rparr>"
proof -
  let ?v = "nv_view_of (mem (bus st))"
  obtain r st1 where st1: "load_local_config ops st = (r, the_config ?v, st1)" "usable rdy st1"
      "mem (bus st1) = mem (bus st)"
    by (rule load_local_config_chip [OF chip us])
  obtain st' where "svc_storage_save_config ops (Some (f (the_config ?v))) st1 = (True, st')" "usable rdy st'"
      "nv_view_of (mem (bus st')) = (nv_view_of (mem (bus st1)))\<lparr>v_config := Some (f (the_config ?v))\<rparr>"
    using save_config_chip [OF chip st1(2) upd [OF view_config_ok]] by blast
  then show ?thesis using st1 by simp
qed

lemma config_ok_upd:
  "config_ok c \<Longrightarrow> length d = 12 \<Longrightarrow> svc_storage_phone_digits_valid (Some d) \<Longrightarrow> config_ok (c\<lparr>local_phone := d\<rparr>)"
  "config_ok c \<Longrightarrow> svc_storage_plate_class_valid x \<Longrightarrow> config_ok (c\<lparr>plate_class := x\<rparr>)"
  "config_ok c \<Longrightarrow> svc_storage_plate_color_valid x \<Longrightarrow> config_ok (c\<lparr>plate_color := x\<rparr>)"
  "config_ok c \<Longrightarrow> length (digits p) = 6 \<Longrightarrow> svc_storage_plate_number_valid (Some p) \<Longrightarrow>
     config_ok (c\<lparr>plate_number := p\<rparr>)"
  by (simp_all add: config_ok_def config_fields_valid_def)

text \<open>One save refines one step of the abstract store.\<close>

lemma run_save_refines:
  assumes chip: "eeprom_chip ops mem rdy ptr" and us: "usable rdy st" and ok: "save_ok s"
  shows "\<exists>st'. run_save ops s st = (True, st') \<and> usable rdy st'
    \<and> nv_view_of (mem (bus st')) = spec_save s (nv_view_of (mem (bus st)))"
proof (cases s)
  case (SaveMileage m)
  have us': "usable rdy (st\<lparr>g_storage_mileage_shadow := m\<rparr>)" using us by (simp add: usable_def)
  show ?thesis
    using mil.save_stores [OF chip us', of m] us SaveMileage view_upd(1) [of m]
    by (auto simp: svc_storage_save_mileage_def usable_def)
next
  case (SaveConfig c)
  then show ?thesis using save_config_chip [OF chip us, of c] ok by auto
next
  case (SavePhone d)
  then have "\<And>c. config_ok c \<Longrightarrow> config_ok (c\<lparr>local_phone := d\<rparr>)" using ok by (auto simp: config_ok_upd)
  then show ?thesis
    using save_field_chip [OF chip us, of "\<lambda>c. c\<lparr>local_phone := d\<rparr>"] SavePhone ok
    by (auto simp: svc_storage_save_local_phone_def)
next
  case (SaveClass v)
  then show ?thesis
    using save_field_chip [OF chip us, of "\<lambda>c. c\<lparr>plate_class := v\<rparr>"] ok
    by (auto simp: svc_storage_save_plate_class_def config_ok_upd)
next
  case (SaveColor v)
  then show ?thesis
    using save_field_chip [OF chip us, of "\<lambda>c. c\<lparr>plate_color := v\<rparr>"] ok
    by (auto simp: svc_storage_save_plate_color_def config_ok_upd)
next
  case (SavePlate p)
  then show ?thesis
    using save_field_chip [OF chip us, of "\<lambda>c. c\<lparr>plate_number := p\<rparr>"] ok
    by (auto simp: svc_storage_save_plate_number_def config_ok_upd)
next
  case (SaveVin t)
  then show ?thesis
    using vin.save_stores [OF chip us, of t] us ok view_upd(3) [of t]
    by (auto simp: svc_storage_save_vin_def usable_def text_ok_def)
next
  case (SaveProvince t)
  then show ?thesis
    using prov.save_stores [OF chip us, of t] us ok view_upd(4) [of t]
    by (auto simp: svc_storage_save_province_id_def usable_def text_ok_def)
next
  case (SaveCity t)
  then show ?thesis
    using city.save_stores [OF chip us, of t] us ok view_upd(5) [of t]
    by (auto simp: svc_storage_save_city_id_def usable_def text_ok_def)
qed

lemma run_saves_refines:
  assumes chip: "eeprom_chip ops mem rdy ptr"
  shows "usable rdy st \<Longrightarrow> list_all save_ok ss \<Longrightarrow> \<exists>st'. run_saves ops ss st = (True, st') \<and> usable rdy st'
    \<and> nv_view_of (mem (bus st')) = fold spec_save ss (nv_view_of (mem (bus st)))"
proof (induction ss arbitrary: st)
  case (Cons s ss)
  then obtain st1 where st1: "run_save ops s st = (True, st1)" "usable rdy st1"
      "nv_view_of (mem (bus st1)) = spec_save s (nv_view_of (mem (bus st)))"
    using run_save_refines [OF chip, of st s] by auto
  then show ?case using Cons.IH [of st1] Cons.prems by auto
qed simp

text \<open>What the load functions return, in terms of the abstract store.\<close>

definition text_or_blank :: "nat \<Rightarrow> svc_storage_text option \<Rightarrow> svc_storage_text" where
  "text_or_blank n t = (case t of None \<Rightarrow> \<lparr>tx_valid = 0, tx_chars = replicate (n + 1) 0\<rparr> | Some x \<Rightarrow> x)"

definition loads_give :: "'b i2c_ops \<Rightarrow> 'b storage \<Rightarrow> nv_view \<Rightarrow> bool" where
  "loads_give ops st v \<longleftrightarrow>
     (\<forall>x. fst (svc_storage_load_mileage ops (Some x) st)
        \<and> fst (snd (svc_storage_load_mileage ops (Some x) st))
            = Some (case v_mileage v of None \<Rightarrow> mileage_zero | Some m \<Rightarrow> m))
     \<and> (\<forall>x. fst (svc_storage_load_config ops (Some x) st) = (v_config v \<noteq> None)
        \<and> fst (snd (svc_storage_load_config ops (Some x) st)) = Some (the_config v))
     \<and> (\<forall>x. fst (svc_storage_load_vin ops (Some x) st) = (v_vin v \<noteq> None)
        \<and> fst (snd (svc_storage_load_vin ops (Some x) st)) = Some (text_or_blank SVC_STORAGE_VIN_LEN (v_vin v)))
     \<and> (\<forall>x. fst (svc_storage_load_province_id ops (Some x) st) = (v_province v \<noteq> None)
        \<and> fst (snd (svc_storage_load_province_id ops (Some x) st))
            = Some (text_or_blank SVC_STORAGE_PROVINCE_ID_LEN (v_province v)))
     \<and> (\<forall>x. fst (svc_storage_load_city_id ops (Some x) st) = (v_city v \<noteq> None)
        \<and> fst (snd (svc_storage_load_city_id ops (Some x) st))
            = Some (text_or_blank SVC_STORAGE_CITY_ID_LEN (v_city v)))"

lemma load_text_chip:
  assumes "eeprom_chip ops mem rdy ptr" "usable rdy st" "0 < unat sz \<and> unat sz \<le> 256" "unat addr + unat sz \<le> 65536"
  shows "fst (load_text ops addr sz n valid (Some x) st)
      = (rec_view addr sz valid (text_of_record n) (mem (bus st)) \<noteq> None)
    \<and> fst (snd (load_text ops addr sz n valid (Some x) st))
      = Some (text_or_blank n (rec_view addr sz valid (text_of_record n) (mem (bus st))))"
proof -
  obtain r st' where r: "read_record ops addr sz valid st = (r, st')"
      "map_option (text_of_record n) r = rec_view addr sz valid (text_of_record n) (mem (bus st))"
    by (rule read_record_chip [OF assms, of valid "text_of_record n"])
  show ?thesis
    using r(1) r(2) [symmetric] by (cases r) (simp_all add: load_text_def text_or_blank_def)
qed

lemma loads_view:
  assumes chip: "eeprom_chip ops mem rdy ptr" and us: "usable rdy st"
  shows "loads_give ops st (nv_view_of (mem (bus st)))"
proof -
  let ?v = "nv_view_of (mem (bus st))"
  have rg: "0 < unat (20 :: u16) \<and> unat (20 :: u16) \<le> 256" "unat SVC_STORAGE_MILEAGE_ADDR + unat (20 :: u16) \<le> 65536"
      "0 < unat (40 :: u16) \<and> unat (40 :: u16) \<le> 256" "unat SVC_STORAGE_CONFIG_ADDR + unat (40 :: u16) \<le> 65536"
      "0 < unat (32 :: u16) \<and> unat (32 :: u16) \<le> 256" "unat SVC_STORAGE_VIN_ADDR + unat (32 :: u16) \<le> 65536"
      "0 < unat (16 :: u16) \<and> unat (16 :: u16) \<le> 256" "unat SVC_STORAGE_PROVINCE_ID_ADDR + unat (16 :: u16) \<le> 65536"
      "unat SVC_STORAGE_CITY_ID_ADDR + unat (20 :: u16) \<le> 65536"
    by (simp_all add: dvr_const)
  obtain rm sm where m: "read_record ops SVC_STORAGE_MILEAGE_ADDR 20 svc_storage_record_is_valid st = (rm, sm)"
      "map_option mileage_of_record rm = v_mileage ?v"
    by (rule read_record_chip [OF chip us rg(1,2), of svc_storage_record_is_valid mileage_of_record])
       (simp add: nv_view_of_def)
  have lm: "fst (svc_storage_load_mileage ops (Some x) st) \<and> fst (snd (svc_storage_load_mileage ops (Some x) st))
      = Some (case v_mileage ?v of None \<Rightarrow> mileage_zero | Some y \<Rightarrow> y)" for x
    using m(1) m(2) [symmetric] by (cases rm) (simp_all add: svc_storage_load_mileage_def Let_def)
  obtain rc sc where c: "read_record ops SVC_STORAGE_CONFIG_ADDR 40 svc_storage_config_record_is_valid st = (rc, sc)"
      "map_option config_of_record rc = v_config ?v"
    by (rule read_record_chip [OF chip us rg(3,4), of svc_storage_config_record_is_valid config_of_record])
       (simp add: nv_view_of_def)
  have lc: "fst (svc_storage_load_config ops (Some x) st) = (v_config ?v \<noteq> None)
      \<and> fst (snd (svc_storage_load_config ops (Some x) st)) = Some (the_config ?v)" for x
    using c(1) c(2) [symmetric] by (cases rc)
      (simp_all add: svc_storage_load_config_def the_config_def svc_storage_config_set_default_def)
  show ?thesis
    unfolding loads_give_def
    using lm lc load_text_chip [OF chip us rg(5,6), of SVC_STORAGE_VIN_LEN svc_storage_vin_record_is_valid]
      load_text_chip [OF chip us rg(7,8), of SVC_STORAGE_PROVINCE_ID_LEN svc_storage_province_id_record_is_valid]
      load_text_chip [OF chip us rg(1,9), of SVC_STORAGE_CITY_ID_LEN svc_storage_city_id_record_is_valid]
    by (simp add: nv_view_of_def svc_storage_load_vin_def svc_storage_load_province_id_def
        svc_storage_load_city_id_def)
qed

text \<open>Whatever the bus returns, what a load hands out passes the field checks.\<close>

lemma loads_valid:
  "case svc_storage_load_config ops (Some x) st of (r, c, _) \<Rightarrow>
      config_fields_valid (the c) \<and> (r \<or> c = Some g_default_config)"
  "case svc_storage_load_vin ops (Some t) st of (r, v, _) \<Rightarrow>
      if r then svc_storage_vin_valid v else v = Some \<lparr>tx_valid = 0, tx_chars = replicate 18 0\<rparr>"
  "case svc_storage_load_province_id ops (Some t) st of (r, v, _) \<Rightarrow>
      if r then svc_storage_province_id_valid v else v = Some \<lparr>tx_valid = 0, tx_chars = replicate 3 0\<rparr>"
  "case svc_storage_load_city_id ops (Some t) st of (r, v, _) \<Rightarrow>
      if r then svc_storage_city_id_valid v else v = Some \<lparr>tx_valid = 0, tx_chars = replicate 5 0\<rparr>"
proof -
  have d: "config_fields_valid g_default_config" using default_config_ok by (simp add: config_ok_def)
  show "case svc_storage_load_config ops (Some x) st of (r, c, _) \<Rightarrow>
      config_fields_valid (the c) \<and> (r \<or> c = Some g_default_config)"
    using d by (auto simp: svc_storage_load_config_def read_record_def svc_storage_config_set_default_def
        svc_storage_config_record_is_valid_def split: prod.splits option.splits if_splits)
  show "case svc_storage_load_vin ops (Some t) st of (r, v, _) \<Rightarrow>
      if r then svc_storage_vin_valid v else v = Some \<lparr>tx_valid = 0, tx_chars = replicate 18 0\<rparr>"
    by (auto simp: svc_storage_load_vin_def load_text_def read_record_def svc_storage_vin_record_is_valid_def
        SVC_STORAGE_VIN_LEN_def split: prod.splits option.splits if_splits)
  show "case svc_storage_load_province_id ops (Some t) st of (r, v, _) \<Rightarrow>
      if r then svc_storage_province_id_valid v else v = Some \<lparr>tx_valid = 0, tx_chars = replicate 3 0\<rparr>"
    by (auto simp: svc_storage_load_province_id_def load_text_def read_record_def
        svc_storage_province_id_record_is_valid_def SVC_STORAGE_PROVINCE_ID_LEN_def
        split: prod.splits option.splits if_splits)
  show "case svc_storage_load_city_id ops (Some t) st of (r, v, _) \<Rightarrow>
      if r then svc_storage_city_id_valid v else v = Some \<lparr>tx_valid = 0, tx_chars = replicate 5 0\<rparr>"
    by (auto simp: svc_storage_load_city_id_def load_text_def read_record_def
        svc_storage_city_id_record_is_valid_def SVC_STORAGE_CITY_ID_LEN_def
        split: prod.splits option.splits if_splits)
qed

text \<open>A load leaves the chip as it was.\<close>

lemma loads_keep:
  assumes chip: "eeprom_chip ops mem rdy ptr" and us: "usable rdy st"
  shows "\<exists>r y st'. svc_storage_load_mileage ops (Some m) st = (r, y, st') \<and> usable rdy st' \<and> mem (bus st') = mem (bus st)"
    and "\<exists>r y st'. svc_storage_load_config ops (Some c) st = (r, y, st') \<and> usable rdy st' \<and> mem (bus st') = mem (bus st)"
    and "\<exists>r y st'. svc_storage_load_vin ops (Some t) st = (r, y, st') \<and> usable rdy st' \<and> mem (bus st') = mem (bus st)"
    and "\<exists>r y st'. svc_storage_load_province_id ops (Some t) st = (r, y, st') \<and> usable rdy st' \<and> mem (bus st') = mem (bus st)"
    and "\<exists>r y st'. svc_storage_load_city_id ops (Some t) st = (r, y, st') \<and> usable rdy st' \<and> mem (bus st') = mem (bus st)"
proof -
  have keep: "\<exists>r st'. read_record ops addr sz v st = (r, st') \<and> usable rdy st' \<and> mem (bus st') = mem (bus st)"
    if "0 < unat sz \<and> unat sz \<le> 256" "unat addr + unat sz \<le> 65536" for addr sz v
    by (rule read_record_chip [OF chip us that, of v id]) blast
  have tk: "\<exists>r y st'. load_text ops addr sz n v (Some t) st = (r, y, st') \<and> usable rdy st' \<and> mem (bus st') = mem (bus st)"
    if "0 < unat sz \<and> unat sz \<le> 256" "unat addr + unat sz \<le> 65536" for addr sz n v
    using keep [OF that, of v] by (force simp: load_text_def split: option.splits)
  show "\<exists>r y st'. svc_storage_load_mileage ops (Some m) st = (r, y, st') \<and> usable rdy st' \<and> mem (bus st') = mem (bus st)"
    using keep [of 20 SVC_STORAGE_MILEAGE_ADDR svc_storage_record_is_valid]
    by (auto simp: svc_storage_load_mileage_def dvr_const usable_def Let_def)
  show "\<exists>r y st'. svc_storage_load_config ops (Some c) st = (r, y, st') \<and> usable rdy st' \<and> mem (bus st') = mem (bus st)"
    using keep [of 40 SVC_STORAGE_CONFIG_ADDR svc_storage_config_record_is_valid]
    by (force simp: svc_storage_load_config_def dvr_const split: option.splits)
  show "\<exists>r y st'. svc_storage_load_vin ops (Some t) st = (r, y, st') \<and> usable rdy st' \<and> mem (bus st') = mem (bus st)"
    "\<exists>r y st'. svc_storage_load_province_id ops (Some t) st = (r, y, st') \<and> usable rdy st' \<and> mem (bus st') = mem (bus st)"
    "\<exists>r y st'. svc_storage_load_city_id ops (Some t) st = (r, y, st') \<and> usable rdy st' \<and> mem (bus st') = mem (bus st)"
    unfolding svc_storage_load_vin_def svc_storage_load_province_id_def svc_storage_load_city_id_def
    by (rule tk; simp add: dvr_const)+
qed

lemma loads_exact:
  assumes chip: "eeprom_chip ops mem rdy ptr" and us: "usable rdy st" and v: "v = nv_view_of (mem (bus st))"
  shows "\<exists>r st'. svc_storage_load_mileage ops (Some m) st
        = (r, Some (case v_mileage v of None \<Rightarrow> mileage_zero | Some y \<Rightarrow> y), st')
      \<and> r \<and> usable rdy st' \<and> mem (bus st') = mem (bus st)"
    and "\<exists>r st'. svc_storage_load_config ops (Some c) st = (r, Some (the_config v), st')
      \<and> usable rdy st' \<and> mem (bus st') = mem (bus st)"
    and "\<exists>r st'. svc_storage_load_vin ops (Some t) st = (r, Some (text_or_blank SVC_STORAGE_VIN_LEN (v_vin v)), st')
      \<and> usable rdy st' \<and> mem (bus st') = mem (bus st)"
    and "\<exists>r st'. svc_storage_load_province_id ops (Some t) st
        = (r, Some (text_or_blank SVC_STORAGE_PROVINCE_ID_LEN (v_province v)), st')
      \<and> usable rdy st' \<and> mem (bus st') = mem (bus st)"
    and "\<exists>r st'. svc_storage_load_city_id ops (Some t) st
        = (r, Some (text_or_blank SVC_STORAGE_CITY_ID_LEN (v_city v)), st')
      \<and> usable rdy st' \<and> mem (bus st') = mem (bus st)"
  using loads_keep [OF chip us] loads_view [OF chip us] unfolding loads_give_def v
  by (metis fst_conv snd_conv)+

section \<open>A concrete chip\<close>

text \<open>
  A 64 KB serial EEPROM: it does not acknowledge during a write cycle, a page write wraps inside
  its 32-byte page, and a delay of at least 5 ms ends the write cycle.
\<close>

record at24 =
  cmem :: "nat \<Rightarrow> u8"
  cptr :: nat
  cbusy :: bool

definition at24_page_write :: "nat \<Rightarrow> bytes \<Rightarrow> (nat \<Rightarrow> u8) \<Rightarrow> nat \<Rightarrow> u8" where
  "at24_page_write a data m = (\<lambda>k. if k div 32 = a div 32 \<and> (k + 32 - a mod 32) mod 32 < length data
     then data ! ((k + 32 - a mod 32) mod 32) else m k)"

definition at24_transfer :: "i2c_msg \<Rightarrow> at24 \<Rightarrow> int \<times> bytes \<times> at24" where
  "at24_transfer msg c =
     (if cbusy c \<or> i2c_addr msg \<noteq> 0x50 then (0, [], c)
      else if i2c_rd msg
      then (1, map (\<lambda>k. cmem c (k mod 65536)) [cptr c ..< cptr c + unat (i2c_len msg)],
            c\<lparr>cptr := (cptr c + unat (i2c_len msg)) mod 65536\<rparr>)
      else case i2c_buf msg of
        hi # lo # data \<Rightarrow>
          (let a = unat hi * 256 + unat lo in
           if data = [] then (1, [], c\<lparr>cptr := a\<rparr>)
           else (1, [], c\<lparr>cmem := at24_page_write a data (cmem c), cbusy := True\<rparr>))
      | _ \<Rightarrow> (0, [], c))"

definition at24_ops :: "at24 i2c_ops" where
  "at24_ops = \<lparr>rt_i2c_transfer = at24_transfer,
     rt_thread_mdelay = (\<lambda>n c. if 5 \<le> n then c\<lparr>cbusy := False\<rparr> else c)\<rparr>"

lemma mem_addr_bytes_value:
  "unat (ucast (drop_bit 8 (a :: u16)) :: u8) * 256 + unat (ucast (a AND 0xFF) :: u8) = unat a"
proof -
  have "unat (ucast (drop_bit 8 a) :: u8) = unat a div 256"
    using unat_lt_u16 [of a]
    by (simp add: unsigned_ucast_eq unsigned_drop_bit_eq drop_bit_eq_div take_bit_nat_eq_self unat_div)
  moreover have "a AND 0xFF = take_bit 8 a" by (simp add: take_bit_eq_mask mask_numeral)
  then have "unat (ucast (a AND 0xFF) :: u8) = unat a mod 256"
    by (simp add: unsigned_ucast_eq unsigned_take_bit_eq take_bit_eq_mod unat_mod)
  ultimately show ?thesis by simp
qed

lemma at24_page_write_upd:
  assumes "a mod 32 + length data \<le> 32"
  shows "at24_page_write a data m = upd_mem a data m"
proof
  fix k :: nat
  define q r p t where d: "q = a div 32" "r = a mod 32" "p = k div 32" "t = k mod 32"
  have ak: "a = 32 * q + r" "k = 32 * p + t" "r < 32" "t < 32" and rl: "r + length data \<le> 32"
    using assms by (simp_all add: d)
  have lhs: "at24_page_write a data m k = (if p = q \<and> (k + 32 - r) mod 32 < length data
      then data ! ((k + 32 - r) mod 32) else m k)"
    by (simp add: at24_page_write_def d)
  show "at24_page_write a data m k = upd_mem a data m k"
  proof (cases "p = q")
    case False
    then have "p + 1 \<le> q \<or> q + 1 \<le> p" by arith
    then have "\<not> (a \<le> k \<and> k < a + length data)"
      using ak rl by linarith
    then show ?thesis using False unfolding lhs upd_mem_def by auto
  next
    case True
    have kk: "(k + 32 - r) mod 32 = (if r \<le> t then t - r else 32 + t - r)"
    proof (cases "r \<le> t")
      case rt: True
      have "k + 32 - r = (t - r) + 32 * (p + 1)" using rt ak(2) by simp
      then have "(k + 32 - r) mod 32 = (t - r) mod 32" by (simp only: mod_mult_self2)
      then show ?thesis using rt ak(4) by simp
    next
      case False
      have "k + 32 - r = (32 + t - r) + 32 * p" using False ak(2,3) by simp
      then have "(k + 32 - r) mod 32 = (32 + t - r) mod 32" by (simp only: mod_mult_self2)
      then show ?thesis using False by simp
    qed
    show ?thesis
    proof (cases "r \<le> t")
      case rt: True
      then have "t - r = k - a" "a \<le> k" "t - r < length data \<longleftrightarrow> k < a + length data"
        using True ak(1,2) by auto
      then show ?thesis using True rt unfolding lhs kk upd_mem_def by simp
    next
      case False
      then have "k < a" "\<not> 32 + t - r < length data" using True ak(1,2) rl by auto
      then show ?thesis using True False unfolding lhs kk upd_mem_def by simp
    qed
  qed
qed

lemma at24_chip: "eeprom_chip at24_ops cmem (\<lambda>c. \<not> cbusy c) cptr"
  unfolding eeprom_chip_def
proof (intro conjI allI impI)
  fix b :: at24 and a :: u16 and data :: bytes
  assume "\<not> cbusy b \<and> data \<noteq> [] \<and> unat a mod 32 + length data \<le> 32"
  then show "\<exists>x b'. rt_i2c_transfer at24_ops (wr_msg (mem_addr_bytes a @ data)) b = (1, x, b')
      \<and> cmem b' = upd_mem (unat a) data (cmem b)"
    by (simp add: at24_ops_def at24_transfer_def wr_msg_def mem_addr_bytes_def dvr_const Let_def
        mem_addr_bytes_value at24_page_write_upd)
next
  fix b :: at24 and a :: u16
  assume "\<not> cbusy b"
  then show "\<exists>x b'. rt_i2c_transfer at24_ops (wr_msg (mem_addr_bytes a)) b = (1, x, b')
      \<and> \<not> cbusy b' \<and> cmem b' = cmem b \<and> cptr b' = unat a"
    by (simp add: at24_ops_def at24_transfer_def wr_msg_def mem_addr_bytes_def dvr_const
        mem_addr_bytes_value)
next
  fix b :: at24 and n :: u16
  assume "\<not> cbusy b \<and> 0 < unat n \<and> unat n \<le> 256 \<and> cptr b + unat n \<le> 65536"
  then show "\<exists>b'. rt_i2c_transfer at24_ops (rd_msg n) b = (1, map (cmem b) [cptr b ..< cptr b + unat n], b')
      \<and> \<not> cbusy b' \<and> cmem b' = cmem b"
    by (auto simp: at24_ops_def at24_transfer_def rd_msg_def dvr_const)
qed (simp_all add: at24_ops_def)

definition at24_blank :: at24 where
  "at24_blank = \<lparr>cmem = (\<lambda>_. 0xFF), cptr = 0, cbusy = False\<rparr>"

definition storage_blank :: "at24 storage" where
  "storage_blank = snd (svc_storage_init True (storage_boot at24_blank))"

lemma usable_blank: "usable (\<lambda>c. \<not> cbusy c) storage_blank"
  by (simp add: storage_blank_def svc_storage_init_def storage_boot_def usable_def at24_blank_def Let_def)

section \<open>Properties\<close>


definition sample_saves :: "nv_save list" where
  "sample_saves = [SaveMileage \<lparr>odo_km = 70000, odo_rem_m = 123, odo_reserved = 0\<rparr>, SaveClass 3,
     SaveProvince \<lparr>tx_valid = 1, tx_chars = [0x34, 0x32, 0]\<rparr>, SaveColor 2]"

lemma sample_saves_ok: "list_all save_ok sample_saves"
  by code_simp


text \<open>
  C30: whatever the bus returns (noise, errors, a foreign chip), a configuration handed out by
  \<open>svc_storage_load_config\<close> satisfies every field check: it is the factory default when the call
  reports failure, and a record that passed all checks when it reports success. In the same way a
  successful VIN, province or city load returns a value that passes its field check.
\<close>

theorem storage_loads_valid:
  "(case svc_storage_load_config ops (Some x) st of (r, c, _) \<Rightarrow>
      config_fields_valid (the c) \<and> (r \<or> c = Some g_default_config))
   \<and> (case svc_storage_load_vin ops (Some t) st of (r, v, _) \<Rightarrow>
      if r then svc_storage_vin_valid v else v = Some \<lparr>tx_valid = 0, tx_chars = replicate 18 0\<rparr>)
   \<and> (case svc_storage_load_province_id ops (Some t) st of (r, v, _) \<Rightarrow>
      if r then svc_storage_province_id_valid v else v = Some \<lparr>tx_valid = 0, tx_chars = replicate 3 0\<rparr>)
   \<and> (case svc_storage_load_city_id ops (Some t) st of (r, v, _) \<Rightarrow>
      if r then svc_storage_city_id_valid v else v = Some \<lparr>tx_valid = 0, tx_chars = replicate 5 0\<rparr>)"
  using loads_valid [where ops = ops and st = st] by simp

text \<open>
  C29: a stored record with any single byte changed, in its header, its payload, its padding or
  its checksum, no longer passes the validity check; this holds for all five kinds of record.
\<close>

theorem storage_detects_byte_error:
  assumes "(is_valid, n) \<in> {(svc_storage_record_is_valid, 20), (svc_storage_config_record_is_valid, 40),
      (svc_storage_vin_record_is_valid, 32), (svc_storage_province_id_record_is_valid, 16),
      (svc_storage_city_id_record_is_valid, 20)}"
    and "length r = n" "is_valid (Some r)" "i < n" "b \<noteq> r ! i"
  shows "\<not> is_valid (Some (r[i := b]))"
  using assms checksum_ok_detects [of 20 r i b] checksum_ok_detects [of 40 r i b]
    checksum_ok_detects [of 32 r i b] checksum_ok_detects [of 16 r i b]
  by (auto simp: svc_storage_record_is_valid_def svc_storage_config_record_is_valid_def
      svc_storage_vin_record_is_valid_def svc_storage_province_id_record_is_valid_def
      svc_storage_city_id_record_is_valid_def)

theorem storage_detects_byte_error_witness:
  "svc_storage_record_is_valid (Some (mileage_record \<lparr>odo_km = 5, odo_rem_m = 6, odo_reserved = 0\<rparr>))
   \<and> \<not> svc_storage_record_is_valid
       (Some ((mileage_record \<lparr>odo_km = 5, odo_rem_m = 6, odo_reserved = 0\<rparr>)[8 := 0xFF]))"
proof -
  let ?r = "mileage_record \<lparr>odo_km = 5, odo_rem_m = 6, odo_reserved = 0\<rparr>"
  have v: "svc_storage_record_is_valid (Some ?r)" by (rule mil.enc_valid) simp
  have l: "length ?r = 20" using mil.enc_length [of "\<lparr>odo_km = 5, odo_rem_m = 6, odo_reserved = 0\<rparr>"] by simp
  have b: "0xFF \<noteq> ?r ! 8" by code_simp
  show ?thesis
    using storage_detects_byte_error [of svc_storage_record_is_valid 20 ?r 8 "0xFF"] v l b by simp
qed

text \<open>
  The shift-and-subtract loop computes the polynomial with base 31 of the bytes, modulo 2 to
  the 32.
\<close>

theorem storage_checksum_polynomial:
  "unat (svc_storage_checksum (Some bs) len) = poly31 (take (unat len) bs) mod 2 ^ 32"
  by (simp add: checksum_fold fold_sum_poly)

text \<open>
  Arguments that fail the field checks, and null arguments, are refused before anything
  else happens: the call reports failure and neither the bus nor the service's state has changed.
\<close>

theorem storage_rejects_invalid:
  "(\<not> config_fields_valid c \<longrightarrow> svc_storage_save_config ops (Some c) st = (False, st))
   \<and> (\<not> svc_storage_phone_digits_valid d \<longrightarrow> svc_storage_save_local_phone ops d st = (False, st))
   \<and> (\<not> svc_storage_plate_class_valid x \<longrightarrow> svc_storage_save_plate_class ops (Some x) st = (False, st))
   \<and> (\<not> svc_storage_plate_color_valid x \<longrightarrow> svc_storage_save_plate_color ops (Some x) st = (False, st))
   \<and> (\<not> svc_storage_plate_number_valid p \<longrightarrow> svc_storage_save_plate_number ops p st = (False, st))
   \<and> (\<not> svc_storage_vin_valid t \<longrightarrow> svc_storage_save_vin ops t st = (False, st))
   \<and> (\<not> svc_storage_province_id_valid t \<longrightarrow> svc_storage_save_province_id ops t st = (False, st))
   \<and> (\<not> svc_storage_city_id_valid t \<longrightarrow> svc_storage_save_city_id ops t st = (False, st))
   \<and> svc_storage_save_mileage ops None st = (False, st) \<and> svc_storage_save_config ops None st = (False, st)"
  by (simp add: svc_storage_save_config_def svc_storage_save_local_phone_def
      svc_storage_save_plate_class_def svc_storage_save_plate_color_def
      svc_storage_save_plate_number_def svc_storage_save_vin_def svc_storage_save_province_id_def
      svc_storage_save_city_id_def svc_storage_save_mileage_def)

theorem storage_rejects_invalid_witness:
  "\<not> svc_storage_plate_class_valid 6 \<and> svc_storage_save_plate_class at24_ops (Some 6) storage_blank = (False, storage_blank)"
  using storage_rejects_invalid [where ops = at24_ops and x = 6 and st = storage_blank]
  by (simp add: svc_storage_plate_class_valid_def)

end
