(* ===== verification/Uart_Frames.thy ===== *)
theory Uart_Frames
  imports Uart_Parser Svc_Storage Svc_Vehicle_Io Svc_Adc
begin

unbundle bit_operations_syntax

text \<open>
  The messages of the serial protocol (\<open>src/applications/app_usart_cmd.c\<close>): the frames the
  controller sends (acknowledgement and periodic status, with the configuration cache the status
  frame carries) and the decoding of the status message of the SOC. A packed struct is a record
  with a function that gives its bytes; a one-bit field is a \<open>bool\<close>, the first declared field being
  the lowest bit, as on the target.
\<close>

section \<open>Data\<close>

record app_mcu_config_status =
  cs_valid_flags :: u8
  cs_local_phone :: bytes
  cs_plate_class :: u8
  cs_plate_color :: u8
  cs_plate_province_utf8 :: bytes
  cs_plate_letter :: u8
  cs_plate_tail :: bytes
  cs_vin :: bytes
  cs_province_id :: bytes
  cs_city_id :: bytes

record app_mcu_status =
  ms_major :: u8
  ms_minor :: u8
  ms_patch :: u8
  ms_wk_acc :: bool
  ms_wk_on :: bool
  ms_sw_kl1 :: bool
  ms_sw_kl2 :: bool
  ms_sw_kl3 :: bool
  ms_sw_kl4 :: bool
  ms_sw_kl5 :: bool
  ms_sw_kl6 :: bool
  ms_sw_kl7 :: bool
  ms_sw_kl8 :: bool
  ms_sw_kl9 :: bool
  ms_sw_kl10 :: bool
  ms_key :: bool
  ms_admin_region_code :: u32
  ms_config :: app_mcu_config_status

record app_soc_status_msg =
  camera1_status :: bool
  camera2_status :: bool
  camera3_status :: bool
  camera4_status :: bool
  record_status :: bool
  location_status :: bool
  ic_card_status :: bool
  udisk_status :: bool
  ip1_connected :: bool
  ip2_connected :: bool
  gsm_connected :: bool
  protect_storage :: bool
  sdcard_status :: bool
  sim_status :: bool
  latitude_direction :: bool
  longitude_direction :: bool
  driver_number :: bytes
  total_capacity :: u32
  free_capacity :: u32
  driver_time :: u32
  sim_signal :: u8
  phone_number :: bytes
  used_satellite :: u8
  latitude :: u32
  longitude :: u32
  timestamp :: u32
  driver_speed :: u16
  terminal_id :: bytes
  soc_ip1 :: u32
  soc_ip2 :: u32

definition APP_MCU_STATUS_CFG_VALID_PHONE :: u8 where [dvr_const]: "APP_MCU_STATUS_CFG_VALID_PHONE = 1"
definition APP_MCU_STATUS_CFG_VALID_PLATE :: u8 where [dvr_const]: "APP_MCU_STATUS_CFG_VALID_PLATE = 2"
definition APP_MCU_STATUS_CFG_VALID_VIN :: u8 where [dvr_const]: "APP_MCU_STATUS_CFG_VALID_VIN = 4"
definition APP_MCU_STATUS_CFG_VALID_PROVINCE_ID :: u8 where [dvr_const]:
  "APP_MCU_STATUS_CFG_VALID_PROVINCE_ID = 8"
definition APP_MCU_STATUS_CFG_VALID_CITY_ID :: u8 where [dvr_const]: "APP_MCU_STATUS_CFG_VALID_CITY_ID = 16"

definition APP_SOFTWARE_VERSION :: bytes where
  "APP_SOFTWARE_VERSION = [0x31, 0x2E, 0x30, 0x2E, 0x30, 0]"

definition APP_ADMIN_REGION_CODE :: u32 where "APP_ADMIN_REGION_CODE = 429006"

definition g_mcu_plate_province_utf8 :: "bytes list" where
  "g_mcu_plate_province_utf8 =
     [[0xE4, 0xBA, 0xAC], [0xE6, 0xB4, 0xA5], [0xE6, 0xB2, 0xAA], [0xE6, 0xB8, 0x9D],
      [0xE5, 0x86, 0x80], [0xE8, 0xB1, 0xAB], [0xE4, 0xBA, 0x91], [0xE8, 0xBE, 0xBD],
      [0xE9, 0xBB, 0x91], [0xE6, 0xB9, 0x98], [0xE7, 0x9A, 0x96], [0xE9, 0xB2, 0x81],
      [0xE6, 0x96, 0xB0], [0xE8, 0x8B, 0x8F], [0xE6, 0xB5, 0x99], [0xE8, 0xB5, 0xA3],
      [0xE9, 0x84, 0x82], [0xE6, 0xA1, 0x82], [0xE7, 0x94, 0x98], [0xE6, 0x99, 0x8B],
      [0xE8, 0x92, 0x99], [0xE9, 0x99, 0x95], [0xE5, 0x90, 0x89], [0xE9, 0x97, 0xBD],
      [0xE8, 0xB4, 0xB5], [0xE7, 0xB2, 0xA4], [0xE9, 0x9D, 0x92], [0xE8, 0x97, 0x8F],
      [0xE5, 0xB7, 0x9D], [0xE5, 0xAE, 0x81], [0xE7, 0x90, 0xBC]]"

section \<open>Layouts\<close>

definition bits8 :: "bool list \<Rightarrow> u8" where
  "bits8 bs = horner_sum of_bool 2 bs"

definition config_status_bytes :: "app_mcu_config_status \<Rightarrow> bytes" where
  "config_status_bytes c =
     [cs_valid_flags c] @ cs_local_phone c @ [cs_plate_class c, cs_plate_color c]
     @ cs_plate_province_utf8 c @ [cs_plate_letter c] @ cs_plate_tail c @ cs_vin c
     @ cs_province_id c @ cs_city_id c"

definition mcu_status_bytes :: "app_mcu_status \<Rightarrow> bytes" where
  "mcu_status_bytes s =
     [ms_major s, ms_minor s, ms_patch s,
      bits8 [ms_wk_acc s, ms_wk_on s, ms_sw_kl1 s, ms_sw_kl2 s, ms_sw_kl3 s, ms_sw_kl4 s, ms_sw_kl5 s, ms_sw_kl6 s],
      bits8 [ms_sw_kl7 s, ms_sw_kl8 s, ms_sw_kl9 s, ms_sw_kl10 s, ms_key s]]
     @ le32 (ms_admin_region_code s) @ config_status_bytes (ms_config s)"

definition config_status_zero :: app_mcu_config_status where
  "config_status_zero =
     \<lparr>cs_valid_flags = 0, cs_local_phone = replicate 11 0, cs_plate_class = 0, cs_plate_color = 0,
      cs_plate_province_utf8 = replicate 3 0, cs_plate_letter = 0, cs_plate_tail = replicate 5 0,
      cs_vin = replicate 17 0, cs_province_id = replicate 2 0, cs_city_id = replicate 4 0\<rparr>"

definition mcu_status_zero :: app_mcu_status where
  "mcu_status_zero =
     \<lparr>ms_major = 0, ms_minor = 0, ms_patch = 0, ms_wk_acc = False, ms_wk_on = False,
      ms_sw_kl1 = False, ms_sw_kl2 = False, ms_sw_kl3 = False, ms_sw_kl4 = False, ms_sw_kl5 = False,
      ms_sw_kl6 = False, ms_sw_kl7 = False, ms_sw_kl8 = False, ms_sw_kl9 = False, ms_sw_kl10 = False,
      ms_key = False, ms_admin_region_code = 0, ms_config = config_status_zero\<rparr>"

section \<open>Frames sent\<close>

definition app_uart_cmd_build_ack :: "u8 \<Rightarrow> u8 \<Rightarrow> bytes option \<Rightarrow> nat \<Rightarrow> nat \<times> bytes option" where
  "app_uart_cmd_build_ack type ret buf buf_size =
     (case buf of None \<Rightarrow> (0, None)
      | Some b \<Rightarrow>
          if buf_size < 8 then (0, Some b)
          else
            let b = b[0 := APP_UART_CMD_FRAME_HEAD, 1 := 8, 2 := type, 3 := ret, 4 := 0];
                crc = app_uart_cmd_crc16 (Some (drop 3 b)) 2
            in (8, Some (b[5 := ucast (crc AND 0xFF), 6 := ucast (drop_bit 8 crc),
                           7 := APP_UART_CMD_FRAME_TAIL])))"

definition version_part :: "u16 \<Rightarrow> u8" where
  "version_part value = (if 255 < value then 255 else ucast value)"

fun version_loop :: "bytes \<Rightarrow> nat \<Rightarrow> u16 \<Rightarrow> bool \<Rightarrow> u8 list \<Rightarrow> nat \<times> u16 \<times> bool \<times> u8 list" where
  "version_loop [] index value has_digit values = (index, value, has_digit, values)"
| "version_loop (c # p) index value has_digit values =
     (if c \<noteq> 0 \<and> index < 3
      then (if 0x30 \<le> c \<and> c \<le> 0x39
            then version_loop p index (value * 10 + ucast (c - 0x30)) True values
            else if c = 0x2E
            then (if has_digit
                  then version_loop p (index + 1) 0 False (values[index := version_part value])
                  else version_loop p index value has_digit values)
            else (index, value, has_digit, values))
      else (index, value, has_digit, values))"

definition version_values :: "bytes \<Rightarrow> u8 list" where
  "version_values p =
     (let p = (case p of [] \<Rightarrow> [] | c # p' \<Rightarrow> if c = 0x56 \<or> c = 0x76 then p' else c # p');
          (index, value, has_digit, values) = version_loop p 0 0 False [0, 0, 0]
      in if index < 3 \<and> has_digit then values[index := version_part value] else values)"

definition app_uart_cmd_parse_version :: "app_mcu_status option \<Rightarrow> app_mcu_status option" where
  "app_uart_cmd_parse_version status =
     map_option (\<lambda>s. let values = version_values APP_SOFTWARE_VERSION
       in s\<lparr>ms_major := values ! 0, ms_minor := values ! 1, ms_patch := values ! 2\<rparr>) status"

definition app_usart_cmd_refresh_status_config ::
  "'b i2c_ops \<Rightarrow> 'b storage \<Rightarrow> app_mcu_config_status \<times> 'b storage" where
  "app_usart_cmd_refresh_status_config ops st =
     (let cache = config_status_zero;
          (_, config, st) = svc_storage_load_config ops (Some g_default_config) st;
          (_, vin, st) = svc_storage_load_vin ops (Some \<lparr>tx_valid = 0, tx_chars = replicate 18 0\<rparr>) st;
          (_, province_id, st) = svc_storage_load_province_id ops (Some \<lparr>tx_valid = 0, tx_chars = replicate 3 0\<rparr>) st;
          (_, city_id, st) = svc_storage_load_city_id ops (Some \<lparr>tx_valid = 0, tx_chars = replicate 5 0\<rparr>) st;
          config = the config; vin = the vin; province_id = the province_id; city_id = the city_id;
          pn = plate_number config;
          cache = cache\<lparr>cs_local_phone := take 11 (local_phone config), cs_plate_class := plate_class config,
                        cs_plate_color := plate_color config\<rparr>;
          cache = (if province_index pn < SVC_STORAGE_PLATE_PROVINCE_COUNT
                   then cache\<lparr>cs_plate_province_utf8 := g_mcu_plate_province_utf8 ! unat (province_index pn)\<rparr>
                   else cache);
          cache = cache\<lparr>cs_plate_letter := letter pn, cs_plate_tail := take 5 (digits pn),
                        cs_vin := take 17 (tx_chars vin), cs_province_id := take 2 (tx_chars province_id),
                        cs_city_id := take 4 (tx_chars city_id)\<rparr>;
          flags = cs_valid_flags cache;
          flags = (if take 11 (local_phone config) \<noteq> replicate 11 0x30
                   then flags OR APP_MCU_STATUS_CFG_VALID_PHONE else flags);
          flags = (if pn_valid pn = 1 then flags OR APP_MCU_STATUS_CFG_VALID_PLATE else flags);
          flags = (if tx_valid vin = 1 then flags OR APP_MCU_STATUS_CFG_VALID_VIN else flags);
          flags = (if tx_valid province_id = 1 then flags OR APP_MCU_STATUS_CFG_VALID_PROVINCE_ID else flags);
          flags = (if tx_valid city_id = 1 then flags OR APP_MCU_STATUS_CFG_VALID_CITY_ID else flags)
      in (cache\<lparr>cs_valid_flags := flags\<rparr>, st))"

definition mcu_status_of ::
  "app_mcu_config_status \<Rightarrow> app_vehicle_io_state option \<Rightarrow> bool \<Rightarrow> app_mcu_status" where
  "mcu_status_of cache io any_key =
     (let s = the (app_uart_cmd_parse_version (Some mcu_status_zero));
          s = (case io of None \<Rightarrow> s
               | Some io_state \<Rightarrow>
                   s\<lparr>ms_wk_acc := wk_acc io_state \<noteq> 0, ms_wk_on := wk_on io_state \<noteq> 0,
                     ms_sw_kl1 := sw_kl1 io_state \<noteq> 0, ms_sw_kl2 := sw_kl2 io_state \<noteq> 0,
                     ms_sw_kl3 := sw_kl3 io_state \<noteq> 0, ms_sw_kl4 := sw_kl4 io_state \<noteq> 0,
                     ms_sw_kl5 := sw_kl5 io_state \<noteq> 0, ms_sw_kl6 := sw_kl6 io_state \<noteq> 0,
                     ms_sw_kl7 := sw_kl7 io_state \<noteq> 0, ms_sw_kl8 := sw_kl8 io_state \<noteq> 0,
                     ms_sw_kl9 := sw_kl9 io_state \<noteq> 0, ms_sw_kl10 := sw_kl10 io_state \<noteq> 0\<rparr>)
      in s\<lparr>ms_key := any_key, ms_admin_region_code := APP_ADMIN_REGION_CODE, ms_config := cache\<rparr>)"

definition app_uart_cmd_build_mcu_version ::
  "app_mcu_config_status \<Rightarrow> vehicle_io \<Rightarrow> adc_state \<Rightarrow> bytes option \<Rightarrow> nat \<Rightarrow> nat \<times> bytes option" where
  "app_uart_cmd_build_mcu_version cache vio adc buf buf_size =
     (case buf of None \<Rightarrow> (0, None)
      | Some b \<Rightarrow>
          if buf_size < 61 then (0, Some b)
          else
            let status = mcu_status_bytes (mcu_status_of cache (Some (svc_vehicle_io_get_state vio))
                           (svc_adc_is_any_key_pressed adc));
                crc = app_uart_cmd_crc16 (Some status) 55;
                frame = [APP_UART_CMD_FRAME_HEAD, 61, APP_UART_CMD_TYPE_MCU_VERSION] @ status
                  @ [ucast (crc AND 0xFF), ucast (drop_bit 8 crc), APP_UART_CMD_FRAME_TAIL]
            in (61, Some (frame @ drop 61 b)))"

section \<open>Messages received\<close>

definition app_uart_cmd_time_to_hms :: "u32 \<Rightarrow> u8 \<times> u8 \<times> u8" where
  "app_uart_cmd_time_to_hms ts =
     (let local_seconds = ts + 8 * 3600; seconds_of_day = local_seconds mod 86400
      in (ucast (seconds_of_day div 3600), ucast ((seconds_of_day mod 3600) div 60),
          ucast (seconds_of_day mod 60)))"

definition app_uart_cmd_seconds_to_hms :: "u32 \<Rightarrow> u8 \<times> u8 \<times> u8" where
  "app_uart_cmd_seconds_to_hms total_seconds =
     (let seconds_of_day = total_seconds mod 86400
      in (ucast (seconds_of_day div 3600), ucast ((seconds_of_day mod 3600) div 60),
          ucast (seconds_of_day mod 60)))"

definition app_uart_cmd_bcd_to_str18 :: "bytes \<Rightarrow> bytes" where
  "app_uart_cmd_bcd_to_str18 raw =
     concat (map (\<lambda>i. [0x30 + (drop_bit 4 (raw ! i) AND 0x0F), 0x30 + (raw ! i AND 0x0F)]) [0..<9]) @ [0]"

definition app_uart_cmd_read_le16 :: "bytes \<Rightarrow> nat \<Rightarrow> u16" where
  "app_uart_cmd_read_le16 buf i = ucast (buf ! i) OR push_bit 8 (ucast (buf ! (i + 1)))"

definition app_uart_cmd_read_le32 :: "bytes \<Rightarrow> nat \<Rightarrow> u32" where
  "app_uart_cmd_read_le32 buf i =
     ucast (buf ! i) OR push_bit 8 (ucast (buf ! (i + 1)))
     OR push_bit 16 (ucast (buf ! (i + 2))) OR push_bit 24 (ucast (buf ! (i + 3)))"

definition app_uart_cmd_parse_soc_status :: "app_uart_cmd_frame \<Rightarrow> app_soc_status_msg option" where
  "app_uart_cmd_parse_soc_status frame =
     (if fr_length frame < 93 then None
      else
        let d = fr_data frame in
        if d ! 0 \<noteq> APP_UART_CMD_FRAME_HEAD \<or> d ! 2 \<noteq> APP_UART_CMD_TYPE_SOC_STATUS then None
        else
          let b1 = d ! 3; b2 = d ! 4 in
          Some \<lparr>camera1_status = bit b1 0, camera2_status = bit b1 1, camera3_status = bit b1 2,
                camera4_status = bit b1 3, record_status = bit b1 4, location_status = bit b1 5,
                ic_card_status = bit b1 6, udisk_status = bit b1 7,
                ip1_connected = bit b2 0, ip2_connected = bit b2 1, gsm_connected = bit b2 2,
                protect_storage = bit b2 3, sdcard_status = bit b2 4, sim_status = bit b2 5,
                latitude_direction = bit b2 6, longitude_direction = bit b2 7,
                driver_number = seg 5 9 d,
                total_capacity = app_uart_cmd_read_le32 d 14,
                free_capacity = app_uart_cmd_read_le32 d 18,
                driver_time = app_uart_cmd_read_le32 d 22,
                sim_signal = d ! 26,
                phone_number = seg 27 10 d,
                used_satellite = d ! 37,
                latitude = app_uart_cmd_read_le32 d 38,
                longitude = app_uart_cmd_read_le32 d 42,
                timestamp = app_uart_cmd_read_le32 d 46,
                driver_speed = app_uart_cmd_read_le16 d 50,
                terminal_id = seg 52 30 d,
                soc_ip1 = app_uart_cmd_read_le32 d 82,
                soc_ip2 = app_uart_cmd_read_le32 d 86\<rparr>)"

section \<open>Facts\<close>

lemma bit_bits8: "bit (bits8 bs) n \<longleftrightarrow> n < 8 \<and> n < length bs \<and> bs ! n"
  by (auto simp: bits8_def bit_horner_sum_bit_iff)

lemma low_byte: "(ucast ((w :: u16) AND 0xFF) :: u8) = ucast w"
proof (rule bit_word_eqI)
  fix n assume n: "n < LENGTH(8)"
  have m: "(0xFF :: u16) = mask 8" by (simp add: mask_eq_exp_minus_1)
  show "bit (ucast (w AND 0xFF) :: u8) n = bit (ucast w :: u8) n"
    using n unfolding m by (simp add: bit_simps)
qed

lemma read_le_rd: "app_uart_cmd_read_le16 = rd16" "app_uart_cmd_read_le32 = rd32"
  by (simp_all add: fun_eq_iff app_uart_cmd_read_le16_def app_uart_cmd_read_le32_def rd16_def rd32_def)

lemma length_8E:
  assumes "length b = 8"
  obtains b0 b1 b2 b3 b4 b5 b6 b7 where "b = [b0, b1, b2, b3, b4, b5, b6, b7]"
  using assms by (auto simp: numeral_eq_Suc length_Suc_conv)

lemma build_ack:
  assumes "length b = 8"
  shows "app_uart_cmd_build_ack type ret (Some b) 8 = (8, Some (mk_frame type [ret, 0]))"
proof -
  obtain b0 b1 b2 b3 b4 b5 b6 b7 where b: "b = [b0, b1, b2, b3, b4, b5, b6, b7]"
    using assms by (rule length_8E)
  show ?thesis
    unfolding b
    by (simp add: app_uart_cmd_build_ack_def mk_frame_def Let_def low_byte crc16_eq_ref dvr_const
        numeral_eq_Suc)
qed

definition config_status_wf :: "app_mcu_config_status \<Rightarrow> bool" where
  "config_status_wf c \<longleftrightarrow> length (cs_local_phone c) = 11 \<and> length (cs_plate_province_utf8 c) = 3
     \<and> length (cs_plate_tail c) = 5 \<and> length (cs_vin c) = 17 \<and> length (cs_province_id c) = 2
     \<and> length (cs_city_id c) = 4"

lemma length_config_status: "config_status_wf c \<Longrightarrow> length (config_status_bytes c) = 46"
  by (simp add: config_status_wf_def config_status_bytes_def)

lemma length_mcu_status: "config_status_wf (ms_config s) \<Longrightarrow> length (mcu_status_bytes s) = 55"
  by (simp add: mcu_status_bytes_def length_config_status)

lemma mcu_status_config: "ms_config (mcu_status_of cache io k) = cache"
  by (simp add: mcu_status_of_def Let_def)

lemma build_mcu_version:
  assumes "config_status_wf cache" "length b = 61"
  shows "app_uart_cmd_build_mcu_version cache vio adc (Some b) 61
    = (61, Some (mk_frame 0x11 (mcu_status_bytes (mcu_status_of cache (Some (svc_vehicle_io_get_state vio))
        (svc_adc_is_any_key_pressed adc)))))"
proof -
  let ?s = "mcu_status_bytes (mcu_status_of cache (Some (svc_vehicle_io_get_state vio)) (svc_adc_is_any_key_pressed adc))"
  have l: "length ?s = 55" using assms(1) by (simp add: length_mcu_status mcu_status_config)
  have "app_uart_cmd_crc16 (Some ?s) 55 = crc16_ref ?s" using l by (simp add: crc16_eq_ref)
  moreover have "drop 61 b = []" using assms(2) by simp
  ultimately show ?thesis
    by (simp add: app_uart_cmd_build_mcu_version_def mk_frame_def Let_def low_byte dvr_const l)
qed

section \<open>The version string\<close>

text \<open>Decimal printing, the reference for the version parser.\<close>

fun dec :: "nat \<Rightarrow> bytes" where
  "dec n = (if n < 10 then [0x30 + of_nat n] else dec (n div 10) @ [0x30 + of_nat (n mod 10)])"

declare dec.simps [simp del]

lemma digit_char:
  assumes "d < 10"
  shows "(0x30 :: u8) \<le> 0x30 + of_nat d" "0x30 + of_nat d \<le> (0x39 :: u8)" "0x30 + of_nat d \<noteq> (0 :: u8)"
    "ucast (0x30 + of_nat d - 0x30 :: u8) = (of_nat d :: u16)"
proof -
  have "d \<in> {0, 1, 2, 3, 4, 5, 6, 7, 8, 9}" using assms by (auto simp: numeral_eq_Suc less_Suc_eq)
  then show "(0x30 :: u8) \<le> 0x30 + of_nat d" "0x30 + of_nat d \<le> (0x39 :: u8)" "0x30 + of_nat d \<noteq> (0 :: u8)"
    "ucast (0x30 + of_nat d - 0x30 :: u8) = (of_nat d :: u16)"
    by auto
qed

lemma version_loop_digit:
  "d < 10 \<Longrightarrow> i < 3 \<Longrightarrow>
   version_loop ((0x30 + of_nat d) # p) i v h vals = version_loop p i (v * 10 + of_nat d) True vals"
  using digit_char [of d] by (simp del: add_diff_cancel_left')

lemma dec_small: "n < 10 \<Longrightarrow> dec n = [0x30 + of_nat n]"
  by (subst dec.simps) (rule if_P)

lemma dec_large: "\<not> n < 10 \<Longrightarrow> dec n = dec (n div 10) @ [0x30 + of_nat (n mod 10)]"
  by (subst dec.simps) (rule if_not_P)

lemma of_nat_div10: "(of_nat (n div 10) * 10 + of_nat (n mod 10) :: u16) = of_nat n"
proof -
  have "(of_nat (n div 10 * 10 + n mod 10) :: u16) = of_nat n" by (simp only: div_mult_mod_eq)
  then show ?thesis by (simp only: of_nat_add of_nat_mult of_nat_numeral)
qed

lemma version_loop_dec:
  "i < 3 \<Longrightarrow> version_loop (dec n @ p) i 0 h vals = version_loop p i (of_nat n) True vals"
proof (induction n arbitrary: p rule: less_induct)
  case (less n)
  show ?case
  proof (cases "n < 10")
    case True
    show ?thesis
      using version_loop_digit [OF True less.prems, of p 0] by (simp only: dec_small [OF True] append_Cons append_Nil mult_zero_left add_0)
  next
    case False
    then have lt: "n div 10 < n" "n mod 10 < 10" by simp_all
    show ?thesis
      using less.IH [OF lt(1) less.prems] version_loop_digit [OF lt(2) less.prems, of p "of_nat (n div 10)" True]
      by (simp only: dec_large [OF False] append_assoc append_Cons append_Nil of_nat_div10)
  qed
qed

lemma ucast_u8_u16_u8 [simp]: "(ucast (ucast (x :: u8) :: u16) :: u8) = x"
  by (rule bit_word_eqI) (auto simp: bit_simps)

lemma version_part_small: "version_part (of_nat (unat (x :: u8))) = x"
proof -
  have "unat (of_nat (unat x) :: u16) = unat x"
    using unat_lt_u8 [of x] by (simp add: unsigned_of_nat take_bit_nat_eq_self)
  then have "\<not> 255 < (of_nat (unat x) :: u16)" using unat_lt_u8 [of x] by (simp add: word_less_nat_alt)
  then show ?thesis by (simp add: version_part_def)
qed

lemma dec_head: "\<exists>d p. dec n = (0x30 + of_nat d) # p \<and> d < 10"
proof (induction n rule: less_induct)
  case (less n)
  show ?case
  proof (cases "n < 10")
    case True
    then show ?thesis using dec_small by blast
  next
    case False
    then have "n div 10 < n" by simp
    then show ?thesis using less.IH dec_large [OF False] by (metis append_Cons)
  qed
qed

lemma version_string:
  "version_values (dec (unat a) @ [0x2E] @ dec (unat b) @ [0x2E] @ dec (unat c) @ [0]) = [a, b, c]"
proof -
  obtain d p where h: "dec (unat a) = (0x30 + of_nat d) # p" "d < 10" using dec_head by blast
  have "d \<in> {0, 1, 2, 3, 4, 5, 6, 7, 8, 9}" using h(2) by (auto simp: numeral_eq_Suc less_Suc_eq)
  then have v: "(0x30 + of_nat d :: u8) \<noteq> 0x56" "(0x30 + of_nat d :: u8) \<noteq> 0x76" by auto
  let ?s = "dec (unat a) @ [0x2E] @ dec (unat b) @ [0x2E] @ dec (unat c) @ [0]"
  have "(case ?s of [] \<Rightarrow> [] | ch # p' \<Rightarrow> if ch = 0x56 \<or> ch = 0x76 then p' else ch # p') = ?s"
    using v by (simp add: h(1))
  moreover have "version_loop ?s 0 0 False [0, 0, 0] = (2, of_nat (unat c), True, [a, b, 0])"
    using version_part_small [of a] version_part_small [of b]
    by (simp add: version_loop_dec)
  ultimately show ?thesis
    using version_part_small [of c] by (simp add: version_values_def Let_def)
qed

section \<open>Time of day and BCD\<close>

lemma hms_parts:
  fixes w :: u32
  assumes "unat w < 86400"
  shows "unat (ucast (w div 3600) :: u8) = unat w div 3600"
    "unat (ucast ((w mod 3600) div 60) :: u8) = unat w mod 3600 div 60"
    "unat (ucast (w mod 60) :: u8) = unat w mod 60"
proof -
  have "unat w div 3600 < 256" "unat w mod 3600 div 60 < 256" "unat w mod 60 < 256"
    using assms by auto
  then show "unat (ucast (w div 3600) :: u8) = unat w div 3600"
    "unat (ucast ((w mod 3600) div 60) :: u8) = unat w mod 3600 div 60"
    "unat (ucast (w mod 60) :: u8) = unat w mod 60"
    by (simp_all add: unsigned_ucast_eq unat_div_distrib unat_mod_distrib take_bit_nat_eq_self)
qed

definition hms_of :: "nat \<Rightarrow> u8 \<times> u8 \<times> u8 \<Rightarrow> bool" where
  "hms_of s t \<longleftrightarrow> (case t of (h, m, sec) \<Rightarrow> unat h < 24 \<and> unat m < 60 \<and> unat sec < 60
     \<and> unat h * 3600 + unat m * 60 + unat sec = s)"

lemma hms_of_word:
  fixes w :: u32
  assumes "unat w < 86400"
  shows "hms_of (unat w) (ucast (w div 3600), ucast ((w mod 3600) div 60), ucast (w mod 60))"
proof -
  have "unat w div 3600 < 24" using assms by (simp add: less_mult_imp_div_less)
  moreover have "unat w mod 3600 div 60 < 60" by (simp add: less_mult_imp_div_less)
  moreover have "unat w div 3600 * 3600 + unat w mod 3600 div 60 * 60 + unat w mod 60 = unat w"
  proof -
    have "unat w mod 3600 mod 60 = unat w mod 60" by (simp add: mod_mod_cancel)
    moreover have "unat w mod 3600 div 60 * 60 + unat w mod 3600 mod 60 = unat w mod 3600"
      by (rule div_mult_mod_eq)
    ultimately show ?thesis using div_mult_mod_eq [of "unat w" 3600] by linarith
  qed
  ultimately show ?thesis by (simp add: hms_of_def hms_parts [OF assms])
qed

lemma seconds_to_hms: "hms_of (unat s mod 86400) (app_uart_cmd_seconds_to_hms s)"
proof -
  have u: "unat (s mod 86400) = unat s mod 86400" by (simp add: unat_mod_distrib)
  have "unat (s mod 86400) < 86400" unfolding u by simp
  from hms_of_word [OF this] show ?thesis
    by (simp add: app_uart_cmd_seconds_to_hms_def Let_def u)
qed

lemma time_to_hms: "app_uart_cmd_time_to_hms ts = app_uart_cmd_seconds_to_hms (ts + 28800)"
  by (simp add: app_uart_cmd_time_to_hms_def app_uart_cmd_seconds_to_hms_def)

text \<open>Two decimal digits in a byte, as the card reader sends them.\<close>

definition bcd :: "nat \<Rightarrow> nat \<Rightarrow> u8" where
  "bcd hi lo = of_nat (16 * hi + lo)"

lemma bcd_nibbles:
  assumes "hi < 10" "lo < 10"
  shows "drop_bit 4 (bcd hi lo) AND 0x0F = of_nat hi" "bcd hi lo AND 0x0F = of_nat lo"
proof -
  have m: "(0x0F :: u8) = mask 4" by (simp add: mask_eq_exp_minus_1)
  have u: "unat (bcd hi lo) = 16 * hi + lo" "unat (of_nat hi :: u8) = hi" "unat (of_nat lo :: u8) = lo"
    using assms unfolding bcd_def by (simp_all only: unsigned_of_nat) (simp_all add: take_bit_nat_eq_self)
  show "drop_bit 4 (bcd hi lo) AND 0x0F = of_nat hi" "bcd hi lo AND 0x0F = of_nat lo"
    using assms unfolding m
    by (simp_all add: word_unat_eq_iff u unsigned_drop_bit_eq unsigned_take_bit_eq take_bit_eq_mask [symmetric]
        drop_bit_eq_div take_bit_eq_mod unat_div_distrib unat_mod_distrib)
qed

fun bcd_pack :: "nat list \<Rightarrow> bytes" where
  "bcd_pack (a # b # ds) = bcd a b # bcd_pack ds"
| "bcd_pack _ = []"

section \<open>The status message of the SOC\<close>

definition soc_payload :: "app_soc_status_msg \<Rightarrow> bytes" where
  "soc_payload m =
     [bits8 [camera1_status m, camera2_status m, camera3_status m, camera4_status m, record_status m,
             location_status m, ic_card_status m, udisk_status m],
      bits8 [ip1_connected m, ip2_connected m, gsm_connected m, protect_storage m, sdcard_status m,
             sim_status m, latitude_direction m, longitude_direction m]]
     @ driver_number m @ le32 (total_capacity m) @ le32 (free_capacity m) @ le32 (driver_time m)
     @ [sim_signal m] @ phone_number m @ [used_satellite m] @ le32 (latitude m) @ le32 (longitude m)
     @ le32 (timestamp m) @ le16 (driver_speed m) @ terminal_id m @ le32 (soc_ip1 m) @ le32 (soc_ip2 m)"

definition soc_msg_wf :: "app_soc_status_msg \<Rightarrow> bool" where
  "soc_msg_wf m \<longleftrightarrow> length (driver_number m) = 9 \<and> length (phone_number m) = 10 \<and> length (terminal_id m) = 30"

lemma length_soc_payload: "soc_msg_wf m \<Longrightarrow> length (soc_payload m) = 87"
  by (simp add: soc_msg_wf_def soc_payload_def)

lemma rd16_Cons: "0 < i \<Longrightarrow> rd16 (x # xs) i = rd16 xs (i - 1)"
  by (cases i) (simp_all add: rd16_def)

lemma rd32_Cons: "0 < i \<Longrightarrow> rd32 (x # xs) i = rd32 xs (i - 1)"
  by (cases i) (simp_all add: rd32_def numeral_3_eq_3)

lemma seg_Cons: "0 < i \<Longrightarrow> seg i n (x # xs) = seg (i - 1) n xs"
  by (cases i) (simp_all add: seg_def)

lemma parse_soc_frame:
  assumes "soc_msg_wf m"
  shows "app_uart_cmd_parse_soc_status \<lparr>fr_data = mk_frame 1 (soc_payload m), fr_length = 93\<rparr> = Some m"
proof -
  note l = assms [unfolded soc_msg_wf_def]
  let ?d = "mk_frame 1 (soc_payload m)"
  have d: "\<exists>post. ?d = 0xAA # of_nat 93 # 1 # (soc_payload m @ post)"
    using length_soc_payload [OF assms] by (simp add: mk_frame_def)
  then obtain post where p: "?d = 0xAA # of_nat 93 # 1 # (soc_payload m @ post)" by blast
  show ?thesis
    unfolding app_uart_cmd_parse_soc_status_def p
    by (simp add: soc_payload_def read_le_rd rd16_Cons rd32_Cons seg_Cons dvr_layout l dvr_const
        nth_append bit_bits8)
qed

section \<open>The configuration cache\<close>

text \<open>The cache, as a function of the persistent store.\<close>

definition cache_of :: "nv_view \<Rightarrow> app_mcu_config_status" where
  "cache_of v =
     (let c = the_config v; pn = plate_number c; vin = text_or_blank SVC_STORAGE_VIN_LEN (v_vin v);
          pid = text_or_blank SVC_STORAGE_PROVINCE_ID_LEN (v_province v);
          cid = text_or_blank SVC_STORAGE_CITY_ID_LEN (v_city v)
      in \<lparr>cs_valid_flags = bits8 [take 11 (local_phone c) \<noteq> replicate 11 0x30, pn_valid pn = 1,
            tx_valid vin = 1, tx_valid pid = 1, tx_valid cid = 1],
          cs_local_phone = take 11 (local_phone c), cs_plate_class = plate_class c,
          cs_plate_color = plate_color c,
          cs_plate_province_utf8 = (if province_index pn < 31
            then g_mcu_plate_province_utf8 ! unat (province_index pn) else [0, 0, 0]),
          cs_plate_letter = letter pn, cs_plate_tail = take 5 (digits pn), cs_vin = take 17 (tx_chars vin),
          cs_province_id = take 2 (tx_chars pid), cs_city_id = take 4 (tx_chars cid)\<rparr>)"

lemma refresh_chip:
  assumes chip: "eeprom_chip ops mem rdy ptr" and us: "usable rdy st"
  shows "\<exists>st'. app_usart_cmd_refresh_status_config ops st = (cache_of (nv_view_of (mem (bus st))), st')
    \<and> usable rdy st' \<and> mem (bus st') = mem (bus st)"
proof -
  let ?v = "nv_view_of (mem (bus st))"
  obtain r1 s1 where s1: "svc_storage_load_config ops (Some g_default_config) st = (r1, Some (the_config ?v), s1)"
      "usable rdy s1" "mem (bus s1) = mem (bus st)"
    using loads_exact(2) [OF chip us refl] by blast
  obtain r2 s2 where s2: "svc_storage_load_vin ops (Some \<lparr>tx_valid = 0, tx_chars = replicate 18 0\<rparr>) s1
      = (r2, Some (text_or_blank SVC_STORAGE_VIN_LEN (v_vin ?v)), s2)"
      "usable rdy s2" "mem (bus s2) = mem (bus st)"
    using loads_exact(3) [OF chip s1(2)] s1(3) by metis
  obtain r3 s3 where s3: "svc_storage_load_province_id ops (Some \<lparr>tx_valid = 0, tx_chars = replicate 3 0\<rparr>) s2
      = (r3, Some (text_or_blank SVC_STORAGE_PROVINCE_ID_LEN (v_province ?v)), s3)"
      "usable rdy s3" "mem (bus s3) = mem (bus st)"
    using loads_exact(4) [OF chip s2(2)] s2(3) by metis
  obtain r4 s4 where s4: "svc_storage_load_city_id ops (Some \<lparr>tx_valid = 0, tx_chars = replicate 5 0\<rparr>) s3
      = (r4, Some (text_or_blank SVC_STORAGE_CITY_ID_LEN (v_city ?v)), s4)"
      "usable rdy s4" "mem (bus s4) = mem (bus st)"
    using loads_exact(5) [OF chip s3(2)] s3(3) by metis
  have z: "[0, 0, 0 :: u8] = replicate 3 0" by (simp add: numeral_eq_Suc)
  have "fst (app_usart_cmd_refresh_status_config ops st) = cache_of ?v"
    unfolding app_usart_cmd_refresh_status_config_def cache_of_def
    by (simp add: s1(1) s2(1) s3(1) s4(1) config_status_zero_def SVC_STORAGE_PLATE_PROVINCE_COUNT_def
        APP_MCU_STATUS_CFG_VALID_PHONE_def APP_MCU_STATUS_CFG_VALID_PLATE_def APP_MCU_STATUS_CFG_VALID_VIN_def
        APP_MCU_STATUS_CFG_VALID_PROVINCE_ID_def APP_MCU_STATUS_CFG_VALID_CITY_ID_def z Let_def
        bits8_def)
  moreover have "snd (app_usart_cmd_refresh_status_config ops st) = s4"
    unfolding app_usart_cmd_refresh_status_config_def
    by (simp add: s1(1) s2(1) s3(1) s4(1) Let_def)
  ultimately show ?thesis using s4 by (metis prod.collapse)
qed

lemma province_utf8_length: "i < 31 \<Longrightarrow> length (g_mcu_plate_province_utf8 ! i) = 3"
proof -
  assume i: "i < 31"
  have "list_all (\<lambda>x. length x = 3) g_mcu_plate_province_utf8" "length g_mcu_plate_province_utf8 = 31"
    by (simp_all add: g_mcu_plate_province_utf8_def)
  then show ?thesis using i by (simp add: list_all_length)
qed

lemma cache_of_wf: "config_status_wf (cache_of (nv_view_of m))"
proof -
  have t: "n + 9 < unat sz \<Longrightarrow> length (tx_chars (text_or_blank n (rec_view a sz v (text_of_record n) m))) = n + 1"
    for n a sz v
    by (simp add: text_or_blank_def rec_view_def text_of_record_def length_seg stored_def Let_def)
  have c: "length (local_phone (the_config (nv_view_of m))) = 12"
    "length (digits (plate_number (the_config (nv_view_of m)))) = 6"
    by (auto simp: the_config_def nv_view_of_def rec_view_def config_of_record_def length_seg stored_def Let_def
        g_default_config_def)
  have "i < 31 \<Longrightarrow> length (g_mcu_plate_province_utf8 ! unat i) = 3" for i :: u8
    by (rule province_utf8_length) (simp add: word_less_nat_alt)
  then show ?thesis
    using c unfolding config_status_wf_def cache_of_def Let_def
    by (auto simp: nv_view_of_def t SVC_STORAGE_VIN_LEN_def SVC_STORAGE_PROVINCE_ID_LEN_def SVC_STORAGE_CITY_ID_LEN_def)
qed

lemma software_version: "version_values APP_SOFTWARE_VERSION = [1, 0, 0]"
  by code_simp

text \<open>The status bytes of the version frame, written out.\<close>

definition status_spec :: "app_mcu_config_status \<Rightarrow> app_vehicle_io_state \<Rightarrow> bool \<Rightarrow> bytes" where
  "status_spec cache s any_key =
     [1, 0, 0, bits8 (map (\<lambda>x. x \<noteq> 0) [wk_acc s, wk_on s, sw_kl1 s, sw_kl2 s, sw_kl3 s, sw_kl4 s, sw_kl5 s, sw_kl6 s]),
      bits8 (map (\<lambda>x. x \<noteq> 0) [sw_kl7 s, sw_kl8 s, sw_kl9 s, sw_kl10 s] @ [any_key])]
     @ le32 429006 @ config_status_bytes cache"

lemma mcu_status_spec: "mcu_status_bytes (mcu_status_of cache (Some s) k) = status_spec cache s k"
  by (simp add: mcu_status_of_def mcu_status_bytes_def status_spec_def Let_def app_uart_cmd_parse_version_def
      software_version APP_ADMIN_REGION_CODE_def)

section \<open>Properties\<close>

text \<open>
  C10: the periodic status frame reports the persistent store. After any sequence of well-formed saves
  over a chip that works, a refresh of the cache and the building of the frame give a well-formed
  61-byte frame of type 0x11 whose payload is the software version 1.0.0, the ignition and switch
  bits of the vehicle inputs, the key bit, the region code and the saved configuration: phone,
  plate, VIN, province and city with one validity bit each.
\<close>

theorem status_frame_reports_store:
  assumes "eeprom_chip ops mem rdy ptr" "usable rdy st" "list_all save_ok ss" "length b = 61"
  shows "\<exists>st'. run_saves ops ss st = (True, st')
    \<and> (let f = mk_frame 0x11 (status_spec (cache_of (fold spec_save ss (nv_view_of (mem (bus st)))))
             (svc_vehicle_io_get_state vio) (svc_adc_is_any_key_pressed adc))
       in app_uart_cmd_build_mcu_version (fst (app_usart_cmd_refresh_status_config ops st')) vio adc (Some b) 61
            = (61, Some f) \<and> wf_frame f \<and> length f = 61)"
proof -
  obtain st' where st': "run_saves ops ss st = (True, st')" "usable rdy st'"
      "nv_view_of (mem (bus st')) = fold spec_save ss (nv_view_of (mem (bus st)))"
    using run_saves_refines [OF assms(1-3)] by blast
  let ?c = "cache_of (fold spec_save ss (nv_view_of (mem (bus st))))"
  have c: "fst (app_usart_cmd_refresh_status_config ops st') = ?c"
    using refresh_chip [OF assms(1) st'(2)] st'(3) by auto
  have wf: "config_status_wf ?c" using cache_of_wf [of "mem (bus st')"] st'(3) by simp
  have "length (status_spec ?c (svc_vehicle_io_get_state vio) (svc_adc_is_any_key_pressed adc)) = 55"
    using length_config_status [OF wf] by (simp add: status_spec_def)
  then show ?thesis
    using st'(1) c build_mcu_version [OF wf assms(4), of vio adc]
    by (simp add: mcu_status_spec Let_def mk_frame_wf) (simp add: mk_frame_def)
qed

theorem status_frame_reports_store_witness:
  "\<exists>st'. run_saves at24_ops [SaveClass 3] storage_blank = (True, st')
    \<and> (\<exists>f. app_uart_cmd_build_mcu_version (fst (app_usart_cmd_refresh_status_config at24_ops st'))
          svc_vehicle_io_init svc_adc_init (Some (replicate 61 0)) 61 = (61, Some f) \<and> wf_frame f)"
proof -
  have s: "list_all save_ok [SaveClass 3]" by code_simp
  show ?thesis
    using status_frame_reports_store [OF at24_chip usable_blank s, of "replicate 61 0" svc_vehicle_io_init svc_adc_init]
    unfolding Let_def by auto
qed

text \<open>
  every acknowledgement is a well-formed frame of the protocol with the given type, whose two
  payload bytes are the return value and zero.
\<close>

theorem ack_well_formed:
  assumes "length b = 8"
  shows "\<exists>f. app_uart_cmd_build_ack type ret (Some b) 8 = (8, Some f) \<and> wf_frame f \<and> f ! 2 = type
    \<and> seg 3 2 f = [ret, 0]"
proof (intro exI conjI)
  show "app_uart_cmd_build_ack type ret (Some b) 8 = (8, Some (mk_frame type [ret, 0]))"
    using assms by (rule build_ack)
  show "seg 3 2 (mk_frame type [ret, 0]) = [ret, 0]" by (simp add: mk_frame_def seg_def)
qed (simp_all add: mk_frame_wf)

theorem ack_well_formed_witness:
  "\<exists>f. app_uart_cmd_build_ack 1 1 (Some (replicate 8 0)) 8 = (8, Some f) \<and> wf_frame f"
  using ack_well_formed [of "replicate 8 0" 1 1] by auto

text \<open>
  A status message of the SOC survives the line. For every message, its 87-byte payload in a
  frame, with any bytes other than the head byte before it, is cut out by the parser and decoded
  field by field into the same message, and the parser is idle again.
\<close>

theorem soc_status_roundtrip:
  assumes "soc_msg_wf m" "pindex p = 0" "0xAA \<notin> set junk"
  shows "map app_uart_cmd_parse_soc_status (frames_of (fst (parser_run (junk @ mk_frame 1 (soc_payload m)) p))) = [Some m]
    \<and> pindex (snd (parser_run (junk @ mk_frame 1 (soc_payload m)) p)) = 0"
proof -
  have l: "length (soc_payload m) = 87" using assms(1) by (rule length_soc_payload)
  then have "length (mk_frame 1 (soc_payload m)) = 93" by (simp add: mk_frame_def)
  then show ?thesis
    using parser_run_stream [OF assms(2), of "[(junk, mk_frame 1 (soc_payload m))]"] assms(3) l
      parse_soc_frame [OF assms(1)]
    by (simp add: mk_frame_wf)
qed

definition soc_sample :: app_soc_status_msg where
  "soc_sample =
     \<lparr>camera1_status = True, camera2_status = False, camera3_status = True, camera4_status = False,
      record_status = True, location_status = True, ic_card_status = False, udisk_status = True,
      ip1_connected = True, ip2_connected = False, gsm_connected = True, protect_storage = True,
      sdcard_status = False, sim_status = True, latitude_direction = False, longitude_direction = True,
      driver_number = [0x42, 0x01, 0x02, 0x19, 0x80, 0x01, 0x01, 0x12, 0x34],
      total_capacity = 0x01020304, free_capacity = 7, driver_time = 4000, sim_signal = 20,
      phone_number = replicate 10 0x13, used_satellite = 9, latitude = 30512345, longitude = 114123456,
      timestamp = 1700000000, driver_speed = 605, terminal_id = replicate 30 0x41,
      soc_ip1 = 0xC0A80001, soc_ip2 = 0\<rparr>"

theorem soc_status_roundtrip_witness:
  "map app_uart_cmd_parse_soc_status (frames_of (fst (parser_run ([1, 2] @ mk_frame 1 (soc_payload soc_sample)) parser_zero)))
     = [Some soc_sample]"
  using soc_status_roundtrip [of soc_sample parser_zero "[1, 2]"]
  by (simp add: soc_msg_wf_def soc_sample_def parser_zero_def)

text \<open>
  The version parser inverts printing: a string of three numbers up to 255 in decimal, separated
  by dots, gives these three numbers.
\<close>

theorem version_parse_print:
  "version_values (dec (unat a) @ [0x2E] @ dec (unat b) @ [0x2E] @ dec (unat c) @ [0]) = [a, b, c]"
  by (rule version_string)

text \<open>
  The time shown is local time. For every time stamp the hour is below 24, minute and second below
  60, and together they are the seconds of the day eight hours east of Greenwich (of the time stamp
  plus 28800 taken modulo \<open>2 ^ 32\<close>); the driving time is split in the same way without the offset.
\<close>

theorem hms_correct:
  "hms_of ((unat ts + 28800) mod 4294967296 mod 86400) (app_uart_cmd_time_to_hms ts)
   \<and> hms_of (unat s mod 86400) (app_uart_cmd_seconds_to_hms s)"
proof -
  have "unat (ts + 28800) = (unat ts + 28800) mod 4294967296"
    by (simp add: unat_word_ariths)
  then show ?thesis using seconds_to_hms [of "ts + 28800"] seconds_to_hms [of s] by (simp add: time_to_hms)
qed

text \<open>
  The licence number is shown digit by digit: nine bytes that hold eighteen decimal digits become
  the eighteen characters of these digits and a terminating zero.
\<close>

theorem bcd_string_digits:
  assumes "length ds = 18" "list_all (\<lambda>d. d < 10) ds"
  shows "app_uart_cmd_bcd_to_str18 (bcd_pack ds) = map (\<lambda>d. 0x30 + of_nat d) ds @ [0]"
proof -
  obtain d0 d1 d2 d3 d4 d5 d6 d7 d8 d9 d10 d11 d12 d13 d14 d15 d16 d17
    where ds: "ds = [d0, d1, d2, d3, d4, d5, d6, d7, d8, d9, d10, d11, d12, d13, d14, d15, d16, d17]"
    using assms(1) by (auto simp: numeral_eq_Suc length_Suc_conv)
  have u: "[0..<9] = [0, 1, 2, 3, 4, 5, 6, 7, 8]" by (simp add: upt_rec)
  show ?thesis
    using assms(2) unfolding ds app_uart_cmd_bcd_to_str18_def u by (simp add: bcd_nibbles)
qed

theorem bcd_string_digits_witness:
  "app_uart_cmd_bcd_to_str18 (bcd_pack [4, 2, 0, 1, 0, 2, 1, 9, 8, 0, 0, 1, 0, 1, 1, 2, 3, 4])
   = [0x34, 0x32, 0x30, 0x31, 0x30, 0x32, 0x31, 0x39, 0x38, 0x30, 0x30, 0x31, 0x30, 0x31, 0x31, 0x32, 0x33, 0x34, 0]"
  using bcd_string_digits [of "[4, 2, 0, 1, 0, 2, 1, 9, 8, 0, 0, 1, 0, 1, 1, 2, 3, 4]"] by simp

end
