(* ===== verification/Lcd_Ui.thy ===== *)
theory Lcd_Ui
  imports Svc_Vehicle_Io
begin

unbundle bit_operations_syntax

text \<open>
  The UI core of the display (\<open>src/applications/LCD/lcd_ui.c\<close>, \<open>lcd_ui.h\<close>): the data the pages
  show, the page tree and the navigation over it. The state is the record \<open>lcd\<close>; the service that
  draws the pages extends it with the state of its editors, so the operations are stated for every
  extension. The page table, the hook run on entering a page and the confirm functions of the pages
  are registered by that service (\<open>lcd_ui_pages_register\<close>, \<open>lcd_ui_nav_set_enter_hook\<close>):
  they are the record \<open>lcd_env\<close>, an argument of the operations. Drawing (the render pointers) is
  not part of the state; it is in \<open>Svc_Lcd_Screens\<close>.
\<close>

section \<open>Data\<close>

datatype lcd_page_id =
    LCD_PAGE_HOME
  | LCD_PAGE_MAIN_MENU
  | LCD_PAGE_DRIVE_RECORD_MENU
  | LCD_PAGE_DEVICE_STATUS_MENU
  | LCD_PAGE_SYSTEM_SETTING_MENU
  | LCD_PAGE_DRIVE_RECORD_FATIGUE
  | LCD_PAGE_DRIVE_RECORD_LOCATION
  | LCD_PAGE_DRIVE_RECORD_MILEAGE
  | LCD_PAGE_DRIVE_RECORD_DRIVER_INFO
  | LCD_PAGE_DRIVE_RECORD_VEHICLE_INFO
  | LCD_PAGE_DRIVE_RECORD_LOAD_STATUS
  | LCD_PAGE_DRIVE_RECORD_LOAD_STATUS_OK
  | LCD_PAGE_DRIVE_RECORD_EXPORT
  | LCD_PAGE_DRIVE_RECORD_INFO_CENTER
  | LCD_PAGE_DRIVE_RECORD_INFO_CENTER_TEXT
  | LCD_PAGE_DRIVE_RECORD_INFO_CENTER_BROADCAST
  | LCD_PAGE_DRIVE_RECORD_INFO_CENTER_EVENT_REPORT
  | LCD_PAGE_DRIVE_RECORD_INFO_CENTER_EWAYBILL
  | LCD_PAGE_DRIVE_RECORD_INFO_CENTER_TEXT_DISPATCH
  | LCD_PAGE_DRIVE_RECORD_INFO_CENTER_TEXT_NORMAL
  | LCD_PAGE_DRIVE_RECORD_INFO_CENTER_TEXT_FAULT
  | LCD_PAGE_DRIVE_RECORD_INFO_CENTER_TEXT_EMERGENCY
  | LCD_PAGE_DRIVE_RECORD_VIN
  | LCD_PAGE_DEVICE_STATUS_VERSION
  | LCD_PAGE_DEVICE_STATUS_GFRS
  | LCD_PAGE_DEVICE_STATUS_SELF_TEST
  | LCD_PAGE_DEVICE_STATUS_LOCATION_MODULE
  | LCD_PAGE_DEVICE_STATUS_VEHICLE
  | LCD_PAGE_DEVICE_STATUS_STORAGE
  | LCD_PAGE_DEVICE_STATUS_AV
  | LCD_PAGE_DEVICE_STATUS_SPEED
  | LCD_PAGE_DEVICE_STATUS_DRIVER_MONITOR
  | LCD_PAGE_SYSTEM_SETTING_KEY_VOLUME
  | LCD_PAGE_COMMON_CONFIG_OK
  | LCD_PAGE_SYSTEM_SETTING_BRIGHTNESS
  | LCD_PAGE_SYSTEM_SETTING_BACKLIGHT_TIME
  | LCD_PAGE_SYSTEM_SETTING_BRIGHTNESS_LEVEL
  | LCD_PAGE_SYSTEM_SETTING_VEHICLE_INFO
  | LCD_PAGE_SYSTEM_SETTING_VEHICLE_INFO_VIN
  | LCD_PAGE_SYSTEM_SETTING_VEHICLE_INFO_PLATE_SET
  | LCD_PAGE_SYSTEM_SETTING_VEHICLE_INFO_PLATE_COLOR
  | LCD_PAGE_SYSTEM_SETTING_VEHICLE_INFO_PLATE_CLASS
  | LCD_PAGE_SYSTEM_SETTING_VEHICLE_INFO_PROVINCE_ID
  | LCD_PAGE_SYSTEM_SETTING_VEHICLE_INFO_CITY_ID
  | LCD_PAGE_SYSTEM_SETTING_HOST_PARAM
  | LCD_PAGE_SYSTEM_SETTING_HOST_PARAM_LOCAL_PHONE
  | LCD_PAGE_SYSTEM_SETTING_HOST_PARAM_SOS_PHONE
  | LCD_PAGE_SYSTEM_SETTING_HOST_PARAM_SERVER1
  | LCD_PAGE_SYSTEM_SETTING_HOST_PARAM_SERVER2
  | LCD_PAGE_SYSTEM_SETTING_INIT_MILEAGE
  | LCD_PAGE_SYSTEM_SETTING_REGISTER
  | LCD_PAGE_SYSTEM_SETTING_UNREGISTER
  | LCD_PAGE_SYSTEM_SETTING_REC_VER
  | LCD_PAGE_SYSTEM_SETTING_COMPONENT_VER
  | LCD_PAGE_MAX

datatype lcd_page_kind = LCD_PAGE_KIND_VIEW | LCD_PAGE_KIND_LIST | LCD_PAGE_KIND_ACTION_RESULT

record 's lcd_page_node =
  parent_id :: lcd_page_id
  kind :: lcd_page_kind
  children :: "lcd_page_id list option"
  child_count :: u8
  select_count :: u8
  on_confirm :: "('s \<Rightarrow> 's) option"
  auto_return_ms :: u32
  auto_return_target :: lcd_page_id

record lcd_home_ui_data =
  home_speed_kmh_x10 :: u16
  home_hour :: u8
  home_minute :: u8
  home_second :: u8
  home_drive_hour :: u8
  home_drive_minute :: u8
  home_drive_second :: u8
  home_top_status_value :: u8
  home_latitude :: u32
  home_longitude :: u32
  home_timestamp :: u32
  home_latitude_direction :: u8
  home_longitude_direction :: u8
  home_card_id :: bytes

record lcd_text_msg =
  lt_valid :: u8
  lt_flag :: u8
  lt_text_type :: u8
  lt_text_len :: u16
  lt_text :: bytes
  lt_page_index :: u16
  lt_page_count :: u16

record lcd =
  g_lcd_home_ui :: lcd_home_ui_data
  g_lcd_text_msg :: lcd_text_msg
  g_lcd_overtime_drive_count :: u16
  g_lcd_total_mileage_km :: u32
  g_lcd_total_mileage_rem_m :: u16
  g_lcd_menu_mode :: bool
  g_lcd_current_page_id :: lcd_page_id
  g_lcd_page_selected :: "lcd_page_id \<Rightarrow> u8"
  g_lcd_page_enter_tick :: tick
  g_lcd_need_redraw :: bool
  g_lcd_common_ok_return_page :: lcd_page_id
  g_lcd_vehicle_status_check_tick :: tick
  g_lcd_vehicle_status_last_bits :: u16

record 's lcd_env =
  g_lcd_pages :: "(lcd_page_id \<Rightarrow> 's lcd_page_node) option"
  g_lcd_ui_nav_enter_hook :: "(lcd_page_id \<Rightarrow> 's \<Rightarrow> 's) option"

definition LCD_TEXT_MSG_MAX_LEN :: u16 where [dvr_const]: "LCD_TEXT_MSG_MAX_LEN = 4096"

section \<open>Strings of the kernel library\<close>

text \<open>
  A character array holding a C string is a byte list; \<open>rt_strncpy\<close> gives the first \<open>n\<close> bytes of
  the destination, \<open>rt_strncmp\<close> the signed difference at the first place the strings differ.
\<close>

fun rt_strncpy :: "bytes \<Rightarrow> nat \<Rightarrow> bytes" where
  "rt_strncpy src 0 = []"
| "rt_strncpy [] (Suc n) = replicate (Suc n) 0"
| "rt_strncpy (c # src) (Suc n) = (if c = 0 then replicate (Suc n) 0 else c # rt_strncpy src n)"

fun rt_strncmp :: "bytes \<Rightarrow> bytes \<Rightarrow> nat \<Rightarrow> int" where
  "rt_strncmp (c # cs) (d # ct) (Suc n) =
     (if c \<noteq> d then sint (c - d) else if c = 0 then 0 else rt_strncmp cs ct n)"
| "rt_strncmp _ _ _ = 0"

definition rt_tick_from_millisecond :: "int \<Rightarrow> tick" where
  "rt_tick_from_millisecond ms =
     (if ms < 0 then 0xFFFFFFFF
      else word_of_int (1000 * (ms div 1000)) + word_of_int ((1000 * (ms mod 1000) + 999) div 1000))"

section \<open>Reset\<close>

definition home_zero :: lcd_home_ui_data where
  "home_zero = \<lparr>home_speed_kmh_x10 = 0, home_hour = 0, home_minute = 0, home_second = 0, home_drive_hour = 0,
     home_drive_minute = 0, home_drive_second = 0, home_top_status_value = 0, home_latitude = 0,
     home_longitude = 0, home_timestamp = 0, home_latitude_direction = 0, home_longitude_direction = 0,
     home_card_id = replicate 20 0\<rparr>"

definition text_zero :: lcd_text_msg where
  "text_zero = \<lparr>lt_valid = 0, lt_flag = 0, lt_text_type = 0, lt_text_len = 0, lt_text = replicate 4097 0,
     lt_page_index = 0, lt_page_count = 0\<rparr>"

definition lcd_ui_data_reset :: "'a lcd_scheme \<Rightarrow> 'a lcd_scheme" where
  "lcd_ui_data_reset l =
     l\<lparr>g_lcd_home_ui := home_zero\<lparr>home_hour := 9, home_minute := 16, home_second := 45,
         home_card_id := rt_strncpy (replicate 18 0x30 @ [0]) 19 @ [0]\<rparr>,
       g_lcd_text_msg := text_zero, g_lcd_overtime_drive_count := 0, g_lcd_total_mileage_km := 0,
       g_lcd_total_mileage_rem_m := 0\<rparr>"

definition lcd_ui_core_reset :: "'a lcd_scheme \<Rightarrow> 'a lcd_scheme" where
  "lcd_ui_core_reset l =
     l\<lparr>g_lcd_menu_mode := False, g_lcd_page_selected := (\<lambda>_. 0), g_lcd_current_page_id := LCD_PAGE_HOME,
       g_lcd_page_enter_tick := 0, g_lcd_need_redraw := True, g_lcd_common_ok_return_page := LCD_PAGE_HOME\<rparr>"

text \<open>The values the variables start with, and the state after both resets.\<close>

definition lcd_static :: lcd where
  "lcd_static =
     \<lparr>g_lcd_home_ui = home_zero, g_lcd_text_msg = text_zero, g_lcd_overtime_drive_count = 0,
      g_lcd_total_mileage_km = 0, g_lcd_total_mileage_rem_m = 0, g_lcd_menu_mode = False,
      g_lcd_current_page_id = LCD_PAGE_HOME, g_lcd_page_selected = (\<lambda>_. 0), g_lcd_page_enter_tick = 0,
      g_lcd_need_redraw = True, g_lcd_common_ok_return_page = LCD_PAGE_HOME,
      g_lcd_vehicle_status_check_tick = 0, g_lcd_vehicle_status_last_bits = 0xFFFF\<rparr>"

definition lcd_start :: lcd where
  "lcd_start = lcd_ui_core_reset (lcd_ui_data_reset lcd_static)"

section \<open>Page queries\<close>

definition lcd_get_page_node :: "'s lcd_env \<Rightarrow> lcd_page_id \<Rightarrow> 's lcd_page_node option" where
  "lcd_get_page_node env page_id =
     (case g_lcd_pages env of None \<Rightarrow> None
      | Some pages \<Rightarrow> if page_id = LCD_PAGE_MAX then None else Some (pages page_id))"

definition lcd_page_get_select_count :: "'s lcd_env \<Rightarrow> lcd_page_id \<Rightarrow> u8" where
  "lcd_page_get_select_count env page_id =
     (case lcd_get_page_node env page_id of None \<Rightarrow> 0
      | Some page \<Rightarrow> if select_count page \<noteq> 0 then select_count page else child_count page)"

text \<open>
  The walk to the root; \<open>None\<close> is a walk that does not end (a cycle in the table). The counter is
  8 bits wide.
\<close>

partial_function (option) page_depth_loop :: "'s lcd_env \<Rightarrow> u8 \<Rightarrow> lcd_page_id \<Rightarrow> u8 option" where
  "page_depth_loop env depth page_id =
     (if page_id = LCD_PAGE_MAX then Some depth
      else case lcd_get_page_node env page_id of
             None \<Rightarrow> Some depth
           | Some page \<Rightarrow> if parent_id page = LCD_PAGE_MAX then Some depth
                          else page_depth_loop env (depth + 1) (parent_id page))"

definition lcd_page_get_depth :: "'s lcd_env \<Rightarrow> lcd_page_id \<Rightarrow> u8 option" where
  "lcd_page_get_depth env page_id = page_depth_loop env 0 page_id"

section \<open>Navigation\<close>

definition lcd_page_enter ::
  "'a lcd_scheme lcd_env \<Rightarrow> tick \<Rightarrow> lcd_page_id \<Rightarrow> 'a lcd_scheme \<Rightarrow> 'a lcd_scheme" where
  "lcd_page_enter env now page_id l =
     (if page_id = LCD_PAGE_MAX then l
      else
        let l = l\<lparr>g_lcd_current_page_id := page_id\<rparr>;
            l = (case g_lcd_ui_nav_enter_hook env of None \<Rightarrow> l | Some hook \<Rightarrow> hook page_id l)
        in l\<lparr>g_lcd_menu_mode := page_id \<noteq> LCD_PAGE_HOME, g_lcd_page_enter_tick := now,
             g_lcd_need_redraw := True\<rparr>)"

definition lcd_page_enter_common_ok ::
  "'a lcd_scheme lcd_env \<Rightarrow> tick \<Rightarrow> lcd_page_id \<Rightarrow> 'a lcd_scheme \<Rightarrow> 'a lcd_scheme" where
  "lcd_page_enter_common_ok env now return_page l =
     (let return_page = (if return_page = LCD_PAGE_MAX then LCD_PAGE_HOME else return_page)
      in lcd_page_enter env now LCD_PAGE_COMMON_CONFIG_OK (l\<lparr>g_lcd_common_ok_return_page := return_page\<rparr>))"

definition lcd_page_handle_back :: "'a lcd_scheme lcd_env \<Rightarrow> tick \<Rightarrow> 'a lcd_scheme \<Rightarrow> 'a lcd_scheme" where
  "lcd_page_handle_back env now l =
     (if g_lcd_current_page_id l = LCD_PAGE_COMMON_CONFIG_OK
      then lcd_page_enter env now (g_lcd_common_ok_return_page l) l
      else if g_lcd_current_page_id l = LCD_PAGE_HOME then lcd_page_enter env now LCD_PAGE_MAIN_MENU l
      else case lcd_get_page_node env (g_lcd_current_page_id l) of
             Some page \<Rightarrow> if parent_id page \<noteq> LCD_PAGE_MAX then lcd_page_enter env now (parent_id page) l
                          else lcd_page_enter env now LCD_PAGE_HOME l
           | None \<Rightarrow> lcd_page_enter env now LCD_PAGE_HOME l)"

definition lcd_page_handle_nav :: "'a lcd_scheme lcd_env \<Rightarrow> int \<Rightarrow> 'a lcd_scheme \<Rightarrow> 'a lcd_scheme" where
  "lcd_page_handle_nav env delta l =
     (let page = g_lcd_current_page_id l; count = lcd_page_get_select_count env page;
          selected = g_lcd_page_selected l page
      in if count = 0 then l
         else if delta < 0 \<and> 0 < selected
         then l\<lparr>g_lcd_page_selected := (g_lcd_page_selected l)(page := selected - 1), g_lcd_need_redraw := True\<rparr>
         else if 0 < delta \<and> unat selected + 1 < unat count
         then l\<lparr>g_lcd_page_selected := (g_lcd_page_selected l)(page := selected + 1), g_lcd_need_redraw := True\<rparr>
         else l)"

definition lcd_page_handle_confirm :: "'a lcd_scheme lcd_env \<Rightarrow> tick \<Rightarrow> 'a lcd_scheme \<Rightarrow> 'a lcd_scheme" where
  "lcd_page_handle_confirm env now l =
     (case lcd_get_page_node env (g_lcd_current_page_id l) of
        None \<Rightarrow> l
      | Some page \<Rightarrow>
          if kind page = LCD_PAGE_KIND_ACTION_RESULT
          then (if g_lcd_current_page_id l = LCD_PAGE_COMMON_CONFIG_OK
                then lcd_page_enter env now (g_lcd_common_ok_return_page l) l
                else if auto_return_target page \<noteq> LCD_PAGE_MAX
                then lcd_page_enter env now (auto_return_target page) l else l)
          else case on_confirm page of
                 Some f \<Rightarrow> f l
               | None \<Rightarrow>
                   (case children page of
                      Some ch \<Rightarrow>
                        if kind page = LCD_PAGE_KIND_LIST \<and> 0 < child_count page
                        then (let selected_index = g_lcd_page_selected l (g_lcd_current_page_id l)
                              in if selected_index < child_count page
                                 then lcd_page_enter env now (ch ! unat selected_index) l else l)
                        else l
                    | None \<Rightarrow> l))"

text \<open>The clock is read twice: for the comparison, and again when the target page is entered.\<close>

definition lcd_page_handle_auto_return ::
  "'a lcd_scheme lcd_env \<Rightarrow> tick \<Rightarrow> tick \<Rightarrow> 'a lcd_scheme \<Rightarrow> 'a lcd_scheme" where
  "lcd_page_handle_auto_return env now now_enter l =
     (case lcd_get_page_node env (g_lcd_current_page_id l) of
        None \<Rightarrow> l
      | Some page \<Rightarrow>
          if auto_return_ms page = 0 \<or> auto_return_target page = LCD_PAGE_MAX then l
          else if rt_tick_from_millisecond (uint (auto_return_ms page)) \<le> now - g_lcd_page_enter_tick l
          then lcd_page_enter env now_enter (auto_return_target page) l else l)"

definition lcd_vehicle_status_pack_bits :: "app_vehicle_io_state \<Rightarrow> u16" where
  "lcd_vehicle_status_pack_bits s =
     (let b = (\<lambda>v n. if v \<noteq> (0 :: u8) then push_bit n (1 :: u16) else 0)
      in b (wk_acc s) 0 OR b (wk_on s) 1 OR b (sw_kl1 s) 2 OR b (sw_kl2 s) 3 OR b (sw_kl3 s) 4
         OR b (sw_kl4 s) 5 OR b (sw_kl5 s) 6 OR b (sw_kl6 s) 7 OR b (sw_kl7 s) 8 OR b (sw_kl8 s) 9
         OR b (sw_kl9 s) 10 OR b (sw_kl10 s) 11)"

definition lcd_page_handle_dynamic_refresh :: "vehicle_io \<Rightarrow> tick \<Rightarrow> 'a lcd_scheme \<Rightarrow> 'a lcd_scheme" where
  "lcd_page_handle_dynamic_refresh vio now l =
     (if g_lcd_current_page_id l \<noteq> LCD_PAGE_DEVICE_STATUS_VEHICLE
      then l\<lparr>g_lcd_vehicle_status_last_bits := 0xFFFF\<rparr>
      else if now - g_lcd_vehicle_status_check_tick l < rt_tick_from_millisecond 100 then l
      else
        let l = l\<lparr>g_lcd_vehicle_status_check_tick := now\<rparr>;
            bits = lcd_vehicle_status_pack_bits (svc_vehicle_io_get_state vio)
        in if g_lcd_vehicle_status_last_bits l = 0xFFFF then l\<lparr>g_lcd_vehicle_status_last_bits := bits\<rparr>
           else if bits \<noteq> g_lcd_vehicle_status_last_bits l
           then l\<lparr>g_lcd_vehicle_status_last_bits := bits, g_lcd_need_redraw := True\<rparr> else l)"

section \<open>The navigation invariant\<close>

text \<open>Every selection is in the range its page offers (0 on a page that offers none).\<close>

definition sel_ok :: "'s lcd_env \<Rightarrow> 'a lcd_scheme \<Rightarrow> bool" where
  "sel_ok env l \<longleftrightarrow>
     (\<forall>p. unat (g_lcd_page_selected l p) < max 1 (unat (lcd_page_get_select_count env p)))"

definition nav_ok :: "'s lcd_env \<Rightarrow> 'a lcd_scheme \<Rightarrow> bool" where
  "nav_ok env l \<longleftrightarrow> g_lcd_current_page_id l \<noteq> LCD_PAGE_MAX \<and> g_lcd_common_ok_return_page l \<noteq> LCD_PAGE_MAX
     \<and> (g_lcd_menu_mode l \<longleftrightarrow> g_lcd_current_page_id l \<noteq> LCD_PAGE_HOME) \<and> sel_ok env l"

text \<open>
  What entering a page relies on: the enter hook leaves the page registers alone and keeps the
  selections in range.
\<close>

locale lcd_hook =
  fixes env :: "'a lcd_scheme lcd_env"
  assumes hook_page: "g_lcd_ui_nav_enter_hook env = Some h \<Longrightarrow> g_lcd_current_page_id (h p l) = g_lcd_current_page_id l"
    and hook_return: "g_lcd_ui_nav_enter_hook env = Some h \<Longrightarrow>
      g_lcd_common_ok_return_page (h p l) = g_lcd_common_ok_return_page l"
    and hook_sel: "g_lcd_ui_nav_enter_hook env = Some h \<Longrightarrow> sel_ok env l \<Longrightarrow> sel_ok env (h p l)"
begin

lemma enter_page:
  assumes "p \<noteq> LCD_PAGE_MAX"
  shows "g_lcd_current_page_id (lcd_page_enter env now p l) = p"
    "g_lcd_common_ok_return_page (lcd_page_enter env now p l) = g_lcd_common_ok_return_page l"
    "g_lcd_menu_mode (lcd_page_enter env now p l) \<longleftrightarrow> p \<noteq> LCD_PAGE_HOME"
    "g_lcd_page_enter_tick (lcd_page_enter env now p l) = now"
    "g_lcd_need_redraw (lcd_page_enter env now p l)"
  using assms hook_page hook_return by (auto simp: lcd_page_enter_def Let_def split: option.splits)

lemma enter_sel: "sel_ok env l \<Longrightarrow> sel_ok env (lcd_page_enter env now p l)"
proof -
  assume s: "sel_ok env l"
  have k: "sel_ok env (l\<lparr>g_lcd_current_page_id := q\<rparr>) \<longleftrightarrow> sel_ok env l"
    "sel_ok env (l\<lparr>g_lcd_menu_mode := a, g_lcd_page_enter_tick := b, g_lcd_need_redraw := c\<rparr>) \<longleftrightarrow> sel_ok env l"
    for l :: "'a lcd_scheme" and a b c q by (simp_all add: sel_ok_def)
  show ?thesis
    using s hook_sel by (auto simp: lcd_page_enter_def Let_def k split: option.splits)
qed

lemma enter_ok:
  assumes "p \<noteq> LCD_PAGE_MAX" "g_lcd_common_ok_return_page l \<noteq> LCD_PAGE_MAX" "sel_ok env l"
  shows "nav_ok env (lcd_page_enter env now p l)"
  using assms enter_page [OF assms(1)] enter_sel by (simp add: nav_ok_def)

lemma goto_ok: "nav_ok env l \<Longrightarrow> p \<noteq> LCD_PAGE_MAX \<Longrightarrow> nav_ok env (lcd_page_enter env now p l)"
  by (rule enter_ok) (simp_all add: nav_ok_def)

lemma nav_okD: "nav_ok env l \<Longrightarrow> g_lcd_common_ok_return_page l \<noteq> LCD_PAGE_MAX"
  by (simp add: nav_ok_def)

lemma common_ok_ok: "sel_ok env l \<Longrightarrow> nav_ok env (lcd_page_enter_common_ok env now p l)"
  unfolding lcd_page_enter_common_ok_def Let_def by (rule enter_ok) (simp_all add: sel_ok_def)

lemma back_ok: "nav_ok env l \<Longrightarrow> nav_ok env (lcd_page_handle_back env now l)"
  unfolding lcd_page_handle_back_def by (auto simp: goto_ok nav_okD split: option.splits)

lemma nav_nav_ok: "nav_ok env l \<Longrightarrow> nav_ok env (lcd_page_handle_nav env delta l)"
proof -
  assume n: "nav_ok env l"
  let ?p = "g_lcd_current_page_id l"
  let ?s = "g_lcd_page_selected l ?p" and ?c = "lcd_page_get_select_count env ?p"
  have s: "unat (g_lcd_page_selected l p) < max 1 (unat (lcd_page_get_select_count env p))" for p
    using n by (auto simp: nav_ok_def sel_ok_def)
  have d: "0 < ?s \<Longrightarrow> unat (?s - 1) < unat ?s"
    by (simp add: unat_minus_one unat_gt_0 word_gt_0)
  have i: "unat ?s + 1 < unat ?c \<Longrightarrow> unat (?s + 1) = unat ?s + 1"
    using unat_lt_u8 [of ?c] by (simp add: unat_word_ariths)
  have "sel_ok env (l\<lparr>g_lcd_page_selected := (g_lcd_page_selected l)(?p := ?s - 1), g_lcd_need_redraw := True\<rparr>)" if "0 < ?s"
    using s d [OF that] by (auto simp: sel_ok_def intro: less_trans)
  moreover have "sel_ok env (l\<lparr>g_lcd_page_selected := (g_lcd_page_selected l)(?p := ?s + 1), g_lcd_need_redraw := True\<rparr>)"
    if "unat ?s + 1 < unat ?c"
    using s i [OF that] that by (auto simp: sel_ok_def)
  ultimately show ?thesis using n by (auto simp: lcd_page_handle_nav_def Let_def nav_ok_def)
qed

lemma auto_return_ok: "nav_ok env l \<Longrightarrow> nav_ok env (lcd_page_handle_auto_return env now now' l)"
  unfolding lcd_page_handle_auto_return_def by (auto simp: goto_ok split: option.splits)

end

text \<open>
  What the confirm key relies on besides: a confirm function keeps the invariant, and the children
  of a page are pages.
\<close>

locale lcd_nav = lcd_hook +
  assumes confirm_ok: "lcd_get_page_node env p = Some page \<Longrightarrow> on_confirm page = Some f \<Longrightarrow> nav_ok env l \<Longrightarrow> nav_ok env (f l)"
    and child_page: "lcd_get_page_node env p = Some page \<Longrightarrow> children page = Some ch \<Longrightarrow> i < unat (child_count page) \<Longrightarrow>
      ch ! i \<noteq> LCD_PAGE_MAX"
begin

lemma confirm_nav_ok: "nav_ok env l \<Longrightarrow> nav_ok env (lcd_page_handle_confirm env now l)"
proof -
  assume n: "nav_ok env l"
  show ?thesis
    using n goto_ok [OF n] nav_okD [OF n] confirm_ok child_page
    by (auto simp: lcd_page_handle_confirm_def Let_def word_less_nat_alt split: option.splits)
qed

end

lemma refresh_ok: "nav_ok env l \<Longrightarrow> nav_ok env (lcd_page_handle_dynamic_refresh vio now l)"
  by (auto simp: nav_ok_def sel_ok_def lcd_page_handle_dynamic_refresh_def Let_def)

text \<open>
  A table in which the level of a page is one more than that of its parent: the walk to the root
  ends, and counts the levels.
\<close>

locale page_tree =
  fixes env :: "'s lcd_env" and level :: "lcd_page_id \<Rightarrow> nat"
  assumes level_parent: "lcd_get_page_node env p = Some page \<Longrightarrow> parent_id page \<noteq> LCD_PAGE_MAX \<Longrightarrow>
      level p = Suc (level (parent_id page))"
    and level_root: "lcd_get_page_node env p = Some page \<Longrightarrow> parent_id page = LCD_PAGE_MAX \<Longrightarrow> level p = 0"
    and level_none: "lcd_get_page_node env p = None \<Longrightarrow> level p = 0"
begin

lemma depth_loop: "page_depth_loop env d p = Some (d + of_nat (level p))"
proof (induction "level p" arbitrary: p d)
  case 0
  then show ?case
    using level_parent [of p] by (subst page_depth_loop.simps) (auto split: option.splits)
next
  case (Suc n)
  then obtain page where p: "lcd_get_page_node env p = Some page" "parent_id page \<noteq> LCD_PAGE_MAX"
    using level_root level_none by (metis nat.distinct(1) not_Some_eq)
  then have n: "n = level (parent_id page)" using level_parent Suc.hyps(2) by simp
  have "p \<noteq> LCD_PAGE_MAX" using p by (auto simp: lcd_get_page_node_def split: option.splits)
  then show ?case
    using p Suc.hyps(1) [OF n, of "d + 1"] Suc.hyps(2) [symmetric] n by (subst page_depth_loop.simps) simp
qed

lemma depth: "lcd_page_get_depth env p = Some (of_nat (level p))"
  by (simp add: lcd_page_get_depth_def depth_loop)

end

end
