(* ===== verification/Svc_Lcd_Data.thy ===== *)
theory Svc_Lcd_Data
  imports Lcd_Ui
begin

unbundle bit_operations_syntax

text \<open>
  What the display service shows and how other services change it
  (\<open>src/applications/svc_lcd.c\<close>): the update functions for the home page, the odometer and the
  text message, the UTF-8 decoder and the paging of the text page. Of
  \<open>lcd_render_info_center_text_normal_ui\<close> this theory has what it computes: the characters of the
  three lines and the number of pages; its drawing is in \<open>Svc_Lcd_Screens\<close>.
\<close>

section \<open>Updates\<close>

definition lcd_home_ui_set_data ::
  "u16 \<Rightarrow> u8 \<Rightarrow> u8 \<Rightarrow> u8 \<Rightarrow> u8 \<Rightarrow> u8 \<Rightarrow> u8 \<Rightarrow> bytes option \<Rightarrow> 'a lcd_scheme \<Rightarrow> bool \<times> 'a lcd_scheme" where
  "lcd_home_ui_set_data speed hour minute second drive_hour drive_minute drive_second card_id l =
     (let h = g_lcd_home_ui l;
          changed = (home_speed_kmh_x10 h \<noteq> speed \<or> home_hour h \<noteq> hour \<or> home_minute h \<noteq> minute
            \<or> home_second h \<noteq> second \<or> home_drive_hour h \<noteq> drive_hour
            \<or> home_drive_minute h \<noteq> drive_minute \<or> home_drive_second h \<noteq> drive_second);
          h = h\<lparr>home_speed_kmh_x10 := speed, home_hour := hour, home_minute := minute, home_second := second,
                home_drive_hour := drive_hour, home_drive_minute := drive_minute,
                home_drive_second := drive_second\<rparr>;
          (changed, h) = (case card_id of None \<Rightarrow> (changed, h)
            | Some cid \<Rightarrow> if rt_strncmp (home_card_id h) cid 20 \<noteq> 0
                          then (True, h\<lparr>home_card_id := rt_strncpy cid 19 @ [0]\<rparr>) else (changed, h));
          l = l\<lparr>g_lcd_home_ui := h\<rparr>
      in (changed, if changed \<and> \<not> g_lcd_menu_mode l then l\<lparr>g_lcd_need_redraw := True\<rparr> else l))"

definition svc_lcd_update_home_time :: "u8 \<Rightarrow> u8 \<Rightarrow> u8 \<Rightarrow> 'a lcd_scheme \<Rightarrow> 'a lcd_scheme" where
  "svc_lcd_update_home_time hour minute second l =
     (let h = g_lcd_home_ui l
      in snd (lcd_home_ui_set_data (home_speed_kmh_x10 h) hour minute second (home_drive_hour h)
           (home_drive_minute h) (home_drive_second h) (Some (home_card_id h)) l))"

definition svc_lcd_update_top_status :: "u8 \<Rightarrow> 'a lcd_scheme \<Rightarrow> 'a lcd_scheme" where
  "svc_lcd_update_top_status v l =
     (if home_top_status_value (g_lcd_home_ui l) \<noteq> v
      then let l = l\<lparr>g_lcd_home_ui := (g_lcd_home_ui l)\<lparr>home_top_status_value := v\<rparr>\<rparr>
           in if \<not> g_lcd_menu_mode l then l\<lparr>g_lcd_need_redraw := True\<rparr> else l
      else l)"

definition svc_lcd_update_home_speed :: "u16 \<Rightarrow> 'a lcd_scheme \<Rightarrow> 'a lcd_scheme" where
  "svc_lcd_update_home_speed speed l =
     (let h = g_lcd_home_ui l
      in snd (lcd_home_ui_set_data speed (home_hour h) (home_minute h) (home_second h) (home_drive_hour h)
           (home_drive_minute h) (home_drive_second h) (Some (home_card_id h)) l))"

definition svc_lcd_update_drive_time :: "u8 \<Rightarrow> u8 \<Rightarrow> u8 \<Rightarrow> 'a lcd_scheme \<Rightarrow> 'a lcd_scheme" where
  "svc_lcd_update_drive_time hour minute second l =
     (let h = g_lcd_home_ui l
      in snd (lcd_home_ui_set_data (home_speed_kmh_x10 h) (home_hour h) (home_minute h) (home_second h)
           hour minute second (Some (home_card_id h)) l))"

definition svc_lcd_update_card_id :: "bytes option \<Rightarrow> 'a lcd_scheme \<Rightarrow> 'a lcd_scheme" where
  "svc_lcd_update_card_id card_id l =
     (case card_id of None \<Rightarrow> l
      | Some cid \<Rightarrow>
          let h = g_lcd_home_ui l
          in snd (lcd_home_ui_set_data (home_speed_kmh_x10 h) (home_hour h) (home_minute h) (home_second h)
               (home_drive_hour h) (home_drive_minute h) (home_drive_second h) (Some cid) l))"

definition svc_lcd_update_home_location ::
  "u32 \<Rightarrow> u32 \<Rightarrow> u8 \<Rightarrow> u8 \<Rightarrow> u32 \<Rightarrow> 'a lcd_scheme \<Rightarrow> 'a lcd_scheme" where
  "svc_lcd_update_home_location latitude longitude latitude_direction longitude_direction timestamp l =
     (let h = g_lcd_home_ui l;
          changed = (home_latitude h \<noteq> latitude \<or> home_longitude h \<noteq> longitude
            \<or> home_latitude_direction h \<noteq> latitude_direction
            \<or> home_longitude_direction h \<noteq> longitude_direction \<or> home_timestamp h \<noteq> timestamp);
          l = l\<lparr>g_lcd_home_ui := h\<lparr>home_latitude := latitude, home_longitude := longitude,
                  home_latitude_direction := latitude_direction,
                  home_longitude_direction := longitude_direction, home_timestamp := timestamp\<rparr>\<rparr>
      in if changed \<and> g_lcd_current_page_id l = LCD_PAGE_HOME then l\<lparr>g_lcd_need_redraw := True\<rparr> else l)"

definition svc_lcd_update_text_message :: "u8 \<Rightarrow> u8 \<Rightarrow> bytes option \<Rightarrow> u16 \<Rightarrow> 'a lcd_scheme \<Rightarrow> 'a lcd_scheme" where
  "svc_lcd_update_text_message flag text_type utf8_text text_len l =
     (case utf8_text of None \<Rightarrow> l
      | Some t \<Rightarrow>
          let copy_len = (if LCD_TEXT_MSG_MAX_LEN < text_len then LCD_TEXT_MSG_MAX_LEN else text_len);
              m = g_lcd_text_msg l; n = unat copy_len;
              m = m\<lparr>lt_valid := 1, lt_flag := flag, lt_text_type := text_type, lt_text_len := copy_len,
                    lt_text := take n t @ [0] @ drop (n + 1) (lt_text m), lt_page_index := 0, lt_page_count := 0\<rparr>;
              l = l\<lparr>g_lcd_text_msg := m\<rparr>
          in if g_lcd_current_page_id l = LCD_PAGE_DRIVE_RECORD_INFO_CENTER_TEXT_NORMAL
             then l\<lparr>g_lcd_need_redraw := True\<rparr> else l)"

definition lcd_prepare_text_normal_page :: "'a lcd_scheme \<Rightarrow> 'a lcd_scheme" where
  "lcd_prepare_text_normal_page l =
     l\<lparr>g_lcd_text_msg := (g_lcd_text_msg l)\<lparr>lt_page_index := 0, lt_page_count := 1\<rparr>\<rparr>"

definition svc_lcd_update_overtime_drive_count :: "u16 \<Rightarrow> 'a lcd_scheme \<Rightarrow> 'a lcd_scheme" where
  "svc_lcd_update_overtime_drive_count count l =
     (if g_lcd_overtime_drive_count l \<noteq> count
      then let l = l\<lparr>g_lcd_overtime_drive_count := count\<rparr>
           in if g_lcd_current_page_id l = LCD_PAGE_DRIVE_RECORD_FATIGUE then l\<lparr>g_lcd_need_redraw := True\<rparr> else l
      else l)"

definition svc_lcd_update_total_mileage :: "u32 \<Rightarrow> u16 \<Rightarrow> 'a lcd_scheme \<Rightarrow> 'a lcd_scheme" where
  "svc_lcd_update_total_mileage km rem_m l =
     (if g_lcd_total_mileage_km l \<noteq> km \<or> g_lcd_total_mileage_rem_m l \<noteq> rem_m
      then let l = l\<lparr>g_lcd_total_mileage_km := km, g_lcd_total_mileage_rem_m := rem_m\<rparr>
           in if g_lcd_current_page_id l = LCD_PAGE_DRIVE_RECORD_MILEAGE then l\<lparr>g_lcd_need_redraw := True\<rparr> else l
      else l)"

section \<open>Text pages\<close>

definition LCD_TEXT_MSG_LINES_PER_PAGE :: nat where [dvr_const]: "LCD_TEXT_MSG_LINES_PER_PAGE = 3"
definition LCD_TEXT_MSG_LINE_MAX_CHARS :: nat where [dvr_const]: "LCD_TEXT_MSG_LINE_MAX_CHARS = 10"

text \<open>
  One character from a NUL-terminated byte sequence: the code and the number of bytes used. The
  bytes behind the end of the list stand for the terminator; a byte is looked at only when no byte
  before it is the terminator.
\<close>

definition byte_at :: "bytes \<Rightarrow> nat \<Rightarrow> u8" where
  "byte_at p i = (if i < length p then p ! i else 0)"

definition lcd_utf8_next_codepoint :: "bytes \<Rightarrow> u16 \<times> nat" where
  "lcd_utf8_next_codepoint p =
     (let p0 = byte_at p 0; p1 = byte_at p 1; p2 = byte_at p 2 in
      if p0 = 0 then (0, 0)
      else if p0 < 0x80 then (ucast p0, 1)
      else if p0 AND 0xE0 = 0xC0 \<and> p1 \<noteq> 0
      then (push_bit 6 (ucast (p0 AND 0x1F)) OR ucast (p1 AND 0x3F), 2)
      else if p0 AND 0xF0 = 0xE0 \<and> p1 \<noteq> 0 \<and> p2 \<noteq> 0
      then (push_bit 12 (ucast (p0 AND 0x0F)) OR push_bit 6 (ucast (p1 AND 0x3F)) OR ucast (p2 AND 0x3F), 3)
      else (0x3F, 1))"

lemma utf8_consumed_le: "snd (lcd_utf8_next_codepoint p) \<le> length p"
  by (cases p; cases "tl p"; cases "tl (tl p)")
     (auto simp: lcd_utf8_next_codepoint_def Let_def byte_at_def split: if_splits)

text \<open>Skip at most \<open>n\<close> characters, as the first loop of the page renderer does.\<close>

fun text_skip :: "nat \<Rightarrow> bytes \<Rightarrow> bytes" where
  "text_skip 0 p = p"
| "text_skip (Suc n) p =
     (let (code, consumed) = lcd_utf8_next_codepoint p
      in if byte_at p 0 = 0 \<or> code = 0 \<or> consumed = 0 then p else text_skip n (drop consumed p))"

text \<open>One line: at most \<open>n\<close> characters, ended by a carriage return or line feed.\<close>

fun text_line :: "nat \<Rightarrow> bytes \<Rightarrow> u16 list \<times> bytes" where
  "text_line 0 p = ([], p)"
| "text_line (Suc n) p =
     (let (code, consumed) = lcd_utf8_next_codepoint p in
      if byte_at p 0 = 0 \<or> code = 0 \<or> consumed = 0 then ([], p)
      else if code = 0x0D \<or> code = 0x0A then ([], drop consumed p)
      else let (cs, p) = text_line n (drop consumed p) in (code # cs, p))"

fun text_lines :: "nat \<Rightarrow> bytes \<Rightarrow> u16 list list" where
  "text_lines 0 p = []"
| "text_lines (Suc k) p =
     (let (cs, p) = text_line LCD_TEXT_MSG_LINE_MAX_CHARS p in cs # text_lines k p)"

text \<open>The number of characters up to the terminator.\<close>

function text_count :: "bytes \<Rightarrow> nat" where
  "text_count p =
     (let (code, consumed) = lcd_utf8_next_codepoint p
      in if byte_at p 0 = 0 \<or> code = 0 \<or> consumed = 0 then 0 else Suc (text_count (drop consumed p)))"
  by auto
termination
proof (relation "measure length")
  fix p x code consumed
  assume a: "x = lcd_utf8_next_codepoint p" "(code, consumed) = x" "\<not> (byte_at p 0 = 0 \<or> code = 0 \<or> consumed = 0)"
  then have "0 < consumed" by simp
  moreover have "consumed \<le> length p" using a utf8_consumed_le [of p] by (metis snd_conv)
  ultimately show "(drop consumed p, p) \<in> measure length" by simp
qed simp

declare text_count.simps [simp del]

definition lcd_render_info_center_text_normal_ui :: "'a lcd_scheme \<Rightarrow> u16 list list \<times> 'a lcd_scheme" where
  "lcd_render_info_center_text_normal_ui l =
     (let m = g_lcd_text_msg l in
      if lt_valid m = 0 \<or> lt_text_len m = 0 then ([[0x65E0, 0x6587, 0x672C]], l)
      else
        let page_start_char = (unat (lt_page_index m) * LCD_TEXT_MSG_LINES_PER_PAGE * LCD_TEXT_MSG_LINE_MAX_CHARS) mod 65536;
            ls = text_lines LCD_TEXT_MSG_LINES_PER_PAGE (text_skip page_start_char (lt_text m));
            per = LCD_TEXT_MSG_LINES_PER_PAGE * LCD_TEXT_MSG_LINE_MAX_CHARS;
            page_count = ((text_count (lt_text m) + per - 1) div per) mod 65536;
            page_count = (if page_count = 0 then 1 else page_count)
        in (ls, l\<lparr>g_lcd_text_msg := m\<lparr>lt_page_count := of_nat page_count\<rparr>\<rparr>))"

section \<open>Effect of the updates\<close>

definition cstr :: "bytes \<Rightarrow> bytes" where
  "cstr s = takeWhile (\<lambda>c. c \<noteq> 0) s"

lemma strncmp_self [simp]: "rt_strncmp s s n = 0"
proof (induction s arbitrary: n)
  case (Cons c s)
  then show ?case by (cases n) simp_all
qed simp

lemma strncmp_0:
  "rt_strncmp s t n = 0 \<Longrightarrow> length s = n \<Longrightarrow> 0 \<in> set (take n t) \<Longrightarrow> cstr s = cstr t"
proof (induction s t n rule: rt_strncmp.induct)
  case (1 c cs d ct n)
  have "c = d"
  proof (rule ccontr)
    assume "c \<noteq> d"
    then have "sint (c - d) = 0" using "1.prems"(1) by simp
    then have "c - d = 0" by (simp add: signed_eq_0_iff)
    then show False using \<open>c \<noteq> d\<close> by simp
  qed
  then show ?case using 1 by (cases "c = 0") (simp_all add: cstr_def)
qed (auto simp: cstr_def)

lemma cstr_strncpy: "length (cstr t) \<le> n \<Longrightarrow> cstr (rt_strncpy t n @ [0]) = cstr t"
proof (induction t n rule: rt_strncpy.induct)
  case (3 c src n)
  then show ?case by (cases "c = 0") (simp_all add: cstr_def)
qed (simp_all add: cstr_def)

lemma length_strncpy [simp]: "length (rt_strncpy t n) = n"
  by (induction t n rule: rt_strncpy.induct) simp_all

lemma set_data_other:
  "g_lcd_text_msg (snd (lcd_home_ui_set_data a b c d e f g h l)) = g_lcd_text_msg l"
  "g_lcd_current_page_id (snd (lcd_home_ui_set_data a b c d e f g h l)) = g_lcd_current_page_id l"
  "g_lcd_menu_mode (snd (lcd_home_ui_set_data a b c d e f g h l)) = g_lcd_menu_mode l"
  "g_lcd_total_mileage_km (snd (lcd_home_ui_set_data a b c d e f g h l)) = g_lcd_total_mileage_km l"
  "g_lcd_total_mileage_rem_m (snd (lcd_home_ui_set_data a b c d e f g h l)) = g_lcd_total_mileage_rem_m l"
  by (simp_all add: lcd_home_ui_set_data_def Let_def split: option.splits)

lemma set_data_home:
  "g_lcd_home_ui (snd (lcd_home_ui_set_data sp ho mi se dh dm ds (Some cid) l)) =
     (g_lcd_home_ui l)\<lparr>home_speed_kmh_x10 := sp, home_hour := ho, home_minute := mi, home_second := se,
       home_drive_hour := dh, home_drive_minute := dm, home_drive_second := ds,
       home_card_id := (if rt_strncmp (home_card_id (g_lcd_home_ui l)) cid 20 = 0
         then home_card_id (g_lcd_home_ui l) else rt_strncpy cid 19 @ [0])\<rparr>"
  by (simp add: lcd_home_ui_set_data_def Let_def)

lemma update_home:
  "g_lcd_home_ui (svc_lcd_update_home_time ho mi se l)
     = (g_lcd_home_ui l)\<lparr>home_hour := ho, home_minute := mi, home_second := se\<rparr>"
  "g_lcd_home_ui (svc_lcd_update_top_status v l) = (g_lcd_home_ui l)\<lparr>home_top_status_value := v\<rparr>"
  "g_lcd_home_ui (svc_lcd_update_home_speed sp l) = (g_lcd_home_ui l)\<lparr>home_speed_kmh_x10 := sp\<rparr>"
  "g_lcd_home_ui (svc_lcd_update_drive_time dh dm ds l)
     = (g_lcd_home_ui l)\<lparr>home_drive_hour := dh, home_drive_minute := dm, home_drive_second := ds\<rparr>"
  "g_lcd_home_ui (svc_lcd_update_card_id (Some cid) l)
     = (g_lcd_home_ui l)\<lparr>home_card_id := (if rt_strncmp (home_card_id (g_lcd_home_ui l)) cid 20 = 0
         then home_card_id (g_lcd_home_ui l) else rt_strncpy cid 19 @ [0])\<rparr>"
  "g_lcd_home_ui (svc_lcd_update_home_location la lo lad lod ts l)
     = (g_lcd_home_ui l)\<lparr>home_latitude := la, home_longitude := lo, home_latitude_direction := lad,
         home_longitude_direction := lod, home_timestamp := ts\<rparr>"
  "g_lcd_home_ui (svc_lcd_update_total_mileage km rm l) = g_lcd_home_ui l"
  "g_lcd_home_ui (svc_lcd_update_text_message fl ty tx n l) = g_lcd_home_ui l"
  by (simp_all add: svc_lcd_update_home_time_def svc_lcd_update_top_status_def svc_lcd_update_home_speed_def
      svc_lcd_update_drive_time_def svc_lcd_update_card_id_def svc_lcd_update_home_location_def
      svc_lcd_update_total_mileage_def svc_lcd_update_text_message_def Let_def set_data_home split: option.splits)

lemma update_page [simp]:
  "g_lcd_current_page_id (svc_lcd_update_home_time ho mi se l) = g_lcd_current_page_id l"
  "g_lcd_current_page_id (svc_lcd_update_top_status v l) = g_lcd_current_page_id l"
  "g_lcd_current_page_id (svc_lcd_update_home_speed sp l) = g_lcd_current_page_id l"
  "g_lcd_current_page_id (svc_lcd_update_drive_time dh dm ds l) = g_lcd_current_page_id l"
  "g_lcd_current_page_id (svc_lcd_update_card_id c l) = g_lcd_current_page_id l"
  "g_lcd_current_page_id (svc_lcd_update_home_location la lo lad lod ts l) = g_lcd_current_page_id l"
  "g_lcd_current_page_id (svc_lcd_update_total_mileage km rm l) = g_lcd_current_page_id l"
  "g_lcd_current_page_id (svc_lcd_update_text_message fl ty tx n l) = g_lcd_current_page_id l"
  by (simp_all add: svc_lcd_update_home_time_def svc_lcd_update_top_status_def svc_lcd_update_home_speed_def
      svc_lcd_update_drive_time_def svc_lcd_update_card_id_def svc_lcd_update_home_location_def
      svc_lcd_update_total_mileage_def svc_lcd_update_text_message_def Let_def set_data_other split: option.splits)

lemma update_text_msg [simp]:
  "g_lcd_text_msg (svc_lcd_update_home_time ho mi se l) = g_lcd_text_msg l"
  "g_lcd_text_msg (svc_lcd_update_top_status v l) = g_lcd_text_msg l"
  "g_lcd_text_msg (svc_lcd_update_home_speed sp l) = g_lcd_text_msg l"
  "g_lcd_text_msg (svc_lcd_update_drive_time dh dm ds l) = g_lcd_text_msg l"
  "g_lcd_text_msg (svc_lcd_update_card_id c l) = g_lcd_text_msg l"
  "g_lcd_text_msg (svc_lcd_update_home_location la lo lad lod ts l) = g_lcd_text_msg l"
  "g_lcd_text_msg (svc_lcd_update_total_mileage km rm l) = g_lcd_text_msg l"
  by (simp_all add: svc_lcd_update_home_time_def svc_lcd_update_top_status_def svc_lcd_update_home_speed_def
      svc_lcd_update_drive_time_def svc_lcd_update_card_id_def svc_lcd_update_home_location_def
      svc_lcd_update_total_mileage_def Let_def set_data_other split: option.splits)

lemma card_id_shown:
  assumes "length (home_card_id (g_lcd_home_ui l)) = 20" "length (cstr cid) \<le> 19" "0 \<in> set (take 20 cid)"
  shows "cstr (home_card_id (g_lcd_home_ui (svc_lcd_update_card_id (Some cid) l))) = cstr cid
    \<and> length (home_card_id (g_lcd_home_ui (svc_lcd_update_card_id (Some cid) l))) = 20"
  using assms strncmp_0 [of "home_card_id (g_lcd_home_ui l)" cid 20] cstr_strncpy [of cid 19]
  by (simp add: update_home)

section \<open>UTF-8\<close>

text \<open>The encoding of a character of the basic plane.\<close>

definition utf8_enc :: "u16 \<Rightarrow> bytes" where
  "utf8_enc c =
     (if c < 0x80 then [ucast c]
      else if c < 0x800 then [0xC0 OR ucast (drop_bit 6 c), 0x80 OR ucast (take_bit 6 c)]
      else [0xE0 OR ucast (drop_bit 12 c), 0x80 OR ucast (take_bit 6 (drop_bit 6 c)), 0x80 OR ucast (take_bit 6 c)])"

lemma small_bytes:
  assumes "list_all P (map of_nat [0..<n])" "unat (x :: u8) < n"
  shows "P x"
proof -
  have "P (of_nat (unat x))" using assms by (simp only: list_all_iff set_map set_upt) (auto simp del: of_nat_unat)
  then show ?thesis by simp
qed

lemma lead2: "unat (x :: u8) < 32 \<Longrightarrow> \<not> 0xC0 OR x < 0x80 \<and> 0xC0 OR x \<noteq> 0 \<and> (0xC0 OR x) AND 0xE0 = 0xC0 \<and> (0xC0 OR x) AND 0x1F = x"
  by (rule small_bytes [where n = 32]) code_simp

lemma lead3: "unat (x :: u8) < 16 \<Longrightarrow> \<not> 0xE0 OR x < 0x80 \<and> 0xE0 OR x \<noteq> 0 \<and> (0xE0 OR x) AND 0xE0 \<noteq> 0xC0
    \<and> (0xE0 OR x) AND 0xF0 = 0xE0 \<and> (0xE0 OR x) AND 0x0F = x"
  by (rule small_bytes [where n = 16]) code_simp

lemma tail_byte: "unat (x :: u8) < 64 \<Longrightarrow> 0x80 OR x \<noteq> 0 \<and> (0x80 OR x) AND 0x3F = x"
  by (rule small_bytes [where n = 64]) code_simp

lemma utf8_decode:
  assumes "c \<noteq> 0"
  shows "lcd_utf8_next_codepoint (utf8_enc c @ rest) = (c, length (utf8_enc c))"
proof -
  have t: "unat (ucast (take_bit 6 w) :: u8) < 64" for w :: u16
    by (simp add: unsigned_ucast_eq unsigned_take_bit_eq take_bit_nat_def less_le_trans [OF mod_less_divisor])
  have hi: "n < k" if "take_bit k c = c" "bit c n" for k n
    using that by (metis bit_take_bit_iff)
  have d: "unat (ucast (drop_bit k c) :: u8) < m" if "unat c div 2 ^ k < m" for k m
  proof -
    have "unat (ucast (drop_bit k c) :: u8) \<le> unat (drop_bit k c)" by (simp add: unsigned_ucast_eq take_bit_nat_def)
    also have "unat (drop_bit k c) = unat c div 2 ^ k"
      using unat_lt_u16 [of c] by (simp only: unsigned_drop_bit_eq drop_bit_nat_def) (simp add: take_bit_nat_eq_self)
    finally show ?thesis using that by simp
  qed
  consider "c < 0x80" | "\<not> c < 0x80" "c < 0x800" | "\<not> c < 0x80" "\<not> c < 0x800" by blast
  then show ?thesis
  proof cases
    case 1
    then have u: "unat (ucast c :: u8) = unat c"
      by (simp add: unsigned_ucast_eq word_less_nat_alt take_bit_nat_eq_self)
    then have "ucast (ucast c :: u8) = c" by (simp add: word_unat_eq_iff)
    moreover have "(ucast c :: u8) < 0x80" "(ucast c :: u8) \<noteq> 0"
      using 1 u assms by (auto simp: word_less_nat_alt word_unat_eq_iff [of "ucast c"] word_unat_eq_iff [of c])
    ultimately show ?thesis using 1 by (simp add: utf8_enc_def lcd_utf8_next_codepoint_def byte_at_def)
  next
    case 2
    have c: "take_bit 11 c = c" using 2(2) by (simp add: word_unat_eq_iff word_less_nat_alt unsigned_take_bit_eq take_bit_nat_eq_self)
    have "push_bit 6 (ucast (ucast (drop_bit 6 c) :: u8)) OR ucast (ucast (take_bit 6 c) :: u8) = c"
      by (rule bit_word_eqI) (use hi [OF c] in \<open>fastforce simp: bit_simps\<close>)
    moreover have "unat (ucast (drop_bit 6 c) :: u8) < 32"
      using 2(2) by (intro d) (simp add: word_less_nat_alt less_mult_imp_div_less)
    ultimately show ?thesis
      using 2 lead2 [of "ucast (drop_bit 6 c)"] tail_byte [OF t [of c]]
      by (simp add: utf8_enc_def lcd_utf8_next_codepoint_def byte_at_def)
  next
    case 3
    have "push_bit 12 (ucast (ucast (drop_bit 12 c) :: u8)) OR push_bit 6 (ucast (ucast (take_bit 6 (drop_bit 6 c)) :: u8))
        OR ucast (ucast (take_bit 6 c) :: u8) = c" (is "?w = c")
    proof (rule bit_word_eqI)
      fix n assume n: "n < LENGTH(16)"
      consider "n < 6" | "6 \<le> n" "n < 12" | "12 \<le> n" by linarith
      then show "bit ?w n = bit c n" using n by cases (auto simp: bit_simps)
    qed
    moreover have "unat (ucast (drop_bit 12 c) :: u8) < 16"
      using unat_lt_u16 [of c] by (intro d) (simp add: less_mult_imp_div_less)
    ultimately show ?thesis
      using 3 lead3 [of "ucast (drop_bit 12 c)"] tail_byte [OF t [of c]] tail_byte [OF t [of "drop_bit 6 c"]]
      by (simp add: utf8_enc_def lcd_utf8_next_codepoint_def byte_at_def)
  qed
qed

section \<open>Paging\<close>

definition plain :: "u16 \<Rightarrow> bool" where
  "plain c \<longleftrightarrow> c \<noteq> 0 \<and> c \<noteq> 0x0D \<and> c \<noteq> 0x0A"

definition encoded :: "u16 list \<Rightarrow> bytes \<Rightarrow> bytes" where
  "encoded cs rest = concat (map utf8_enc cs) @ 0 # rest"

lemma utf8_enc_nonempty: "utf8_enc c \<noteq> []"
  by (simp add: utf8_enc_def)

lemma byte_at_end: "byte_at (0 # rest) 0 = 0"
  by (simp add: byte_at_def)

lemma next_end: "lcd_utf8_next_codepoint (0 # rest) = (0, 0)"
  by (simp add: lcd_utf8_next_codepoint_def byte_at_def)

lemma next_char:
  assumes "c \<noteq> 0"
  shows "lcd_utf8_next_codepoint (encoded (c # cs) rest) = (c, length (utf8_enc c))"
    "byte_at (encoded (c # cs) rest) 0 \<noteq> 0"
    "drop (length (utf8_enc c)) (encoded (c # cs) rest) = encoded cs rest"
proof -
  show n: "lcd_utf8_next_codepoint (encoded (c # cs) rest) = (c, length (utf8_enc c))"
    using utf8_decode [OF assms] by (simp add: encoded_def)
  show "byte_at (encoded (c # cs) rest) 0 \<noteq> 0"
    using n assms by (auto simp: lcd_utf8_next_codepoint_def)
  show "drop (length (utf8_enc c)) (encoded (c # cs) rest) = encoded cs rest" by (simp add: encoded_def)
qed

lemma encoded_Nil: "encoded [] rest = 0 # rest"
  by (simp add: encoded_def)

lemma text_skip_encoded: "0 \<notin> set cs \<Longrightarrow> text_skip n (encoded cs rest) = encoded (drop n cs) rest"
proof (induction n arbitrary: cs)
  case (Suc n)
  show ?case
  proof (cases cs)
    case Nil
    then show ?thesis by (simp add: encoded_Nil next_end byte_at_end)
  next
    case (Cons c cs')
    then have "c \<noteq> 0" "0 \<notin> set cs'" using Suc.prems by auto
    then show ?thesis using Suc.IH [of cs'] next_char [of c cs' rest] utf8_enc_nonempty [of c] Cons by simp
  qed
qed simp

lemma text_line_encoded:
  "list_all plain cs \<Longrightarrow> text_line n (encoded cs rest) = (take n cs, encoded (drop n cs) rest)"
proof (induction n arbitrary: cs)
  case (Suc n)
  show ?case
  proof (cases cs)
    case Nil
    then show ?thesis by (simp add: encoded_Nil next_end byte_at_end)
  next
    case (Cons c cs')
    then have "plain c" "list_all plain cs'" using Suc.prems by auto
    moreover from this(1) have "c \<noteq> 0" "c \<noteq> 0x0D" "c \<noteq> 0x0A" by (simp_all add: plain_def)
    ultimately show ?thesis using Suc.IH [of cs'] next_char [of c cs' rest] utf8_enc_nonempty [of c] Cons by simp
  qed
qed simp

lemma text_count_encoded: "0 \<notin> set cs \<Longrightarrow> text_count (encoded cs rest) = length cs"
proof (induction cs)
  case Nil
  then show ?case by (subst text_count.simps) (simp add: encoded_Nil next_end byte_at_end)
next
  case (Cons c cs)
  then have "c \<noteq> 0" by auto
  then show ?case
    using Cons next_char [of c cs rest] utf8_enc_nonempty [of c] by (subst text_count.simps) simp
qed

lemma plain_nonzero: "list_all plain cs \<Longrightarrow> 0 \<notin> set cs"
  by (auto simp: list_all_iff plain_def)

lemma concat_pages: "concat (map (\<lambda>k. take m (drop (k * m) xs)) [0..<n]) = take (n * m) xs"
proof (induction n)
  case (Suc n)
  have "take (n * m) xs @ take m (drop (n * m) xs) = take (n * m + m) xs"
    by (metis take_add)
  then show ?case using Suc by (simp add: add.commute)
qed simp

text \<open>The lines shown on page \<open>k\<close>, and the page count after drawing.\<close>

definition page_lines :: "nat \<Rightarrow> 'a lcd_scheme \<Rightarrow> u16 list list" where
  "page_lines k l = fst (lcd_render_info_center_text_normal_ui
     (l\<lparr>g_lcd_text_msg := (g_lcd_text_msg l)\<lparr>lt_page_index := of_nat k\<rparr>\<rparr>))"

definition page_total :: "'a lcd_scheme \<Rightarrow> nat" where
  "page_total l = unat (lt_page_count (g_lcd_text_msg (snd (lcd_render_info_center_text_normal_ui l))))"

lemma page_lines_encoded:
  assumes "lt_text (g_lcd_text_msg l) = encoded cs rest" "list_all plain cs" "lt_valid (g_lcd_text_msg l) \<noteq> 0"
    "lt_text_len (g_lcd_text_msg l) \<noteq> 0" "k * 30 < 65536"
  shows "concat (page_lines k l) = take 30 (drop (k * 30) cs)"
proof -
  let ?d = "drop (k * 30) cs"
  have k: "unat (of_nat k :: u16) = k" using assms(5) by (simp add: unsigned_of_nat take_bit_nat_eq_self)
  have s: "text_skip (k * 30) (encoded cs rest) = encoded ?d rest"
    by (rule text_skip_encoded) (rule plain_nonzero [OF assms(2)])
  have s': "text_skip (30 * k) (encoded cs rest) = encoded ?d rest" using s by (simp add: mult.commute)
  have p: "list_all plain (drop n cs)" for n
    using assms(2) by (auto simp: list_all_iff dest: in_set_dropD)
  have "text_lines 3 (encoded ?d rest) = [take 10 ?d, take 10 (drop 10 ?d), take 10 (drop 20 ?d)]"
    using text_line_encoded [OF p] by (simp add: numeral_3_eq_3 dvr_const drop_drop add.commute)
  moreover have "take 10 ?d @ take 10 (drop 10 ?d) @ take 10 (drop 20 ?d) = take 30 ?d"
    using take_add [of 10 20 ?d] take_add [of 10 10 "drop 10 ?d"] by simp
  ultimately show ?thesis
    using assms k s' by (simp add: page_lines_def lcd_render_info_center_text_normal_ui_def Let_def dvr_const)
qed

section \<open>Properties\<close>

text \<open>
  The decoder reads what UTF-8 encodes: for every character of the basic plane other than NUL,
  followed by anything, it returns the character and the length of its encoding; and on any bytes
  at all it stays inside the string.
\<close>

theorem utf8_roundtrip:
  "(c \<noteq> 0 \<longrightarrow> lcd_utf8_next_codepoint (utf8_enc c @ rest) = (c, length (utf8_enc c)))
   \<and> snd (lcd_utf8_next_codepoint p) \<le> length p"
  using utf8_decode [of c rest] utf8_consumed_le by blast

theorem utf8_roundtrip_witness:
  "lcd_utf8_next_codepoint (utf8_enc 0x8C03 @ [0x41]) = (0x8C03, 3) \<and> (0x8C03 :: u16) \<noteq> 0"
  using utf8_roundtrip [of "0x8C03" "[0x41]" "[]"] by (simp add: utf8_enc_def)



text \<open>
  With line breaks this fails: a page starts at a multiple of thirty characters, however few
  characters the pages before it could show. The seven characters A LF B LF C LF D fill one page
  of three lines, and D is on none.
\<close>

lemma text_line_break:
  "list_all plain cs \<Longrightarrow> length cs < n \<Longrightarrow> c = 0x0D \<or> c = 0x0A \<Longrightarrow>
   text_line n (encoded (cs @ c # ds) rest) = (cs, encoded ds rest)"
proof (induction cs arbitrary: n)
  case Nil
  then obtain m where "n = Suc m" using gr0_implies_Suc by auto
  moreover have "c \<noteq> 0" using Nil by auto
  ultimately show ?case using Nil next_char [of c ds rest] utf8_enc_nonempty [of c] by auto
next
  case (Cons d cs)
  then obtain m where m: "n = Suc m" "length cs < m" by (cases n) auto
  have "d \<noteq> 0" "d \<noteq> 0x0D" "d \<noteq> 0x0A" using Cons.prems by (simp_all add: plain_def)
  then show ?case
    using Cons m next_char [of d "cs @ c # ds" rest] utf8_enc_nonempty [of d] by simp
qed

lemma text_line_breaks_hide:
  assumes "lt_text (g_lcd_text_msg l) = encoded [0x41, 0x0A, 0x42, 0x0A, 0x43, 0x0A, 0x44] rest"
    and "lt_valid (g_lcd_text_msg l) \<noteq> 0" "lt_text_len (g_lcd_text_msg l) \<noteq> 0"
  shows "page_total l = 1 \<and> page_lines 0 l = [[0x41], [0x42], [0x43]]"
proof -
  have c: "text_count (encoded [0x41, 0x0A, 0x42, 0x0A, 0x43, 0x0A, 0x44] rest) = 7"
    by (simp add: text_count_encoded)
  have ln: "text_line 10 (encoded (x # 0x0A # ds) rest) = ([x], encoded ds rest)" if "plain x" for x ds
    using text_line_break [of "[x]" 10 "0x0A" ds rest] that by simp
  have "text_lines 3 (encoded [0x41, 0x0A, 0x42, 0x0A, 0x43, 0x0A, 0x44] rest) = [[0x41], [0x42], [0x43]]"
    by (simp add: numeral_3_eq_3 LCD_TEXT_MSG_LINE_MAX_CHARS_def ln plain_def)
  then show ?thesis
    using assms c by (simp add: page_total_def page_lines_def lcd_render_info_center_text_normal_ui_def Let_def dvr_const)
qed

end
