(* ===== verification/Uart_Text.thy ===== *)
theory Uart_Text
  imports Uart_Frames Svc_Lcd_Data
begin

text \<open>
  Text messages of the serial protocol (\<open>app_uart_cmd_parse_text_frame\<close>,
  \<open>app_uart_cmd_force_finish_text_frame\<close>, \<open>app_usart_cmd_get_text_msg\<close> of
  \<open>src/applications/app_usart_cmd.c\<close>): a message comes in chunks, the first with flag and type,
  the last marked by state 1; a finished message is handed to the display.
\<close>

section \<open>Data\<close>

definition APP_UART_CMD_TEXT_MAX_SIZE :: nat where [dvr_const]: "APP_UART_CMD_TEXT_MAX_SIZE = 4096"

record app_uart_cmd_text_msg =
  tm_valid :: u8
  tm_flag :: u8
  tm_text_type :: u8
  tm_text_len :: u16
  tm_text :: bytes

record text_rx =
  g_uart_cmd_text_msg :: app_uart_cmd_text_msg
  g_uart_cmd_text_assem_len :: nat

definition text_rx_zero :: text_rx where
  "text_rx_zero = \<lparr>g_uart_cmd_text_msg = \<lparr>tm_valid = 0, tm_flag = 0, tm_text_type = 0, tm_text_len = 0,
     tm_text = replicate 4097 0\<rparr>, g_uart_cmd_text_assem_len = 0\<rparr>"

section \<open>Operations\<close>

text \<open>The end of a message: mark it valid, hand it to the display, start over.\<close>

definition finish_text :: "text_rx \<Rightarrow> 'a lcd_scheme \<Rightarrow> text_rx \<times> 'a lcd_scheme" where
  "finish_text t l =
     (let m = (g_uart_cmd_text_msg t)\<lparr>tm_valid := 1, tm_text_len := of_nat (g_uart_cmd_text_assem_len t)\<rparr>
      in (\<lparr>g_uart_cmd_text_msg = m, g_uart_cmd_text_assem_len = 0\<rparr>,
          svc_lcd_update_text_message (tm_flag m) (tm_text_type m) (Some (tm_text m)) (tm_text_len m) l))"

definition app_uart_cmd_force_finish_text_frame :: "text_rx \<Rightarrow> 'a lcd_scheme \<Rightarrow> text_rx \<times> 'a lcd_scheme" where
  "app_uart_cmd_force_finish_text_frame t l =
     (if g_uart_cmd_text_assem_len t = 0 then (t, l) else finish_text t l)"

definition copy_chunk :: "bytes \<Rightarrow> nat \<Rightarrow> nat \<Rightarrow> text_rx \<Rightarrow> text_rx" where
  "copy_chunk d text_offset chunk_len t =
     (let n = g_uart_cmd_text_assem_len t in
      if n < APP_UART_CMD_TEXT_MAX_SIZE
      then
        let remain_len = APP_UART_CMD_TEXT_MAX_SIZE - n; copy_len = min chunk_len remain_len
        in if 0 < copy_len
           then let m = g_uart_cmd_text_msg t; n' = (n + copy_len) mod 65536
                in t\<lparr>g_uart_cmd_text_msg := m\<lparr>tm_text :=
                       (take n (tm_text m) @ seg text_offset copy_len d @ drop (n + copy_len) (tm_text m))[n' := 0]\<rparr>,
                     g_uart_cmd_text_assem_len := n'\<rparr>
           else t
      else t)"

definition app_uart_cmd_parse_text_frame ::
  "app_uart_cmd_frame \<Rightarrow> text_rx \<Rightarrow> 'a lcd_scheme \<Rightarrow> bool \<times> text_rx \<times> 'a lcd_scheme" where
  "app_uart_cmd_parse_text_frame frame t l =
     (let d = fr_data frame in
      if fr_length frame < 7 \<or> d ! 0 \<noteq> APP_UART_CMD_FRAME_HEAD \<or> d ! 2 \<noteq> APP_UART_CMD_TEXT_FRAME_TYPE
      then (False, t, l)
      else
        let payload_len = (fr_length frame - 6) mod 256; transfer_state = d ! 3;
            deliver = (\<lambda>t. let (t, l) = (if transfer_state = 1 then finish_text t l else (t, l)) in (True, t, l))
        in
        if payload_len < 2 then (False, t, l)
        else if g_uart_cmd_text_assem_len t = 0
        then
          if payload_len < 3 then (False, t, l)
          else if d ! 5 \<noteq> 1 \<and> d ! 5 \<noteq> 2
          then (False, t\<lparr>g_uart_cmd_text_assem_len := 0,
                         g_uart_cmd_text_msg := (g_uart_cmd_text_msg t)\<lparr>tm_valid := 0\<rparr>\<rparr>, l)
          else deliver (copy_chunk d 6 (payload_len - 3)
                 (t\<lparr>g_uart_cmd_text_msg := (g_uart_cmd_text_msg t)\<lparr>tm_flag := d ! 4, tm_text_type := d ! 5\<rparr>\<rparr>))
        else deliver (copy_chunk d 4 (payload_len - 1) t))"

definition app_usart_cmd_get_text_msg :: "app_uart_cmd_text_msg option \<Rightarrow> text_rx \<Rightarrow> bool \<times> app_uart_cmd_text_msg option" where
  "app_usart_cmd_get_text_msg msg t =
     (if msg = None \<or> tm_valid (g_uart_cmd_text_msg t) = 0 then (False, msg)
      else (True, Some (g_uart_cmd_text_msg t)))"

section \<open>Assembly\<close>

definition text_frame :: "bytes \<Rightarrow> app_uart_cmd_frame" where
  "text_frame payload = \<lparr>fr_data = mk_frame 2 payload, fr_length = length payload + 6\<rparr>"

text \<open>Part \<open>acc\<close> of a message is in the buffer, as far as the buffer goes.\<close>

definition holding :: "u8 \<Rightarrow> u8 \<Rightarrow> bytes \<Rightarrow> text_rx \<Rightarrow> bool" where
  "holding flag ty acc t \<longleftrightarrow>
     length (tm_text (g_uart_cmd_text_msg t)) = 4097
     \<and> g_uart_cmd_text_assem_len t = min 4096 (length acc) \<and> acc \<noteq> []
     \<and> take (min 4096 (length acc)) (tm_text (g_uart_cmd_text_msg t)) = take 4096 acc
     \<and> tm_text (g_uart_cmd_text_msg t) ! min 4096 (length acc) = 0
     \<and> tm_flag (g_uart_cmd_text_msg t) = flag \<and> tm_text_type (g_uart_cmd_text_msg t) = ty"

lemma frame_bytes:
  "mk_frame 2 payload ! 0 = 0xAA" "mk_frame 2 payload ! 2 = 2"
  "i < length payload \<Longrightarrow> mk_frame 2 payload ! (3 + i) = payload ! i"
  "k + n \<le> length payload \<Longrightarrow> seg (3 + k) n (mk_frame 2 payload) = take n (drop k payload)"
  by (simp_all add: mk_frame_def nth_append seg_def numeral_3_eq_3)

lemma copy_chunk_empty:
  assumes "length (tm_text (g_uart_cmd_text_msg t)) = 4097" "g_uart_cmd_text_assem_len t = 0"
    and "seg off (length c) d = c" "c \<noteq> []" "length c \<le> 4096"
  shows "holding (tm_flag (g_uart_cmd_text_msg t)) (tm_text_type (g_uart_cmd_text_msg t)) c
    (copy_chunk d off (length c) t)"
  using assms by (simp add: copy_chunk_def holding_def Let_def dvr_const)

lemma copy_chunk_more:
  assumes h: "holding flag ty acc t" and c: "\<And>n. n \<le> length c \<Longrightarrow> seg off n d = take n c" "length c \<le> 4096"
  shows "holding flag ty (acc @ c) (copy_chunk d off (length c) t)"
proof (cases "length acc < 4096")
  case True
  let ?n = "length acc" and ?k = "min (length c) (4096 - length acc)"
  have n: "g_uart_cmd_text_assem_len t = ?n" "take ?n (tm_text (g_uart_cmd_text_msg t)) = acc" "acc \<noteq> []"
      "length (tm_text (g_uart_cmd_text_msg t)) = 4097"
    using h True by (simp_all add: holding_def min_def)
  have m: "min 4096 (?n + length c) = ?n + ?k" "(?n + ?k) mod 65536 = ?n + ?k" "?n + ?k \<le> 4096"
    using True by (auto simp: min_def)
  have s: "seg off ?k d = take ?k c" by (rule c) simp
  have t: "take 4096 (acc @ c) = acc @ take ?k c" using True by (simp add: min_def)
  show ?thesis
  proof (cases "c = []")
    case True
    then show ?thesis using h \<open>length acc < 4096\<close> by (simp add: copy_chunk_def Let_def dvr_const)
  next
    case False
    then have "0 < ?k" using True by simp
    then show ?thesis
      using n m s t h True by (simp add: copy_chunk_def holding_def Let_def dvr_const nth_append)
  qed
next
  case False
  then show ?thesis using h by (auto simp: copy_chunk_def holding_def Let_def dvr_const min_def)
qed

text \<open>The first and a further frame of a message.\<close>

lemma parse_first:
  assumes "g_uart_cmd_text_assem_len t = 0" "length (tm_text (g_uart_cmd_text_msg t)) = 4097"
    and "c \<noteq> []" "length c \<le> 246" "ty = 1 \<or> ty = 2"
  shows "\<exists>t'. holding flag ty c t'
    \<and> app_uart_cmd_parse_text_frame (text_frame ([st, flag, ty] @ c)) t l
        = (case (if st = 1 then finish_text t' l else (t', l)) of (t, l) \<Rightarrow> (True, t, l))"
proof -
  let ?p = "[st, flag, ty] @ c" and ?d = "mk_frame 2 ([st, flag, ty] @ c)"
  let ?t = "t\<lparr>g_uart_cmd_text_msg := (g_uart_cmd_text_msg t)\<lparr>tm_flag := flag, tm_text_type := ty\<rparr>\<rparr>"
  have d: "?d ! 3 = st" "?d ! 4 = flag" "?d ! 5 = ty" "seg 6 (length c) ?d = c"
    using frame_bytes(3) [of 0 ?p] frame_bytes(3) [of 1 ?p] frame_bytes(3) [of 2 ?p] frame_bytes(4) [of 3 "length c" ?p]
    by simp_all
  have m: "(length ?p + 6 - 6) mod 256 = length c + 3" using assms(4) by simp
  have "holding flag ty c (copy_chunk ?d 6 (length c) ?t)"
    using copy_chunk_empty [of ?t 6 c ?d] assms d(4) by simp
  moreover have "app_uart_cmd_parse_text_frame (text_frame ?p) t l
      = (case (if st = 1 then finish_text (copy_chunk ?d 6 (length c) ?t) l else (copy_chunk ?d 6 (length c) ?t, l))
         of (t, l) \<Rightarrow> (True, t, l))"
    using assms m d frame_bytes(1,2) [of ?p]
    by (auto simp: app_uart_cmd_parse_text_frame_def text_frame_def Let_def dvr_const split: prod.splits)
  ultimately show ?thesis by blast
qed

lemma parse_more:
  assumes h: "holding flag ty acc t" and c: "c \<noteq> []" "length c \<le> 246"
  shows "\<exists>t'. holding flag ty (acc @ c) t'
    \<and> app_uart_cmd_parse_text_frame (text_frame (st # c)) t l
        = (case (if st = 1 then finish_text t' l else (t', l)) of (t, l) \<Rightarrow> (True, t, l))"
proof -
  let ?p = "st # c" and ?d = "mk_frame 2 (st # c)"
  have d: "?d ! 3 = st" "\<And>n. n \<le> length c \<Longrightarrow> seg 4 n ?d = take n c"
    using frame_bytes(3) [of 0 ?p] frame_bytes(4) [of 1 _ ?p] by simp_all
  have m: "(length ?p + 6 - 6) mod 256 = length c + 1" using c by simp
  have n: "g_uart_cmd_text_assem_len t \<noteq> 0" using h by (simp add: holding_def)
  have "holding flag ty (acc @ c) (copy_chunk ?d 4 (length c) t)"
    using c by (intro copy_chunk_more [OF h] d) auto
  moreover have "app_uart_cmd_parse_text_frame (text_frame ?p) t l
      = (case (if st = 1 then finish_text (copy_chunk ?d 4 (length c) t) l else (copy_chunk ?d 4 (length c) t, l))
         of (t, l) \<Rightarrow> (True, t, l))"
    using c m n d frame_bytes(1,2) [of ?p]
    by (cases c) (auto simp: app_uart_cmd_parse_text_frame_def text_frame_def Let_def dvr_const split: prod.splits)
  ultimately show ?thesis by blast
qed

text \<open>The payloads of a message in chunks, and their handling in order.\<close>

fun cont_payloads :: "bytes list \<Rightarrow> bytes list" where
  "cont_payloads [] = []"
| "cont_payloads [c] = [1 # c]"
| "cont_payloads (c # cs) = (0 # c) # cont_payloads cs"

fun text_payloads :: "u8 \<Rightarrow> u8 \<Rightarrow> bytes list \<Rightarrow> bytes list" where
  "text_payloads flag ty [] = []"
| "text_payloads flag ty [c] = [[1, flag, ty] @ c]"
| "text_payloads flag ty (c # cs) = ([0, flag, ty] @ c) # cont_payloads cs"

fun parse_texts :: "bytes list \<Rightarrow> text_rx \<Rightarrow> 'a lcd_scheme \<Rightarrow> bool \<times> text_rx \<times> 'a lcd_scheme" where
  "parse_texts [] t l = (True, t, l)"
| "parse_texts (p # ps) t l =
     (let (r, t, l) = app_uart_cmd_parse_text_frame (text_frame p) t l; (rs, t, l) = parse_texts ps t l
      in (r \<and> rs, t, l))"

lemma parse_cont:
  "holding flag ty acc t \<Longrightarrow> cs \<noteq> [] \<Longrightarrow> list_all (\<lambda>c. c \<noteq> [] \<and> length c \<le> 246) cs \<Longrightarrow>
   \<exists>t'. holding flag ty (acc @ concat cs) t'
     \<and> parse_texts (cont_payloads cs) t l = (case finish_text t' l of (t, l) \<Rightarrow> (True, t, l))"
proof (induction cs arbitrary: acc t rule: cont_payloads.induct)
  case (2 c)
  then show ?case using parse_more [OF 2(1), of c 1 l] by (auto split: prod.splits)
next
  case (3 c c' cs)
  then obtain t1 where t1: "holding flag ty (acc @ c) t1"
      "app_uart_cmd_parse_text_frame (text_frame (0 # c)) t l = (True, t1, l)"
    using parse_more [OF 3(2), of c 0 l] by auto
  then show ?case using 3(1) [OF t1(1)] 3(3,4) by (auto split: prod.splits)
qed simp

lemma parse_message:
  assumes "g_uart_cmd_text_assem_len t = 0" "length (tm_text (g_uart_cmd_text_msg t)) = 4097"
    and "cs \<noteq> []" "list_all (\<lambda>c. c \<noteq> [] \<and> length c \<le> 246) cs" "ty = 1 \<or> ty = 2"
  shows "\<exists>t'. holding flag ty (concat cs) t'
    \<and> parse_texts (text_payloads flag ty cs) t l = (case finish_text t' l of (t, l) \<Rightarrow> (True, t, l))"
proof -
  obtain c ds where cs: "cs = c # ds" using assms(3) by (cases cs) auto
  then have c: "c \<noteq> []" "length c \<le> 246" "list_all (\<lambda>c. c \<noteq> [] \<and> length c \<le> 246) ds" using assms(4) by simp_all
  show ?thesis
  proof (cases ds)
    case Nil
    then show ?thesis
      using parse_first [OF assms(1,2) c(1,2) assms(5), of flag 1 l] cs by (auto split: prod.splits)
  next
    case (Cons e es)
    obtain t1 where t1: "holding flag ty c t1"
        "app_uart_cmd_parse_text_frame (text_frame ([0, flag, ty] @ c)) t l = (True, t1, l)"
      using parse_first [OF assms(1,2) c(1,2) assms(5), of flag 0 l] by auto
    then show ?thesis
      using parse_cont [OF t1(1) _ c(3), of l] cs Cons by (auto split: prod.splits)
  qed
qed

section \<open>Properties\<close>

text \<open>
  C14: a text message sent in any number of non-empty chunks is put together again. After its last
  frame the message is valid with the flag and type of its first frame, its text is the
  concatenation of the chunks, cut at 4096 bytes and followed by a zero, the display holds the same
  text, and the receiver is ready for the next message.
\<close>

theorem text_message_assembled:
  assumes "g_uart_cmd_text_assem_len t = 0" "length (tm_text (g_uart_cmd_text_msg t)) = 4097"
    and "cs \<noteq> []" "list_all (\<lambda>c. c \<noteq> [] \<and> length c \<le> 246) cs" "ty = 1 \<or> ty = 2"
  shows "case parse_texts (text_payloads flag ty cs) t l of (ok, t', l') \<Rightarrow>
    ok \<and> g_uart_cmd_text_assem_len t' = 0
    \<and> (let m = g_uart_cmd_text_msg t'; n = min 4096 (length (concat cs)); s = g_lcd_text_msg l'
       in tm_valid m = 1 \<and> tm_flag m = flag \<and> tm_text_type m = ty \<and> unat (tm_text_len m) = n
          \<and> take n (tm_text m) = take 4096 (concat cs) \<and> tm_text m ! n = 0 \<and> length (tm_text m) = 4097
          \<and> lt_valid s = 1 \<and> lt_flag s = flag \<and> lt_text_type s = ty \<and> lt_text_len s = tm_text_len m
          \<and> (\<exists>rest. lt_text s = take 4096 (concat cs) @ 0 # rest))"
proof -
  obtain t' where t': "holding flag ty (concat cs) t'"
      "parse_texts (text_payloads flag ty cs) t l = (case finish_text t' l of (t, l) \<Rightarrow> (True, t, l))"
    using parse_message [OF assms] by blast
  have n: "unat (of_nat (min 4096 (length (concat cs))) :: u16) = min 4096 (length (concat cs))"
    by (simp add: unsigned_of_nat take_bit_nat_eq_self min_def)
  have "\<not> 4096 < (of_nat (min 4096 (length (concat cs))) :: u16)"
    using n by (simp add: word_less_nat_alt)
  then show ?thesis
    using t' n by (simp add: finish_text_def holding_def Let_def svc_lcd_update_text_message_def dvr_const)
qed

theorem text_message_assembled_witness:
  "case parse_texts (text_payloads 4 1 [[0x41, 0x42], [0x43]]) text_rx_zero lcd_start of (ok, t', l') \<Rightarrow>
     ok \<and> take 3 (tm_text (g_uart_cmd_text_msg t')) = [0x41, 0x42, 0x43]"
proof -
  have "g_uart_cmd_text_assem_len text_rx_zero = 0" "length (tm_text (g_uart_cmd_text_msg text_rx_zero)) = 4097"
    by (simp_all add: text_rx_zero_def)
  from text_message_assembled [OF this, of "[[0x41, 0x42], [0x43]]" 1 4 lcd_start]
  show ?thesis
    by (auto simp: Let_def numeral_3_eq_3 simp del: parse_texts.simps text_payloads.simps split: prod.splits)
qed

end
