(* ===== verification/Uart_Mileage.thy ===== *)
theory Uart_Mileage
  imports Svc_Storage Svc_Lcd_Data
begin

unbundle bit_operations_syntax

text \<open>
  The odometer (\<open>app_uart_cmd_update_total_mileage\<close> of \<open>src/applications/app_usart_cmd.c\<close>):
  it integrates the speed the SOC reports over its time stamps, in units of 1/36 m, and saves the
  total when the kilometre count has changed. The static variables of the function are the record
  \<open>odometer\<close>.
\<close>

record odometer =
  od_has_last_sample :: bool
  od_storage_loaded :: bool
  od_last_timestamp :: u32
  od_km :: u32
  od_rem_m :: u16
  od_acc :: u32
  od_last_saved_km :: u32

definition odometer_static :: odometer where
  "odometer_static = \<lparr>od_has_last_sample = False, od_storage_loaded = False, od_last_timestamp = 0,
     od_km = 0, od_rem_m = 0, od_acc = 0, od_last_saved_km = 0\<rparr>"

section \<open>The function\<close>

definition mileage_load ::
  "'b i2c_ops \<Rightarrow> odometer \<times> 'b storage \<times> 'a lcd_scheme \<Rightarrow> odometer \<times> 'b storage \<times> 'a lcd_scheme" where
  "mileage_load ops x =
     (case x of (od, st, l) \<Rightarrow>
      if od_storage_loaded od then (od, st, l)
      else
        let (r, m, st) = svc_storage_load_mileage ops (Some mileage_zero) st;
            od = (if r then od\<lparr>od_km := odo_km (the m), od_rem_m := odo_rem_m (the m),
                              od_last_saved_km := odo_km (the m)\<rparr>
                  else od\<lparr>od_km := 0, od_rem_m := 0, od_last_saved_km := 0\<rparr>);
            od = od\<lparr>od_storage_loaded := True\<rparr>
        in (od, st, svc_lcd_update_total_mileage (od_km od) (od_rem_m od) l))"

definition mileage_add :: "u16 \<Rightarrow> u32 \<Rightarrow> odometer \<Rightarrow> odometer" where
  "mileage_add speed delta_sec od =
     (let acc = od_acc od + ucast speed * delta_sec;
          add_m = acc div 36; acc = acc mod 36;
          total_m = ucast (od_rem_m od) + add_m
      in od\<lparr>od_acc := acc, od_km := od_km od + total_m div 1000, od_rem_m := ucast (total_m mod 1000)\<rparr>)"

definition mileage_save ::
  "'b i2c_ops \<Rightarrow> odometer \<times> 'b storage \<times> 'a lcd_scheme \<Rightarrow> odometer \<times> 'b storage \<times> 'a lcd_scheme" where
  "mileage_save ops x =
     (case x of (od, st, l) \<Rightarrow>
      if 1 \<le> od_km od - od_last_saved_km od
      then
        let (r, st) = svc_storage_save_mileage ops
              (Some \<lparr>odo_km = od_km od, odo_rem_m = od_rem_m od, odo_reserved = 0\<rparr>) st
        in (if r then od\<lparr>od_last_saved_km := od_km od\<rparr> else od, st, l)
      else (od, st, l))"

definition app_uart_cmd_update_total_mileage ::
  "'b i2c_ops \<Rightarrow> u16 \<Rightarrow> u32 \<Rightarrow> odometer \<times> 'b storage \<times> 'a lcd_scheme \<Rightarrow> odometer \<times> 'b storage \<times> 'a lcd_scheme" where
  "app_uart_cmd_update_total_mileage ops speed_kmh_x10 ts x =
     (let (od, st, l) = mileage_load ops x in
      if \<not> od_has_last_sample od
      then (od\<lparr>od_has_last_sample := True, od_last_timestamp := ts\<rparr>, st, l)
      else if ts \<le> od_last_timestamp od then (od\<lparr>od_last_timestamp := ts\<rparr>, st, l)
      else
        let delta_sec = ts - od_last_timestamp od; od = od\<lparr>od_last_timestamp := ts\<rparr> in
        if 5 < delta_sec then (od, st, l)
        else
          let od = mileage_add speed_kmh_x10 delta_sec od
          in mileage_save ops (od, st, svc_lcd_update_total_mileage (od_km od) (od_rem_m od) l))"

section \<open>Exact distance\<close>

text \<open>The total in units of 1/36 m; the kilometre counter wraps at \<open>2 ^ 32\<close>.\<close>

definition total36 :: "odometer \<Rightarrow> nat" where
  "total36 od = (unat (od_km od) * 1000 + unat (od_rem_m od)) * 36 + unat (od_acc od)"

definition wrap36 :: nat where
  "wrap36 = 4294967296 * 36000"

text \<open>The distance a sequence of samples covers, from the time stamp of the sample before it.\<close>

fun travelled :: "u32 option \<Rightarrow> (u16 \<times> u32) list \<Rightarrow> nat" where
  "travelled _ [] = 0"
| "travelled None ((s, t) # r) = travelled (Some t) r"
| "travelled (Some t0) ((s, t) # r) =
     (if t0 < t \<and> unat t - unat t0 \<le> 5 then unat s * (unat t - unat t0) else 0) + travelled (Some t) r"

fun mileage_run ::
  "'b i2c_ops \<Rightarrow> (u16 \<times> u32) list \<Rightarrow> odometer \<times> 'b storage \<times> 'a lcd_scheme \<Rightarrow> odometer \<times> 'b storage \<times> 'a lcd_scheme" where
  "mileage_run ops [] x = x"
| "mileage_run ops ((s, t) # r) x = mileage_run ops r (app_uart_cmd_update_total_mileage ops s t x)"

lemma unat_add_small: "unat (a :: u32) + unat b < 4294967296 \<Longrightarrow> unat (a + b) = unat a + unat b"
  by (simp add: unat_word_ariths)

lemma carry_arith:
  "q * 1000 + r = rm + u \<Longrightarrow> u * 36 + v = acc + p \<Longrightarrow>
   (km * 1000 + rm) * 36 + acc + p = (km + q) * 36000 + (r * 36 + v)" for q :: nat
  by (simp add: algebra_simps)

lemma mileage_add_exact:
  assumes acc: "unat (od_acc od) < 36" and dt: "unat dt \<le> 5"
  shows "total36 (mileage_add s dt od) mod wrap36 = (total36 od + unat s * unat dt) mod wrap36"
    "unat (od_acc (mileage_add s dt od)) < 36" "unat (od_rem_m (mileage_add s dt od)) < 1000"
proof -
  let ?a = "od_acc od + ucast s * dt" and ?p = "unat s * unat dt"
  have p: "?p \<le> 65535 * 5" using unat_lt_u16 [of s] dt by (intro mult_le_mono) auto
  have mul: "unat (ucast s * dt :: u32) = ?p"
    using p by (simp add: unat_word_ariths)
  have a: "unat ?a = unat (od_acc od) + ?p" using unat_add_small [of "od_acc od" "ucast s * dt"] p acc mul by simp
  let ?t = "ucast (od_rem_m od) + ?a div 36 :: u32"
  have d: "unat (?a div 36) = unat ?a div 36" by (simp add: unat_div_distrib)
  have dl: "unat ?a div 36 \<le> unat ?a" by simp
  have t: "unat ?t = unat (od_rem_m od) + unat ?a div 36"
    using unat_add_small [of "ucast (od_rem_m od)" "?a div 36"] unat_lt_u16 [of "od_rem_m od"] dl a p acc d by simp
  have m: "unat (?t mod 1000) = unat ?t mod 1000" "unat (?t div 1000) = unat ?t div 1000"
    by (simp_all add: unat_div_distrib unat_mod_distrib)
  have r: "unat (ucast (?t mod 1000) :: u16) = unat ?t mod 1000"
  proof -
    have "unat ?t mod 1000 < 65536" using mod_less_divisor [of 1000 "unat ?t"] by linarith
    then show ?thesis by (simp only: unsigned_ucast_eq m) (simp add: take_bit_nat_eq_self)
  qed
  have f: "od_acc (mileage_add s dt od) = ?a mod 36" "od_rem_m (mileage_add s dt od) = ucast (?t mod 1000)"
      "od_km (mileage_add s dt od) = od_km od + ?t div 1000"
    by (simp_all add: mileage_add_def Let_def)
  have am: "unat (?a mod 36) = unat ?a mod 36" by (simp add: unat_mod_distrib)
  show "unat (od_acc (mileage_add s dt od)) < 36" unfolding f am by simp
  show "unat (od_rem_m (mileage_add s dt od)) < 1000" unfolding f r by simp
  have km: "unat (od_km od + ?t div 1000) = (unat (od_km od) + unat ?t div 1000) mod 4294967296"
    by (simp add: unat_word_ariths m)
  let ?K = "unat (od_km od) + unat ?t div 1000"
  have "total36 (mileage_add s dt od) = (?K mod 4294967296 * 1000 + unat ?t mod 1000) * 36 + unat ?a mod 36"
    unfolding total36_def f r am km ..
  also have "\<dots> = (?K mod 4294967296) * 36000 + (unat ?t mod 1000 * 36 + unat ?a mod 36)" by simp
  finally have e1: "total36 (mileage_add s dt od) = (?K mod 4294967296) * 36000 + (unat ?t mod 1000 * 36 + unat ?a mod 36)" .
  have e2: "total36 od + ?p = ?K * 36000 + (unat ?t mod 1000 * 36 + unat ?a mod 36)"
    unfolding total36_def
  proof (rule carry_arith)
    show "unat ?t div 1000 * 1000 + unat ?t mod 1000 = unat (od_rem_m od) + unat ?a div 36"
      unfolding div_mult_mod_eq by (rule t)
    show "unat ?a div 36 * 36 + unat ?a mod 36 = unat (od_acc od) + ?p"
      unfolding div_mult_mod_eq by (rule a)
  qed
  have "(?K mod 4294967296) * 36000 = ?K * 36000 mod wrap36" by (simp add: wrap36_def mult_mod_left)
  then show "total36 (mileage_add s dt od) mod wrap36 = (total36 od + ?p) mod wrap36"
    unfolding e1 e2 by (simp add: mod_add_left_eq)
qed

section \<open>Sequences of samples\<close>

definition last_ts :: "odometer \<Rightarrow> u32 option" where
  "last_ts od = (if od_has_last_sample od then Some (od_last_timestamp od) else None)"

lemma mileage_save_od:
  "\<exists>k. fst (mileage_save ops (od, st, l)) = od\<lparr>od_last_saved_km := k\<rparr>"
proof -
  have "od = od\<lparr>od_last_saved_km := od_last_saved_km od\<rparr>" by simp
  then show ?thesis by (auto simp: mileage_save_def Let_def split: prod.splits intro: exI [of _ "od_last_saved_km od"])
qed

lemma mileage_add_fields:
  "od_storage_loaded (mileage_add s dt od) = od_storage_loaded od"
  "od_has_last_sample (mileage_add s dt od) = od_has_last_sample od"
  "od_last_timestamp (mileage_add s dt od) = od_last_timestamp od"
  "od_last_saved_km (mileage_add s dt od) = od_last_saved_km od"
  by (simp_all add: mileage_add_def Let_def)

text \<open>The three outcomes of a call, once the stored total is loaded.\<close>

definition moving :: "u32 \<Rightarrow> odometer \<Rightarrow> bool" where
  "moving ts od \<longleftrightarrow> od_has_last_sample od \<and> od_last_timestamp od < ts \<and> unat ts - unat (od_last_timestamp od) \<le> 5"

lemma delta_nat: "(a :: u32) < b \<Longrightarrow> unat (b - a) = unat b - unat a"
  by (simp add: unat_sub word_less_nat_alt less_imp_le)

lemma update_loaded:
  assumes "od_storage_loaded od"
  shows "app_uart_cmd_update_total_mileage ops s ts (od, st, l) =
    (let od1 = od\<lparr>od_has_last_sample := True, od_last_timestamp := ts\<rparr> in
     if moving ts od
     then let od2 = mileage_add s (ts - od_last_timestamp od) od1
          in mileage_save ops (od2, st, svc_lcd_update_total_mileage (od_km od2) (od_rem_m od2) l)
     else (od1, st, l))"
proof -
  have d: "5 < ts - od_last_timestamp od \<longleftrightarrow> \<not> unat ts - unat (od_last_timestamp od) \<le> 5" if "od_last_timestamp od < ts"
    using delta_nat [OF that] by (simp add: word_less_nat_alt not_le)
  have e: "od_has_last_sample od \<Longrightarrow> od\<lparr>od_last_timestamp := ts\<rparr> = od\<lparr>od_has_last_sample := True, od_last_timestamp := ts\<rparr>"
    by (cases od) simp
  show ?thesis
  proof (cases "od_has_last_sample od")
    case True
    show ?thesis
      using assms d unfolding app_uart_cmd_update_total_mileage_def mileage_load_def moving_def e [OF True] Let_def
      by (auto simp: not_le True e [OF True])
  next
    case False
    then show ?thesis
      using assms by (simp add: app_uart_cmd_update_total_mileage_def mileage_load_def moving_def Let_def)
  qed
qed

lemma update_exact:
  assumes "od_storage_loaded od" "unat (od_acc od) < 36"
    and "od' = fst (app_uart_cmd_update_total_mileage ops s ts (od, st, l))"
  shows "od_storage_loaded od' \<and> unat (od_acc od') < 36 \<and> last_ts od' = Some ts
    \<and> total36 od' mod wrap36 = (total36 od + travelled (last_ts od) [(s, ts)]) mod wrap36"
proof (cases "moving ts od")
  case True
  let ?od1 = "od\<lparr>od_has_last_sample := True, od_last_timestamp := ts\<rparr>"
  let ?dt = "ts - od_last_timestamp od"
  let ?od2 = "mileage_add s ?dt ?od1"
  obtain k where k: "od' = ?od2\<lparr>od_last_saved_km := k\<rparr>"
    using assms True mileage_save_od by (simp add: update_loaded Let_def) blast
  have dt: "unat ?dt = unat ts - unat (od_last_timestamp od)" "unat ?dt \<le> 5"
    using True by (simp_all add: moving_def delta_nat)
  have a1: "unat (od_acc ?od1) < 36" and t1: "total36 ?od1 = total36 od" using assms(2) by (simp_all add: total36_def)
  have tk: "total36 od' = total36 ?od2" unfolding k by (simp add: total36_def)
  have "total36 od' mod wrap36 = (total36 od + unat s * unat ?dt) mod wrap36"
    using mileage_add_exact(1) [OF a1 dt(2), of s] tk t1 by simp
  moreover have "travelled (last_ts od) [(s, ts)] = unat s * unat ?dt"
    using True dt by (simp add: moving_def last_ts_def)
  moreover have "unat (od_acc od') < 36" using mileage_add_exact(2) [OF a1 dt(2), of s] k by simp
  ultimately show ?thesis using assms(1) k by (simp add: mileage_add_fields last_ts_def)
next
  case False
  then have "od' = od\<lparr>od_has_last_sample := True, od_last_timestamp := ts\<rparr>"
    using assms by (simp add: update_loaded Let_def)
  moreover have "travelled (last_ts od) [(s, ts)] = 0"
    using False by (auto simp: moving_def last_ts_def)
  ultimately show ?thesis using assms by (simp add: last_ts_def total36_def)
qed

lemma travelled_Cons: "travelled x ((s, t) # r) = travelled x [(s, t)] + travelled (Some t) r"
  by (cases x) simp_all

lemma mileage_run_exact:
  "od_storage_loaded od \<Longrightarrow> unat (od_acc od) < 36 \<Longrightarrow>
   total36 (fst (mileage_run ops samples (od, st, l))) mod wrap36 = (total36 od + travelled (last_ts od) samples) mod wrap36"
proof (induction samples arbitrary: od st l)
  case (Cons x r)
  obtain s t where x: "x = (s, t)" by (cases x)
  obtain od1 st1 l1 where u: "app_uart_cmd_update_total_mileage ops s t (od, st, l) = (od1, st1, l1)"
    by (cases "app_uart_cmd_update_total_mileage ops s t (od, st, l)")
  have o1: "od_storage_loaded od1" "unat (od_acc od1) < 36" "last_ts od1 = Some t"
      "total36 od1 mod wrap36 = (total36 od + travelled (last_ts od) [(s, t)]) mod wrap36"
    using update_exact [OF Cons.prems, of od1 ops s t st l] u by simp_all
  have "total36 (fst (mileage_run ops (x # r) (od, st, l))) mod wrap36 = (total36 od1 + travelled (Some t) r) mod wrap36"
    using Cons.IH [OF o1(1,2)] o1(3) u x by simp
  also have "\<dots> = (total36 od + travelled (last_ts od) [(s, t)] + travelled (Some t) r) mod wrap36"
    using o1(4) by (metis mod_add_left_eq)
  finally show ?case using travelled_Cons [of "last_ts od" s t r] x by (simp add: add.assoc)
qed simp

lemma mileage_load_static:
  assumes "svc_storage_load_mileage ops (Some mileage_zero) st = (r, Some m, st1)" "r"
  shows "mileage_load ops (odometer_static, st, l) =
    (odometer_static\<lparr>od_km := odo_km m, od_rem_m := odo_rem_m m, od_last_saved_km := odo_km m, od_storage_loaded := True\<rparr>,
     st1, svc_lcd_update_total_mileage (odo_km m) (odo_rem_m m) l)"
  using assms by (simp add: mileage_load_def odometer_static_def Let_def)

lemma update_after_load:
  "app_uart_cmd_update_total_mileage ops s t x = app_uart_cmd_update_total_mileage ops s t (mileage_load ops x)"
proof -
  have "mileage_load ops (mileage_load ops x) = mileage_load ops x"
    by (auto simp: mileage_load_def Let_def split: prod.splits)
  then show ?thesis by (simp add: app_uart_cmd_update_total_mileage_def)
qed

lemma mileage_run_after_load:
  "mileage_run ops ((s, t) # r) x = mileage_run ops ((s, t) # r) (mileage_load ops x)"
  using update_after_load [of ops s t x] by simp

section \<open>The stored total\<close>

definition synced :: "nv_view \<Rightarrow> odometer \<times> 'b storage \<times> 'a lcd_scheme \<Rightarrow> bool" where
  "synced v x \<longleftrightarrow> (case x of (od, st, l) \<Rightarrow>
     od_storage_loaded od \<and> od_last_saved_km od = od_km od
     \<and> (case v_mileage v of None \<Rightarrow> od_km od = 0 | Some m \<Rightarrow> odo_km m = od_km od)
     \<and> g_lcd_total_mileage_km l = od_km od \<and> g_lcd_total_mileage_rem_m l = od_rem_m od)"

lemma lcd_mileage [simp]:
  "g_lcd_total_mileage_km (svc_lcd_update_total_mileage km rm l) = km"
  "g_lcd_total_mileage_rem_m (svc_lcd_update_total_mileage km rm l) = rm"
  by (simp_all add: svc_lcd_update_total_mileage_def Let_def)

lemma update_synced:
  assumes chip: "eeprom_chip ops mem rdy ptr" and us: "usable rdy st"
    and sy: "synced (nv_view_of (mem (bus st))) (od, st, l)"
  shows "\<exists>od' st' l'. app_uart_cmd_update_total_mileage ops s ts (od, st, l) = (od', st', l') \<and> usable rdy st'
    \<and> synced (nv_view_of (mem (bus st'))) (od', st', l')"
proof -
  have ld: "od_storage_loaded od" using sy by (simp add: synced_def)
  show ?thesis
  proof (cases "moving ts od")
    case False
    then show ?thesis using sy us by (simp add: update_loaded [OF ld] Let_def synced_def split: option.splits)
  next
    case True
    let ?od1 = "od\<lparr>od_has_last_sample := True, od_last_timestamp := ts\<rparr>"
    let ?od2 = "mileage_add s (ts - od_last_timestamp od) ?od1"
    let ?m = "\<lparr>odo_km = od_km ?od2, odo_rem_m = od_rem_m ?od2, odo_reserved = 0\<rparr>"
    let ?l = "svc_lcd_update_total_mileage (od_km ?od2) (od_rem_m ?od2) l"
    have u: "app_uart_cmd_update_total_mileage ops s ts (od, st, l) = mileage_save ops (?od2, st, ?l)"
      using True by (simp add: update_loaded [OF ld] Let_def)
    have ls: "od_last_saved_km ?od2 = od_km od" using sy by (simp add: mileage_add_fields synced_def)
    show ?thesis
    proof (cases "od_km ?od2 = od_km od")
      case True
      then have "mileage_save ops (?od2, st, ?l) = (?od2, st, ?l)" using ls by (simp add: mileage_save_def)
      then show ?thesis using u True us sy ls by (simp add: synced_def mileage_add_fields split: option.splits)
    next
      case False
      then have "od_km ?od2 - od_km od \<noteq> 0" by simp
      then have ge: "1 \<le> od_km ?od2 - od_last_saved_km ?od2"
        using ls by (simp add: word_le_nat_alt Suc_le_eq unat_gt_0)
      obtain st' where st': "run_save ops (SaveMileage ?m) st = (True, st')" "usable rdy st'"
          "nv_view_of (mem (bus st')) = spec_save (SaveMileage ?m) (nv_view_of (mem (bus st)))"
        using run_save_refines [OF chip us, of "SaveMileage ?m"] by auto
      then have "mileage_save ops (?od2, st, ?l) = (?od2\<lparr>od_last_saved_km := od_km ?od2\<rparr>, st', ?l)"
        using ge by (simp add: mileage_save_def)
      then show ?thesis using u st' ld by (simp add: synced_def mileage_add_fields)
    qed
  qed
qed

lemma mileage_run_synced:
  assumes chip: "eeprom_chip ops mem rdy ptr"
  shows "usable rdy st \<Longrightarrow> synced (nv_view_of (mem (bus st))) (od, st, l) \<Longrightarrow>
    \<exists>od' st' l'. mileage_run ops samples (od, st, l) = (od', st', l') \<and> usable rdy st'
      \<and> synced (nv_view_of (mem (bus st'))) (od', st', l')"
proof (induction samples arbitrary: od st l)
  case (Cons x r)
  obtain s t where x: "x = (s, t)" by (cases x)
  from update_synced [OF chip Cons.prems, of s t] show ?case
    using Cons.IH x by fastforce
qed auto

section \<open>Properties\<close>

text \<open>
  C8: the odometer loses nothing to rounding. After a restart and any sequence of speed samples, the
  total in units of 1/36 m is the stored total plus, for every sample at most five seconds after
  the sample before it, its speed (in 0.1 km/h) times the seconds between them; samples whose clock
  stands still, goes back or jumps by more than five seconds add nothing. The equality is modulo the
  range of the kilometre counter, for any behaviour of the memory chip.
\<close>

theorem mileage_exact:
  "let m = the (fst (snd (svc_storage_load_mileage ops (Some mileage_zero) st)));
       od = fst (mileage_run ops ((s, t) # samples) (odometer_static, st, l))
   in total36 od mod wrap36
      = ((unat (odo_km m) * 1000 + unat (odo_rem_m m)) * 36 + travelled None ((s, t) # samples)) mod wrap36"
proof -
  obtain m st1 where ld: "svc_storage_load_mileage ops (Some mileage_zero) st = (True, Some m, st1)"
    by (cases "read_record ops SVC_STORAGE_MILEAGE_ADDR 20 svc_storage_record_is_valid st")
       (auto simp: svc_storage_load_mileage_def Let_def)
  let ?od = "odometer_static\<lparr>od_km := odo_km m, od_rem_m := odo_rem_m m, od_last_saved_km := odo_km m, od_storage_loaded := True\<rparr>"
  have o: "od_storage_loaded ?od" "unat (od_acc ?od) < 36" "last_ts ?od = None"
      "total36 ?od = (unat (odo_km m) * 1000 + unat (odo_rem_m m)) * 36"
    by (simp_all add: odometer_static_def last_ts_def total36_def)
  have run: "mileage_run ops ((s, t) # samples) (odometer_static, st, l)
      = mileage_run ops ((s, t) # samples) (?od, st1, svc_lcd_update_total_mileage (odo_km m) (odo_rem_m m) l)"
    by (rule mileage_run_after_load [of ops s t samples "(odometer_static, st, l)", unfolded mileage_load_static [OF ld TrueI]])
  show ?thesis
    unfolding run using mileage_run_exact [OF o(1,2)] o(3,4) ld by (simp add: Let_def del: mileage_run.simps travelled.simps)
qed

text \<open>
  C9: over a memory chip that works, the stored kilometres never lag behind: from a restart on, after
  every sample the stored record has the kilometre count of the odometer (or nothing is stored and
  the count is zero), so a power loss costs less than one kilometre; and the display shows the
  odometer's values.
\<close>

theorem mileage_persisted:
  assumes chip: "eeprom_chip ops mem rdy ptr" and us: "usable rdy st"
  shows "case mileage_run ops ((s, t) # samples) (odometer_static, st, l) of (od, st', l') \<Rightarrow>
    usable rdy st'
    \<and> (case v_mileage (nv_view_of (mem (bus st'))) of None \<Rightarrow> od_km od = 0 | Some m \<Rightarrow> odo_km m = od_km od)
    \<and> g_lcd_total_mileage_km l' = od_km od \<and> g_lcd_total_mileage_rem_m l' = od_rem_m od"
proof -
  let ?v = "nv_view_of (mem (bus st))"
  obtain r st1 where ld: "svc_storage_load_mileage ops (Some mileage_zero) st
      = (r, Some (case v_mileage ?v of None \<Rightarrow> mileage_zero | Some y \<Rightarrow> y), st1)" "r"
      and st1: "usable rdy st1" "mem (bus st1) = mem (bus st)"
    using loads_exact(1) [OF chip us refl, of mileage_zero] by blast
  have "synced (nv_view_of (mem (bus st1))) (mileage_load ops (odometer_static, st, l))"
    unfolding mileage_load_static [OF ld] using st1
    by (simp add: synced_def mileage_zero_def split: option.splits)
  then obtain od' st' l' where "mileage_run ops ((s, t) # samples) (mileage_load ops (odometer_static, st, l)) = (od', st', l')"
      "usable rdy st'" "synced (nv_view_of (mem (bus st'))) (od', st', l')"
    using mileage_run_synced [OF chip st1(1)] mileage_load_static [OF ld, of l] by metis
  then show ?thesis
    using mileage_run_after_load [of ops s t samples "(odometer_static, st, l)"] by (simp add: synced_def)
qed

theorem mileage_persisted_witness:
  "case mileage_run at24_ops [(0, 1), (720, 2000), (720, 2005), (720, 2010)] (odometer_static, storage_blank, lcd_start) of
     (od, st', l') \<Rightarrow> g_lcd_total_mileage_km l' = od_km od"
  using mileage_persisted [OF at24_chip usable_blank, of 0 1 "[(720, 2000), (720, 2005), (720, 2010)]" lcd_start]
  by (auto split: prod.splits)

end
