(* ===== verification/Uart_Cmd.thy ===== *)
theory Uart_Cmd
  imports Uart_Text Uart_Mileage
begin

unbundle bit_operations_syntax

text \<open>
  The serial command module as a whole (\<open>src/applications/app_usart_cmd.c\<close>): reception from the
  device into the ring, the parser loop, the handling of the frames, transmission, start-up. The
  state is the record \<open>uart\<close>: the file variables, the static variables of the parser and of the
  odometer, the persistent store and the display the module acts on, and what was written to the
  device. \<open>rt_device_read\<close> is a parameter; what is relied on is the locale \<open>byte_source\<close>, which the serial
  device of the kernel satisfies (theory \<open>Uart_Line\<close>).
\<close>

section \<open>Data\<close>

datatype tx_fn = Uart_tx

record ('b, 'a) uart =
  g_uart_cmd_rx_ring :: app_uart_cmd_ring
  u_parser :: uart_parser
  g_uart_cmd_last_frame :: app_uart_cmd_frame
  g_uart_cmd_tx_cb :: "tx_fn option"
  g_uart_cmd_dev :: bool
  g_uart_cmd_rx_sem :: nat
  u_text :: text_rx
  g_mcu_config_cache :: app_mcu_config_status
  u_odometer :: odometer
  u_storage :: "'b storage"
  u_lcd :: "'a lcd_scheme"
  u_sent :: "bytes list"

section \<open>Frames\<close>

definition show_soc_status :: "app_soc_status_msg \<Rightarrow> 'a lcd_scheme \<Rightarrow> 'a lcd_scheme" where
  "show_soc_status msg l =
     (let (hour, minute, second) = app_uart_cmd_time_to_hms (timestamp msg);
          (drive_hour, drive_minute, drive_second) = app_uart_cmd_seconds_to_hms (driver_time msg);
          driver_number_str = app_uart_cmd_bcd_to_str18 (driver_number msg);
          l = svc_lcd_update_home_time hour minute second l;
          l = svc_lcd_update_top_status (used_satellite msg) l;
          l = svc_lcd_update_home_speed (driver_speed msg) l;
          l = svc_lcd_update_drive_time drive_hour drive_minute drive_second l;
          l = svc_lcd_update_card_id (Some driver_number_str) l
      in svc_lcd_update_home_location (latitude msg) (longitude msg) (of_bool (latitude_direction msg))
           (of_bool (longitude_direction msg)) (timestamp msg) l)"

definition handle_frame :: "'b i2c_ops \<Rightarrow> app_uart_cmd_frame \<Rightarrow> ('b, 'a) uart \<Rightarrow> ('b, 'a) uart" where
  "handle_frame ops frame u =
     (let u = u\<lparr>g_uart_cmd_last_frame := frame\<rparr> in
      if fr_data frame ! 2 = APP_UART_CMD_TEXT_FRAME_TYPE
      then (let (_, t, l) = app_uart_cmd_parse_text_frame frame (u_text u) (u_lcd u)
            in u\<lparr>u_text := t, u_lcd := l\<rparr>)
      else case app_uart_cmd_parse_soc_status frame of
             None \<Rightarrow> u
           | Some msg \<Rightarrow>
               let (od, st, l) = app_uart_cmd_update_total_mileage ops (driver_speed msg) (timestamp msg)
                     (u_odometer u, u_storage u, u_lcd u)
               in u\<lparr>u_odometer := od, u_storage := st, u_lcd := show_soc_status msg l\<rparr>)"

definition force_finish :: "('b, 'a) uart \<Rightarrow> ('b, 'a) uart" where
  "force_finish u =
     (let (t, l) = app_uart_cmd_force_finish_text_frame (u_text u) (u_lcd u) in u\<lparr>u_text := t, u_lcd := l\<rparr>)"

section \<open>The loops\<close>

function app_uart_cmd_try_parse_frame :: "('b, 'a) uart \<Rightarrow> app_uart_cmd_frame option \<times> ('b, 'a) uart" where
  "app_uart_cmd_try_parse_frame u =
     (case app_uart_cmd_ring_pop (g_uart_cmd_rx_ring u) of
        None \<Rightarrow> (None, u)
      | Some (byte, ring) \<Rightarrow>
          case parser_byte byte (u_parser u) of
            (PContinue, p) \<Rightarrow> app_uart_cmd_try_parse_frame (u\<lparr>g_uart_cmd_rx_ring := ring, u_parser := p\<rparr>)
          | (PFrame f, p) \<Rightarrow> (Some f, u\<lparr>g_uart_cmd_rx_ring := ring, u_parser := p\<rparr>)
          | (PForceFinish, p) \<Rightarrow>
              app_uart_cmd_try_parse_frame (force_finish (u\<lparr>g_uart_cmd_rx_ring := ring, u_parser := p\<rparr>)))"
  by auto

lemma ring_force_finish [simp]: "g_uart_cmd_rx_ring (force_finish u) = g_uart_cmd_rx_ring u"
  by (simp add: force_finish_def split: prod.splits)

lemma pop_count: "app_uart_cmd_ring_pop r = Some (b, r') \<Longrightarrow> rcount r = Suc (rcount r')"
  by (auto simp: app_uart_cmd_ring_pop_def split: if_splits)

termination app_uart_cmd_try_parse_frame
  by (relation "measure (\<lambda>u. rcount (g_uart_cmd_rx_ring u))") (auto dest: pop_count)

declare app_uart_cmd_try_parse_frame.simps [simp del]

lemma try_parse_count:
  "app_uart_cmd_try_parse_frame u = (Some f, u') \<Longrightarrow>
   rcount (g_uart_cmd_rx_ring u') < rcount (g_uart_cmd_rx_ring u)"
proof (induction u rule: app_uart_cmd_try_parse_frame.induct)
  case (1 u)
  then show ?case
    by (subst (asm) (3) app_uart_cmd_try_parse_frame.simps)
       (fastforce dest: pop_count split: option.splits prod.splits parse_out.splits)
qed

lemma ring_handle_frame [simp]: "g_uart_cmd_rx_ring (handle_frame ops f u) = g_uart_cmd_rx_ring u"
  by (simp add: handle_frame_def Let_def split: prod.splits option.splits)

function app_usart_cmd_poll :: "'b i2c_ops \<Rightarrow> ('b, 'a) uart \<Rightarrow> ('b, 'a) uart" where
  "app_usart_cmd_poll ops u =
     (case app_uart_cmd_try_parse_frame u of
        (None, u) \<Rightarrow> u
      | (Some frame, u) \<Rightarrow> app_usart_cmd_poll ops (handle_frame ops frame u))"
  by auto
termination
  by (relation "measure (\<lambda>(ops, u). rcount (g_uart_cmd_rx_ring u))") (auto dest: try_parse_count [OF sym])

declare app_usart_cmd_poll.simps [simp del]

section \<open>Reception\<close>

definition app_usart_cmd_push_byte :: "u8 \<Rightarrow> ('b, 'a) uart \<Rightarrow> ('b, 'a) uart" where
  "app_usart_cmd_push_byte byte u =
     u\<lparr>g_uart_cmd_rx_ring := snd (app_uart_cmd_ring_push (g_uart_cmd_rx_ring u) byte)\<rparr>"

definition app_usart_cmd_push_bytes :: "bytes option \<Rightarrow> nat \<Rightarrow> ('b, 'a) uart \<Rightarrow> ('b, 'a) uart" where
  "app_usart_cmd_push_bytes data len u =
     (case data of None \<Rightarrow> u
      | Some d \<Rightarrow> if len = 0 then u else fold app_usart_cmd_push_byte (take len d) u)"

text \<open>
  \<open>rd n d\<close> is \<open>rt_device_read\<close> for at most \<open>n\<close> bytes: the bytes and the device afterwards.
\<close>

function rx_loop :: "(nat \<Rightarrow> 'd \<Rightarrow> bytes \<times> 'd) \<Rightarrow> nat \<Rightarrow> bool \<Rightarrow> 'd \<times> ('b, 'a) uart \<Rightarrow> bool \<times> 'd \<times> ('b, 'a) uart" where
  "rx_loop rd n has_data (d, u) =
     (if n = 0 then (has_data, d, u)
      else
        let (buf, d') = rd (min n 128) d; read_len = length buf
        in if read_len = 0 then (has_data, d', u)
           else rx_loop rd (n - read_len) True (d', app_usart_cmd_push_bytes (Some buf) (read_len mod 65536) u))"
  by pat_completeness auto
termination
  by (relation "measure (\<lambda>(rd, n, h, x). n)") auto

declare rx_loop.simps [simp del]

definition app_uart_cmd_rx_indicate ::
  "(nat \<Rightarrow> 'd \<Rightarrow> bytes \<times> 'd) \<Rightarrow> nat \<Rightarrow> 'd \<times> ('b, 'a) uart \<Rightarrow> 'd \<times> ('b, 'a) uart" where
  "app_uart_cmd_rx_indicate rd size_n x =
     (let (has_data, d, u) = rx_loop rd size_n False x
      in (d, if has_data then u\<lparr>g_uart_cmd_rx_sem := rt_sem_release (g_uart_cmd_rx_sem u)\<rparr> else u))"

text \<open>One pass of the receive thread; \<open>None\<close> while it waits for the semaphore.\<close>

definition app_usart_cmd_thread_pass :: "'b i2c_ops \<Rightarrow> ('b, 'a) uart \<Rightarrow> ('b, 'a) uart option" where
  "app_usart_cmd_thread_pass ops u =
     (if g_uart_cmd_rx_sem u = 0 then None
      else Some (app_usart_cmd_poll ops (u\<lparr>g_uart_cmd_rx_sem := g_uart_cmd_rx_sem u - 1\<rparr>)))"

section \<open>Transmission\<close>

definition app_uart_cmd_uart_tx :: "bytes option \<Rightarrow> nat \<Rightarrow> ('b, 'a) uart \<Rightarrow> ('b, 'a) uart" where
  "app_uart_cmd_uart_tx data len u =
     (case data of None \<Rightarrow> u
      | Some d \<Rightarrow> if \<not> g_uart_cmd_dev u \<or> len = 0 then u else u\<lparr>u_sent := u_sent u @ [take len d]\<rparr>)"

definition app_usart_cmd_set_tx_callback :: "tx_fn option \<Rightarrow> ('b, 'a) uart \<Rightarrow> ('b, 'a) uart" where
  "app_usart_cmd_set_tx_callback cb u = u\<lparr>g_uart_cmd_tx_cb := cb\<rparr>"

definition call_tx :: "tx_fn \<Rightarrow> bytes option \<Rightarrow> nat \<Rightarrow> ('b, 'a) uart \<Rightarrow> ('b, 'a) uart" where
  "call_tx cb = (case cb of Uart_tx \<Rightarrow> app_uart_cmd_uart_tx)"

definition app_usart_cmd_send_ack :: "u8 \<Rightarrow> u8 \<Rightarrow> ('b, 'a) uart \<Rightarrow> bool \<times> ('b, 'a) uart" where
  "app_usart_cmd_send_ack type ret u =
     (case g_uart_cmd_tx_cb u of None \<Rightarrow> (False, u)
      | Some cb \<Rightarrow>
          let (ack_len, ack_buf) = app_uart_cmd_build_ack type ret (Some (replicate 8 0)) 8
          in if ack_len = 0 then (False, u) else (True, call_tx cb ack_buf ack_len u))"

definition app_usart_cmd_send_mcu_version ::
  "vehicle_io \<Rightarrow> adc_state \<Rightarrow> ('b, 'a) uart \<Rightarrow> bool \<times> ('b, 'a) uart" where
  "app_usart_cmd_send_mcu_version vio adc u =
     (case g_uart_cmd_tx_cb u of None \<Rightarrow> (False, u)
      | Some cb \<Rightarrow>
          let (tx_len, tx_buf) = app_uart_cmd_build_mcu_version (g_mcu_config_cache u) vio adc (Some (replicate 61 0)) 61
          in if tx_len = 0 then (False, u) else (True, call_tx cb tx_buf tx_len u))"

section \<open>Start-up\<close>

text \<open>What the kernel answers to the calls of \<open>app_usart_cmd_init\<close>.\<close>

record uart_env =
  sem_init_result :: rt_err
  device_found :: bool
  open_result :: rt_err
  set_rx_result :: rt_err

definition refresh_cache :: "'b i2c_ops \<Rightarrow> ('b, 'a) uart \<Rightarrow> ('b, 'a) uart" where
  "refresh_cache ops u =
     (let (cache, st) = app_usart_cmd_refresh_status_config ops (u_storage u)
      in u\<lparr>g_mcu_config_cache := cache, u_storage := st\<rparr>)"

definition app_usart_cmd_init :: "'b i2c_ops \<Rightarrow> uart_env \<Rightarrow> ('b, 'a) uart \<Rightarrow> rt_err \<times> ('b, 'a) uart" where
  "app_usart_cmd_init ops env u =
     (let u = u\<lparr>g_uart_cmd_rx_ring := ring_zero, g_uart_cmd_last_frame := \<lparr>fr_data = replicate 512 0, fr_length = 0\<rparr>,
                g_uart_cmd_tx_cb := None, u_text := text_rx_zero, g_mcu_config_cache := config_status_zero\<rparr>;
          u = refresh_cache ops u
      in if sem_init_result env \<noteq> RT_EOK then (sem_init_result env, u)
         else
           let u = u\<lparr>g_uart_cmd_rx_sem := 0, g_uart_cmd_dev := device_found env\<rparr> in
           if \<not> device_found env then (RT_ERROR, u)
           else if open_result env \<noteq> RT_EOK then (open_result env, u)
           else if set_rx_result env \<noteq> RT_EOK then (set_rx_result env, u)
           else (RT_EOK, app_usart_cmd_set_tx_callback (Some Uart_tx) u))"

text \<open>\<open>thread1\<close> and \<open>thread2\<close> tell whether the two threads could be created.\<close>

definition app_usart_cmd_task_start :: "'b i2c_ops \<Rightarrow> bool \<Rightarrow> bool \<Rightarrow> ('b, 'a) uart \<Rightarrow> rt_err \<times> ('b, 'a) uart" where
  "app_usart_cmd_task_start ops thread1 thread2 u =
     (if \<not> thread1 then (RT_ERROR, u)
      else
        let (od, st, l) = app_uart_cmd_update_total_mileage ops 0 1 (u_odometer u, u_storage u, u_lcd u);
            u = u\<lparr>u_odometer := od, u_storage := st, u_lcd := l\<rparr>
        in (if thread2 then RT_EOK else RT_ERROR, u))"

section \<open>The parser loop as a fold over the bytes\<close>

definition apply_out :: "'b i2c_ops \<Rightarrow> parse_out \<Rightarrow> ('b, 'a) uart \<Rightarrow> ('b, 'a) uart" where
  "apply_out ops out u =
     (case out of PContinue \<Rightarrow> u | PFrame f \<Rightarrow> handle_frame ops f u | PForceFinish \<Rightarrow> force_finish u)"

definition uart_byte :: "'b i2c_ops \<Rightarrow> u8 \<Rightarrow> ('b, 'a) uart \<Rightarrow> ('b, 'a) uart" where
  "uart_byte ops byte u =
     (let (out, p) = parser_byte byte (u_parser u) in apply_out ops out (u\<lparr>u_parser := p\<rparr>))"

lemma force_finish_upd:
  "force_finish (u\<lparr>g_uart_cmd_rx_ring := r\<rparr>) = (force_finish u)\<lparr>g_uart_cmd_rx_ring := r\<rparr>"
  "force_finish (u\<lparr>u_parser := p\<rparr>) = (force_finish u)\<lparr>u_parser := p\<rparr>"
  "force_finish (u\<lparr>g_uart_cmd_rx_sem := n\<rparr>) = (force_finish u)\<lparr>g_uart_cmd_rx_sem := n\<rparr>"
  "u_parser (force_finish u) = u_parser u"
  by (simp_all add: force_finish_def split: prod.splits)

lemma handle_frame_upd:
  "handle_frame ops f (u\<lparr>g_uart_cmd_rx_ring := r\<rparr>) = (handle_frame ops f u)\<lparr>g_uart_cmd_rx_ring := r\<rparr>"
  "handle_frame ops f (u\<lparr>u_parser := p\<rparr>) = (handle_frame ops f u)\<lparr>u_parser := p\<rparr>"
  "handle_frame ops f (u\<lparr>g_uart_cmd_rx_sem := n\<rparr>) = (handle_frame ops f u)\<lparr>g_uart_cmd_rx_sem := n\<rparr>"
  "u_parser (handle_frame ops f u) = u_parser u"
  by (simp_all add: handle_frame_def Let_def split: prod.splits option.splits)

lemma apply_out_upd:
  "apply_out ops out (u\<lparr>g_uart_cmd_rx_ring := r\<rparr>) = (apply_out ops out u)\<lparr>g_uart_cmd_rx_ring := r\<rparr>"
  "apply_out ops out (u\<lparr>u_parser := p\<rparr>) = (apply_out ops out u)\<lparr>u_parser := p\<rparr>"
  "apply_out ops out (u\<lparr>g_uart_cmd_rx_sem := n\<rparr>) = (apply_out ops out u)\<lparr>g_uart_cmd_rx_sem := n\<rparr>"
  "u_parser (apply_out ops out u) = u_parser u"
  by (simp_all add: apply_out_def force_finish_upd handle_frame_upd split: parse_out.splits)

lemma uart_byte_upd:
  "uart_byte ops b (u\<lparr>g_uart_cmd_rx_ring := r\<rparr>) = (uart_byte ops b u)\<lparr>g_uart_cmd_rx_ring := r\<rparr>"
  "uart_byte ops b (u\<lparr>g_uart_cmd_rx_sem := n\<rparr>) = (uart_byte ops b u)\<lparr>g_uart_cmd_rx_sem := n\<rparr>"
  by (simp_all add: uart_byte_def apply_out_upd split: prod.splits)

lemma fold_uart_byte_upd:
  "fold (uart_byte ops) bs (u\<lparr>g_uart_cmd_rx_ring := r\<rparr>) = (fold (uart_byte ops) bs u)\<lparr>g_uart_cmd_rx_ring := r\<rparr>"
  "fold (uart_byte ops) bs (u\<lparr>g_uart_cmd_rx_sem := n\<rparr>) = (fold (uart_byte ops) bs u)\<lparr>g_uart_cmd_rx_sem := n\<rparr>"
  by (induction bs arbitrary: u) (simp_all add: uart_byte_upd)

lemma poll_step:
  "app_usart_cmd_poll ops u =
     (case app_uart_cmd_ring_pop (g_uart_cmd_rx_ring u) of
        None \<Rightarrow> u
      | Some (b, r) \<Rightarrow> app_usart_cmd_poll ops (uart_byte ops b (u\<lparr>g_uart_cmd_rx_ring := r\<rparr>)))"
  by (subst app_usart_cmd_poll.simps, subst app_uart_cmd_try_parse_frame.simps)
     (auto simp: uart_byte_def apply_out_def app_usart_cmd_poll.simps split: option.splits parse_out.splits prod.splits)

lemma poll_fold:
  "ring_ok (g_uart_cmd_rx_ring u) \<Longrightarrow> ring_queue (g_uart_cmd_rx_ring u) = bs \<Longrightarrow>
   \<exists>r. app_usart_cmd_poll ops u = (fold (uart_byte ops) bs u)\<lparr>g_uart_cmd_rx_ring := r\<rparr> \<and> ring_ok r \<and> ring_queue r = []"
proof (induction bs arbitrary: u)
  case Nil
  then have "app_uart_cmd_ring_pop (g_uart_cmd_rx_ring u) = None" by (rule ring.pop_empty)
  then have "app_usart_cmd_poll ops u = u\<lparr>g_uart_cmd_rx_ring := g_uart_cmd_rx_ring u\<rparr>" by (subst poll_step) simp
  then show ?case using Nil by (intro exI [of _ "g_uart_cmd_rx_ring u"]) simp
next
  case (Cons b bs)
  obtain r where r: "app_uart_cmd_ring_pop (g_uart_cmd_rx_ring u) = Some (b, r)" "ring_ok r" "ring_queue r = bs"
    using ring.pop_next [OF Cons.prems] by blast
  let ?u = "uart_byte ops b (u\<lparr>g_uart_cmd_rx_ring := r\<rparr>)"
  have "g_uart_cmd_rx_ring ?u = r" by (simp add: uart_byte_upd)
  then obtain r' where r': "app_usart_cmd_poll ops ?u = (fold (uart_byte ops) bs ?u)\<lparr>g_uart_cmd_rx_ring := r'\<rparr>"
      "ring_ok r'" "ring_queue r' = []"
    using Cons.IH [of ?u] r by auto
  have "app_usart_cmd_poll ops u = app_usart_cmd_poll ops ?u" by (subst poll_step) (simp add: r(1))
  then show ?case
    using r' by (intro exI [of _ r']) (simp add: uart_byte_upd fold_uart_byte_upd)
qed

section \<open>Reception from a byte source\<close>

text \<open>
  What the module relies on in the device it reads: the device holds a queue of bytes and a read takes
  them off the front. \<open>dev_ok\<close> are the states between two calls.
\<close>

locale byte_source =
  fixes rd :: "nat \<Rightarrow> 'd \<Rightarrow> bytes \<times> 'd" and q :: "'d \<Rightarrow> bytes" and dev_ok :: "'d \<Rightarrow> bool"
  assumes read_law: "dev_ok d \<Longrightarrow> \<exists>d'. rd n d = (take n (q d), d') \<and> dev_ok d' \<and> q d' = drop n (q d)"

lemma push_bytes_ring:
  "fold app_usart_cmd_push_byte bs u = u\<lparr>g_uart_cmd_rx_ring := ring.push_all bs (g_uart_cmd_rx_ring u)\<rparr>"
  by (induction bs arbitrary: u) (simp_all add: app_usart_cmd_push_byte_def ring.push_all_def)

context byte_source
begin

lemma rx_loop_fifo:
  "dev_ok d \<Longrightarrow> \<exists>d'. rx_loop rd n h (d, u)
      = (h \<or> (0 < n \<and> q d \<noteq> []), d', fold app_usart_cmd_push_byte (take n (q d)) u) \<and> dev_ok d' \<and> q d' = drop n (q d)"
proof (induction n arbitrary: h d u rule: less_induct)
  case (less n)
  define b where "b = take (min n 128) (q d)"
  obtain d1 where d1: "rd (min n 128) d = (b, d1)" "q d1 = drop (min n 128) (q d)" "dev_ok d1"
    using read_law [OF less.prems, of "min n 128"] unfolding b_def by blast
  show ?case
  proof (cases "n = 0 \<or> q d = []")
    case True
    then show ?thesis using d1 less.prems by (subst rx_loop.simps) (auto simp: b_def)
  next
    case False
    have k: "length b \<noteq> 0" "length b \<le> n" "length b mod 65536 = length b" "n \<noteq> 0" using False by (auto simp: b_def)
    have split: "take n (q d) = b @ take (n - length b) (q d1)" "drop n (q d) = drop (n - length b) (q d1)"
      using d1(2) by (auto simp: b_def min_def take_add [symmetric])
    have "rx_loop rd n h (d, u) = rx_loop rd (n - length b) True (d1, fold app_usart_cmd_push_byte b u)"
      using d1(1) k by (subst rx_loop.simps) (simp add: app_usart_cmd_push_bytes_def Let_def)
    moreover have "n - length b < n" using k by simp
    then obtain d' where "rx_loop rd (n - length b) True (d1, fold app_usart_cmd_push_byte b u)
        = (True, d', fold app_usart_cmd_push_byte (take (n - length b) (q d1)) (fold app_usart_cmd_push_byte b u))"
        "dev_ok d'" "q d' = drop (n - length b) (q d1)"
      using less.IH [of "n - length b" d1 True "fold app_usart_cmd_push_byte b u"] d1(3) by auto
    ultimately show ?thesis using split False by (intro exI [of _ d']) simp
  qed
qed

text \<open>The callback moves everything that was announced into the ring and posts the semaphore.\<close>

lemma rx_indicate_drains:
  assumes "dev_ok d" "n = length (q d)" "ring_ok (g_uart_cmd_rx_ring u)"
    "length (ring_queue (g_uart_cmd_rx_ring u)) + n \<le> 4096"
  shows "\<exists>d' r. app_uart_cmd_rx_indicate rd n (d, u)
      = (d', u\<lparr>g_uart_cmd_rx_ring := r, g_uart_cmd_rx_sem := (if q d \<noteq> [] then rt_sem_release (g_uart_cmd_rx_sem u) else g_uart_cmd_rx_sem u)\<rparr>)
    \<and> dev_ok d' \<and> q d' = [] \<and> ring_ok r \<and> ring_queue r = ring_queue (g_uart_cmd_rx_ring u) @ q d"
proof -
  obtain d' where d': "rx_loop rd n False (d, u)
      = (0 < n \<and> q d \<noteq> [], d', fold app_usart_cmd_push_byte (q d) u)" "dev_ok d'" "q d' = []"
    using rx_loop_fifo [OF assms(1), of n False u] assms(2) by auto
  let ?r = "ring.push_all (q d) (g_uart_cmd_rx_ring u)"
  have r: "ring_ok ?r" "ring_queue ?r = ring_queue (g_uart_cmd_rx_ring u) @ q d"
    using ring.push_all_queued [OF assms(3), of "q d"] assms(2,4) by simp_all
  have "app_uart_cmd_rx_indicate rd n (d, u)
      = (d', u\<lparr>g_uart_cmd_rx_ring := ?r, g_uart_cmd_rx_sem := (if q d \<noteq> [] then rt_sem_release (g_uart_cmd_rx_sem u) else g_uart_cmd_rx_sem u)\<rparr>)"
    using assms(2) unfolding app_uart_cmd_rx_indicate_def d'(1) push_bytes_ring by simp
  then show ?thesis using d' r by blast
qed

end

lemma thread_pass_handles:
  assumes "ring_ok (g_uart_cmd_rx_ring u)" "0 < g_uart_cmd_rx_sem u"
  shows "\<exists>r. app_usart_cmd_thread_pass ops u
      = Some ((fold (uart_byte ops) (ring_queue (g_uart_cmd_rx_ring u)) u)
          \<lparr>g_uart_cmd_rx_ring := r, g_uart_cmd_rx_sem := g_uart_cmd_rx_sem u - 1\<rparr>)
    \<and> ring_ok r \<and> ring_queue r = []"
proof -
  let ?u = "u\<lparr>g_uart_cmd_rx_sem := g_uart_cmd_rx_sem u - 1\<rparr>"
  obtain r where "app_usart_cmd_poll ops ?u
      = (fold (uart_byte ops) (ring_queue (g_uart_cmd_rx_ring u)) ?u)\<lparr>g_uart_cmd_rx_ring := r\<rparr>" "ring_ok r" "ring_queue r = []"
    using poll_fold [of ?u "ring_queue (g_uart_cmd_rx_ring u)" ops] assms(1) by auto
  then show ?thesis
    using assms(2) by (intro exI [of _ r]) (simp add: app_usart_cmd_thread_pass_def fold_uart_byte_upd)
qed

section \<open>One frame\<close>

lemma fold_apply_out_parser:
  "fold (apply_out ops) outs (u\<lparr>u_parser := p\<rparr>) = (fold (apply_out ops) outs u)\<lparr>u_parser := p\<rparr>"
  by (induction outs arbitrary: u) (simp_all add: apply_out_upd)

lemma fold_uart_byte_run:
  "fold (uart_byte ops) bs u =
     (case parser_run bs (u_parser u) of (outs, p) \<Rightarrow> (fold (apply_out ops) outs u)\<lparr>u_parser := p\<rparr>)"
proof (induction bs arbitrary: u)
  case (Cons b bs)
  obtain out p where b: "parser_byte b (u_parser u) = (out, p)" by (cases "parser_byte b (u_parser u)")
  obtain outs q where r: "parser_run bs p = (outs, q)" by (cases "parser_run bs p")
  have "uart_byte ops b u = (apply_out ops out u)\<lparr>u_parser := p\<rparr>"
    by (simp add: uart_byte_def b apply_out_upd)
  then show ?case using Cons.IH [of "uart_byte ops b u"] b r by (simp add: fold_apply_out_parser)
qed simp

lemma fold_continue: "fold (apply_out ops) (replicate n PContinue) u = u"
  by (induction n) (simp_all add: apply_out_def)

lemma uart_one_frame:
  assumes "wf_frame f" "f ! 2 = 1 \<or> f ! 2 = 2" "pindex (u_parser u) = 0"
  shows "\<exists>p. pindex p = 0 \<and> fold (uart_byte ops) f u
    = (handle_frame ops \<lparr>fr_data = f, fr_length = length f\<rparr> u)\<lparr>u_parser := p\<rparr>"
proof -
  obtain q where q: "parser_run f (u_parser u)
      = (replicate (length f - 1) PContinue @ [PFrame \<lparr>fr_data = f, fr_length = length f\<rparr>], q)" "pindex q = 0"
    using parser_run_frame [OF assms] by blast
  have "fold (uart_byte ops) f u = (handle_frame ops \<lparr>fr_data = f, fr_length = length f\<rparr> u)\<lparr>u_parser := q\<rparr>"
    unfolding fold_uart_byte_run q(1) prod.case fold_append comp_def fold_continue by (simp add: apply_out_def)
  then show ?thesis using q(2) by blast
qed

lemma mileage_home:
  "g_lcd_home_ui (snd (snd (app_uart_cmd_update_total_mileage ops s t x))) = g_lcd_home_ui (snd (snd x))"
proof -
  have ld: "g_lcd_home_ui (snd (snd (mileage_load ops x))) = g_lcd_home_ui (snd (snd x))"
    by (cases x) (simp add: mileage_load_def Let_def update_home split: prod.splits)
  have sv: "g_lcd_home_ui (snd (snd (mileage_save ops (od, st, l)))) = g_lcd_home_ui l" for od st and l :: "'c lcd_scheme"
    by (simp add: mileage_save_def Let_def split: prod.splits)
  show ?thesis
    by (cases "mileage_load ops x") (use ld in \<open>simp add: app_uart_cmd_update_total_mileage_def Let_def sv update_home\<close>)
qed

lemma card_string:
  "length (app_uart_cmd_bcd_to_str18 raw) = 19" "0 \<in> set (take 20 (app_uart_cmd_bcd_to_str18 raw))"
  "length (cstr (app_uart_cmd_bcd_to_str18 raw)) \<le> 19"
proof -
  show l: "length (app_uart_cmd_bcd_to_str18 raw) = 19"
    by (simp add: app_uart_cmd_bcd_to_str18_def upt_rec)
  then show "0 \<in> set (take 20 (app_uart_cmd_bcd_to_str18 raw))" by (simp add: app_uart_cmd_bcd_to_str18_def)
  show "length (cstr (app_uart_cmd_bcd_to_str18 raw)) \<le> 19"
    unfolding cstr_def using length_takeWhile_le [of "\<lambda>c. c \<noteq> 0" "app_uart_cmd_bcd_to_str18 raw"] l by simp
qed

text \<open>What the home page has to hold after a status message.\<close>

definition home_shows :: "app_soc_status_msg \<Rightarrow> lcd_home_ui_data \<Rightarrow> bool" where
  "home_shows m h \<longleftrightarrow>
     hms_of ((unat (timestamp m) + 28800) mod 4294967296 mod 86400) (home_hour h, home_minute h, home_second h)
     \<and> hms_of (unat (driver_time m) mod 86400) (home_drive_hour h, home_drive_minute h, home_drive_second h)
     \<and> home_speed_kmh_x10 h = driver_speed m \<and> home_top_status_value h = used_satellite m
     \<and> home_latitude h = latitude m \<and> home_longitude h = longitude m \<and> home_timestamp h = timestamp m
     \<and> home_latitude_direction h = of_bool (latitude_direction m)
     \<and> home_longitude_direction h = of_bool (longitude_direction m)
     \<and> cstr (home_card_id h) = cstr (app_uart_cmd_bcd_to_str18 (driver_number m))"

lemma show_soc_home:
  assumes "length (home_card_id (g_lcd_home_ui l)) = 20"
  shows "home_shows m (g_lcd_home_ui (show_soc_status m l))"
    "length (home_card_id (g_lcd_home_ui (show_soc_status m l))) = 20"
proof -
  obtain h mi se where t: "app_uart_cmd_time_to_hms (timestamp m) = (h, mi, se)"
    by (cases "app_uart_cmd_time_to_hms (timestamp m)")
  obtain dh dm ds where d: "app_uart_cmd_seconds_to_hms (driver_time m) = (dh, dm, ds)"
    by (cases "app_uart_cmd_seconds_to_hms (driver_time m)")
  have th: "hms_of ((unat (timestamp m) + 28800) mod 4294967296 mod 86400) (h, mi, se)"
    using seconds_to_hms [of "timestamp m + 28800"] t by (simp add: time_to_hms unat_word_ariths)
  have dh: "hms_of (unat (driver_time m) mod 86400) (dh, dm, ds)" using seconds_to_hms [of "driver_time m"] d by simp
  let ?l = "svc_lcd_update_drive_time dh dm ds (svc_lcd_update_home_speed (driver_speed m)
    (svc_lcd_update_top_status (used_satellite m) (svc_lcd_update_home_time h mi se l)))"
  let ?c = "svc_lcd_update_card_id (Some (app_uart_cmd_bcd_to_str18 (driver_number m))) ?l"
  have "length (home_card_id (g_lcd_home_ui ?l)) = 20" using assms by (simp add: update_home)
  from card_id_shown [OF this card_string(3,2) [of "driver_number m"]]
  have c: "cstr (home_card_id (g_lcd_home_ui ?c)) = cstr (app_uart_cmd_bcd_to_str18 (driver_number m))"
    "length (home_card_id (g_lcd_home_ui ?c)) = 20" by simp_all
  show "home_shows m (g_lcd_home_ui (show_soc_status m l))"
    "length (home_card_id (g_lcd_home_ui (show_soc_status m l))) = 20"
    using th dh c by (simp_all add: show_soc_status_def t d Let_def home_shows_def update_home)
qed

section \<open>Properties\<close>

definition uart_static :: "'b storage \<Rightarrow> ('b, unit) uart" where
  "uart_static st = \<lparr>g_uart_cmd_rx_ring = ring_zero, u_parser = parser_zero,
     g_uart_cmd_last_frame = \<lparr>fr_data = replicate 512 0, fr_length = 0\<rparr>, g_uart_cmd_tx_cb = None, g_uart_cmd_dev = False,
     g_uart_cmd_rx_sem = 0, u_text = text_rx_zero, g_mcu_config_cache = config_status_zero,
     u_odometer = odometer_static, u_storage = st, u_lcd = lcd_start, u_sent = []\<rparr>"

text \<open>
  C11: a status message that comes in as a frame ends up on the home page: local time, driving time,
  speed, satellites, position and driver card number are those of the message, the frame is the
  last frame and the parser is idle.
\<close>

theorem soc_frame_displayed:
  assumes "soc_msg_wf m" "pindex (u_parser u) = 0" "length (home_card_id (g_lcd_home_ui (u_lcd u))) = 20"
  shows "let u' = fold (uart_byte ops) (mk_frame 1 (soc_payload m)) u
    in home_shows m (g_lcd_home_ui (u_lcd u')) \<and> fr_data (g_uart_cmd_last_frame u') = mk_frame 1 (soc_payload m)
      \<and> pindex (u_parser u') = 0"
proof -
  have l: "length (soc_payload m) = 87" using assms(1) by (rule length_soc_payload)
  then have fl: "length (mk_frame 1 (soc_payload m)) = 93" by (simp add: mk_frame_def)
  have wf: "wf_frame (mk_frame 1 (soc_payload m))" "mk_frame 1 (soc_payload m) ! 2 = 1" using l by (simp_all add: mk_frame_wf)
  obtain p where p: "pindex p = 0" "fold (uart_byte ops) (mk_frame 1 (soc_payload m)) u
      = (handle_frame ops \<lparr>fr_data = mk_frame 1 (soc_payload m), fr_length = 93\<rparr> u)\<lparr>u_parser := p\<rparr>"
    using uart_one_frame [OF wf(1) _ assms(2), of ops] wf(2) fl by auto
  obtain od st l' where ml: "app_uart_cmd_update_total_mileage ops (driver_speed m) (timestamp m)
      (u_odometer u, u_storage u, u_lcd u) = (od, st, l')"
    by (cases "app_uart_cmd_update_total_mileage ops (driver_speed m) (timestamp m) (u_odometer u, u_storage u, u_lcd u)")
  have "g_lcd_home_ui l' = g_lcd_home_ui (u_lcd u)"
    using mileage_home [of ops "driver_speed m" "timestamp m" "(u_odometer u, u_storage u, u_lcd u)"] ml by simp
  then show ?thesis
    using show_soc_home(1) [of l' m] assms(3) p wf(2)
    by (simp add: handle_frame_def parse_soc_frame [OF assms(1)] ml Let_def dvr_const)
qed

theorem soc_frame_displayed_witness:
  "home_shows soc_sample (g_lcd_home_ui (u_lcd
     (fold (uart_byte at24_ops) (mk_frame 1 (soc_payload soc_sample)) (uart_static storage_blank))))"
proof -
  have "soc_msg_wf soc_sample" "pindex (u_parser (uart_static storage_blank)) = 0"
    "length (home_card_id (g_lcd_home_ui (u_lcd (uart_static storage_blank)))) = 20"
    by (simp_all add: soc_msg_wf_def soc_sample_def uart_static_def parser_zero_def lcd_start_def lcd_ui_core_reset_def
        lcd_ui_data_reset_def)
  from soc_frame_displayed [OF this, of at24_ops] show ?thesis by (simp add: Let_def)
qed

text \<open>
  Initialisation succeeds exactly when the semaphore, the device, its opening and the receive
  callback do. After success a frame can be sent and reaches the device unchanged; after a failure,
  nothing is sent.
\<close>

theorem uart_init_outcome:
  "case app_usart_cmd_init ops env u of (r, u') \<Rightarrow>
     if sem_init_result env = RT_EOK \<and> device_found env \<and> open_result env = RT_EOK \<and> set_rx_result env = RT_EOK
     then r = RT_EOK
        \<and> app_usart_cmd_send_ack t x u' = (True, u'\<lparr>u_sent := u_sent u' @ [mk_frame t [x, 0]]\<rparr>)
        \<and> ring_queue (g_uart_cmd_rx_ring u') = []
     else r \<noteq> RT_EOK \<and> app_usart_cmd_send_ack t x u' = (False, u')
        \<and> app_usart_cmd_send_mcu_version vio adc u' = (False, u')"
proof -
  have a: "app_uart_cmd_build_ack t x (Some (replicate 8 0)) 8 = (8, Some (mk_frame t [x, 0]))"
    by (simp add: build_ack)
  have l: "take 8 (mk_frame t [x, 0]) = mk_frame t [x, 0]" by (simp add: mk_frame_def)
  have c: "g_uart_cmd_tx_cb (refresh_cache ops v) = g_uart_cmd_tx_cb v"
    "g_uart_cmd_rx_ring (refresh_cache ops v) = g_uart_cmd_rx_ring v" for v :: "('a, 'b) uart"
    by (simp_all add: refresh_cache_def split: prod.splits)
  show ?thesis
    by (simp add: app_usart_cmd_init_def app_usart_cmd_send_ack_def app_usart_cmd_send_mcu_version_def
        app_usart_cmd_set_tx_callback_def call_tx_def app_uart_cmd_uart_tx_def Let_def a l c ring_zero_ok)
qed

end
