(* ===== verification/Svc_Lcd_Edit.thy ===== *)
theory Svc_Lcd_Edit
  imports Svc_Lcd_Data Uart_Frames
begin

unbundle bit_operations_syntax

text \<open>
  The setting pages of the display service (\<open>src/applications/svc_lcd.c\<close>): the state of the five
  editors (VIN, province id, city id, plate number, telephone number), how a page is prepared from
  the stored configuration when it is entered, and how a confirmed value is saved. The state \<open>ui\<close>
  extends the display state by the editors, the non-volatile store they load from and save to, the
  configuration cache of the serial link that a save refreshes, and the page the display was last
  drawn for.
\<close>

section \<open>Data\<close>

text \<open>The VIN, province and city editors have the same variables; the edit mask has 32 or 8 bits.\<close>

record 'm char_edit =
  ce_dirty :: u8
  ce_valid :: u8
  ce_area :: u8
  ce_cursor :: u8
  ce_option_index :: u8
  ce_action :: u8
  ce_chars :: bytes
  ce_edit_mask :: 'm

record plate_edit =
  pl_dirty :: u8
  pl_focus :: u8
  pl_valid :: u8
  pl_province_index :: u8
  pl_letter_index :: u8
  pl_digits :: bytes

record phone_edit =
  ph_digits :: bytes
  ph_cursor :: u8
  ph_selected_digit :: u8
  ph_focus :: u8
  ph_func_index :: u8

record 'b ui = lcd +
  ui_vin :: "u32 char_edit"
  ui_province_id :: "u8 char_edit"
  ui_city_id :: "u8 char_edit"
  ui_plate :: plate_edit
  ui_phone :: phone_edit
  g_lcd_home_subpage :: u8
  ui_storage :: "'b storage"
  ui_config_cache :: app_mcu_config_status
  ui_drawn :: "lcd_page_id option"

definition LCD_PLATE_FOCUS_PROVINCE :: u8 where [dvr_const]: "LCD_PLATE_FOCUS_PROVINCE = 0"
definition LCD_PLATE_FOCUS_LETTER :: u8 where [dvr_const]: "LCD_PLATE_FOCUS_LETTER = 1"
definition LCD_PLATE_FOCUS_DIGIT0 :: u8 where [dvr_const]: "LCD_PLATE_FOCUS_DIGIT0 = 2"
definition LCD_PLATE_FOCUS_DIGIT4 :: u8 where [dvr_const]: "LCD_PLATE_FOCUS_DIGIT4 = 6"
definition LCD_PLATE_FOCUS_CONFIRM :: u8 where [dvr_const]: "LCD_PLATE_FOCUS_CONFIRM = 7"
definition LCD_PLATE_FOCUS_EXIT :: u8 where [dvr_const]: "LCD_PLATE_FOCUS_EXIT = 8"
definition LCD_PLATE_FOCUS_MAX :: u8 where [dvr_const]: "LCD_PLATE_FOCUS_MAX = LCD_PLATE_FOCUS_EXIT"

text \<open>The areas and actions are numbered alike in the VIN, province and city editors.\<close>

definition LCD_VIN_LEN :: nat where [dvr_const]: "LCD_VIN_LEN = 17"
definition LCD_VIN_CHAR_COUNT :: u8 where [dvr_const]: "LCD_VIN_CHAR_COUNT = 36"
definition LCD_PROVINCE_ID_LEN :: nat where [dvr_const]: "LCD_PROVINCE_ID_LEN = 2"
definition LCD_PROVINCE_ID_CHAR_COUNT :: u8 where [dvr_const]: "LCD_PROVINCE_ID_CHAR_COUNT = 10"
definition LCD_CITY_ID_LEN :: nat where [dvr_const]: "LCD_CITY_ID_LEN = 4"
definition LCD_CITY_ID_CHAR_COUNT :: u8 where [dvr_const]: "LCD_CITY_ID_CHAR_COUNT = 10"
definition LCD_VIN_AREA_POSITION :: u8 where [dvr_const]: "LCD_VIN_AREA_POSITION = 0"
definition LCD_VIN_AREA_CHAR_SELECT :: u8 where [dvr_const]: "LCD_VIN_AREA_CHAR_SELECT = 1"
definition LCD_VIN_AREA_ACTION :: u8 where [dvr_const]: "LCD_VIN_AREA_ACTION = 2"
definition LCD_VIN_ACTION_CONFIRM :: u8 where [dvr_const]: "LCD_VIN_ACTION_CONFIRM = 0"
definition LCD_VIN_ACTION_EXIT :: u8 where [dvr_const]: "LCD_VIN_ACTION_EXIT = 1"

definition LCD_LOCAL_PHONE_FOCUS_NUMBER :: u8 where [dvr_const]: "LCD_LOCAL_PHONE_FOCUS_NUMBER = 0"
definition LCD_LOCAL_PHONE_FOCUS_DIGIT :: u8 where [dvr_const]: "LCD_LOCAL_PHONE_FOCUS_DIGIT = 1"
definition LCD_LOCAL_PHONE_FOCUS_ACTION :: u8 where [dvr_const]: "LCD_LOCAL_PHONE_FOCUS_ACTION = 2"

text \<open>The mask with the \<open>n\<close> lowest bits (\<open>LCD_VIN_COMPLETE_MASK\<close> and its two copies).\<close>

definition complete_mask :: "nat \<Rightarrow> 'm::len word" where
  "complete_mask n = push_bit n 1 - 1"

text \<open>The character tables are C strings, with their terminator.\<close>

definition g_lcd_plate_letters :: bytes where
  "g_lcd_plate_letters = map of_char ''ABCDEFGHIJKLMNOPQRSTUVWXYZ'' @ [0]"

definition g_lcd_plate_tail_chars :: bytes where
  "g_lcd_plate_tail_chars = map of_char ''0123456789ABCDEFGHIJKLMNOPQRSTUVWXYZ'' @ [0]"

definition g_lcd_plate_province_codes :: "u16 list" where
  "g_lcd_plate_province_codes =
     [0x4EAC, 0x6D25, 0x6CAA, 0x6E1D, 0x5180, 0x8C6B, 0x4E91, 0x8FBD, 0x9ED1, 0x6E58, 0x7696, 0x9C81,
      0x65B0, 0x82CF, 0x6D59, 0x8D63, 0x9102, 0x6842, 0x7518, 0x664B, 0x8499, 0x9655, 0x5409, 0x95FD,
      0x8D35, 0x7CA4, 0x9752, 0x85CF, 0x5DDD, 0x5B81, 0x743C]"

text \<open>\<open>strchr\<close> as the distance from the start of the string; it finds the terminator too.\<close>

fun strchr :: "bytes \<Rightarrow> u8 \<Rightarrow> nat option" where
  "strchr [] c = None"
| "strchr (x # s) c = (if x = c then Some 0 else map_option Suc (strchr s c))"

text \<open>The index of a stored character in the table, 0 for a character that is not in it.\<close>

definition tail_index :: "u8 \<Rightarrow> u8" where
  "tail_index c = (case strchr g_lcd_plate_tail_chars c of Some p \<Rightarrow> of_nat p | None \<Rightarrow> 0)"

text \<open>A state to start from: every variable as its C initialiser gives it, on an erased EEPROM.\<close>

definition char_edit_static :: "nat \<Rightarrow> 'm::len word char_edit" where
  "char_edit_static n = \<lparr>ce_dirty = 0, ce_valid = 0, ce_area = LCD_VIN_AREA_POSITION, ce_cursor = 0, ce_option_index = 0,
     ce_action = LCD_VIN_ACTION_EXIT, ce_chars = replicate n 0, ce_edit_mask = 0\<rparr>"

definition ui_static :: "'b storage \<Rightarrow> app_mcu_config_status \<Rightarrow> 'b ui" where
  "ui_static st cache = lcd.extend lcd_static
     \<lparr>ui_vin = char_edit_static LCD_VIN_LEN, ui_province_id = char_edit_static LCD_PROVINCE_ID_LEN,
      ui_city_id = char_edit_static LCD_CITY_ID_LEN,
      ui_plate = \<lparr>pl_dirty = 0, pl_focus = LCD_PLATE_FOCUS_PROVINCE, pl_valid = 0, pl_province_index = 0,
        pl_letter_index = 0, pl_digits = replicate 5 0\<rparr>,
      ui_phone = \<lparr>ph_digits = replicate 11 0x30 @ [0], ph_cursor = 0, ph_selected_digit = 0,
        ph_focus = LCD_LOCAL_PHONE_FOCUS_NUMBER, ph_func_index = 1\<rparr>,
      g_lcd_home_subpage = 0, ui_storage = st, ui_config_cache = cache, ui_drawn = None\<rparr>"

section \<open>Preparing a page\<close>

definition char_edit_prepare ::
  "nat \<Rightarrow> (bytes \<Rightarrow> nat \<Rightarrow> u8) \<Rightarrow> bool \<Rightarrow> svc_storage_text \<Rightarrow> 'm::len word char_edit \<Rightarrow> 'm word char_edit" where
  "char_edit_prepare n idx loaded t e =
     (let e = e\<lparr>ce_area := LCD_VIN_AREA_POSITION, ce_cursor := 0, ce_option_index := 0,
                ce_action := LCD_VIN_ACTION_EXIT, ce_dirty := 0, ce_edit_mask := 0\<rparr>;
          e = (if loaded \<and> tx_valid t = 1
               then e\<lparr>ce_valid := 1, ce_edit_mask := complete_mask n, ce_chars := map (idx (tx_chars t)) [0..<n]\<rparr>
               else e\<lparr>ce_valid := 0, ce_chars := replicate n 0\<rparr>)
      in e\<lparr>ce_option_index := ce_chars e ! unat (ce_cursor e)\<rparr>)"

definition lcd_prepare_vin_set_page :: "'b i2c_ops \<Rightarrow> 'b ui \<Rightarrow> 'b ui" where
  "lcd_prepare_vin_set_page ops u =
     (let (r, vin, st) = svc_storage_load_vin ops (Some \<lparr>tx_valid = 0, tx_chars = replicate 18 0\<rparr>) (ui_storage u)
      in u\<lparr>ui_storage := st,
           ui_vin := char_edit_prepare LCD_VIN_LEN (\<lambda>s i. tail_index (s ! i)) r (the vin) (ui_vin u)\<rparr>)"

definition lcd_prepare_province_id_set_page :: "'b i2c_ops \<Rightarrow> 'b ui \<Rightarrow> 'b ui" where
  "lcd_prepare_province_id_set_page ops u =
     (let (r, p, st) = svc_storage_load_province_id ops (Some \<lparr>tx_valid = 0, tx_chars = replicate 3 0\<rparr>) (ui_storage u)
      in u\<lparr>ui_storage := st,
           ui_province_id := char_edit_prepare LCD_PROVINCE_ID_LEN (\<lambda>s i. s ! i - 0x30) r (the p) (ui_province_id u)\<rparr>)"

definition lcd_prepare_city_id_set_page :: "'b i2c_ops \<Rightarrow> 'b ui \<Rightarrow> 'b ui" where
  "lcd_prepare_city_id_set_page ops u =
     (let (r, c, st) = svc_storage_load_city_id ops (Some \<lparr>tx_valid = 0, tx_chars = replicate 5 0\<rparr>) (ui_storage u)
      in u\<lparr>ui_storage := st,
           ui_city_id := char_edit_prepare LCD_CITY_ID_LEN (\<lambda>s i. s ! i - 0x30) r (the c) (ui_city_id u)\<rparr>)"

definition plate_blank :: svc_storage_plate_number where
  "plate_blank = \<lparr>pn_valid = 0, province_index = 0, letter = 0, digits = replicate 6 0\<rparr>"

definition lcd_prepare_plate_set_page :: "'b i2c_ops \<Rightarrow> 'b ui \<Rightarrow> 'b ui" where
  "lcd_prepare_plate_set_page ops u =
     (let e = (ui_plate u)\<lparr>pl_focus := LCD_PLATE_FOCUS_PROVINCE, pl_dirty := 0\<rparr>;
          (r, plate, st) = svc_storage_load_plate_number ops (Some plate_blank) (ui_storage u);
          pn = the plate;
          e = (if r \<and> pn_valid pn = 1 \<and> unat (province_index pn) < length g_lcd_plate_province_codes
                  \<and> 0x41 \<le> letter pn \<and> letter pn \<le> 0x5A
               then e\<lparr>pl_valid := 1, pl_province_index := province_index pn, pl_letter_index := letter pn - 0x41,
                      pl_digits := map (\<lambda>i. tail_index (digits pn ! i)) [0..<5]\<rparr>
               else e\<lparr>pl_valid := 0, pl_province_index := 0, pl_letter_index := 0, pl_digits := replicate 5 0\<rparr>)
      in u\<lparr>ui_storage := st, ui_plate := e\<rparr>)"

definition lcd_prepare_local_phone_page :: "'b i2c_ops \<Rightarrow> 'b ui \<Rightarrow> 'b ui" where
  "lcd_prepare_local_phone_page ops u =
     (let (r, phone, st) = svc_storage_load_local_phone ops (Some (replicate 12 0)) (ui_storage u);
          d = (if r then map ((!) (the phone)) [0..<12] else replicate 11 0x30 @ [0])
      in u\<lparr>ui_storage := st,
           ui_phone := \<lparr>ph_digits = d, ph_cursor = 0, ph_selected_digit = d ! 0 - 0x30,
                        ph_focus = LCD_LOCAL_PHONE_FOCUS_NUMBER, ph_func_index = 1\<rparr>\<rparr>)"

definition lcd_prepare_vehicle_plate_class_page :: "'b i2c_ops \<Rightarrow> 'b ui \<Rightarrow> 'b ui" where
  "lcd_prepare_vehicle_plate_class_page ops u =
     (let (r, c, st) = svc_storage_load_plate_class ops (Some 0) (ui_storage u);
          selected = (if r \<and> 1 \<le> the c \<and> the c \<le> 5 then the c - 1 else 0)
      in u\<lparr>ui_storage := st, g_lcd_page_selected :=
           (g_lcd_page_selected u)(LCD_PAGE_SYSTEM_SETTING_VEHICLE_INFO_PLATE_CLASS := selected)\<rparr>)"

definition lcd_prepare_vehicle_plate_color_page :: "'b i2c_ops \<Rightarrow> 'b ui \<Rightarrow> 'b ui" where
  "lcd_prepare_vehicle_plate_color_page ops u =
     (let (r, c, st) = svc_storage_load_plate_color ops (Some 0) (ui_storage u);
          selected = (if r \<and> 1 \<le> the c \<and> the c \<le> 5 then the c - 1 else 0)
      in u\<lparr>ui_storage := st, g_lcd_page_selected :=
           (g_lcd_page_selected u)(LCD_PAGE_SYSTEM_SETTING_VEHICLE_INFO_PLATE_COLOR := selected)\<rparr>)"

definition lcd_page_on_enter_prepare :: "'b i2c_ops \<Rightarrow> lcd_page_id \<Rightarrow> 'b ui \<Rightarrow> 'b ui" where
  "lcd_page_on_enter_prepare ops page_id u =
     (case page_id of
        LCD_PAGE_SYSTEM_SETTING_HOST_PARAM_LOCAL_PHONE \<Rightarrow> lcd_prepare_local_phone_page ops u
      | LCD_PAGE_SYSTEM_SETTING_VEHICLE_INFO_PLATE_CLASS \<Rightarrow> lcd_prepare_vehicle_plate_class_page ops u
      | LCD_PAGE_SYSTEM_SETTING_VEHICLE_INFO_PLATE_COLOR \<Rightarrow> lcd_prepare_vehicle_plate_color_page ops u
      | LCD_PAGE_DRIVE_RECORD_INFO_CENTER_TEXT_NORMAL \<Rightarrow> lcd_prepare_text_normal_page u
      | LCD_PAGE_SYSTEM_SETTING_VEHICLE_INFO_PLATE_SET \<Rightarrow> lcd_prepare_plate_set_page ops u
      | LCD_PAGE_SYSTEM_SETTING_VEHICLE_INFO_VIN \<Rightarrow> lcd_prepare_vin_set_page ops u
      | LCD_PAGE_SYSTEM_SETTING_VEHICLE_INFO_PROVINCE_ID \<Rightarrow> lcd_prepare_province_id_set_page ops u
      | LCD_PAGE_SYSTEM_SETTING_VEHICLE_INFO_CITY_ID \<Rightarrow> lcd_prepare_city_id_set_page ops u
      | _ \<Rightarrow> u)"

text \<open>Entering a page needs only the hook of the registered environment.\<close>

definition hook_env :: "'b i2c_ops \<Rightarrow> 'b ui lcd_env" where
  "hook_env ops = \<lparr>g_lcd_pages = None, g_lcd_ui_nav_enter_hook = Some (lcd_page_on_enter_prepare ops)\<rparr>"

section \<open>Saving\<close>

definition ui_refresh_cache :: "'b i2c_ops \<Rightarrow> 'b ui \<Rightarrow> 'b ui" where
  "ui_refresh_cache ops u =
     (let (cache, st) = app_usart_cmd_refresh_status_config ops (ui_storage u)
      in u\<lparr>ui_config_cache := cache, ui_storage := st\<rparr>)"

text \<open>What the save functions do with the result of the store: on success the cache is refreshed
  and the page that confirms the setting is entered, on failure the editor stays as it is.\<close>

definition save_done ::
  "'b i2c_ops \<Rightarrow> tick \<Rightarrow> lcd_page_id \<Rightarrow> ('b ui \<Rightarrow> 'b ui) \<Rightarrow> bool \<times> 'b storage \<Rightarrow> 'b ui \<Rightarrow> 'b ui" where
  "save_done ops now page saved res u =
     (let (r, st) = res; u = u\<lparr>ui_storage := st\<rparr>
      in if r then lcd_page_enter_common_ok (hook_env ops) now page (ui_refresh_cache ops (saved u)) else u)"

definition edited_text :: "nat \<Rightarrow> 'm char_edit \<Rightarrow> svc_storage_text" where
  "edited_text n e =
     \<lparr>tx_valid = 1, tx_chars = map (\<lambda>i. g_lcd_plate_tail_chars ! unat (ce_chars e ! i)) [0..<n] @ [0]\<rparr>"

definition lcd_vin_save_and_ok :: "'b i2c_ops \<Rightarrow> tick \<Rightarrow> 'b ui \<Rightarrow> 'b ui" where
  "lcd_vin_save_and_ok ops now u =
     save_done ops now LCD_PAGE_SYSTEM_SETTING_VEHICLE_INFO_VIN
       (\<lambda>u. u\<lparr>ui_vin := (ui_vin u)\<lparr>ce_valid := 1, ce_dirty := 0\<rparr>\<rparr>)
       (svc_storage_save_vin ops (Some (edited_text LCD_VIN_LEN (ui_vin u))) (ui_storage u)) u"

definition lcd_province_id_save_and_ok :: "'b i2c_ops \<Rightarrow> tick \<Rightarrow> 'b ui \<Rightarrow> 'b ui" where
  "lcd_province_id_save_and_ok ops now u =
     save_done ops now LCD_PAGE_SYSTEM_SETTING_VEHICLE_INFO_PROVINCE_ID
       (\<lambda>u. u\<lparr>ui_province_id := (ui_province_id u)\<lparr>ce_valid := 1, ce_dirty := 0\<rparr>\<rparr>)
       (svc_storage_save_province_id ops (Some (edited_text LCD_PROVINCE_ID_LEN (ui_province_id u))) (ui_storage u)) u"

definition lcd_city_id_save_and_ok :: "'b i2c_ops \<Rightarrow> tick \<Rightarrow> 'b ui \<Rightarrow> 'b ui" where
  "lcd_city_id_save_and_ok ops now u =
     save_done ops now LCD_PAGE_SYSTEM_SETTING_VEHICLE_INFO_CITY_ID
       (\<lambda>u. u\<lparr>ui_city_id := (ui_city_id u)\<lparr>ce_valid := 1, ce_dirty := 0\<rparr>\<rparr>)
       (svc_storage_save_city_id ops (Some (edited_text LCD_CITY_ID_LEN (ui_city_id u))) (ui_storage u)) u"

definition edited_plate :: "plate_edit \<Rightarrow> svc_storage_plate_number" where
  "edited_plate e =
     \<lparr>pn_valid = 1, province_index = pl_province_index e,
      letter = g_lcd_plate_letters ! unat (pl_letter_index e),
      digits = map (\<lambda>i. g_lcd_plate_tail_chars ! unat (pl_digits e ! i)) [0..<5] @ [0]\<rparr>"

definition lcd_plate_save_and_ok :: "'b i2c_ops \<Rightarrow> tick \<Rightarrow> 'b ui \<Rightarrow> 'b ui" where
  "lcd_plate_save_and_ok ops now u =
     save_done ops now LCD_PAGE_SYSTEM_SETTING_VEHICLE_INFO_PLATE_SET
       (\<lambda>u. u\<lparr>ui_plate := (ui_plate u)\<lparr>pl_valid := 1, pl_dirty := 0\<rparr>\<rparr>)
       (svc_storage_save_plate_number ops (Some (edited_plate (ui_plate u))) (ui_storage u)) u"

text \<open>The save branch of the telephone editor, and the confirm functions of the two list pages.\<close>

definition phone_save :: "'b i2c_ops \<Rightarrow> tick \<Rightarrow> 'b ui \<Rightarrow> 'b ui" where
  "phone_save ops now u =
     save_done ops now LCD_PAGE_SYSTEM_SETTING_HOST_PARAM_LOCAL_PHONE (\<lambda>u. u)
       (svc_storage_save_local_phone ops (Some (ph_digits (ui_phone u))) (ui_storage u)) u"

definition lcd_page_confirm_vehicle_plate_class :: "'b i2c_ops \<Rightarrow> tick \<Rightarrow> 'b ui \<Rightarrow> 'b ui" where
  "lcd_page_confirm_vehicle_plate_class ops now u =
     save_done ops now LCD_PAGE_SYSTEM_SETTING_VEHICLE_INFO_PLATE_CLASS (\<lambda>u. u)
       (svc_storage_save_plate_class ops
          (Some (g_lcd_page_selected u LCD_PAGE_SYSTEM_SETTING_VEHICLE_INFO_PLATE_CLASS + 1)) (ui_storage u)) u"

definition lcd_page_confirm_vehicle_plate_color :: "'b i2c_ops \<Rightarrow> tick \<Rightarrow> 'b ui \<Rightarrow> 'b ui" where
  "lcd_page_confirm_vehicle_plate_color ops now u =
     save_done ops now LCD_PAGE_SYSTEM_SETTING_VEHICLE_INFO_PLATE_COLOR (\<lambda>u. u)
       (svc_storage_save_plate_color ops
          (Some (g_lcd_page_selected u LCD_PAGE_SYSTEM_SETTING_VEHICLE_INFO_PLATE_COLOR + 1)) (ui_storage u)) u"

section \<open>The character tables\<close>

lemma tail_table:
  "list_all (\<lambda>i. strchr g_lcd_plate_tail_chars (g_lcd_plate_tail_chars ! i) = Some i
      \<and> g_lcd_plate_tail_chars ! i = (if i < 10 then 0x30 + of_nat i else 0x41 + of_nat (i - 10))) [0..<36]"
  by code_simp

lemma letter_table: "list_all (\<lambda>i. g_lcd_plate_letters ! i = 0x41 + of_nat i) [0..<26]"
  by code_simp

lemma letter_char: "i < 26 \<Longrightarrow> g_lcd_plate_letters ! i = 0x41 + of_nat i"
  using letter_table by (simp add: list_all_iff)

lemma byte_offset: "a \<le> c \<Longrightarrow> c \<le> b \<Longrightarrow> c = a + of_nat (unat (c - a)) \<and> unat (c - a) \<le> unat (b - a)" for a b c :: u8
  by (auto simp: word_le_nat_alt unat_sub [OF word_le_nat_alt [THEN iffD2]] unat_sub_if_size)

lemma alnum_chars:
  "i < 10 \<Longrightarrow> is_digit (0x30 + of_nat i)" "i < 26 \<Longrightarrow> is_upper (0x41 + of_nat i)"
  by (auto simp: is_digit_def is_upper_def word_le_nat_alt unat_word_ariths unsigned_of_nat take_bit_nat_eq_self)

lemma tail_char:
  assumes "i < 36"
  shows "g_lcd_plate_tail_chars ! i = (if i < 10 then 0x30 + of_nat i else 0x41 + of_nat (i - 10))"
    "strchr g_lcd_plate_tail_chars (g_lcd_plate_tail_chars ! i) = Some i"
proof -
  have "i \<in> set [0..<36]" using assms by simp
  from bspec [OF tail_table [unfolded list_all_iff] this]
  show "g_lcd_plate_tail_chars ! i = (if i < 10 then 0x30 + of_nat i else 0x41 + of_nat (i - 10))"
    "strchr g_lcd_plate_tail_chars (g_lcd_plate_tail_chars ! i) = Some i" by blast+
qed

lemma tail_index_char: "i < 36 \<Longrightarrow> tail_index (g_lcd_plate_tail_chars ! i) = of_nat i"
  by (simp add: tail_index_def tail_char(2))

lemma tail_alnum:
  assumes "i < 36"
  shows "is_digit (g_lcd_plate_tail_chars ! i) \<or> is_upper (g_lcd_plate_tail_chars ! i)"
  using tail_char(1) [OF assms] alnum_chars(1) [of i] alnum_chars(2) [of "i - 10"] assms by (auto simp del: of_nat_diff)

lemma tail_digit: "i < 10 \<Longrightarrow> is_digit (g_lcd_plate_tail_chars ! i)"
  by (simp add: tail_char(1) alnum_chars)

lemma alnum_tail: "is_digit c \<or> is_upper c \<Longrightarrow> \<exists>i < 36. c = g_lcd_plate_tail_chars ! i"
proof (elim disjE)
  assume "is_digit c"
  then have "c = 0x30 + of_nat (unat (c - 0x30))" "unat (c - 0x30) < 10"
    using byte_offset [of "0x30" c "0x39"] by (simp_all add: is_digit_def)
  then show ?thesis using tail_char(1) [of "unat (c - 0x30)"] by (intro exI [of _ "unat (c - 0x30)"]) simp
next
  assume "is_upper c"
  then have "c = 0x41 + of_nat (unat (c - 0x41))" "unat (c - 0x41) < 26"
    using byte_offset [of "0x41" c "0x5A"] by (simp_all add: is_upper_def)
  then show ?thesis using tail_char(1) [of "10 + unat (c - 0x41)"] by (intro exI [of _ "10 + unat (c - 0x41)"]) simp
qed

lemma tail_index_alnum:
  assumes "is_digit c \<or> is_upper c"
  shows "unat (tail_index c) < 36" "g_lcd_plate_tail_chars ! unat (tail_index c) = c"
proof -
  obtain i where "i < 36" "c = g_lcd_plate_tail_chars ! i" using alnum_tail [OF assms] by blast
  then show "unat (tail_index c) < 36" "g_lcd_plate_tail_chars ! unat (tail_index c) = c"
    by (simp_all add: tail_index_char unsigned_of_nat take_bit_nat_eq_self)
qed

section \<open>The editors' invariants\<close>

text \<open>Every index of an editor is inside the array it selects from.\<close>

definition char_edit_ok :: "nat \<Rightarrow> u8 \<Rightarrow> 'm::len word char_edit \<Rightarrow> bool" where
  "char_edit_ok n cnt e \<longleftrightarrow> unat (ce_cursor e) < n \<and> ce_option_index e < cnt \<and> length (ce_chars e) = n
     \<and> list_all (\<lambda>c. c < cnt) (ce_chars e) \<and> (\<forall>i. bit (ce_edit_mask e) i \<longrightarrow> i < n)"

definition plate_ok :: "plate_edit \<Rightarrow> bool" where
  "plate_ok e \<longleftrightarrow> pl_focus e \<le> LCD_PLATE_FOCUS_MAX \<and> unat (pl_province_index e) < length g_lcd_plate_province_codes
     \<and> pl_letter_index e < 26 \<and> length (pl_digits e) = 5 \<and> list_all (\<lambda>d. d < 36) (pl_digits e)"

definition phone_ok :: "phone_edit \<Rightarrow> bool" where
  "phone_ok e \<longleftrightarrow> length (ph_digits e) = 12 \<and> svc_storage_phone_digits_valid (Some (ph_digits e))
     \<and> ph_cursor e \<le> 10 \<and> ph_selected_digit e \<le> 9 \<and> ph_func_index e \<le> 1"

definition editors_ok :: "'b ui \<Rightarrow> bool" where
  "editors_ok u \<longleftrightarrow> char_edit_ok LCD_VIN_LEN LCD_VIN_CHAR_COUNT (ui_vin u)
     \<and> char_edit_ok LCD_PROVINCE_ID_LEN LCD_PROVINCE_ID_CHAR_COUNT (ui_province_id u)
     \<and> char_edit_ok LCD_CITY_ID_LEN LCD_CITY_ID_CHAR_COUNT (ui_city_id u)
     \<and> plate_ok (ui_plate u) \<and> phone_ok (ui_phone u)"

lemma bit_complete_mask: "bit (complete_mask n :: 'm::len word) i \<longleftrightarrow> i < n \<and> i < LENGTH('m)"
proof -
  have "(complete_mask n :: 'm word) = mask n" by (simp add: complete_mask_def mask_eq_exp_minus_1 push_bit_eq_mult)
  then show ?thesis by (auto simp: bit_mask_iff possible_bit_word)
qed

text \<open>What an editor holds always passes the check of the store.\<close>

lemma edited_text_ok:
  "char_edit_ok LCD_VIN_LEN LCD_VIN_CHAR_COUNT e \<Longrightarrow>
     text_ok SVC_STORAGE_VIN_LEN svc_storage_vin_valid (edited_text LCD_VIN_LEN e)"
  "char_edit_ok LCD_PROVINCE_ID_LEN LCD_PROVINCE_ID_CHAR_COUNT e \<Longrightarrow>
     text_ok SVC_STORAGE_PROVINCE_ID_LEN svc_storage_province_id_valid (edited_text LCD_PROVINCE_ID_LEN e)"
  "char_edit_ok LCD_CITY_ID_LEN LCD_CITY_ID_CHAR_COUNT e \<Longrightarrow>
     text_ok SVC_STORAGE_CITY_ID_LEN svc_storage_city_id_valid (edited_text LCD_CITY_ID_LEN e)"
  for e :: "'m::len word char_edit"
proof -
  have nth: "tx_chars (edited_text n e) ! i = (if i < n then g_lcd_plate_tail_chars ! unat (ce_chars e ! i) else 0)"
    if "i \<le> n" for i n and e :: "'m::len word char_edit"
    using that by (simp add: edited_text_def nth_append)
  show "char_edit_ok LCD_VIN_LEN LCD_VIN_CHAR_COUNT e \<Longrightarrow>
     text_ok SVC_STORAGE_VIN_LEN svc_storage_vin_valid (edited_text LCD_VIN_LEN e)"
    by (auto simp: text_ok_def svc_storage_vin_valid_def nth char_edit_ok_def list_all_iff all_set_conv_all_nth
        word_less_nat_alt tail_alnum dvr_const) (simp add: edited_text_def)+
  show "char_edit_ok LCD_PROVINCE_ID_LEN LCD_PROVINCE_ID_CHAR_COUNT e \<Longrightarrow>
     text_ok SVC_STORAGE_PROVINCE_ID_LEN svc_storage_province_id_valid (edited_text LCD_PROVINCE_ID_LEN e)"
    by (auto simp: text_ok_def svc_storage_province_id_valid_def nth char_edit_ok_def list_all_iff all_set_conv_all_nth
        word_less_nat_alt tail_digit dvr_const) (simp add: edited_text_def)+
  show "char_edit_ok LCD_CITY_ID_LEN LCD_CITY_ID_CHAR_COUNT e \<Longrightarrow>
     text_ok SVC_STORAGE_CITY_ID_LEN svc_storage_city_id_valid (edited_text LCD_CITY_ID_LEN e)"
    by (auto simp: text_ok_def svc_storage_city_id_valid_def nth char_edit_ok_def list_all_iff all_set_conv_all_nth
        word_less_nat_alt tail_digit dvr_const) (simp add: edited_text_def)+
qed

lemma edited_plate_ok:
  assumes "plate_ok e"
  shows "length (digits (edited_plate e)) = 6" "svc_storage_plate_number_valid (Some (edited_plate e))"
proof -
  show "length (digits (edited_plate e)) = 6" by (simp add: edited_plate_def)
  have "unat (pl_letter_index e) < 26" using assms by (simp add: plate_ok_def word_less_nat_alt)
  then have "is_upper (g_lcd_plate_letters ! unat (pl_letter_index e))"
    using alnum_chars(2) [of "unat (pl_letter_index e)"] by (simp add: letter_char)
  then show "svc_storage_plate_number_valid (Some (edited_plate e))"
    using assms tail_alnum
    by (auto simp: svc_storage_plate_number_valid_def edited_plate_def plate_ok_def nth_append list_all_iff
        all_set_conv_all_nth word_less_nat_alt g_lcd_plate_province_codes_def dvr_const)
qed

section \<open>A prepared page\<close>

lemma char_edit_prepare_ok:
  assumes "0 < n" "0 < cnt" "\<And>i. i < n \<Longrightarrow> loaded \<Longrightarrow> tx_valid t = 1 \<Longrightarrow> idx (tx_chars t) i < cnt"
  shows "char_edit_ok n cnt (char_edit_prepare n idx loaded t e)"
  using assms
  by (auto simp: char_edit_ok_def char_edit_prepare_def Let_def list_all_iff bit_complete_mask)

lemma digit_index: "is_digit c \<Longrightarrow> c - 0x30 < 10"
  using byte_offset [of "0x30" c "0x39"] by (simp add: is_digit_def word_less_nat_alt)

lemma prepare_vin_ok: "char_edit_ok LCD_VIN_LEN LCD_VIN_CHAR_COUNT (ui_vin (lcd_prepare_vin_set_page ops u))"
proof -
  obtain r v st where l: "svc_storage_load_vin ops (Some \<lparr>tx_valid = 0, tx_chars = replicate 18 0\<rparr>) (ui_storage u) = (r, v, st)"
    by (metis prod_cases3)
  have "tail_index (tx_chars (the v) ! i) < 36" if "i < 17" "r" "tx_valid (the v) = 1" for i
  proof -
    have "svc_storage_vin_valid v"
      using loads_valid(2) [of ops "\<lparr>tx_valid = 0, tx_chars = replicate 18 0\<rparr>" "ui_storage u"] l that(2) by simp
    then have "is_digit (tx_chars (the v) ! i) \<or> is_upper (tx_chars (the v) ! i)"
      using that by (cases v) (auto simp: svc_storage_vin_valid_def list_all_iff dvr_const)
    then show ?thesis using tail_index_alnum(1) by (simp add: word_less_nat_alt)
  qed
  then show ?thesis
    using l by (auto simp: lcd_prepare_vin_set_page_def dvr_const intro!: char_edit_prepare_ok)
qed

lemma prepare_province_ok:
  "char_edit_ok LCD_PROVINCE_ID_LEN LCD_PROVINCE_ID_CHAR_COUNT (ui_province_id (lcd_prepare_province_id_set_page ops u))"
proof -
  obtain r v st where l: "svc_storage_load_province_id ops (Some \<lparr>tx_valid = 0, tx_chars = replicate 3 0\<rparr>) (ui_storage u) = (r, v, st)"
    by (metis prod_cases3)
  have "tx_chars (the v) ! i - 0x30 < 10" if "i < 2" "r" "tx_valid (the v) = 1" for i
  proof -
    have "svc_storage_province_id_valid v"
      using loads_valid(3) [of ops "\<lparr>tx_valid = 0, tx_chars = replicate 3 0\<rparr>" "ui_storage u"] l that(2) by simp
    then have "is_digit (tx_chars (the v) ! i)"
      using that by (cases v) (auto simp: svc_storage_province_id_valid_def list_all_iff dvr_const)
    then show ?thesis by (rule digit_index)
  qed
  then show ?thesis
    using l by (auto simp: lcd_prepare_province_id_set_page_def dvr_const intro!: char_edit_prepare_ok)
qed

lemma prepare_city_ok:
  "char_edit_ok LCD_CITY_ID_LEN LCD_CITY_ID_CHAR_COUNT (ui_city_id (lcd_prepare_city_id_set_page ops u))"
proof -
  obtain r v st where l: "svc_storage_load_city_id ops (Some \<lparr>tx_valid = 0, tx_chars = replicate 5 0\<rparr>) (ui_storage u) = (r, v, st)"
    by (metis prod_cases3)
  have "tx_chars (the v) ! i - 0x30 < 10" if "i < 4" "r" "tx_valid (the v) = 1" for i
  proof -
    have "svc_storage_city_id_valid v"
      using loads_valid(4) [of ops "\<lparr>tx_valid = 0, tx_chars = replicate 5 0\<rparr>" "ui_storage u"] l that(2) by simp
    then have "is_digit (tx_chars (the v) ! i)"
      using that by (cases v) (auto simp: svc_storage_city_id_valid_def list_all_iff dvr_const)
    then show ?thesis by (rule digit_index)
  qed
  then show ?thesis
    using l by (auto simp: lcd_prepare_city_id_set_page_def dvr_const intro!: char_edit_prepare_ok)
qed

text \<open>The four fields of the configuration come from one record, which is valid.\<close>

lemma local_config_valid: "load_local_config ops st = (r, c, st') \<Longrightarrow> config_fields_valid c"
  using loads_valid(1) [of ops g_default_config st] by (auto simp: load_local_config_def split: prod.splits)

lemma prepare_plate_ok: "plate_ok (ui_plate (lcd_prepare_plate_set_page ops u))"
proof -
  obtain r c st where l: "load_local_config ops (ui_storage u) = (r, c, st)" by (metis prod_cases3)
  have v: "svc_storage_plate_number_valid (Some (plate_number c))"
    using local_config_valid [OF l] by (simp add: config_fields_valid_def)
  have d: "tail_index (digits (plate_number c) ! i) < 36" if "i < 5" for i
    using v that tail_index_alnum(1) [of "digits (plate_number c) ! i"]
    by (simp add: svc_storage_plate_number_valid_def list_all_iff word_less_nat_alt)
  have "letter (plate_number c) - 0x41 < 26"
    using v byte_offset [of "0x41" "letter (plate_number c)" "0x5A"]
    by (simp add: svc_storage_plate_number_valid_def is_upper_def word_less_nat_alt)
  then show ?thesis
    using l d by (auto simp: lcd_prepare_plate_set_page_def svc_storage_load_plate_number_def Let_def plate_ok_def
        list_all_iff g_lcd_plate_province_codes_def dvr_const)
qed

lemma digit_value: "is_digit c \<Longrightarrow> c - 0x30 \<le> 9"
  using digit_index [of c] by (simp add: word_less_nat_alt word_le_nat_alt)

lemma prepare_phone_ok: "phone_ok (ui_phone (lcd_prepare_local_phone_page ops u))"
proof -
  obtain r c st where l: "load_local_config ops (ui_storage u) = (r, c, st)" by (metis prod_cases3)
  have v: "svc_storage_phone_digits_valid (Some (local_phone c))"
    using local_config_valid [OF l] by (simp add: config_fields_valid_def)
  have i: "i \<in> set [0..<11] \<Longrightarrow> map ((!) (local_phone c)) [0..<12] ! i = local_phone c ! i" for i by auto
  have m: "svc_storage_phone_digits_valid (Some (map ((!) (local_phone c)) [0..<12]))"
    using v i by (simp add: svc_storage_phone_digits_valid_def list_all_iff)
  have d: "svc_storage_phone_digits_valid (Some (replicate 11 0x30 @ [0]))" by code_simp
  have z: "is_digit (local_phone c ! 0)" using v by (simp add: svc_storage_phone_digits_valid_def list_all_iff)
  show ?thesis
    using l m d digit_value [OF z]
    by (auto simp: lcd_prepare_local_phone_page_def svc_storage_load_local_phone_def Let_def phone_ok_def nth_append)
qed

lemmas prepare_defs = lcd_prepare_local_phone_page_def lcd_prepare_vehicle_plate_class_page_def
  lcd_prepare_vehicle_plate_color_page_def lcd_prepare_text_normal_page_def lcd_prepare_plate_set_page_def
  lcd_prepare_vin_set_page_def lcd_prepare_province_id_set_page_def lcd_prepare_city_id_set_page_def

lemma hook_keeps [simp]:
  "g_lcd_current_page_id (lcd_page_on_enter_prepare ops p u) = g_lcd_current_page_id u"
  "g_lcd_common_ok_return_page (lcd_page_on_enter_prepare ops p u) = g_lcd_common_ok_return_page u"
  "g_lcd_menu_mode (lcd_page_on_enter_prepare ops p u) = g_lcd_menu_mode u"
  "g_lcd_need_redraw (lcd_page_on_enter_prepare ops p u) = g_lcd_need_redraw u"
  "ui_drawn (lcd_page_on_enter_prepare ops p u) = ui_drawn u"
  "ui_config_cache (lcd_page_on_enter_prepare ops p u) = ui_config_cache u"
  by (cases p; simp add: lcd_page_on_enter_prepare_def prepare_defs Let_def split: prod.split)+

lemma hook_selected:
  "g_lcd_page_selected (lcd_page_on_enter_prepare ops p u) q =
     (if p = q \<and> q = LCD_PAGE_SYSTEM_SETTING_VEHICLE_INFO_PLATE_CLASS
      then g_lcd_page_selected (lcd_prepare_vehicle_plate_class_page ops u) q
      else if p = q \<and> q = LCD_PAGE_SYSTEM_SETTING_VEHICLE_INFO_PLATE_COLOR
      then g_lcd_page_selected (lcd_prepare_vehicle_plate_color_page ops u) q
      else g_lcd_page_selected u q)"
  by (cases p; auto simp add: lcd_page_on_enter_prepare_def prepare_defs Let_def split: prod.split)

lemma prepared_selection:
  "unat (g_lcd_page_selected (lcd_prepare_vehicle_plate_class_page ops u) LCD_PAGE_SYSTEM_SETTING_VEHICLE_INFO_PLATE_CLASS) < 5"
  "unat (g_lcd_page_selected (lcd_prepare_vehicle_plate_color_page ops u) LCD_PAGE_SYSTEM_SETTING_VEHICLE_INFO_PLATE_COLOR) < 5"
proof -
  have u: "unat (c - 1) < 5" if "1 \<le> c" "c \<le> (5 :: u8)" for c
    using byte_offset [OF that] by simp
  show "unat (g_lcd_page_selected (lcd_prepare_vehicle_plate_class_page ops u) LCD_PAGE_SYSTEM_SETTING_VEHICLE_INFO_PLATE_CLASS) < 5"
    "unat (g_lcd_page_selected (lcd_prepare_vehicle_plate_color_page ops u) LCD_PAGE_SYSTEM_SETTING_VEHICLE_INFO_PLATE_COLOR) < 5"
    by (auto simp: prepare_defs Let_def u split: prod.split)
qed

lemma hook_editors: "editors_ok u \<Longrightarrow> editors_ok (lcd_page_on_enter_prepare ops p u)"
proof -
  assume u: "editors_ok u"
  have k: "editors_ok (lcd_prepare_vin_set_page ops u)" "editors_ok (lcd_prepare_province_id_set_page ops u)"
    "editors_ok (lcd_prepare_city_id_set_page ops u)" "editors_ok (lcd_prepare_plate_set_page ops u)"
    "editors_ok (lcd_prepare_local_phone_page ops u)" "editors_ok (lcd_prepare_vehicle_plate_class_page ops u)"
    "editors_ok (lcd_prepare_vehicle_plate_color_page ops u)" "editors_ok (lcd_prepare_text_normal_page u)"
    using u prepare_vin_ok [of ops u] prepare_province_ok [of ops u] prepare_city_ok [of ops u]
      prepare_plate_ok [of ops u] prepare_phone_ok [of ops u]
    by (auto simp: editors_ok_def prepare_defs Let_def split: prod.splits)
  show ?thesis using u k by (cases p) (simp_all add: lcd_page_on_enter_prepare_def)
qed

lemma enter_editors: "editors_ok u \<Longrightarrow> editors_ok (lcd_page_enter (hook_env ops) now p u)"
proof -
  have e: "editors_ok (v\<lparr>g_lcd_menu_mode := a, g_lcd_page_enter_tick := b, g_lcd_need_redraw := c\<rparr>) = editors_ok v"
    "editors_ok (v\<lparr>g_lcd_current_page_id := q\<rparr>) = editors_ok v" for a b c q and v :: "'a ui"
    by (simp_all add: editors_ok_def)
  assume "editors_ok u"
  then show ?thesis by (simp add: lcd_page_enter_def hook_env_def Let_def e hook_editors)
qed

lemma refresh_keeps:
  "\<exists>c st. ui_refresh_cache ops u = u\<lparr>ui_config_cache := c, ui_storage := st\<rparr>"
  by (auto simp: ui_refresh_cache_def split: prod.split)

lemma refresh_editors: "editors_ok u \<Longrightarrow> editors_ok (ui_refresh_cache ops u)"
  using refresh_keeps [of ops u] by (auto simp: editors_ok_def)

lemma common_ok_editors: "editors_ok u \<Longrightarrow> editors_ok (lcd_page_enter_common_ok (hook_env ops) now p u)"
  unfolding lcd_page_enter_common_ok_def Let_def by (rule enter_editors) (simp add: editors_ok_def)

lemma save_done_editors:
  assumes "editors_ok u" "\<And>v. editors_ok v \<Longrightarrow> editors_ok (saved v)"
  shows "editors_ok (save_done ops now page saved res u)"
proof -
  have "editors_ok (u\<lparr>ui_storage := st\<rparr>)" for st using assms(1) by (simp add: editors_ok_def)
  then show ?thesis
    using assms(2) by (auto simp: save_done_def Let_def common_ok_editors refresh_editors split: prod.split)
qed

lemmas save_defs = lcd_vin_save_and_ok_def lcd_province_id_save_and_ok_def lcd_city_id_save_and_ok_def
  lcd_plate_save_and_ok_def phone_save_def lcd_page_confirm_vehicle_plate_class_def
  lcd_page_confirm_vehicle_plate_color_def

lemma save_editors:
  assumes "editors_ok u"
  shows "editors_ok (lcd_vin_save_and_ok ops now u)" "editors_ok (lcd_province_id_save_and_ok ops now u)"
    "editors_ok (lcd_city_id_save_and_ok ops now u)" "editors_ok (lcd_plate_save_and_ok ops now u)"
    "editors_ok (phone_save ops now u)" "editors_ok (lcd_page_confirm_vehicle_plate_class ops now u)"
    "editors_ok (lcd_page_confirm_vehicle_plate_color ops now u)"
  unfolding save_defs
  by (rule save_done_editors [OF assms]; simp add: editors_ok_def char_edit_ok_def plate_ok_def)+

section \<open>Saved settings\<close>

lemma enter_ok_page [simp]:
  "g_lcd_current_page_id (lcd_page_enter_common_ok (hook_env ops) now p u) = LCD_PAGE_COMMON_CONFIG_OK"
  "g_lcd_common_ok_return_page (lcd_page_enter_common_ok (hook_env ops) now p u) = (if p = LCD_PAGE_MAX then LCD_PAGE_HOME else p)"
  "ui_storage (lcd_page_enter_common_ok (hook_env ops) now p u) = ui_storage u"
  "ui_config_cache (lcd_page_enter_common_ok (hook_env ops) now p u) = ui_config_cache u"
  "g_lcd_need_redraw (lcd_page_enter_common_ok (hook_env ops) now p u)"
  by (simp_all add: lcd_page_enter_common_ok_def lcd_page_enter_def hook_env_def lcd_page_on_enter_prepare_def Let_def)

lemma save_done_stores:
  assumes chip: "eeprom_chip ops mem rdy ptr" and us: "usable rdy (ui_storage u)" and s: "save_ok s"
    and keep: "\<And>v. ui_storage (saved v) = ui_storage v" and p: "page \<noteq> LCD_PAGE_MAX"
    and u': "u' = save_done ops now page saved (run_save ops s (ui_storage u)) u"
  shows "usable rdy (ui_storage u')" "g_lcd_current_page_id u' = LCD_PAGE_COMMON_CONFIG_OK"
    "g_lcd_common_ok_return_page u' = page"
    "nv_view_of (mem (bus (ui_storage u'))) = spec_save s (nv_view_of (mem (bus (ui_storage u))))"
    "ui_config_cache u' = cache_of (spec_save s (nv_view_of (mem (bus (ui_storage u)))))"
proof -
  obtain st where st: "run_save ops s (ui_storage u) = (True, st)" "usable rdy st"
      "nv_view_of (mem (bus st)) = spec_save s (nv_view_of (mem (bus (ui_storage u))))"
    using run_save_refines [OF chip us s] by blast
  obtain st2 where st2: "app_usart_cmd_refresh_status_config ops st = (cache_of (nv_view_of (mem (bus st))), st2)"
      "usable rdy st2" "mem (bus st2) = mem (bus st)"
    using refresh_chip [OF chip st(2)] by blast
  show "usable rdy (ui_storage u')" "g_lcd_current_page_id u' = LCD_PAGE_COMMON_CONFIG_OK"
    "g_lcd_common_ok_return_page u' = page"
    "nv_view_of (mem (bus (ui_storage u'))) = spec_save s (nv_view_of (mem (bus (ui_storage u))))"
    "ui_config_cache u' = cache_of (spec_save s (nv_view_of (mem (bus (ui_storage u)))))"
    using st st2 p by (simp_all add: u' save_done_def ui_refresh_cache_def keep)
qed

text \<open>
  The seven settings that can be saved: the page, what its editor holds as an operation of the
  store, and the state after the confirmation.
\<close>

definition setting_saves :: "'b i2c_ops \<Rightarrow> tick \<Rightarrow> 'b ui \<Rightarrow> (lcd_page_id \<times> nv_save \<times> 'b ui) list" where
  "setting_saves ops now u =
    [(LCD_PAGE_SYSTEM_SETTING_VEHICLE_INFO_VIN, SaveVin (edited_text LCD_VIN_LEN (ui_vin u)), lcd_vin_save_and_ok ops now u),
     (LCD_PAGE_SYSTEM_SETTING_VEHICLE_INFO_PROVINCE_ID, SaveProvince (edited_text LCD_PROVINCE_ID_LEN (ui_province_id u)),
      lcd_province_id_save_and_ok ops now u),
     (LCD_PAGE_SYSTEM_SETTING_VEHICLE_INFO_CITY_ID, SaveCity (edited_text LCD_CITY_ID_LEN (ui_city_id u)),
      lcd_city_id_save_and_ok ops now u),
     (LCD_PAGE_SYSTEM_SETTING_VEHICLE_INFO_PLATE_SET, SavePlate (edited_plate (ui_plate u)), lcd_plate_save_and_ok ops now u),
     (LCD_PAGE_SYSTEM_SETTING_HOST_PARAM_LOCAL_PHONE, SavePhone (ph_digits (ui_phone u)), phone_save ops now u),
     (LCD_PAGE_SYSTEM_SETTING_VEHICLE_INFO_PLATE_CLASS,
      SaveClass (g_lcd_page_selected u LCD_PAGE_SYSTEM_SETTING_VEHICLE_INFO_PLATE_CLASS + 1),
      lcd_page_confirm_vehicle_plate_class ops now u),
     (LCD_PAGE_SYSTEM_SETTING_VEHICLE_INFO_PLATE_COLOR,
      SaveColor (g_lcd_page_selected u LCD_PAGE_SYSTEM_SETTING_VEHICLE_INFO_PLATE_COLOR + 1),
      lcd_page_confirm_vehicle_plate_color ops now u)]"

lemma five_choices: "unat s < 5 \<Longrightarrow> 1 \<le> s + 1 \<and> s + 1 \<le> (5 :: u8)"
  by (simp add: word_le_nat_alt unat_word_ariths)

lemma setting_saves_form:
  assumes "editors_ok u" "unat (g_lcd_page_selected u LCD_PAGE_SYSTEM_SETTING_VEHICLE_INFO_PLATE_CLASS) < 5"
    "unat (g_lcd_page_selected u LCD_PAGE_SYSTEM_SETTING_VEHICLE_INFO_PLATE_COLOR) < 5"
    and "(p, s, u') \<in> set (setting_saves ops now u)"
  shows "save_ok s \<and> p \<noteq> LCD_PAGE_MAX
    \<and> (\<exists>saved. (\<forall>v. ui_storage (saved v) = ui_storage v) \<and> u' = save_done ops now p saved (run_save ops s (ui_storage u)) u)"
proof -
  define Q where "Q p s u' \<longleftrightarrow> save_ok s \<and> p \<noteq> LCD_PAGE_MAX
    \<and> (\<exists>saved. (\<forall>v. ui_storage (saved v) = ui_storage v) \<and> u' = save_done ops now p saved (run_save ops s (ui_storage u)) u)"
    for p s u'
  have I: "res = run_save ops s (ui_storage u) \<Longrightarrow> save_ok s \<Longrightarrow> p \<noteq> LCD_PAGE_MAX
      \<Longrightarrow> (\<And>v. ui_storage (saved v) = ui_storage v) \<Longrightarrow> Q p s (save_done ops now p saved res u)" for p s saved res
    unfolding Q_def by blast
  have e: "char_edit_ok LCD_VIN_LEN LCD_VIN_CHAR_COUNT (ui_vin u)" "plate_ok (ui_plate u)"
    "char_edit_ok LCD_PROVINCE_ID_LEN LCD_PROVINCE_ID_CHAR_COUNT (ui_province_id u)"
    "char_edit_ok LCD_CITY_ID_LEN LCD_CITY_ID_CHAR_COUNT (ui_city_id u)" "phone_ok (ui_phone u)"
    using assms(1) by (simp_all add: editors_ok_def)
  have "list_all (\<lambda>(p, s, u'). Q p s u') (setting_saves ops now u)"
    unfolding setting_saves_def save_defs list.pred_inject prod.case
    using edited_text_ok(1) [OF e(1)] edited_text_ok(2) [OF e(3)] edited_text_ok(3) [OF e(4)]
      edited_plate_ok [OF e(2)] e(5) five_choices [OF assms(2)] five_choices [OF assms(3)]
    by (intro conjI TrueI I; simp add: phone_ok_def svc_storage_plate_class_valid_def svc_storage_plate_color_valid_def)
  then show ?thesis using assms(4) by (auto simp: list_all_iff Q_def)
qed

lemma setting_saved:
  assumes "eeprom_chip ops mem rdy ptr" "usable rdy (ui_storage u)" "editors_ok u"
    "unat (g_lcd_page_selected u LCD_PAGE_SYSTEM_SETTING_VEHICLE_INFO_PLATE_CLASS) < 5"
    "unat (g_lcd_page_selected u LCD_PAGE_SYSTEM_SETTING_VEHICLE_INFO_PLATE_COLOR) < 5"
    and "(p, s, u') \<in> set (setting_saves ops now u)"
  shows "usable rdy (ui_storage u')" "g_lcd_current_page_id u' = LCD_PAGE_COMMON_CONFIG_OK"
    "g_lcd_common_ok_return_page u' = p"
    "nv_view_of (mem (bus (ui_storage u'))) = spec_save s (nv_view_of (mem (bus (ui_storage u))))"
    "ui_config_cache u' = cache_of (spec_save s (nv_view_of (mem (bus (ui_storage u)))))"
proof -
  obtain saved where f: "save_ok s" "p \<noteq> LCD_PAGE_MAX" "\<And>v. ui_storage (saved v) = ui_storage v"
      "u' = save_done ops now p saved (run_save ops s (ui_storage u)) u"
    using setting_saves_form [OF assms(3-6)] by blast
  show "usable rdy (ui_storage u')" "g_lcd_current_page_id u' = LCD_PAGE_COMMON_CONFIG_OK"
    "g_lcd_common_ok_return_page u' = p"
    "nv_view_of (mem (bus (ui_storage u'))) = spec_save s (nv_view_of (mem (bus (ui_storage u))))"
    "ui_config_cache u' = cache_of (spec_save s (nv_view_of (mem (bus (ui_storage u)))))"
    by (rule save_done_stores [OF assms(1,2) f(1,3,2,4)])+
qed

section \<open>Reloaded settings\<close>

lemma prepare_text_reload:
  assumes "\<And>i. i < n \<Longrightarrow> idx (tx_chars (edited_text n e)) i = ce_chars e ! i" "length (ce_chars e) = n"
  shows "ce_chars (char_edit_prepare n idx True (edited_text n e) e') = ce_chars e"
proof -
  have "tx_valid (edited_text n e) = 1" by (simp add: edited_text_def)
  then have "ce_chars (char_edit_prepare n idx True (edited_text n e) e') = map (idx (tx_chars (edited_text n e))) [0..<n]"
    by (simp add: char_edit_prepare_def Let_def)
  also have "\<dots> = map ((!) (ce_chars e)) [0..<n]" using assms(1) by simp
  finally show ?thesis using assms(2) map_nth [of "ce_chars e"] by simp
qed

lemma edited_chars:
  assumes "char_edit_ok n cnt e" "i < n" "cnt \<le> 36"
  shows "tail_index (tx_chars (edited_text n e) ! i) = ce_chars e ! i"
    "cnt \<le> 10 \<Longrightarrow> tx_chars (edited_text n e) ! i - 0x30 = ce_chars e ! i"
proof -
  have c: "unat (ce_chars e ! i) < unat cnt" "unat cnt \<le> 36"
    using assms by (auto simp: char_edit_ok_def list_all_length word_less_nat_alt word_le_nat_alt)
  have t: "tx_chars (edited_text n e) ! i = g_lcd_plate_tail_chars ! unat (ce_chars e ! i)"
    using assms(2) by (simp add: edited_text_def nth_append)
  show "tail_index (tx_chars (edited_text n e) ! i) = ce_chars e ! i"
    using c by (simp add: t tail_index_char)
  show "tx_chars (edited_text n e) ! i - 0x30 = ce_chars e ! i" if "cnt \<le> 10"
    using c that by (simp add: t tail_char(1) word_le_nat_alt)
qed

lemma enter_prepared:
  assumes "p \<noteq> LCD_PAGE_MAX"
  shows "ui_vin (lcd_page_enter (hook_env ops) now p u) = ui_vin (lcd_page_on_enter_prepare ops p (u\<lparr>g_lcd_current_page_id := p\<rparr>))"
    "ui_province_id (lcd_page_enter (hook_env ops) now p u) = ui_province_id (lcd_page_on_enter_prepare ops p (u\<lparr>g_lcd_current_page_id := p\<rparr>))"
    "ui_city_id (lcd_page_enter (hook_env ops) now p u) = ui_city_id (lcd_page_on_enter_prepare ops p (u\<lparr>g_lcd_current_page_id := p\<rparr>))"
    "ui_plate (lcd_page_enter (hook_env ops) now p u) = ui_plate (lcd_page_on_enter_prepare ops p (u\<lparr>g_lcd_current_page_id := p\<rparr>))"
    "ui_phone (lcd_page_enter (hook_env ops) now p u) = ui_phone (lcd_page_on_enter_prepare ops p (u\<lparr>g_lcd_current_page_id := p\<rparr>))"
    "g_lcd_page_selected (lcd_page_enter (hook_env ops) now p u)
       = g_lcd_page_selected (lcd_page_on_enter_prepare ops p (u\<lparr>g_lcd_current_page_id := p\<rparr>))"
  using assms by (simp_all add: lcd_page_enter_def hook_env_def Let_def)

lemma reload_text:
  assumes chip: "eeprom_chip ops mem rdy ptr" and us: "usable rdy (ui_storage u)"
  shows "v_vin (nv_view_of (mem (bus (ui_storage u)))) = Some t \<Longrightarrow>
      ui_vin (lcd_page_enter (hook_env ops) now LCD_PAGE_SYSTEM_SETTING_VEHICLE_INFO_VIN u)
      = char_edit_prepare LCD_VIN_LEN (\<lambda>s i. tail_index (s ! i)) True t (ui_vin u)"
    "v_province (nv_view_of (mem (bus (ui_storage u)))) = Some t \<Longrightarrow>
      ui_province_id (lcd_page_enter (hook_env ops) now LCD_PAGE_SYSTEM_SETTING_VEHICLE_INFO_PROVINCE_ID u)
      = char_edit_prepare LCD_PROVINCE_ID_LEN (\<lambda>s i. s ! i - 0x30) True t (ui_province_id u)"
    "v_city (nv_view_of (mem (bus (ui_storage u)))) = Some t \<Longrightarrow>
      ui_city_id (lcd_page_enter (hook_env ops) now LCD_PAGE_SYSTEM_SETTING_VEHICLE_INFO_CITY_ID u)
      = char_edit_prepare LCD_CITY_ID_LEN (\<lambda>s i. s ! i - 0x30) True t (ui_city_id u)"
  using loads_view [OF chip us] unfolding loads_give_def
  by (simp_all add: enter_prepared lcd_page_on_enter_prepare_def lcd_prepare_vin_set_page_def
      lcd_prepare_province_id_set_page_def lcd_prepare_city_id_set_page_def text_or_blank_def case_prod_unfold)

lemma reload_config:
  assumes chip: "eeprom_chip ops mem rdy ptr" and us: "usable rdy (ui_storage u)"
    and c: "v_config (nv_view_of (mem (bus (ui_storage u)))) = Some c"
  shows "\<exists>st. load_local_config ops (ui_storage u) = (True, c, st)"
  using load_local_config_chip [OF chip us] c by (metis option.distinct(1) option.simps(5) the_config_def)

lemma chars_reload:
  assumes "editors_ok u"
  shows "ce_chars (char_edit_prepare LCD_VIN_LEN (\<lambda>s i. tail_index (s ! i)) True (edited_text LCD_VIN_LEN (ui_vin u)) e)
      = ce_chars (ui_vin u)"
    "ce_chars (char_edit_prepare LCD_PROVINCE_ID_LEN (\<lambda>s i. s ! i - 0x30) True
        (edited_text LCD_PROVINCE_ID_LEN (ui_province_id u)) f) = ce_chars (ui_province_id u)"
    "ce_chars (char_edit_prepare LCD_CITY_ID_LEN (\<lambda>s i. s ! i - 0x30) True
        (edited_text LCD_CITY_ID_LEN (ui_city_id u)) f) = ce_chars (ui_city_id u)"
proof -
  have e: "char_edit_ok LCD_VIN_LEN LCD_VIN_CHAR_COUNT (ui_vin u)"
    "char_edit_ok LCD_PROVINCE_ID_LEN LCD_PROVINCE_ID_CHAR_COUNT (ui_province_id u)"
    "char_edit_ok LCD_CITY_ID_LEN LCD_CITY_ID_CHAR_COUNT (ui_city_id u)"
    using assms by (simp_all add: editors_ok_def)
  have n: "LCD_VIN_CHAR_COUNT \<le> 36" "LCD_PROVINCE_ID_CHAR_COUNT \<le> 36" "LCD_PROVINCE_ID_CHAR_COUNT \<le> 10"
    "LCD_CITY_ID_CHAR_COUNT \<le> 36" "LCD_CITY_ID_CHAR_COUNT \<le> 10" by (simp_all add: dvr_const)
  show "ce_chars (char_edit_prepare LCD_VIN_LEN (\<lambda>s i. tail_index (s ! i)) True (edited_text LCD_VIN_LEN (ui_vin u)) e)
      = ce_chars (ui_vin u)"
    using e(1) by (intro prepare_text_reload) (simp_all add: edited_chars(1) [OF e(1) _ n(1)] char_edit_ok_def)
  show "ce_chars (char_edit_prepare LCD_PROVINCE_ID_LEN (\<lambda>s i. s ! i - 0x30) True
        (edited_text LCD_PROVINCE_ID_LEN (ui_province_id u)) f) = ce_chars (ui_province_id u)"
    using e(2) by (intro prepare_text_reload) (simp_all add: edited_chars(2) [OF e(2) _ n(2,3)] char_edit_ok_def)
  show "ce_chars (char_edit_prepare LCD_CITY_ID_LEN (\<lambda>s i. s ! i - 0x30) True
        (edited_text LCD_CITY_ID_LEN (ui_city_id u)) f) = ce_chars (ui_city_id u)"
    using e(3) by (intro prepare_text_reload) (simp_all add: edited_chars(2) [OF e(3) _ n(4,5)] char_edit_ok_def)
qed

lemma plate_reload:
  assumes ok: "plate_ok (ui_plate w)" and l: "load_local_config ops (ui_storage u) = (True, c, st)"
    and c: "plate_number c = edited_plate (ui_plate w)"
  shows "let e = ui_plate (lcd_page_enter (hook_env ops) now LCD_PAGE_SYSTEM_SETTING_VEHICLE_INFO_PLATE_SET u) in
    pl_province_index e = pl_province_index (ui_plate w) \<and> pl_letter_index e = pl_letter_index (ui_plate w)
    \<and> pl_digits e = pl_digits (ui_plate w)"
proof -
  let ?e = "ui_plate w"
  have k: "unat (pl_letter_index ?e) < 26" using ok by (simp add: plate_ok_def word_less_nat_alt)
  then have lt: "g_lcd_plate_letters ! unat (pl_letter_index ?e) = 0x41 + pl_letter_index ?e" by (simp add: letter_char)
  have up: "is_upper (0x41 + pl_letter_index ?e)" using alnum_chars(2) [OF k] by simp
  have t: "tail_index (g_lcd_plate_tail_chars ! unat (pl_digits ?e ! i)) = pl_digits ?e ! i" if "i < 5" for i
    using ok that by (simp add: plate_ok_def list_all_length tail_index_char word_less_nat_alt)
  have "map (\<lambda>i. tail_index (digits (edited_plate ?e) ! i)) [0..<5] = map ((!) (pl_digits ?e)) [0..<5]"
    using t by (simp add: edited_plate_def nth_append)
  also have "\<dots> = pl_digits ?e" using map_nth [of "pl_digits ?e"] ok by (simp add: plate_ok_def)
  finally have d: "map (\<lambda>i. tail_index (digits (edited_plate ?e) ! i)) [0..<5] = pl_digits ?e" .
  have p: "pn_valid (edited_plate ?e) = 1" "province_index (edited_plate ?e) = pl_province_index ?e"
    "letter (edited_plate ?e) = 0x41 + pl_letter_index ?e" by (simp_all add: edited_plate_def lt)
  show ?thesis
    using l c up ok
    by (simp add: enter_prepared lcd_page_on_enter_prepare_def lcd_prepare_plate_set_page_def
        svc_storage_load_plate_number_def Let_def d p is_upper_def plate_ok_def)
qed

lemma phone_reload:
  assumes "phone_ok (ui_phone w)" "load_local_config ops (ui_storage u) = (True, c, st)" "local_phone c = ph_digits (ui_phone w)"
  shows "ph_digits (ui_phone (lcd_page_enter (hook_env ops) now LCD_PAGE_SYSTEM_SETTING_HOST_PARAM_LOCAL_PHONE u)) = ph_digits (ui_phone w)"
  using assms map_nth [of "ph_digits (ui_phone w)"]
  by (simp add: enter_prepared lcd_page_on_enter_prepare_def lcd_prepare_local_phone_page_def
      svc_storage_load_local_phone_def Let_def phone_ok_def)

lemma choice_reload:
  assumes "unat s < 5" "load_local_config ops (ui_storage u) = (True, c, st)"
  shows "plate_class c = s + 1 \<Longrightarrow> g_lcd_page_selected (lcd_page_enter (hook_env ops) now
      LCD_PAGE_SYSTEM_SETTING_VEHICLE_INFO_PLATE_CLASS u) LCD_PAGE_SYSTEM_SETTING_VEHICLE_INFO_PLATE_CLASS = s"
    "plate_color c = s + 1 \<Longrightarrow> g_lcd_page_selected (lcd_page_enter (hook_env ops) now
      LCD_PAGE_SYSTEM_SETTING_VEHICLE_INFO_PLATE_COLOR u) LCD_PAGE_SYSTEM_SETTING_VEHICLE_INFO_PLATE_COLOR = s"
  using assms five_choices [OF assms(1)]
  by (simp_all add: enter_prepared lcd_page_on_enter_prepare_def lcd_prepare_vehicle_plate_class_page_def
      lcd_prepare_vehicle_plate_color_page_def svc_storage_load_plate_class_def svc_storage_load_plate_color_def Let_def)

lemma settings_config:
  assumes "eeprom_chip ops mem rdy ptr" "usable rdy (ui_storage u)" "editors_ok u"
    "unat (g_lcd_page_selected u LCD_PAGE_SYSTEM_SETTING_VEHICLE_INFO_PLATE_CLASS) < 5"
    "unat (g_lcd_page_selected u LCD_PAGE_SYSTEM_SETTING_VEHICLE_INFO_PLATE_COLOR) < 5"
    and p: "(p, s, u') \<in> set (setting_saves ops now u)"
    and s: "v_config (spec_save s (nv_view_of (mem (bus (ui_storage u))))) = Some c"
  shows "\<exists>st. load_local_config ops (ui_storage u') = (True, c, st)"
  using reload_config [OF assms(1) setting_saved(1) [OF assms(1-5) p]] setting_saved(4) [OF assms(1-5) p] s by simp

lemma static_editors: "editors_ok (ui_static st cache)"
proof -
  have "svc_storage_phone_digits_valid (Some (replicate 11 0x30 @ [0]))" by code_simp
  then show ?thesis
    by (simp add: editors_ok_def ui_static_def char_edit_static_def lcd.defs char_edit_ok_def plate_ok_def phone_ok_def
        list_all_iff g_lcd_plate_province_codes_def dvr_const)
qed

lemma static_selected [simp]:
  "g_lcd_page_selected (ui_static st cache) p = 0" "ui_storage (ui_static st cache) = st"
  by (simp_all add: ui_static_def lcd.defs lcd_static_def)

section \<open>Properties\<close>

text \<open>
  C15: a confirmed setting reaches the store and the serial link. With a working EEPROM, for each of
  the seven settings and whatever its editor holds, the save succeeds: the store then differs from
  the one before exactly in that setting, the configuration cache the status frames are built from
  is the one of the new store, and the page that confirms the setting is shown, to return to the
  setting's page.
\<close>

theorem settings_stored:
  assumes "eeprom_chip ops mem rdy ptr" "usable rdy (ui_storage u)" "editors_ok u"
    "unat (g_lcd_page_selected u LCD_PAGE_SYSTEM_SETTING_VEHICLE_INFO_PLATE_CLASS) < 5"
    "unat (g_lcd_page_selected u LCD_PAGE_SYSTEM_SETTING_VEHICLE_INFO_PLATE_COLOR) < 5"
  shows "list_all (\<lambda>(p, s, u').
      usable rdy (ui_storage u')
      \<and> nv_view_of (mem (bus (ui_storage u'))) = spec_save s (nv_view_of (mem (bus (ui_storage u))))
      \<and> ui_config_cache u' = cache_of (nv_view_of (mem (bus (ui_storage u'))))
      \<and> g_lcd_current_page_id u' = LCD_PAGE_COMMON_CONFIG_OK \<and> g_lcd_common_ok_return_page u' = p)
    (setting_saves ops now u)"
  using setting_saved [OF assms] by (fastforce simp: list_all_iff)

theorem settings_stored_witness:
  "list_all (\<lambda>(p, s, u'). g_lcd_current_page_id u' = LCD_PAGE_COMMON_CONFIG_OK
      \<and> nv_view_of (cmem (bus (ui_storage u'))) = spec_save s (nv_view_of (cmem at24_blank)))
    (setting_saves at24_ops 100 (ui_static storage_blank config_status_zero))"
proof -
  have b: "bus storage_blank = at24_blank" by (simp add: storage_blank_def svc_storage_init_def storage_boot_def Let_def)
  show ?thesis
    using settings_stored [OF at24_chip, of "ui_static storage_blank config_status_zero" 100]
    by (auto simp: usable_blank static_editors list_all_iff b)
qed

text \<open>
  C23: entering a setting's page again shows what was confirmed: the characters of the VIN, province
  and city, the three parts of the plate number, the telephone number, the chosen plate class and
  colour all come back from the EEPROM as they were edited.
\<close>

theorem settings_reload:
  assumes "eeprom_chip ops mem rdy ptr" "usable rdy (ui_storage u)" "editors_ok u"
    "unat (g_lcd_page_selected u LCD_PAGE_SYSTEM_SETTING_VEHICLE_INFO_PLATE_CLASS) < 5"
    "unat (g_lcd_page_selected u LCD_PAGE_SYSTEM_SETTING_VEHICLE_INFO_PLATE_COLOR) < 5"
  shows "let again = lcd_page_enter (hook_env ops) now' in
    ce_chars (ui_vin (again LCD_PAGE_SYSTEM_SETTING_VEHICLE_INFO_VIN (lcd_vin_save_and_ok ops now u))) = ce_chars (ui_vin u)
    \<and> ce_chars (ui_province_id (again LCD_PAGE_SYSTEM_SETTING_VEHICLE_INFO_PROVINCE_ID
          (lcd_province_id_save_and_ok ops now u))) = ce_chars (ui_province_id u)
    \<and> ce_chars (ui_city_id (again LCD_PAGE_SYSTEM_SETTING_VEHICLE_INFO_CITY_ID
          (lcd_city_id_save_and_ok ops now u))) = ce_chars (ui_city_id u)
    \<and> (let e = ui_plate (again LCD_PAGE_SYSTEM_SETTING_VEHICLE_INFO_PLATE_SET (lcd_plate_save_and_ok ops now u))
       in pl_province_index e = pl_province_index (ui_plate u) \<and> pl_letter_index e = pl_letter_index (ui_plate u)
          \<and> pl_digits e = pl_digits (ui_plate u))
    \<and> ph_digits (ui_phone (again LCD_PAGE_SYSTEM_SETTING_HOST_PARAM_LOCAL_PHONE (phone_save ops now u))) = ph_digits (ui_phone u)
    \<and> g_lcd_page_selected (again LCD_PAGE_SYSTEM_SETTING_VEHICLE_INFO_PLATE_CLASS
          (lcd_page_confirm_vehicle_plate_class ops now u)) LCD_PAGE_SYSTEM_SETTING_VEHICLE_INFO_PLATE_CLASS
        = g_lcd_page_selected u LCD_PAGE_SYSTEM_SETTING_VEHICLE_INFO_PLATE_CLASS
    \<and> g_lcd_page_selected (again LCD_PAGE_SYSTEM_SETTING_VEHICLE_INFO_PLATE_COLOR
          (lcd_page_confirm_vehicle_plate_color ops now u)) LCD_PAGE_SYSTEM_SETTING_VEHICLE_INFO_PLATE_COLOR
        = g_lcd_page_selected u LCD_PAGE_SYSTEM_SETTING_VEHICLE_INFO_PLATE_COLOR"
proof -
  let ?v = "nv_view_of (mem (bus (ui_storage u)))"
  have e: "plate_ok (ui_plate u)" "phone_ok (ui_phone u)" using assms(3) by (simp_all add: editors_ok_def)
  note sv = setting_saved(1,4) [OF assms, of _ _ _ now] and cf = settings_config [OF assms, of _ _ _ now]
  have "ce_chars (ui_vin (lcd_page_enter (hook_env ops) now' LCD_PAGE_SYSTEM_SETTING_VEHICLE_INFO_VIN
      (lcd_vin_save_and_ok ops now u))) = ce_chars (ui_vin u)"
    using sv [of _ "SaveVin (edited_text LCD_VIN_LEN (ui_vin u))" "lcd_vin_save_and_ok ops now u"]
    by (simp add: setting_saves_def reload_text(1) [OF assms(1)] chars_reload(1) [OF assms(3)])
  moreover have "ce_chars (ui_province_id (lcd_page_enter (hook_env ops) now' LCD_PAGE_SYSTEM_SETTING_VEHICLE_INFO_PROVINCE_ID
      (lcd_province_id_save_and_ok ops now u))) = ce_chars (ui_province_id u)"
    using sv [of _ "SaveProvince (edited_text LCD_PROVINCE_ID_LEN (ui_province_id u))" "lcd_province_id_save_and_ok ops now u"]
    by (simp add: setting_saves_def reload_text(2) [OF assms(1)] chars_reload(2) [OF assms(3)])
  moreover have "ce_chars (ui_city_id (lcd_page_enter (hook_env ops) now' LCD_PAGE_SYSTEM_SETTING_VEHICLE_INFO_CITY_ID
      (lcd_city_id_save_and_ok ops now u))) = ce_chars (ui_city_id u)"
    using sv [of _ "SaveCity (edited_text LCD_CITY_ID_LEN (ui_city_id u))" "lcd_city_id_save_and_ok ops now u"]
    by (simp add: setting_saves_def reload_text(3) [OF assms(1)] chars_reload(3) [OF assms(3)])
  moreover obtain s1 where s1: "load_local_config ops (ui_storage (lcd_plate_save_and_ok ops now u))
      = (True, (the_config ?v)\<lparr>plate_number := edited_plate (ui_plate u)\<rparr>, s1)"
    using cf [of _ "SavePlate (edited_plate (ui_plate u))"] by (auto simp: setting_saves_def)
  moreover obtain s2 where s2: "load_local_config ops (ui_storage (phone_save ops now u))
      = (True, (the_config ?v)\<lparr>local_phone := ph_digits (ui_phone u)\<rparr>, s2)"
    using cf [of _ "SavePhone (ph_digits (ui_phone u))"] by (auto simp: setting_saves_def)
  moreover obtain s3 where s3: "load_local_config ops (ui_storage (lcd_page_confirm_vehicle_plate_class ops now u))
      = (True, (the_config ?v)\<lparr>plate_class := g_lcd_page_selected u LCD_PAGE_SYSTEM_SETTING_VEHICLE_INFO_PLATE_CLASS + 1\<rparr>, s3)"
    using cf [of _ "SaveClass (g_lcd_page_selected u LCD_PAGE_SYSTEM_SETTING_VEHICLE_INFO_PLATE_CLASS + 1)"]
    by (auto simp: setting_saves_def)
  moreover obtain s4 where s4: "load_local_config ops (ui_storage (lcd_page_confirm_vehicle_plate_color ops now u))
      = (True, (the_config ?v)\<lparr>plate_color := g_lcd_page_selected u LCD_PAGE_SYSTEM_SETTING_VEHICLE_INFO_PLATE_COLOR + 1\<rparr>, s4)"
    using cf [of _ "SaveColor (g_lcd_page_selected u LCD_PAGE_SYSTEM_SETTING_VEHICLE_INFO_PLATE_COLOR + 1)"]
    by (auto simp: setting_saves_def)
  ultimately show ?thesis
    using plate_reload [OF e(1) s1, of now'] phone_reload [OF e(2) s2, of now']
      choice_reload(1) [OF assms(4) s3, of now'] choice_reload(2) [OF assms(5) s4, of now'] by (simp add: Let_def)
qed

theorem settings_reload_witness:
  "ce_chars (ui_vin (lcd_page_enter (hook_env at24_ops) 200 LCD_PAGE_SYSTEM_SETTING_VEHICLE_INFO_VIN
      (lcd_vin_save_and_ok at24_ops 100 (ui_static storage_blank config_status_zero)))) = replicate 17 0"
  using settings_reload [OF at24_chip, of "ui_static storage_blank config_status_zero" 200 100]
  by (simp add: usable_blank static_editors Let_def) (simp add: ui_static_def lcd.defs char_edit_static_def dvr_const)

end
