(* ===== verification/Svc_Lcd_Pages.thy ===== *)
theory Svc_Lcd_Pages
  imports Svc_Lcd_Edit
begin

text \<open>
  The page tree of the display service (\<open>src/applications/svc_lcd.c\<close>): the table \<open>g_lcd_pages\<close> with
  its child lists, the confirm functions of the pages, and the environment the service registers at
  start-up. The properties here are about the table: it is a tree, every walk to the root ends, and
  the navigation keeps to it.
\<close>

section \<open>Confirm functions\<close>

definition lcd_page_confirm_load_status :: "'b i2c_ops \<Rightarrow> tick \<Rightarrow> 'b ui \<Rightarrow> 'b ui" where
  "lcd_page_confirm_load_status ops now u =
     lcd_page_enter (hook_env ops) now LCD_PAGE_DRIVE_RECORD_LOAD_STATUS_OK u"

definition lcd_page_confirm_key_volume :: "'b i2c_ops \<Rightarrow> tick \<Rightarrow> 'b ui \<Rightarrow> 'b ui" where
  "lcd_page_confirm_key_volume ops now u =
     lcd_page_enter_common_ok (hook_env ops) now LCD_PAGE_SYSTEM_SETTING_KEY_VOLUME u"

definition lcd_page_confirm_backlight_time :: "'b i2c_ops \<Rightarrow> tick \<Rightarrow> 'b ui \<Rightarrow> 'b ui" where
  "lcd_page_confirm_backlight_time ops now u =
     lcd_page_enter_common_ok (hook_env ops) now LCD_PAGE_SYSTEM_SETTING_BACKLIGHT_TIME u"

definition lcd_page_confirm_brightness_level :: "'b i2c_ops \<Rightarrow> tick \<Rightarrow> 'b ui \<Rightarrow> 'b ui" where
  "lcd_page_confirm_brightness_level ops now u =
     lcd_page_enter_common_ok (hook_env ops) now LCD_PAGE_SYSTEM_SETTING_BRIGHTNESS_LEVEL u"

section \<open>The table\<close>

definition g_main_menu_children :: "lcd_page_id list" where
  "g_main_menu_children =
     [LCD_PAGE_DRIVE_RECORD_MENU, LCD_PAGE_DEVICE_STATUS_MENU, LCD_PAGE_SYSTEM_SETTING_MENU]"

definition g_drive_record_children :: "lcd_page_id list" where
  "g_drive_record_children =
     [LCD_PAGE_DRIVE_RECORD_FATIGUE, LCD_PAGE_DRIVE_RECORD_LOCATION, LCD_PAGE_DRIVE_RECORD_MILEAGE,
      LCD_PAGE_DRIVE_RECORD_DRIVER_INFO, LCD_PAGE_DRIVE_RECORD_VEHICLE_INFO, LCD_PAGE_DRIVE_RECORD_LOAD_STATUS,
      LCD_PAGE_DRIVE_RECORD_EXPORT, LCD_PAGE_DRIVE_RECORD_INFO_CENTER, LCD_PAGE_DRIVE_RECORD_VIN]"

definition g_device_status_children :: "lcd_page_id list" where
  "g_device_status_children =
     [LCD_PAGE_DEVICE_STATUS_VERSION, LCD_PAGE_DEVICE_STATUS_GFRS, LCD_PAGE_DEVICE_STATUS_SELF_TEST,
      LCD_PAGE_DEVICE_STATUS_LOCATION_MODULE, LCD_PAGE_DEVICE_STATUS_VEHICLE, LCD_PAGE_DEVICE_STATUS_STORAGE,
      LCD_PAGE_DEVICE_STATUS_AV, LCD_PAGE_DEVICE_STATUS_SPEED, LCD_PAGE_DEVICE_STATUS_DRIVER_MONITOR]"

definition g_info_center_children :: "lcd_page_id list" where
  "g_info_center_children =
     [LCD_PAGE_DRIVE_RECORD_INFO_CENTER_TEXT, LCD_PAGE_DRIVE_RECORD_INFO_CENTER_BROADCAST,
      LCD_PAGE_DRIVE_RECORD_INFO_CENTER_EVENT_REPORT, LCD_PAGE_DRIVE_RECORD_INFO_CENTER_EWAYBILL]"

definition g_info_center_text_children :: "lcd_page_id list" where
  "g_info_center_text_children =
     [LCD_PAGE_DRIVE_RECORD_INFO_CENTER_TEXT_DISPATCH, LCD_PAGE_DRIVE_RECORD_INFO_CENTER_TEXT_NORMAL,
      LCD_PAGE_DRIVE_RECORD_INFO_CENTER_TEXT_FAULT, LCD_PAGE_DRIVE_RECORD_INFO_CENTER_TEXT_EMERGENCY]"

definition g_system_setting_children :: "lcd_page_id list" where
  "g_system_setting_children =
     [LCD_PAGE_SYSTEM_SETTING_KEY_VOLUME, LCD_PAGE_SYSTEM_SETTING_BRIGHTNESS, LCD_PAGE_SYSTEM_SETTING_VEHICLE_INFO,
      LCD_PAGE_SYSTEM_SETTING_HOST_PARAM, LCD_PAGE_SYSTEM_SETTING_INIT_MILEAGE, LCD_PAGE_SYSTEM_SETTING_REGISTER,
      LCD_PAGE_SYSTEM_SETTING_UNREGISTER, LCD_PAGE_SYSTEM_SETTING_REC_VER, LCD_PAGE_SYSTEM_SETTING_COMPONENT_VER]"

definition g_brightness_setting_children :: "lcd_page_id list" where
  "g_brightness_setting_children =
     [LCD_PAGE_SYSTEM_SETTING_BACKLIGHT_TIME, LCD_PAGE_SYSTEM_SETTING_BRIGHTNESS_LEVEL]"

definition g_vehicle_info_children :: "lcd_page_id list" where
  "g_vehicle_info_children =
     [LCD_PAGE_SYSTEM_SETTING_VEHICLE_INFO_VIN, LCD_PAGE_SYSTEM_SETTING_VEHICLE_INFO_PLATE_SET,
      LCD_PAGE_SYSTEM_SETTING_VEHICLE_INFO_PLATE_COLOR, LCD_PAGE_SYSTEM_SETTING_VEHICLE_INFO_PLATE_CLASS,
      LCD_PAGE_SYSTEM_SETTING_VEHICLE_INFO_PROVINCE_ID, LCD_PAGE_SYSTEM_SETTING_VEHICLE_INFO_CITY_ID]"

definition g_host_param_children :: "lcd_page_id list" where
  "g_host_param_children =
     [LCD_PAGE_SYSTEM_SETTING_HOST_PARAM_LOCAL_PHONE, LCD_PAGE_SYSTEM_SETTING_HOST_PARAM_SOS_PHONE,
      LCD_PAGE_SYSTEM_SETTING_HOST_PARAM_SERVER1, LCD_PAGE_SYSTEM_SETTING_HOST_PARAM_SERVER2]"

text \<open>The shapes of the table's entries: a page to look at, a menu, a list of choices, a result.\<close>

definition view_page :: "lcd_page_id \<Rightarrow> 's lcd_page_node" where
  "view_page parent = \<lparr>parent_id = parent, kind = LCD_PAGE_KIND_VIEW, children = None, child_count = 0,
     select_count = 0, on_confirm = None, auto_return_ms = 0, auto_return_target = LCD_PAGE_MAX\<rparr>"

definition menu_page :: "lcd_page_id \<Rightarrow> lcd_page_id list \<Rightarrow> u8 \<Rightarrow> 's lcd_page_node" where
  "menu_page parent ch n = \<lparr>parent_id = parent, kind = LCD_PAGE_KIND_LIST, children = Some ch, child_count = n,
     select_count = n, on_confirm = None, auto_return_ms = 0, auto_return_target = LCD_PAGE_MAX\<rparr>"

definition choice_page :: "lcd_page_id \<Rightarrow> u8 \<Rightarrow> ('s \<Rightarrow> 's) option \<Rightarrow> 's lcd_page_node" where
  "choice_page parent n f = \<lparr>parent_id = parent, kind = LCD_PAGE_KIND_LIST, children = None, child_count = 0,
     select_count = n, on_confirm = f, auto_return_ms = 0, auto_return_target = LCD_PAGE_MAX\<rparr>"

definition result_page :: "lcd_page_id \<Rightarrow> u32 \<Rightarrow> lcd_page_id \<Rightarrow> 's lcd_page_node" where
  "result_page parent ms target = \<lparr>parent_id = parent, kind = LCD_PAGE_KIND_ACTION_RESULT, children = None,
     child_count = 0, select_count = 0, on_confirm = None, auto_return_ms = ms, auto_return_target = target\<rparr>"

text \<open>\<open>LCD_PAGE_MAX\<close> is the size of the array, not a page: \<open>lcd_get_page_node\<close> never looks it up.\<close>

primrec g_lcd_pages_table :: "'b i2c_ops \<Rightarrow> tick \<Rightarrow> lcd_page_id \<Rightarrow> 'b ui lcd_page_node" where
  "g_lcd_pages_table ops now LCD_PAGE_HOME = view_page LCD_PAGE_MAX"
| "g_lcd_pages_table ops now LCD_PAGE_MAIN_MENU = menu_page LCD_PAGE_HOME g_main_menu_children 3"
| "g_lcd_pages_table ops now LCD_PAGE_DRIVE_RECORD_MENU = menu_page LCD_PAGE_MAIN_MENU g_drive_record_children 9"
| "g_lcd_pages_table ops now LCD_PAGE_DEVICE_STATUS_MENU = menu_page LCD_PAGE_MAIN_MENU g_device_status_children 9"
| "g_lcd_pages_table ops now LCD_PAGE_SYSTEM_SETTING_MENU = menu_page LCD_PAGE_MAIN_MENU g_system_setting_children 9"
| "g_lcd_pages_table ops now LCD_PAGE_DRIVE_RECORD_FATIGUE = view_page LCD_PAGE_DRIVE_RECORD_MENU"
| "g_lcd_pages_table ops now LCD_PAGE_DRIVE_RECORD_LOCATION = view_page LCD_PAGE_DRIVE_RECORD_MENU"
| "g_lcd_pages_table ops now LCD_PAGE_DRIVE_RECORD_MILEAGE = view_page LCD_PAGE_DRIVE_RECORD_MENU"
| "g_lcd_pages_table ops now LCD_PAGE_DRIVE_RECORD_DRIVER_INFO = view_page LCD_PAGE_DRIVE_RECORD_MENU"
| "g_lcd_pages_table ops now LCD_PAGE_DRIVE_RECORD_VEHICLE_INFO = view_page LCD_PAGE_DRIVE_RECORD_MENU"
| "g_lcd_pages_table ops now LCD_PAGE_DRIVE_RECORD_LOAD_STATUS =
     choice_page LCD_PAGE_DRIVE_RECORD_MENU 3 (Some (lcd_page_confirm_load_status ops now))"
| "g_lcd_pages_table ops now LCD_PAGE_DRIVE_RECORD_LOAD_STATUS_OK =
     result_page LCD_PAGE_DRIVE_RECORD_LOAD_STATUS 3000 LCD_PAGE_DRIVE_RECORD_LOAD_STATUS"
| "g_lcd_pages_table ops now LCD_PAGE_DRIVE_RECORD_EXPORT = view_page LCD_PAGE_DRIVE_RECORD_MENU"
| "g_lcd_pages_table ops now LCD_PAGE_DRIVE_RECORD_INFO_CENTER =
     menu_page LCD_PAGE_DRIVE_RECORD_MENU g_info_center_children 4"
| "g_lcd_pages_table ops now LCD_PAGE_DRIVE_RECORD_INFO_CENTER_TEXT =
     menu_page LCD_PAGE_DRIVE_RECORD_INFO_CENTER g_info_center_text_children 4"
| "g_lcd_pages_table ops now LCD_PAGE_DRIVE_RECORD_INFO_CENTER_BROADCAST = view_page LCD_PAGE_DRIVE_RECORD_INFO_CENTER"
| "g_lcd_pages_table ops now LCD_PAGE_DRIVE_RECORD_INFO_CENTER_EVENT_REPORT = view_page LCD_PAGE_DRIVE_RECORD_INFO_CENTER"
| "g_lcd_pages_table ops now LCD_PAGE_DRIVE_RECORD_INFO_CENTER_EWAYBILL = view_page LCD_PAGE_DRIVE_RECORD_INFO_CENTER"
| "g_lcd_pages_table ops now LCD_PAGE_DRIVE_RECORD_INFO_CENTER_TEXT_DISPATCH =
     view_page LCD_PAGE_DRIVE_RECORD_INFO_CENTER_TEXT"
| "g_lcd_pages_table ops now LCD_PAGE_DRIVE_RECORD_INFO_CENTER_TEXT_NORMAL =
     view_page LCD_PAGE_DRIVE_RECORD_INFO_CENTER_TEXT"
| "g_lcd_pages_table ops now LCD_PAGE_DRIVE_RECORD_INFO_CENTER_TEXT_FAULT =
     view_page LCD_PAGE_DRIVE_RECORD_INFO_CENTER_TEXT"
| "g_lcd_pages_table ops now LCD_PAGE_DRIVE_RECORD_INFO_CENTER_TEXT_EMERGENCY =
     view_page LCD_PAGE_DRIVE_RECORD_INFO_CENTER_TEXT"
| "g_lcd_pages_table ops now LCD_PAGE_DRIVE_RECORD_VIN = view_page LCD_PAGE_DRIVE_RECORD_MENU"
| "g_lcd_pages_table ops now LCD_PAGE_DEVICE_STATUS_VERSION = view_page LCD_PAGE_DEVICE_STATUS_MENU"
| "g_lcd_pages_table ops now LCD_PAGE_DEVICE_STATUS_GFRS = view_page LCD_PAGE_DEVICE_STATUS_MENU"
| "g_lcd_pages_table ops now LCD_PAGE_DEVICE_STATUS_SELF_TEST = view_page LCD_PAGE_DEVICE_STATUS_MENU"
| "g_lcd_pages_table ops now LCD_PAGE_DEVICE_STATUS_LOCATION_MODULE = view_page LCD_PAGE_DEVICE_STATUS_MENU"
| "g_lcd_pages_table ops now LCD_PAGE_DEVICE_STATUS_VEHICLE = choice_page LCD_PAGE_DEVICE_STATUS_MENU 3 None"
| "g_lcd_pages_table ops now LCD_PAGE_DEVICE_STATUS_STORAGE = view_page LCD_PAGE_DEVICE_STATUS_MENU"
| "g_lcd_pages_table ops now LCD_PAGE_DEVICE_STATUS_AV = view_page LCD_PAGE_DEVICE_STATUS_MENU"
| "g_lcd_pages_table ops now LCD_PAGE_DEVICE_STATUS_SPEED = view_page LCD_PAGE_DEVICE_STATUS_MENU"
| "g_lcd_pages_table ops now LCD_PAGE_DEVICE_STATUS_DRIVER_MONITOR = view_page LCD_PAGE_DEVICE_STATUS_MENU"
| "g_lcd_pages_table ops now LCD_PAGE_SYSTEM_SETTING_KEY_VOLUME =
     choice_page LCD_PAGE_SYSTEM_SETTING_MENU 2 (Some (lcd_page_confirm_key_volume ops now))"
| "g_lcd_pages_table ops now LCD_PAGE_COMMON_CONFIG_OK = result_page LCD_PAGE_MAX 0 LCD_PAGE_MAX"
| "g_lcd_pages_table ops now LCD_PAGE_SYSTEM_SETTING_BRIGHTNESS =
     menu_page LCD_PAGE_SYSTEM_SETTING_MENU g_brightness_setting_children 2"
| "g_lcd_pages_table ops now LCD_PAGE_SYSTEM_SETTING_BACKLIGHT_TIME =
     choice_page LCD_PAGE_SYSTEM_SETTING_BRIGHTNESS 6 (Some (lcd_page_confirm_backlight_time ops now))"
| "g_lcd_pages_table ops now LCD_PAGE_SYSTEM_SETTING_BRIGHTNESS_LEVEL =
     choice_page LCD_PAGE_SYSTEM_SETTING_BRIGHTNESS 5 (Some (lcd_page_confirm_brightness_level ops now))"
| "g_lcd_pages_table ops now LCD_PAGE_SYSTEM_SETTING_VEHICLE_INFO =
     menu_page LCD_PAGE_SYSTEM_SETTING_MENU g_vehicle_info_children 6"
| "g_lcd_pages_table ops now LCD_PAGE_SYSTEM_SETTING_VEHICLE_INFO_VIN = view_page LCD_PAGE_SYSTEM_SETTING_VEHICLE_INFO"
| "g_lcd_pages_table ops now LCD_PAGE_SYSTEM_SETTING_VEHICLE_INFO_PLATE_SET =
     view_page LCD_PAGE_SYSTEM_SETTING_VEHICLE_INFO"
| "g_lcd_pages_table ops now LCD_PAGE_SYSTEM_SETTING_VEHICLE_INFO_PLATE_COLOR =
     choice_page LCD_PAGE_SYSTEM_SETTING_VEHICLE_INFO 5 (Some (lcd_page_confirm_vehicle_plate_color ops now))"
| "g_lcd_pages_table ops now LCD_PAGE_SYSTEM_SETTING_VEHICLE_INFO_PLATE_CLASS =
     choice_page LCD_PAGE_SYSTEM_SETTING_VEHICLE_INFO 5 (Some (lcd_page_confirm_vehicle_plate_class ops now))"
| "g_lcd_pages_table ops now LCD_PAGE_SYSTEM_SETTING_VEHICLE_INFO_PROVINCE_ID =
     view_page LCD_PAGE_SYSTEM_SETTING_VEHICLE_INFO"
| "g_lcd_pages_table ops now LCD_PAGE_SYSTEM_SETTING_VEHICLE_INFO_CITY_ID =
     view_page LCD_PAGE_SYSTEM_SETTING_VEHICLE_INFO"
| "g_lcd_pages_table ops now LCD_PAGE_SYSTEM_SETTING_HOST_PARAM =
     menu_page LCD_PAGE_SYSTEM_SETTING_MENU g_host_param_children 4"
| "g_lcd_pages_table ops now LCD_PAGE_SYSTEM_SETTING_HOST_PARAM_LOCAL_PHONE =
     view_page LCD_PAGE_SYSTEM_SETTING_HOST_PARAM"
| "g_lcd_pages_table ops now LCD_PAGE_SYSTEM_SETTING_HOST_PARAM_SOS_PHONE =
     view_page LCD_PAGE_SYSTEM_SETTING_HOST_PARAM"
| "g_lcd_pages_table ops now LCD_PAGE_SYSTEM_SETTING_HOST_PARAM_SERVER1 =
     view_page LCD_PAGE_SYSTEM_SETTING_HOST_PARAM"
| "g_lcd_pages_table ops now LCD_PAGE_SYSTEM_SETTING_HOST_PARAM_SERVER2 =
     view_page LCD_PAGE_SYSTEM_SETTING_HOST_PARAM"
| "g_lcd_pages_table ops now LCD_PAGE_SYSTEM_SETTING_INIT_MILEAGE = view_page LCD_PAGE_SYSTEM_SETTING_MENU"
| "g_lcd_pages_table ops now LCD_PAGE_SYSTEM_SETTING_REGISTER = view_page LCD_PAGE_SYSTEM_SETTING_MENU"
| "g_lcd_pages_table ops now LCD_PAGE_SYSTEM_SETTING_UNREGISTER = view_page LCD_PAGE_SYSTEM_SETTING_MENU"
| "g_lcd_pages_table ops now LCD_PAGE_SYSTEM_SETTING_REC_VER = view_page LCD_PAGE_SYSTEM_SETTING_MENU"
| "g_lcd_pages_table ops now LCD_PAGE_SYSTEM_SETTING_COMPONENT_VER = view_page LCD_PAGE_SYSTEM_SETTING_MENU"
| "g_lcd_pages_table ops now LCD_PAGE_MAX = view_page LCD_PAGE_MAX"

text \<open>What \<open>svc_lcd_init\<close> registers; \<open>now\<close> is the clock a confirm function reads.\<close>

definition ui_env :: "'b i2c_ops \<Rightarrow> tick \<Rightarrow> 'b ui lcd_env" where
  "ui_env ops now = \<lparr>g_lcd_pages = Some (g_lcd_pages_table ops now),
     g_lcd_ui_nav_enter_hook = Some (lcd_page_on_enter_prepare ops)\<rparr>"

lemmas page_shapes = view_page_def menu_page_def choice_page_def result_page_def

lemmas child_lists = g_main_menu_children_def g_drive_record_children_def g_device_status_children_def
  g_info_center_children_def g_info_center_text_children_def g_system_setting_children_def
  g_brightness_setting_children_def g_vehicle_info_children_def g_host_param_children_def

section \<open>The tree\<close>

text \<open>The number of steps to the root, looked at up to \<open>n\<close> steps.\<close>

fun parent_steps :: "nat \<Rightarrow> (lcd_page_id \<Rightarrow> lcd_page_id) \<Rightarrow> lcd_page_id \<Rightarrow> nat" where
  "parent_steps 0 par p = 0"
| "parent_steps (Suc n) par p = (if p = LCD_PAGE_MAX \<or> par p = LCD_PAGE_MAX then 0 else Suc (parent_steps n par (par p)))"

definition page_level :: "'b i2c_ops \<Rightarrow> tick \<Rightarrow> lcd_page_id \<Rightarrow> nat" where
  "page_level ops now p = parent_steps 6 (\<lambda>p. parent_id (g_lcd_pages_table ops now p)) p"

lemma page_node [simp]: "p \<noteq> LCD_PAGE_MAX \<Longrightarrow> lcd_get_page_node (ui_env ops now) p = Some (g_lcd_pages_table ops now p)"
  "lcd_get_page_node (ui_env ops now) LCD_PAGE_MAX = None"
  by (simp_all add: lcd_get_page_node_def ui_env_def)

lemma level_step:
  "parent_id (g_lcd_pages_table ops now p) \<noteq> LCD_PAGE_MAX \<Longrightarrow>
     page_level ops now p = Suc (page_level ops now (parent_id (g_lcd_pages_table ops now p)))"
  "parent_id (g_lcd_pages_table ops now p) = LCD_PAGE_MAX \<Longrightarrow> page_level ops now p = 0"
  by (cases p; simp add: page_level_def page_shapes numeral_eq_Suc)+

interpretation tree: page_tree "ui_env ops now" "page_level ops now" for ops now
proof
  fix p page
  show "lcd_get_page_node (ui_env ops now) p = Some page \<Longrightarrow> parent_id page \<noteq> LCD_PAGE_MAX \<Longrightarrow>
      page_level ops now p = Suc (page_level ops now (parent_id page))"
    "lcd_get_page_node (ui_env ops now) p = Some page \<Longrightarrow> parent_id page = LCD_PAGE_MAX \<Longrightarrow> page_level ops now p = 0"
    "lcd_get_page_node (ui_env ops now) p = None \<Longrightarrow> page_level ops now p = 0"
    using level_step [of ops now p]
    by (cases "p = LCD_PAGE_MAX"; auto simp: page_level_def numeral_eq_Suc)+
qed

lemma level_bound: "page_level ops now p \<le> 5"
  by (cases p; simp add: page_level_def page_shapes numeral_eq_Suc)

section \<open>The navigation laws\<close>

lemma enter_hook_env: "lcd_page_enter (hook_env ops) = lcd_page_enter (ui_env ops now)"
  by (intro ext) (simp add: lcd_page_enter_def hook_env_def ui_env_def)

lemma common_ok_hook_env: "lcd_page_enter_common_ok (hook_env ops) = lcd_page_enter_common_ok (ui_env ops now)"
  by (intro ext) (simp add: lcd_page_enter_common_ok_def enter_hook_env [of ops now])

text \<open>The number of choices of a page does not depend on the clock or the bus.\<close>

definition page_choices :: "lcd_page_id \<Rightarrow> u8" where
  "page_choices p = lcd_page_get_select_count (ui_env at24_ops 0) p"

lemma select_count_choices: "lcd_page_get_select_count (ui_env ops now) p = page_choices p"
  by (cases p; simp add: page_choices_def lcd_page_get_select_count_def page_shapes)

lemma sel_ok_choices: "sel_ok (ui_env ops now) l \<longleftrightarrow> (\<forall>p. unat (g_lcd_page_selected l p) < max 1 (unat (page_choices p)))"
  by (simp add: sel_ok_def select_count_choices)

lemma choices_class_color:
  "page_choices LCD_PAGE_SYSTEM_SETTING_VEHICLE_INFO_PLATE_CLASS = 5"
  "page_choices LCD_PAGE_SYSTEM_SETTING_VEHICLE_INFO_PLATE_COLOR = 5"
  by (simp_all add: page_choices_def lcd_page_get_select_count_def page_shapes)

interpretation hook: lcd_hook "ui_env ops now" for ops now
proof
  fix h p and l :: "'a ui"
  assume "g_lcd_ui_nav_enter_hook (ui_env ops now) = Some h"
  then have h: "h = lcd_page_on_enter_prepare ops" by (simp add: ui_env_def)
  show "g_lcd_current_page_id (h p l) = g_lcd_current_page_id l"
    "g_lcd_common_ok_return_page (h p l) = g_lcd_common_ok_return_page l"
    by (simp_all add: h)
  have "unat (g_lcd_page_selected (lcd_page_on_enter_prepare ops p l) q) < max 1 (unat (page_choices q))"
    if "sel_ok (ui_env ops now) l" for q
    using that prepared_selection [of ops l] by (auto simp: sel_ok_choices hook_selected choices_class_color)
  then show "sel_ok (ui_env ops now) l \<Longrightarrow> sel_ok (ui_env ops now) (h p l)"
    by (simp add: h sel_ok_choices)
qed

lemma refresh_fields [simp]:
  "g_lcd_page_selected (ui_refresh_cache ops u) = g_lcd_page_selected u"
  "g_lcd_need_redraw (ui_refresh_cache ops u) = g_lcd_need_redraw u"
  "ui_drawn (ui_refresh_cache ops u) = ui_drawn u"
  "g_lcd_current_page_id (ui_refresh_cache ops u) = g_lcd_current_page_id u"
  using refresh_keeps [of ops u] by auto

lemma save_done_nav:
  assumes "nav_ok (ui_env ops now) u" "\<And>v. g_lcd_page_selected (saved v) = g_lcd_page_selected v"
  shows "nav_ok (ui_env ops now) (save_done ops now page saved res u)"
proof -
  have s: "sel_ok (ui_env ops now) (u\<lparr>ui_storage := st\<rparr>)" "nav_ok (ui_env ops now) (u\<lparr>ui_storage := st\<rparr>)" for st
    using assms(1) by (simp_all add: nav_ok_def sel_ok_def)
  have "sel_ok (ui_env ops now) (ui_refresh_cache ops (saved (u\<lparr>ui_storage := st\<rparr>)))" for st
    using s(1) [of st] by (simp add: sel_ok_def assms(2))
  then show ?thesis
    using s by (auto simp: save_done_def Let_def common_ok_hook_env [of ops now] hook.common_ok_ok split: prod.split)
qed

lemma save_nav:
  assumes "nav_ok (ui_env ops now) u"
  shows "nav_ok (ui_env ops now) (lcd_vin_save_and_ok ops now u)" "nav_ok (ui_env ops now) (lcd_province_id_save_and_ok ops now u)"
    "nav_ok (ui_env ops now) (lcd_city_id_save_and_ok ops now u)" "nav_ok (ui_env ops now) (lcd_plate_save_and_ok ops now u)"
    "nav_ok (ui_env ops now) (phone_save ops now u)" "nav_ok (ui_env ops now) (lcd_page_confirm_vehicle_plate_class ops now u)"
    "nav_ok (ui_env ops now) (lcd_page_confirm_vehicle_plate_color ops now u)"
  unfolding save_defs by (rule save_done_nav [OF assms]; simp)+

lemma confirm_functions_nav:
  assumes "nav_ok (ui_env ops now) u"
  shows "nav_ok (ui_env ops now) (lcd_page_confirm_load_status ops now u)"
    "nav_ok (ui_env ops now) (lcd_page_confirm_key_volume ops now u)"
    "nav_ok (ui_env ops now) (lcd_page_confirm_backlight_time ops now u)"
    "nav_ok (ui_env ops now) (lcd_page_confirm_brightness_level ops now u)"
proof -
  have "sel_ok (ui_env ops now) u" using assms by (simp add: nav_ok_def)
  then show "nav_ok (ui_env ops now) (lcd_page_confirm_load_status ops now u)"
    "nav_ok (ui_env ops now) (lcd_page_confirm_key_volume ops now u)"
    "nav_ok (ui_env ops now) (lcd_page_confirm_backlight_time ops now u)"
    "nav_ok (ui_env ops now) (lcd_page_confirm_brightness_level ops now u)"
    using assms
    by (simp_all add: lcd_page_confirm_load_status_def lcd_page_confirm_key_volume_def lcd_page_confirm_backlight_time_def
        lcd_page_confirm_brightness_level_def enter_hook_env [of ops now] common_ok_hook_env [of ops now]
        hook.goto_ok hook.common_ok_ok)
qed

lemma menu_children:
  assumes "children (g_lcd_pages_table ops now p) = Some ch"
  shows "length ch = unat (child_count (g_lcd_pages_table ops now p))"
    "list_all (\<lambda>c. c \<noteq> LCD_PAGE_MAX \<and> parent_id (g_lcd_pages_table ops now c) = p) ch"
  using assms by (cases p; auto simp: page_shapes child_lists)+

interpretation pages: lcd_nav "ui_env ops now" for ops now
proof
  fix p page f and l :: "'a ui"
  assume p: "lcd_get_page_node (ui_env ops now) p = Some page"
  then have page: "p \<noteq> LCD_PAGE_MAX" "page = g_lcd_pages_table ops now p" by (cases "p = LCD_PAGE_MAX"; simp)+
  show "on_confirm page = Some f \<Longrightarrow> nav_ok (ui_env ops now) l \<Longrightarrow> nav_ok (ui_env ops now) (f l)"
    using save_nav [of ops now l] confirm_functions_nav [of ops now l]
    unfolding page(2) by (cases p) (auto simp: page_shapes)
  show "children page = Some ch \<Longrightarrow> i < unat (child_count page) \<Longrightarrow> ch ! i \<noteq> LCD_PAGE_MAX" for ch i
    using menu_children [of ops now p ch] unfolding page(2) by (auto simp: list_all_length)
qed
section \<open>Properties\<close>

text \<open>
  C26: the walk from a page to the root, whose loop has no bound of its own, ends for every page of
  the registered table: the depth is at most five, it is zero exactly for a page without parent, and
  one more than the parent's otherwise, so that the 8-bit counter never wraps.
\<close>

theorem page_depth_terminates:
  "\<exists>d. lcd_page_get_depth (ui_env ops now) p = Some d \<and> unat d \<le> 5
    \<and> (case lcd_get_page_node (ui_env ops now) p of None \<Rightarrow> d = 0
       | Some page \<Rightarrow> if parent_id page = LCD_PAGE_MAX then d = 0
           else 0 < d \<and> lcd_page_get_depth (ui_env ops now) (parent_id page) = Some (d - 1))"
proof -
  have n: "unat (of_nat (page_level ops now q) :: u8) = page_level ops now q" for q
    using level_bound [of ops now q] by (simp add: unsigned_of_nat take_bit_nat_eq_self)
  have "parent_id (g_lcd_pages_table ops now p) \<noteq> LCD_PAGE_MAX \<Longrightarrow> (0 :: u8) < of_nat (page_level ops now p)"
    unfolding word_less_nat_alt n using level_step(1) [of ops now p] by simp
  moreover have "page_level ops now LCD_PAGE_MAX = 0" by (simp add: page_level_def numeral_eq_Suc)
  ultimately show ?thesis
    using level_bound [of ops now p] level_step [of ops now p]
    by (cases "p = LCD_PAGE_MAX") (auto simp: tree.depth n)
qed

text \<open>
  In a menu, the confirm key enters the selected child and the back key then returns to the menu
  with its selection unchanged.
\<close>

theorem confirm_then_back:
  assumes "nav_ok (ui_env ops now) u" "children (g_lcd_pages_table ops now (g_lcd_current_page_id u)) = Some ch"
  shows "let p = g_lcd_current_page_id u; i = g_lcd_page_selected u p;
             u1 = lcd_page_handle_confirm (ui_env ops now) now u; u2 = lcd_page_handle_back (ui_env ops now) now' u1
    in unat i < length ch \<and> g_lcd_current_page_id u1 = ch ! unat i \<and> g_lcd_current_page_id u2 = p
       \<and> g_lcd_page_selected u2 p = i \<and> g_lcd_menu_mode u2 \<and> g_lcd_need_redraw u2"
proof -
  define p where "p = g_lcd_current_page_id u"
  define c where "c = ch ! unat (g_lcd_page_selected u p)"
  have t: "kind (g_lcd_pages_table ops now p) = LCD_PAGE_KIND_LIST" "on_confirm (g_lcd_pages_table ops now p) = None"
    "p \<noteq> LCD_PAGE_HOME" "p \<noteq> LCD_PAGE_SYSTEM_SETTING_VEHICLE_INFO_PLATE_CLASS"
    "p \<noteq> LCD_PAGE_SYSTEM_SETTING_VEHICLE_INFO_PLATE_COLOR"
    "unat (page_choices p) = unat (child_count (g_lcd_pages_table ops now p))" "0 < unat (child_count (g_lcd_pages_table ops now p))"
    using assms(2) unfolding p_def [symmetric]
    by (cases p; simp add: page_shapes page_choices_def lcd_page_get_select_count_def)+
  have p: "p \<noteq> LCD_PAGE_MAX" using assms(1) by (simp add: nav_ok_def p_def)
  have i: "unat (g_lcd_page_selected u p) < length ch"
  proof -
    have "unat (g_lcd_page_selected u p) < max 1 (unat (page_choices p))"
      using assms(1) by (simp add: nav_ok_def sel_ok_choices)
    then show ?thesis using t(6,7) menu_children(1) [of ops now p ch] assms(2) by (simp add: p_def)
  qed
  have c: "c \<noteq> LCD_PAGE_MAX" "parent_id (g_lcd_pages_table ops now c) = p"
    using menu_children(2) [of ops now p ch] assms(2) i by (auto simp: c_def p_def list_all_length)
  have h: "c \<noteq> LCD_PAGE_HOME" "c \<noteq> LCD_PAGE_COMMON_CONFIG_OK" using c p by (auto simp: page_shapes)
  have u1: "lcd_page_handle_confirm (ui_env ops now) now u = lcd_page_enter (ui_env ops now) now c u"
    using assms(2) t p i menu_children(1) [of ops now p ch]
    by (simp add: lcd_page_handle_confirm_def p_def [symmetric] c_def word_less_nat_alt)
  have u2: "lcd_page_handle_back (ui_env ops now) now' (lcd_page_enter (ui_env ops now) now c u)
      = lcd_page_enter (ui_env ops now) now' p (lcd_page_enter (ui_env ops now) now c u)"
    using c h p by (simp add: lcd_page_handle_back_def hook.enter_page)
  have s: "g_lcd_page_selected (lcd_page_enter (ui_env ops now) now'' q v) p = g_lcd_page_selected v p" for now'' q v
    using t(4,5) by (simp add: lcd_page_enter_def ui_env_def Let_def hook_selected)
  show ?thesis
    unfolding Let_def p_def [symmetric] u1 u2 using i c(1) p t(3) by (simp add: hook.enter_page s c_def)
qed

theorem confirm_then_back_witness:
  "let u = (ui_static storage_blank config_status_zero)\<lparr>g_lcd_current_page_id := LCD_PAGE_MAIN_MENU, g_lcd_menu_mode := True\<rparr>;
       u1 = lcd_page_handle_confirm (ui_env at24_ops 5) 5 u
   in g_lcd_current_page_id u1 = LCD_PAGE_DRIVE_RECORD_MENU
      \<and> g_lcd_current_page_id (lcd_page_handle_back (ui_env at24_ops 5) 9 u1) = LCD_PAGE_MAIN_MENU"
proof -
  let ?u = "(ui_static storage_blank config_status_zero)\<lparr>g_lcd_current_page_id := LCD_PAGE_MAIN_MENU, g_lcd_menu_mode := True\<rparr>"
  have "nav_ok (ui_env at24_ops 5) ?u"
    by (simp add: nav_ok_def sel_ok_def ui_static_def lcd.defs lcd_static_def less_max_iff_disj)
  from confirm_then_back [OF this, of g_main_menu_children 9] show ?thesis
    by (simp add: Let_def page_shapes g_main_menu_children_def)
qed

end
