(* ===== verification/Svc_Lcd_Thread.thy ===== *)
theory Svc_Lcd_Thread
  imports Svc_Lcd_Pages
begin

unbundle bit_operations_syntax

text \<open>
  The key handlers of the setting pages and the event loop of the display thread
  (\<open>src/applications/svc_lcd.c\<close>, \<open>svc_lcd_thread_entry\<close>). A pass of the loop takes the key events
  of the ADC service, changes the page or an editor, handles the time-out and the live page, and
  redraws when asked to. No other thread interferes inside a pass; between passes keys arrive and the
  serial link changes the displayed data.
\<close>

section \<open>Key handlers\<close>

text \<open>What the keys of an editor page ask for: a redraw, leaving the page, or saving.\<close>

datatype edit_request = EditRedraw | EditExit | EditSave

definition ce_key_s1 :: "'m::len word char_edit \<Rightarrow> 'm word char_edit" where
  "ce_key_s1 e =
     (if ce_area e = LCD_VIN_AREA_POSITION
      then e\<lparr>ce_option_index := ce_chars e ! unat (ce_cursor e), ce_area := LCD_VIN_AREA_CHAR_SELECT\<rparr>
      else if ce_area e = LCD_VIN_AREA_CHAR_SELECT
      then e\<lparr>ce_action := LCD_VIN_ACTION_EXIT, ce_area := LCD_VIN_AREA_ACTION\<rparr>
      else e\<lparr>ce_area := LCD_VIN_AREA_POSITION\<rparr>)"

definition ce_toggle :: "'m::len word char_edit \<Rightarrow> 'm word char_edit" where
  "ce_toggle e = e\<lparr>ce_action := if ce_action e = LCD_VIN_ACTION_CONFIRM then LCD_VIN_ACTION_EXIT
                                else LCD_VIN_ACTION_CONFIRM\<rparr>"

definition ce_key_s2 :: "nat \<Rightarrow> u8 \<Rightarrow> 'm::len word char_edit \<Rightarrow> 'm word char_edit" where
  "ce_key_s2 n cnt e =
     (if ce_area e = LCD_VIN_AREA_POSITION
      then e\<lparr>ce_cursor := if 0 < ce_cursor e then ce_cursor e - 1 else of_nat n - 1\<rparr>
      else if ce_area e = LCD_VIN_AREA_CHAR_SELECT
      then e\<lparr>ce_option_index := if 0 < ce_option_index e then ce_option_index e - 1 else cnt - 1\<rparr>
      else ce_toggle e)"

definition ce_key_s3 :: "nat \<Rightarrow> u8 \<Rightarrow> 'm::len word char_edit \<Rightarrow> 'm word char_edit" where
  "ce_key_s3 n cnt e =
     (if ce_area e = LCD_VIN_AREA_POSITION
      then e\<lparr>ce_cursor := if ce_cursor e < of_nat n - 1 then ce_cursor e + 1 else 0\<rparr>
      else if ce_area e = LCD_VIN_AREA_CHAR_SELECT
      then e\<lparr>ce_option_index := if ce_option_index e < cnt - 1 then ce_option_index e + 1 else 0\<rparr>
      else ce_toggle e)"

text \<open>The first position whose bit of the edit mask is clear; the cursor stays if there is none.\<close>

fun first_unedited :: "nat list \<Rightarrow> 'm::len word \<Rightarrow> u8 \<Rightarrow> u8" where
  "first_unedited [] m cursor = cursor"
| "first_unedited (i # is) m cursor = (if m AND push_bit i 1 = 0 then of_nat i else first_unedited is m cursor)"

definition ce_key_s4 :: "nat \<Rightarrow> 'm::len word char_edit \<Rightarrow> edit_request \<times> 'm word char_edit" where
  "ce_key_s4 n e =
     (if ce_area e = LCD_VIN_AREA_CHAR_SELECT
      then
        let e = e\<lparr>ce_chars := (ce_chars e)[unat (ce_cursor e) := ce_option_index e],
                  ce_edit_mask := ce_edit_mask e OR push_bit (unat (ce_cursor e)) 1, ce_dirty := 1\<rparr>
        in (EditRedraw,
            if ce_cursor e < of_nat n - 1
            then let c = ce_cursor e + 1
                 in e\<lparr>ce_cursor := c, ce_option_index := ce_chars e ! unat c, ce_area := LCD_VIN_AREA_CHAR_SELECT\<rparr>
            else e\<lparr>ce_action := LCD_VIN_ACTION_CONFIRM, ce_area := LCD_VIN_AREA_ACTION\<rparr>)
      else if ce_area e = LCD_VIN_AREA_ACTION
      then if ce_action e = LCD_VIN_ACTION_EXIT then (EditExit, e)
           else if ce_edit_mask e \<noteq> complete_mask n
           then (EditRedraw, e\<lparr>ce_cursor := first_unedited [0..<n] (ce_edit_mask e) (ce_cursor e),
                               ce_area := LCD_VIN_AREA_POSITION\<rparr>)
           else (EditSave, e)
      else (EditRedraw, e))"

text \<open>The keys are asked for in turn; the first event is taken, \<open>None\<close> if there is none.\<close>

definition char_edit_keys ::
  "nat \<Rightarrow> u8 \<Rightarrow> adc_state \<Rightarrow> 'm::len word char_edit \<Rightarrow> edit_request option \<times> adc_state \<times> 'm word char_edit" where
  "char_edit_keys n cnt a e =
     (let (s1, a) = svc_adc_consume_s1_event a in
      if s1 then (Some EditRedraw, a, ce_key_s1 e)
      else let (s2, a) = svc_adc_consume_s2_event a in
      if s2 then (Some EditRedraw, a, ce_key_s2 n cnt e)
      else let (s3, a) = svc_adc_consume_s3_event a in
      if s3 then (Some EditRedraw, a, ce_key_s3 n cnt e)
      else let (s4, a) = svc_adc_consume_s4_event a in
      if s4 then (let (r, e) = ce_key_s4 n e in (Some r, a, e))
      else (None, a, e))"

text \<open>What the handler of an editor page does with the request.\<close>

definition edit_done ::
  "'b i2c_ops \<Rightarrow> tick \<Rightarrow> ('b ui \<Rightarrow> 'b ui) \<Rightarrow> edit_request option \<Rightarrow> adc_state \<Rightarrow> 'b ui \<Rightarrow> bool \<times> adc_state \<times> 'b ui" where
  "edit_done ops now save r a u =
     (case r of
        None \<Rightarrow> (False, a, u)
      | Some EditRedraw \<Rightarrow> (True, a, u\<lparr>g_lcd_need_redraw := True\<rparr>)
      | Some EditExit \<Rightarrow> (True, a, lcd_page_enter (hook_env ops) now LCD_PAGE_SYSTEM_SETTING_VEHICLE_INFO u)
      | Some EditSave \<Rightarrow> (True, a, save u))"

definition lcd_handle_vin_set_keys :: "'b i2c_ops \<Rightarrow> tick \<Rightarrow> adc_state \<Rightarrow> 'b ui \<Rightarrow> bool \<times> adc_state \<times> 'b ui" where
  "lcd_handle_vin_set_keys ops now a u =
     (if g_lcd_current_page_id u \<noteq> LCD_PAGE_SYSTEM_SETTING_VEHICLE_INFO_VIN then (False, a, u)
      else let (r, a, e) = char_edit_keys LCD_VIN_LEN LCD_VIN_CHAR_COUNT a (ui_vin u)
           in edit_done ops now (lcd_vin_save_and_ok ops now) r a (u\<lparr>ui_vin := e\<rparr>))"

definition lcd_handle_province_id_set_keys ::
  "'b i2c_ops \<Rightarrow> tick \<Rightarrow> adc_state \<Rightarrow> 'b ui \<Rightarrow> bool \<times> adc_state \<times> 'b ui" where
  "lcd_handle_province_id_set_keys ops now a u =
     (if g_lcd_current_page_id u \<noteq> LCD_PAGE_SYSTEM_SETTING_VEHICLE_INFO_PROVINCE_ID then (False, a, u)
      else let (r, a, e) = char_edit_keys LCD_PROVINCE_ID_LEN LCD_PROVINCE_ID_CHAR_COUNT a (ui_province_id u)
           in edit_done ops now (lcd_province_id_save_and_ok ops now) r a (u\<lparr>ui_province_id := e\<rparr>))"

definition lcd_handle_city_id_set_keys ::
  "'b i2c_ops \<Rightarrow> tick \<Rightarrow> adc_state \<Rightarrow> 'b ui \<Rightarrow> bool \<times> adc_state \<times> 'b ui" where
  "lcd_handle_city_id_set_keys ops now a u =
     (if g_lcd_current_page_id u \<noteq> LCD_PAGE_SYSTEM_SETTING_VEHICLE_INFO_CITY_ID then (False, a, u)
      else let (r, a, e) = char_edit_keys LCD_CITY_ID_LEN LCD_CITY_ID_CHAR_COUNT a (ui_city_id u)
           in edit_done ops now (lcd_city_id_save_and_ok ops now) r a (u\<lparr>ui_city_id := e\<rparr>))"

definition plate_key_s1 :: "plate_edit \<Rightarrow> plate_edit" where
  "plate_key_s1 e =
     e\<lparr>pl_focus := if pl_focus e < LCD_PLATE_FOCUS_MAX then pl_focus e + 1 else LCD_PLATE_FOCUS_PROVINCE\<rparr>"

definition plate_key_s2 :: "plate_edit \<Rightarrow> plate_edit" where
  "plate_key_s2 e =
     (if pl_focus e = LCD_PLATE_FOCUS_PROVINCE
      then e\<lparr>pl_province_index := if 0 < pl_province_index e then pl_province_index e - 1
                                  else of_nat (length g_lcd_plate_province_codes) - 1, pl_dirty := 1\<rparr>
      else if pl_focus e = LCD_PLATE_FOCUS_LETTER
      then e\<lparr>pl_letter_index := if 0 < pl_letter_index e then pl_letter_index e - 1 else 25, pl_dirty := 1\<rparr>
      else if LCD_PLATE_FOCUS_DIGIT0 \<le> pl_focus e \<and> pl_focus e \<le> LCD_PLATE_FOCUS_DIGIT4
      then let i = unat (pl_focus e - LCD_PLATE_FOCUS_DIGIT0); d = pl_digits e ! i
           in e\<lparr>pl_digits := (pl_digits e)[i := if 0 < d then d - 1 else 35], pl_dirty := 1\<rparr>
      else if pl_focus e = LCD_PLATE_FOCUS_CONFIRM then e\<lparr>pl_focus := LCD_PLATE_FOCUS_EXIT\<rparr>
      else e\<lparr>pl_focus := LCD_PLATE_FOCUS_CONFIRM\<rparr>)"

definition plate_key_s3 :: "plate_edit \<Rightarrow> plate_edit" where
  "plate_key_s3 e =
     (if pl_focus e = LCD_PLATE_FOCUS_PROVINCE
      then let i = pl_province_index e + 1
           in e\<lparr>pl_province_index := if length g_lcd_plate_province_codes \<le> unat i then 0 else i, pl_dirty := 1\<rparr>
      else if pl_focus e = LCD_PLATE_FOCUS_LETTER
      then e\<lparr>pl_letter_index := if pl_letter_index e < 25 then pl_letter_index e + 1 else 0, pl_dirty := 1\<rparr>
      else if LCD_PLATE_FOCUS_DIGIT0 \<le> pl_focus e \<and> pl_focus e \<le> LCD_PLATE_FOCUS_DIGIT4
      then let i = unat (pl_focus e - LCD_PLATE_FOCUS_DIGIT0); d = pl_digits e ! i
           in e\<lparr>pl_digits := (pl_digits e)[i := if d < 35 then d + 1 else 0], pl_dirty := 1\<rparr>
      else if pl_focus e = LCD_PLATE_FOCUS_CONFIRM then e\<lparr>pl_focus := LCD_PLATE_FOCUS_EXIT\<rparr>
      else e\<lparr>pl_focus := LCD_PLATE_FOCUS_CONFIRM\<rparr>)"

definition plate_key_s4 :: "plate_edit \<Rightarrow> edit_request" where
  "plate_key_s4 e =
     (if pl_focus e = LCD_PLATE_FOCUS_CONFIRM then EditSave
      else if pl_focus e = LCD_PLATE_FOCUS_EXIT then EditExit else EditRedraw)"

definition lcd_handle_plate_set_keys :: "'b i2c_ops \<Rightarrow> tick \<Rightarrow> adc_state \<Rightarrow> 'b ui \<Rightarrow> bool \<times> adc_state \<times> 'b ui" where
  "lcd_handle_plate_set_keys ops now a u =
     (if g_lcd_current_page_id u \<noteq> LCD_PAGE_SYSTEM_SETTING_VEHICLE_INFO_PLATE_SET then (False, a, u)
      else
        let e = ui_plate u; save = lcd_plate_save_and_ok ops now; (s1, a) = svc_adc_consume_s1_event a in
        if s1 then edit_done ops now save (Some EditRedraw) a (u\<lparr>ui_plate := plate_key_s1 e\<rparr>)
        else let (s2, a) = svc_adc_consume_s2_event a in
        if s2 then edit_done ops now save (Some EditRedraw) a (u\<lparr>ui_plate := plate_key_s2 e\<rparr>)
        else let (s3, a) = svc_adc_consume_s3_event a in
        if s3 then edit_done ops now save (Some EditRedraw) a (u\<lparr>ui_plate := plate_key_s3 e\<rparr>)
        else let (s4, a) = svc_adc_consume_s4_event a in
        if s4 then edit_done ops now save (Some (plate_key_s4 e)) a u
        else edit_done ops now save None a u)"

text \<open>The telephone editor takes every waiting key in one call, in the order S2, S3, S1, S4.\<close>

definition ph_digit :: "phone_edit \<Rightarrow> u8" where
  "ph_digit e = ph_digits e ! unat (ph_cursor e) - 0x30"

definition phone_key_s2 :: "phone_edit \<Rightarrow> phone_edit" where
  "phone_key_s2 e =
     (if ph_focus e = LCD_LOCAL_PHONE_FOCUS_NUMBER
      then let e = (if 0 < ph_cursor e then e\<lparr>ph_cursor := ph_cursor e - 1\<rparr> else e)
           in e\<lparr>ph_selected_digit := ph_digit e\<rparr>
      else if ph_focus e = LCD_LOCAL_PHONE_FOCUS_DIGIT
      then e\<lparr>ph_selected_digit := if 0 < ph_selected_digit e then ph_selected_digit e - 1 else 9\<rparr>
      else e\<lparr>ph_func_index := if 0 < ph_func_index e then ph_func_index e - 1 else 1\<rparr>)"

definition phone_key_s3 :: "phone_edit \<Rightarrow> phone_edit" where
  "phone_key_s3 e =
     (if ph_focus e = LCD_LOCAL_PHONE_FOCUS_NUMBER
      then let e = (if ph_cursor e < 10 then e\<lparr>ph_cursor := ph_cursor e + 1\<rparr> else e)
           in e\<lparr>ph_selected_digit := ph_digit e\<rparr>
      else if ph_focus e = LCD_LOCAL_PHONE_FOCUS_DIGIT
      then e\<lparr>ph_selected_digit := if ph_selected_digit e < 9 then ph_selected_digit e + 1 else 0\<rparr>
      else e\<lparr>ph_func_index := if ph_func_index e < 1 then ph_func_index e + 1 else 0\<rparr>)"

definition phone_key_s1 :: "phone_edit \<Rightarrow> phone_edit" where
  "phone_key_s1 e =
     (if ph_focus e = LCD_LOCAL_PHONE_FOCUS_NUMBER
      then e\<lparr>ph_focus := LCD_LOCAL_PHONE_FOCUS_DIGIT, ph_selected_digit := ph_digit e\<rparr>
      else if ph_focus e = LCD_LOCAL_PHONE_FOCUS_DIGIT then e\<lparr>ph_focus := LCD_LOCAL_PHONE_FOCUS_ACTION\<rparr>
      else e\<lparr>ph_focus := LCD_LOCAL_PHONE_FOCUS_NUMBER\<rparr>)"

definition phone_enter_digit :: "phone_edit \<Rightarrow> phone_edit" where
  "phone_enter_digit e =
     (let e = e\<lparr>ph_digits := (ph_digits e)[unat (ph_cursor e) := 0x30 + ph_selected_digit e]\<rparr>;
          e = (if ph_cursor e < 10 then e\<lparr>ph_cursor := ph_cursor e + 1\<rparr> else e)
      in e\<lparr>ph_selected_digit := ph_digit e\<rparr>)"

definition phone_key_s4 :: "'b i2c_ops \<Rightarrow> tick \<Rightarrow> 'b ui \<Rightarrow> 'b ui" where
  "phone_key_s4 ops now u =
     (let e = ui_phone u in
      if ph_focus e = LCD_LOCAL_PHONE_FOCUS_NUMBER
      then u\<lparr>ui_phone := e\<lparr>ph_selected_digit := ph_digit e\<rparr>, g_lcd_need_redraw := True\<rparr>
      else if ph_focus e = LCD_LOCAL_PHONE_FOCUS_DIGIT
      then u\<lparr>ui_phone := phone_enter_digit e, g_lcd_need_redraw := True\<rparr>
      else (if ph_func_index e = 0 then lcd_page_enter (hook_env ops) now LCD_PAGE_SYSTEM_SETTING_HOST_PARAM u
            else phone_save ops now u)\<lparr>g_lcd_need_redraw := True\<rparr>)"

definition phone_edited :: "(phone_edit \<Rightarrow> phone_edit) \<Rightarrow> 'b ui \<Rightarrow> 'b ui" where
  "phone_edited f u = u\<lparr>ui_phone := f (ui_phone u), g_lcd_need_redraw := True\<rparr>"

definition lcd_handle_local_phone_keys :: "'b i2c_ops \<Rightarrow> tick \<Rightarrow> adc_state \<Rightarrow> 'b ui \<Rightarrow> bool \<times> adc_state \<times> 'b ui" where
  "lcd_handle_local_phone_keys ops now a u =
     (if g_lcd_current_page_id u \<noteq> LCD_PAGE_SYSTEM_SETTING_HOST_PARAM_LOCAL_PHONE then (False, a, u)
      else
        let (s2, a) = svc_adc_consume_s2_event a; u = (if s2 then phone_edited phone_key_s2 u else u);
            (s3, a) = svc_adc_consume_s3_event a; u = (if s3 then phone_edited phone_key_s3 u else u);
            (s1, a) = svc_adc_consume_s1_event a; u = (if s1 then phone_edited phone_key_s1 u else u);
            (s4, a) = svc_adc_consume_s4_event a; u = (if s4 then phone_key_s4 ops now u else u)
        in (True, a, u))"

definition lcd_handle_text_normal_keys :: "'b i2c_ops \<Rightarrow> tick \<Rightarrow> adc_state \<Rightarrow> 'b ui \<Rightarrow> bool \<times> adc_state \<times> 'b ui" where
  "lcd_handle_text_normal_keys ops now a u =
     (if g_lcd_current_page_id u \<noteq> LCD_PAGE_DRIVE_RECORD_INFO_CENTER_TEXT_NORMAL then (False, a, u)
      else
        let m = g_lcd_text_msg u; (s1, a) = svc_adc_consume_s1_event a in
        if s1 then (True, a, lcd_page_enter (hook_env ops) now LCD_PAGE_DRIVE_RECORD_INFO_CENTER_TEXT u)
        else let (s2, a) = svc_adc_consume_s2_event a in
        if s2 then (True, a,
          if 0 < lt_page_index m
          then u\<lparr>g_lcd_text_msg := m\<lparr>lt_page_index := lt_page_index m - 1\<rparr>, g_lcd_need_redraw := True\<rparr> else u)
        else let (s3, a) = svc_adc_consume_s3_event a in
        if s3 then (True, a,
          if 0 < lt_page_count m \<and> unat (lt_page_index m) + 1 < unat (lt_page_count m)
          then u\<lparr>g_lcd_text_msg := m\<lparr>lt_page_index := lt_page_index m + 1\<rparr>, g_lcd_need_redraw := True\<rparr> else u)
        else let (s4, a) = svc_adc_consume_s4_event a in (True, a, u))"

section \<open>The thread\<close>

text \<open>The values of the tick counter at the points of a pass where it is read.\<close>

record ui_ticks =
  at_key :: tick
  at_return :: tick
  at_return_enter :: tick
  at_refresh :: tick

text \<open>
  Drawing the current page: of the pages only the text page changes the state, it stores the number
  of its pages. Every page of the table has a render function, so the fallback is not used.
\<close>

definition lcd_render_current_page :: "'b ui \<Rightarrow> 'b ui" where
  "lcd_render_current_page u =
     (let u = (if g_lcd_current_page_id u = LCD_PAGE_DRIVE_RECORD_INFO_CENTER_TEXT_NORMAL
               then snd (lcd_render_info_center_text_normal_ui u) else u)
      in u\<lparr>ui_drawn := Some (g_lcd_current_page_id u)\<rparr>)"

text \<open>The end of every branch of the loop.\<close>

definition lcd_pass_end :: "'b i2c_ops \<Rightarrow> vehicle_io \<Rightarrow> ui_ticks \<Rightarrow> 'b ui \<Rightarrow> 'b ui" where
  "lcd_pass_end ops vio t u =
     (let u = lcd_page_handle_auto_return (ui_env ops (at_key t)) (at_return t) (at_return_enter t) u;
          u = lcd_page_handle_dynamic_refresh vio (at_refresh t) u
      in if g_lcd_need_redraw u then (lcd_render_current_page u)\<lparr>g_lcd_need_redraw := False\<rparr> else u)"

text \<open>The handlers are tried in order until one takes the pass.\<close>

fun try_handlers ::
  "(adc_state \<Rightarrow> 'b ui \<Rightarrow> bool \<times> adc_state \<times> 'b ui) list \<Rightarrow> adc_state \<Rightarrow> 'b ui \<Rightarrow> bool \<times> adc_state \<times> 'b ui" where
  "try_handlers [] a u = (False, a, u)"
| "try_handlers (h # hs) a u = (let (r, a, u) = h a u in if r then (True, a, u) else try_handlers hs a u)"

definition page_handlers ::
  "'b i2c_ops \<Rightarrow> tick \<Rightarrow> (adc_state \<Rightarrow> 'b ui \<Rightarrow> bool \<times> adc_state \<times> 'b ui) list" where
  "page_handlers ops now =
     [lcd_handle_text_normal_keys ops now, lcd_handle_vin_set_keys ops now, lcd_handle_province_id_set_keys ops now,
      lcd_handle_city_id_set_keys ops now, lcd_handle_plate_set_keys ops now, lcd_handle_local_phone_keys ops now]"

definition generic_keys :: "'b i2c_ops \<Rightarrow> tick \<Rightarrow> adc_state \<Rightarrow> 'b ui \<Rightarrow> adc_state \<times> 'b ui" where
  "generic_keys ops now a u =
     (let env = ui_env ops now;
          (s1, a) = svc_adc_consume_s1_event a; u = (if s1 then lcd_page_handle_back env now u else u);
          (s2, a) = svc_adc_consume_s2_event a; u = (if s2 then lcd_page_handle_nav env (-1) u else u);
          (s3, a) = svc_adc_consume_s3_event a; u = (if s3 then lcd_page_handle_nav env 1 u else u);
          (s4, a) = svc_adc_consume_s4_event a; u = (if s4 then lcd_page_handle_confirm env now u else u)
      in (a, u))"

definition page_pass :: "'b i2c_ops \<Rightarrow> vehicle_io \<Rightarrow> ui_ticks \<Rightarrow> adc_state \<Rightarrow> 'b ui \<Rightarrow> adc_state \<times> 'b ui" where
  "page_pass ops vio t a u =
     (let (r, a, u) = try_handlers (page_handlers ops (at_key t)) a u;
          (a, u) = (if r then (a, u) else generic_keys ops (at_key t) a u)
      in (a, lcd_pass_end ops vio t u))"

definition svc_lcd_thread_pass ::
  "'b i2c_ops \<Rightarrow> vehicle_io \<Rightarrow> ui_ticks \<Rightarrow> adc_state \<times> 'b ui \<Rightarrow> adc_state \<times> 'b ui" where
  "svc_lcd_thread_pass ops vio t s =
     (let (a, u) = s in
      if g_lcd_current_page_id u = LCD_PAGE_HOME
      then
        let (s1, a) = svc_adc_consume_s1_event a in
        if s1 then (a, u)
        else let (s2, a) = svc_adc_consume_s2_event a;
                 (s23, a) = (if s2 then (True, a) else svc_adc_consume_s3_event a) in
        if s23
        then (a, lcd_pass_end ops vio t
                   (u\<lparr>g_lcd_home_subpage := if g_lcd_home_subpage u = 0 then 1 else 0, g_lcd_need_redraw := True\<rparr>))
        else let (s4, a) = svc_adc_consume_s4_event a in
        if s4 then (a, lcd_pass_end ops vio t (lcd_page_enter (hook_env ops) (at_key t) LCD_PAGE_MAIN_MENU u))
        else page_pass ops vio t a u
      else page_pass ops vio t a u)"

definition svc_lcd_init :: "'b ui \<Rightarrow> rt_err \<times> 'b ui" where
  "svc_lcd_init u = (RT_EOK, lcd_ui_data_reset u)"

text \<open>What the thread does before its loop; the start-up picture is drawn in between.\<close>

definition svc_lcd_thread_start :: "'b ui \<Rightarrow> 'b ui" where
  "svc_lcd_thread_start u = (lcd_ui_core_reset u)\<lparr>ui_drawn := None, g_lcd_need_redraw := True\<rparr>"

section \<open>Invariants of a pass\<close>

text \<open>The pages the confirmation page returns to are not results themselves.\<close>

definition return_target :: "lcd_page_id \<Rightarrow> bool" where
  "return_target p \<longleftrightarrow> p \<noteq> LCD_PAGE_MAX \<and> p \<noteq> LCD_PAGE_COMMON_CONFIG_OK \<and> p \<noteq> LCD_PAGE_DRIVE_RECORD_LOAD_STATUS_OK"

text \<open>
  A predicate on the display state that the elementary changes keep is kept by a whole pass. The
  elementary changes are entering a page, moving the selection, an edit that keeps the editor's own
  invariant, the bookkeeping of the store, the text message and the live page, and a redraw.
\<close>

locale ui_kept =
  fixes ops :: "'b i2c_ops" and I :: "'b ui \<Rightarrow> bool"
  assumes enter: "I u \<Longrightarrow> p \<noteq> LCD_PAGE_MAX \<Longrightarrow> I (lcd_page_enter (hook_env ops) now p u)"
    and return_page: "I u \<Longrightarrow> return_target p \<Longrightarrow> I (u\<lparr>g_lcd_common_ok_return_page := p\<rparr>)"
    and select: "I u \<Longrightarrow> I (lcd_page_handle_nav (ui_env ops now) d u)"
    and redraw: "I u \<Longrightarrow> I (u\<lparr>g_lcd_need_redraw := True\<rparr>)"
    and store: "I u \<Longrightarrow> I (u\<lparr>ui_storage := st\<rparr>)" "I u \<Longrightarrow> I (u\<lparr>ui_config_cache := c\<rparr>)"
    and edit_vin: "I u \<Longrightarrow> (char_edit_ok LCD_VIN_LEN LCD_VIN_CHAR_COUNT (ui_vin u) \<Longrightarrow>
        char_edit_ok LCD_VIN_LEN LCD_VIN_CHAR_COUNT e) \<Longrightarrow> I (u\<lparr>ui_vin := e\<rparr>)"
    and edit_province: "I u \<Longrightarrow> (char_edit_ok LCD_PROVINCE_ID_LEN LCD_PROVINCE_ID_CHAR_COUNT (ui_province_id u) \<Longrightarrow>
        char_edit_ok LCD_PROVINCE_ID_LEN LCD_PROVINCE_ID_CHAR_COUNT f) \<Longrightarrow> I (u\<lparr>ui_province_id := f\<rparr>)"
    and edit_city: "I u \<Longrightarrow> (char_edit_ok LCD_CITY_ID_LEN LCD_CITY_ID_CHAR_COUNT (ui_city_id u) \<Longrightarrow>
        char_edit_ok LCD_CITY_ID_LEN LCD_CITY_ID_CHAR_COUNT f) \<Longrightarrow> I (u\<lparr>ui_city_id := f\<rparr>)"
    and edit_plate: "I u \<Longrightarrow> (plate_ok (ui_plate u) \<Longrightarrow> plate_ok g) \<Longrightarrow> I (u\<lparr>ui_plate := g\<rparr>)"
    and edit_phone: "I u \<Longrightarrow> (phone_ok (ui_phone u) \<Longrightarrow> phone_ok h) \<Longrightarrow> I (u\<lparr>ui_phone := h\<rparr>)"
    and edit_text: "I u \<Longrightarrow> I (u\<lparr>g_lcd_text_msg := m\<rparr>)"
    and subpage: "I u \<Longrightarrow> I (u\<lparr>g_lcd_home_subpage := k\<rparr>)"
    and live: "I u \<Longrightarrow> I (u\<lparr>g_lcd_vehicle_status_last_bits := b\<rparr>)" "I u \<Longrightarrow> I (u\<lparr>g_lcd_vehicle_status_check_tick := tk\<rparr>)"
    and drawn: "I u \<Longrightarrow> I (u\<lparr>ui_drawn := Some (g_lcd_current_page_id u), g_lcd_need_redraw := False\<rparr>)"
begin

lemma enter_any: "I u \<Longrightarrow> I (lcd_page_enter (hook_env ops) now p u)"
  using enter [of u p now] by (cases "p = LCD_PAGE_MAX") (simp_all add: lcd_page_enter_def)

lemma common_ok: "I u \<Longrightarrow> return_target p \<Longrightarrow> I (lcd_page_enter_common_ok (hook_env ops) now p u)"
  unfolding lcd_page_enter_common_ok_def Let_def by (rule enter_any) (simp add: return_page return_target_def)

lemma refresh_cache: "I u \<Longrightarrow> I (ui_refresh_cache ops u)"
  by (auto simp: ui_refresh_cache_def store split: prod.split)

lemma saved: "return_target page \<Longrightarrow> I u \<Longrightarrow> (\<And>v. I v \<Longrightarrow> I (f v)) \<Longrightarrow> I (save_done ops now page f res u)"
  by (auto simp: save_done_def Let_def common_ok refresh_cache store split: prod.split)

lemma saves:
  assumes "I u"
  shows "I (lcd_vin_save_and_ok ops now u)" "I (lcd_province_id_save_and_ok ops now u)"
    "I (lcd_city_id_save_and_ok ops now u)" "I (lcd_plate_save_and_ok ops now u)" "I (phone_save ops now u)"
    "I (lcd_page_confirm_vehicle_plate_class ops now u)" "I (lcd_page_confirm_vehicle_plate_color ops now u)"
  unfolding save_defs
  by (rule saved [OF _ assms]; (erule edit_vin edit_province edit_city edit_plate)?; simp add: char_edit_ok_def plate_ok_def return_target_def)+

lemma confirm_functions:
  assumes "I u"
  shows "I (lcd_page_confirm_load_status ops now u)" "I (lcd_page_confirm_key_volume ops now u)"
    "I (lcd_page_confirm_backlight_time ops now u)" "I (lcd_page_confirm_brightness_level ops now u)"
  using assms by (simp_all add: lcd_page_confirm_load_status_def lcd_page_confirm_key_volume_def
      lcd_page_confirm_backlight_time_def lcd_page_confirm_brightness_level_def enter_any common_ok return_target_def)

lemma on_confirm: "I u \<Longrightarrow> on_confirm (g_lcd_pages_table ops now p) = Some f \<Longrightarrow> I (f u)"
  using saves [of u now] confirm_functions [of u now] by (cases p) (auto simp: page_shapes)

lemma back_kept: "I u \<Longrightarrow> I (lcd_page_handle_back (ui_env ops now) now' u)"
  by (simp add: lcd_page_handle_back_def enter_hook_env [of ops now, symmetric] enter_any split: option.split)

lemma confirm_kept: "I u \<Longrightarrow> I (lcd_page_handle_confirm (ui_env ops now) now' u)"
proof -
  assume u: "I u"
  then have "I (f u)" if "lcd_get_page_node (ui_env ops now) p = Some page" "on_confirm page = Some f" for p page f
    using on_confirm [of u now p f] that by (cases "p = LCD_PAGE_MAX") auto
  then show ?thesis
    using u by (auto simp: lcd_page_handle_confirm_def Let_def enter_hook_env [of ops now, symmetric] enter_any
        simp del: page_node split: option.split)
qed

lemma auto_return_kept: "I u \<Longrightarrow> I (lcd_page_handle_auto_return (ui_env ops now) now' now'' u)"
  by (simp add: lcd_page_handle_auto_return_def enter_hook_env [of ops now, symmetric] enter_any split: option.split)

lemma live_kept: "I u \<Longrightarrow> I (lcd_page_handle_dynamic_refresh vio now u)"
  using live [of u] live(2) redraw by (auto simp: lcd_page_handle_dynamic_refresh_def Let_def live)

lemma render_kept: "I u \<Longrightarrow> I ((lcd_render_current_page u)\<lparr>g_lcd_need_redraw := False\<rparr>)"
proof -
  assume u: "I u"
  have "\<exists>m. snd (lcd_render_info_center_text_normal_ui u) = u\<lparr>g_lcd_text_msg := m\<rparr>"
    by (auto simp: lcd_render_info_center_text_normal_ui_def Let_def intro: exI [of _ "g_lcd_text_msg u"])
  then obtain m where "snd (lcd_render_info_center_text_normal_ui u) = u\<lparr>g_lcd_text_msg := m\<rparr>" ..
  then show ?thesis
    using drawn [OF edit_text [OF u, of m]] drawn [OF u] by (auto simp: lcd_render_current_page_def Let_def)
qed

lemma pass_end: "I u \<Longrightarrow> I (lcd_pass_end ops vio t u)"
  by (simp add: lcd_pass_end_def Let_def auto_return_kept live_kept render_kept)

end

section \<open>Edits keep the editors' invariants\<close>

lemma cursor_steps:
  fixes c k :: u8
  assumes "c < k"
  shows "(if 0 < c then c - 1 else k - 1) < k" "(if c < k - 1 then c + 1 else 0) < k"
proof -
  have "k \<noteq> 0" using assms by auto
  then have k: "0 < unat k" "unat (k - 1) = unat k - 1" by (simp_all add: unat_gt_0 unat_minus_one)
  show "(if 0 < c then c - 1 else k - 1) < k"
    using assms k unat_minus_one [of c] by (cases "c = 0") (simp_all add: word_less_nat_alt unat_gt_0)
  show "(if c < k - 1 then c + 1 else 0) < k"
    using assms k unat_lt_u8 [of k] by (auto simp: word_less_nat_alt unat_word_ariths)
qed

lemma cursor_word: "n < 256 \<Longrightarrow> (c :: u8) < of_nat n \<longleftrightarrow> unat c < n"
  by (simp add: word_less_nat_alt unsigned_of_nat take_bit_nat_eq_self)

lemma first_unedited_bound:
  "list_all (\<lambda>i. i < n) is \<Longrightarrow> n < 256 \<Longrightarrow> unat c < n \<Longrightarrow> unat (first_unedited is m c) < n"
  by (induction "is") (auto simp: unsigned_of_nat take_bit_nat_eq_self)

lemma ce_keys_ok:
  fixes e :: "'m::len word char_edit"
  assumes ok: "char_edit_ok n cnt e" and n: "n < 256"
  shows "char_edit_ok n cnt (ce_key_s1 e)" "char_edit_ok n cnt (ce_key_s2 n cnt e)"
    "char_edit_ok n cnt (ce_key_s3 n cnt e)" "char_edit_ok n cnt (snd (ce_key_s4 n e))"
proof -
  have c: "ce_cursor e < of_nat n" "ce_option_index e < cnt" "length (ce_chars e) = n"
    "\<And>i. i < n \<Longrightarrow> ce_chars e ! i < cnt" and m: "\<And>i. bit (ce_edit_mask e) i \<Longrightarrow> i < n"
    using ok by (auto simp: char_edit_ok_def cursor_word [OF n] list_all_length)
  note cs = cursor_steps [OF c(1), unfolded cursor_word [OF n]] and os = cursor_steps [OF c(2)]
  show "char_edit_ok n cnt (ce_key_s1 e)"
    using ok c by (auto simp: ce_key_s1_def char_edit_ok_def)
  show "char_edit_ok n cnt (ce_key_s2 n cnt e)"
    using ok cs(1) os(1) by (simp add: ce_key_s2_def char_edit_ok_def ce_toggle_def)
  show "char_edit_ok n cnt (ce_key_s3 n cnt e)"
    using ok cs(2) os(2) by (simp add: ce_key_s3_def char_edit_ok_def ce_toggle_def)
  have u: "list_all (\<lambda>x. x < cnt) ((ce_chars e)[unat (ce_cursor e) := ce_option_index e])"
    using ok c(2) by (auto simp: char_edit_ok_def list_all_iff dest!: set_update_subset_insert [THEN subsetD])
  have mk: "bit (ce_edit_mask e OR push_bit (unat (ce_cursor e)) 1) i \<Longrightarrow> i < n" for i
    using m c(1) by (auto simp: cursor_word [OF n] bit_simps)
  have nx: "ce_cursor e < of_nat n - 1 \<Longrightarrow> unat (ce_cursor e + 1) < n" using cs(2) by simp
  have f: "unat (first_unedited [0..<n] (ce_edit_mask e) (ce_cursor e)) < n"
    using ok n by (intro first_unedited_bound) (auto simp: char_edit_ok_def list_all_iff)
  show "char_edit_ok n cnt (snd (ce_key_s4 n e))"
    using ok u mk nx f c(1) by (auto simp: ce_key_s4_def char_edit_ok_def Let_def list_all_length cursor_word [OF n])
qed

lemma plate_keys_ok:
  assumes ok: "plate_ok e"
  shows "plate_ok (plate_key_s1 e)" "plate_ok (plate_key_s2 e)" "plate_ok (plate_key_s3 e)"
proof -
  have len: "length g_lcd_plate_province_codes = 31" by (simp add: g_lcd_plate_province_codes_def)
  have p: "pl_province_index e < 31" "pl_letter_index e < 26" "length (pl_digits e) = 5" "pl_focus e \<le> 8"
    "\<And>i. i < 5 \<Longrightarrow> pl_digits e ! i < 36"
    using ok by (auto simp: plate_ok_def len word_less_nat_alt list_all_length dvr_const)
  have d: "list_all (\<lambda>x. x < 36) ((pl_digits e)[i := x])" if "x < 36" for i x
    using ok that by (auto simp: plate_ok_def list_all_iff dest!: set_update_subset_insert [THEN subsetD])
  have i: "unat (pl_focus e - 2) < 5" if "2 \<le> pl_focus e" "pl_focus e \<le> 6"
    using byte_offset [OF that] by simp
  note ps = cursor_steps [OF p(1)] and ls = cursor_steps [OF p(2)] and ds = cursor_steps [OF p(5) [OF i]]
  show "plate_ok (plate_key_s1 e)"
    using ok by (auto simp: plate_key_s1_def plate_ok_def word_less_nat_alt word_le_nat_alt unat_word_ariths dvr_const)
  show "plate_ok (plate_key_s2 e)"
    using ok ps(1) ls(1) d ds(1) by (auto simp: plate_key_s2_def plate_ok_def Let_def len word_less_nat_alt dvr_const)
  show "plate_ok (plate_key_s3 e)"
    using ok ps(2) ls(2) d ds(2) by (auto simp: plate_key_s3_def plate_ok_def Let_def len word_less_nat_alt dvr_const)
qed

lemma phone_digit:
  assumes "phone_ok e" "c \<le> (10 :: u8)"
  shows "is_digit (ph_digits e ! unat c)" "ph_digits e ! unat c - 0x30 \<le> 9"
proof -
  have "unat c \<in> set [0..<11]" using assms(2) by (simp add: word_le_nat_alt)
  then show "is_digit (ph_digits e ! unat c)"
    using assms(1) unfolding phone_ok_def svc_storage_phone_digits_valid_def list_all_iff by simp
  then show "ph_digits e ! unat c - 0x30 \<le> 9" by (rule digit_value)
qed

lemma small_steps:
  fixes c k :: u8
  assumes "c \<le> k" "k < 255"
  shows "(if 0 < c then c - 1 else k) \<le> k" "(if c < k then c + 1 else 0) \<le> k" "(if 0 < c then c - 1 else c) \<le> k"
    "(if c < k then c + 1 else c) \<le> k"
proof -
  have c: "c < k + 1" using assms by (simp add: word_less_nat_alt word_le_nat_alt unat_word_ariths)
  have k: "k + 1 - 1 = k" by simp
  have "(if 0 < c then c - 1 else k) < k + 1" "(if c < k then c + 1 else 0) < k + 1"
    using cursor_steps [OF c] unfolding k .
  then show "(if 0 < c then c - 1 else k) \<le> k" "(if c < k then c + 1 else 0) \<le> k"
    using assms(2) by (auto simp: word_less_nat_alt word_le_nat_alt unat_word_ariths)
  then show "(if 0 < c then c - 1 else c) \<le> k" "(if c < k then c + 1 else c) \<le> k"
    using assms(1) by (auto split: if_splits)
qed

lemma phone_keys_ok:
  assumes ok: "phone_ok e"
  shows "phone_ok (phone_key_s1 e)" "phone_ok (phone_key_s2 e)" "phone_ok (phone_key_s3 e)"
    "phone_ok (phone_enter_digit e)" "phone_ok (e\<lparr>ph_selected_digit := ph_digit e\<rparr>)"
proof -
  have p: "ph_cursor e \<le> 10" "ph_selected_digit e \<le> 9" "ph_func_index e \<le> 1" using ok by (simp_all add: phone_ok_def)
  note cs = small_steps [OF p(1), simplified] and ss = small_steps [OF p(2), simplified] and fs = small_steps [OF p(3), simplified]
  note dg = phone_digit(2) [OF ok]
  show "phone_ok (phone_key_s1 e)" "phone_ok (e\<lparr>ph_selected_digit := ph_digit e\<rparr>)"
    using ok dg [OF p(1)] by (simp_all add: phone_key_s1_def phone_ok_def ph_digit_def)
  show "phone_ok (phone_key_s2 e)"
    using ok dg [OF p(1)] dg [OF cs(3)] cs(3) ss(1) fs(1)
    by (auto simp: phone_key_s2_def phone_ok_def ph_digit_def Let_def split: if_splits)
  show "phone_ok (phone_key_s3 e)"
    using ok dg [OF p(1)] dg [OF cs(4)] cs(4) ss(2) fs(2)
    by (auto simp: phone_key_s3_def phone_ok_def ph_digit_def Let_def split: if_splits)
  let ?d = "(ph_digits e)[unat (ph_cursor e) := 0x30 + ph_selected_digit e]"
  have "unat (ph_cursor e) < 11" "unat (ph_selected_digit e) < 10" using p by (simp_all add: word_le_nat_alt)
  moreover from this(2) have "is_digit (0x30 + ph_selected_digit e)"
    using alnum_chars(1) [of "unat (ph_selected_digit e)"] by simp
  ultimately have v: "phone_ok (e\<lparr>ph_digits := ?d\<rparr>)"
    using ok by (auto simp: phone_ok_def svc_storage_phone_digits_valid_def list_all_iff nth_list_update)
  have "phone_ok (e\<lparr>ph_digits := ?d, ph_cursor := if ph_cursor e < 10 then ph_cursor e + 1 else ph_cursor e\<rparr>)"
    using v cs(4) by (simp add: phone_ok_def)
  moreover have "?d ! unat (if ph_cursor e < 10 then ph_cursor e + 1 else ph_cursor e) - 0x30 \<le> 9"
    using phone_digit(2) [OF v cs(4)] by simp
  ultimately show "phone_ok (phone_enter_digit e)"
    by (auto simp: phone_enter_digit_def phone_ok_def ph_digit_def Let_def)
qed

context ui_kept
begin

lemma edit_done_kept: "I u \<Longrightarrow> (\<And>v. I v \<Longrightarrow> I (save v)) \<Longrightarrow> I (snd (snd (edit_done ops now save r a u)))"
  by (auto simp: edit_done_def redraw enter_any split: option.split edit_request.split)

lemma char_keys_ok:
  "char_edit_ok n cnt e \<Longrightarrow> n < 256 \<Longrightarrow> char_edit_ok n cnt (snd (snd (char_edit_keys n cnt a e)))" for e :: "'m::len word char_edit"
  using ce_keys_ok [of n cnt e] by (auto simp: char_edit_keys_def Let_def split: prod.split)

lemma editor_keys_kept:
  assumes "I u"
  shows "I (snd (snd (lcd_handle_vin_set_keys ops now a u)))" "I (snd (snd (lcd_handle_province_id_set_keys ops now a u)))"
    "I (snd (snd (lcd_handle_city_id_set_keys ops now a u)))" "I (snd (snd (lcd_handle_plate_set_keys ops now a u)))"
proof -
  have n: "LCD_VIN_LEN < 256" "LCD_PROVINCE_ID_LEN < 256" "LCD_CITY_ID_LEN < 256" by (simp_all add: dvr_const)
  have "I (u\<lparr>ui_vin := snd (snd (char_edit_keys LCD_VIN_LEN LCD_VIN_CHAR_COUNT a (ui_vin u)))\<rparr>)"
    "I (u\<lparr>ui_province_id := snd (snd (char_edit_keys LCD_PROVINCE_ID_LEN LCD_PROVINCE_ID_CHAR_COUNT a (ui_province_id u)))\<rparr>)"
    "I (u\<lparr>ui_city_id := snd (snd (char_edit_keys LCD_CITY_ID_LEN LCD_CITY_ID_CHAR_COUNT a (ui_city_id u)))\<rparr>)"
    using assms n by (auto intro!: edit_vin edit_province edit_city char_keys_ok)
  then show "I (snd (snd (lcd_handle_vin_set_keys ops now a u)))" "I (snd (snd (lcd_handle_province_id_set_keys ops now a u)))"
    "I (snd (snd (lcd_handle_city_id_set_keys ops now a u)))"
    using assms saves
    by (auto simp: lcd_handle_vin_set_keys_def lcd_handle_province_id_set_keys_def lcd_handle_city_id_set_keys_def
        Let_def case_prod_unfold intro!: edit_done_kept)
  have "I (u\<lparr>ui_plate := plate_key_s1 (ui_plate u)\<rparr>)" "I (u\<lparr>ui_plate := plate_key_s2 (ui_plate u)\<rparr>)"
    "I (u\<lparr>ui_plate := plate_key_s3 (ui_plate u)\<rparr>)"
    using assms plate_keys_ok by (auto intro!: edit_plate)
  then show "I (snd (snd (lcd_handle_plate_set_keys ops now a u)))"
    using assms saves(4) by (auto simp: lcd_handle_plate_set_keys_def Let_def case_prod_unfold intro!: edit_done_kept)
qed

lemma phone_edited_kept: "I u \<Longrightarrow> (\<And>e. phone_ok e \<Longrightarrow> phone_ok (f e)) \<Longrightarrow> I (phone_edited f u)"
  using redraw [OF edit_phone, of u "f (ui_phone u)"] by (simp add: phone_edited_def)

lemma phone_s4_kept: "I u \<Longrightarrow> I (phone_key_s4 ops now u)"
proof -
  assume u: "I u"
  have "I (u\<lparr>ui_phone := (ui_phone u)\<lparr>ph_selected_digit := ph_digit (ui_phone u)\<rparr>, g_lcd_need_redraw := True\<rparr>)"
    "I (u\<lparr>ui_phone := phone_enter_digit (ui_phone u), g_lcd_need_redraw := True\<rparr>)"
    using redraw [OF edit_phone [OF u]] phone_keys_ok by simp_all
  then show ?thesis
    using redraw enter_any [OF u] saves(5) [OF u] by (auto simp: phone_key_s4_def Let_def)
qed

lemma phone_keys_kept: "I u \<Longrightarrow> I (snd (snd (lcd_handle_local_phone_keys ops now a u)))"
  using phone_keys_ok
  by (auto simp: lcd_handle_local_phone_keys_def Let_def case_prod_unfold intro!: phone_edited_kept phone_s4_kept)

lemma text_keys_kept: "I u \<Longrightarrow> I (snd (snd (lcd_handle_text_normal_keys ops now a u)))"
  using redraw [OF edit_text]
  by (auto simp: lcd_handle_text_normal_keys_def Let_def case_prod_unfold enter_any)

lemma try_kept: "I u \<Longrightarrow> list_all (\<lambda>h. \<forall>a u. I u \<longrightarrow> I (snd (snd (h a u)))) hs \<Longrightarrow> I (snd (snd (try_handlers hs a u)))"
proof (induction hs arbitrary: a u)
  case (Cons h hs)
  obtain r a' u' where h: "h a u = (r, a', u')" by (metis prod_cases3)
  have "I (snd (snd (h a u)))" using Cons.prems by simp
  then have "I u'" by (simp add: h)
  then show ?case using Cons h by (simp add: Let_def)
qed simp

lemma handlers_kept: "I u \<Longrightarrow> I (snd (snd (try_handlers (page_handlers ops now) a u)))"
  by (rule try_kept) (simp_all add: page_handlers_def text_keys_kept editor_keys_kept phone_keys_kept)

lemma generic_kept: "I u \<Longrightarrow> I (snd (generic_keys ops now a u))"
  by (simp add: generic_keys_def Let_def case_prod_unfold back_kept select confirm_kept)

lemma page_pass_kept: "I u \<Longrightarrow> I (snd (page_pass ops vio t a u))"
  using handlers_kept [of u "at_key t" a]
  by (auto simp: page_pass_def Let_def case_prod_unfold intro!: pass_end generic_kept)

lemma pass_kept: "I (snd s) \<Longrightarrow> I (snd (svc_lcd_thread_pass ops vio t s))"
  using redraw [OF subpage]
  by (auto simp: svc_lcd_thread_pass_def Let_def case_prod_unfold intro!: pass_end page_pass_kept enter_any)

end

section \<open>The invariant of the display\<close>

text \<open>The display is due to be redrawn or shows the current page.\<close>

definition screen_ok :: "'b ui \<Rightarrow> bool" where
  "screen_ok u \<longleftrightarrow> g_lcd_need_redraw u \<or> ui_drawn u = Some (g_lcd_current_page_id u)"

text \<open>The navigation registers are consistent, whatever the clock of the page table.\<close>

definition ui_nav_ok :: "'b ui \<Rightarrow> bool" where
  "ui_nav_ok u \<longleftrightarrow> nav_ok (ui_env at24_ops 0) u"

lemma ui_nav_ok: "nav_ok (ui_env ops now) u \<longleftrightarrow> ui_nav_ok u"
  by (simp add: ui_nav_ok_def nav_ok_def sel_ok_choices)

interpretation nav_kept: ui_kept ops ui_nav_ok for ops
proof
  fix u p now d
  show "ui_nav_ok u \<Longrightarrow> p \<noteq> LCD_PAGE_MAX \<Longrightarrow> ui_nav_ok (lcd_page_enter (hook_env ops) now p u)"
    unfolding ui_nav_ok [of ops now, symmetric] enter_hook_env [of ops now] by (rule hook.goto_ok)
  show "ui_nav_ok u \<Longrightarrow> ui_nav_ok (lcd_page_handle_nav (ui_env ops now) d u)"
    unfolding ui_nav_ok [of ops now, symmetric] by (rule hook.nav_nav_ok)
qed (simp_all add: ui_nav_ok_def nav_ok_def sel_ok_def return_target_def)

interpretation editors_kept: ui_kept ops editors_ok for ops
proof
  fix u p now d
  show "editors_ok u \<Longrightarrow> editors_ok (lcd_page_enter (hook_env ops) now p u)" by (rule enter_editors)
qed (simp_all add: editors_ok_def lcd_page_handle_nav_def Let_def)

interpretation screen_kept: ui_kept ops screen_ok for ops
proof
  fix u :: "'a ui" and p now d
  show "p \<noteq> LCD_PAGE_MAX \<Longrightarrow> screen_ok (lcd_page_enter (hook_env ops) now p u)"
    by (simp add: screen_ok_def lcd_page_enter_def Let_def)
qed (auto simp: screen_ok_def lcd_page_handle_nav_def Let_def)

definition return_ok :: "'b ui \<Rightarrow> bool" where
  "return_ok u \<longleftrightarrow> return_target (g_lcd_common_ok_return_page u)"

interpretation return_kept: ui_kept ops return_ok for ops
proof
  fix u :: "'a ui" and p now
  assume "return_ok u" "p \<noteq> LCD_PAGE_MAX"
  then show "return_ok (lcd_page_enter (hook_env ops) now p u)"
    unfolding return_ok_def enter_hook_env [of ops now] by (simp add: hook.enter_page)
qed (auto simp: return_ok_def lcd_page_handle_nav_def Let_def)

end
