(* ===== verification/Svc_Lcd_Home.thy ===== *)
theory Svc_Lcd_Home
  imports Svc_Lcd_Thread
begin

text \<open>
  The way back: from every page of the display, with every state of the editors, some keys lead to
  the home page. A key press raises the event of the key; the next pass of the display thread takes
  it. The times of the passes and the vehicle inputs are arbitrary.
\<close>

section \<open>Key presses\<close>

definition keys_idle :: "adc_state \<Rightarrow> bool" where
  "keys_idle a \<longleftrightarrow> \<not> g_adc_s1_event a \<and> \<not> g_adc_s2_event a \<and> \<not> g_adc_s3_event a \<and> \<not> g_adc_s4_event a"

definition key_pass :: "'b i2c_ops \<Rightarrow> vehicle_io \<Rightarrow> ui_ticks \<Rightarrow> adc_key \<Rightarrow> adc_state \<times> 'b ui \<Rightarrow> adc_state \<times> 'b ui" where
  "key_pass ops vio t k s = svc_lcd_thread_pass ops vio t (raise_key_event k (fst s), snd s)"

text \<open>At most \<open>n\<close> key presses lead home, each chosen knowing the state but not the times and inputs.\<close>

fun home_within :: "'b i2c_ops \<Rightarrow> nat \<Rightarrow> 'b ui \<Rightarrow> bool" where
  "home_within ops 0 u \<longleftrightarrow> g_lcd_current_page_id u = LCD_PAGE_HOME"
| "home_within ops (Suc n) u \<longleftrightarrow> g_lcd_current_page_id u = LCD_PAGE_HOME
     \<or> (\<exists>k. \<forall>vio t a. keys_idle a \<longrightarrow> keys_idle (fst (key_pass ops vio t k (a, u)))
          \<and> home_within ops n (snd (key_pass ops vio t k (a, u))))"

lemma home_within_mono: "home_within ops n u \<Longrightarrow> n \<le> m \<Longrightarrow> home_within ops m u"
proof (induction n arbitrary: m u)
  case 0
  then show ?case by (cases m) simp_all
next
  case (Suc n)
  obtain m' where m: "m = Suc m'" "n \<le> m'" using Suc.prems(2) by (cases m) auto
  show ?case using Suc.prems(1) Suc.IH m by (auto simp del: split_paired_All) blast
qed

lemma home_step:
  assumes "\<And>vio t a. keys_idle a \<Longrightarrow> keys_idle (fst (key_pass ops vio t k (a, u))) \<and> home_within ops n (snd (key_pass ops vio t k (a, u)))"
  shows "home_within ops (Suc n) u"
  unfolding home_within.simps using assms by blast

declare home_within.simps(2) [simp del]

section \<open>What a key press does\<close>

lemma consume_raised:
  assumes "keys_idle a"
  shows "raise_key_event ADC_KEY_S1 a = a\<lparr>g_adc_s1_event := True\<rparr>" "raise_key_event ADC_KEY_S2 a = a\<lparr>g_adc_s2_event := True\<rparr>"
    "raise_key_event ADC_KEY_S3 a = a\<lparr>g_adc_s3_event := True\<rparr>" "raise_key_event ADC_KEY_S4 a = a\<lparr>g_adc_s4_event := True\<rparr>"
    "g_adc_s1_event a = False" "g_adc_s2_event a = False" "g_adc_s3_event a = False" "g_adc_s4_event a = False"
    "a\<lparr>g_adc_s1_event := False\<rparr> = a" "a\<lparr>g_adc_s2_event := False\<rparr> = a" "a\<lparr>g_adc_s3_event := False\<rparr> = a"
    "a\<lparr>g_adc_s4_event := False\<rparr> = a"
  using assms by (cases a; simp add: raise_key_event_def keys_idle_def)+

lemmas consume_defs = svc_adc_consume_s1_event_def svc_adc_consume_s2_event_def svc_adc_consume_s3_event_def
  svc_adc_consume_s4_event_def

lemmas handler_defs = lcd_handle_text_normal_keys_def lcd_handle_vin_set_keys_def lcd_handle_province_id_set_keys_def
  lcd_handle_city_id_set_keys_def lcd_handle_plate_set_keys_def lcd_handle_local_phone_keys_def

text \<open>A page without time-out stays when the pass ends, with its editor.\<close>

lemma pass_end_same:
  assumes "auto_return_ms (g_lcd_pages_table ops (at_key t) (g_lcd_current_page_id u)) = 0"
  shows "g_lcd_current_page_id (lcd_pass_end ops vio t u) = g_lcd_current_page_id u"
    "ui_vin (lcd_pass_end ops vio t u) = ui_vin u" "ui_province_id (lcd_pass_end ops vio t u) = ui_province_id u"
    "ui_city_id (lcd_pass_end ops vio t u) = ui_city_id u" "ui_plate (lcd_pass_end ops vio t u) = ui_plate u"
    "ui_phone (lcd_pass_end ops vio t u) = ui_phone u"
proof -
  have a: "lcd_page_handle_auto_return (ui_env ops (at_key t)) x y u = u" for x y
    using assms by (cases "g_lcd_current_page_id u = LCD_PAGE_MAX") (simp_all add: lcd_page_handle_auto_return_def)
  have "\<exists>m. snd (lcd_render_info_center_text_normal_ui v) = v\<lparr>g_lcd_text_msg := m\<rparr>" for v :: "'a ui"
    by (auto simp: lcd_render_info_center_text_normal_ui_def Let_def intro: exI [of _ "g_lcd_text_msg v"])
  then obtain m where m: "\<And>v :: 'a ui. snd (lcd_render_info_center_text_normal_ui v) = v\<lparr>g_lcd_text_msg := m v\<rparr>"
    by metis
  show "g_lcd_current_page_id (lcd_pass_end ops vio t u) = g_lcd_current_page_id u"
    "ui_vin (lcd_pass_end ops vio t u) = ui_vin u" "ui_province_id (lcd_pass_end ops vio t u) = ui_province_id u"
    "ui_city_id (lcd_pass_end ops vio t u) = ui_city_id u" "ui_plate (lcd_pass_end ops vio t u) = ui_plate u"
    "ui_phone (lcd_pass_end ops vio t u) = ui_phone u"
    by (simp_all add: lcd_pass_end_def a lcd_page_handle_dynamic_refresh_def lcd_render_current_page_def Let_def m)
qed

text \<open>The pages with key handlers of their own.\<close>

definition own_keys :: "lcd_page_id \<Rightarrow> bool" where
  "own_keys p \<longleftrightarrow> p \<in> {LCD_PAGE_DRIVE_RECORD_INFO_CENTER_TEXT_NORMAL, LCD_PAGE_SYSTEM_SETTING_VEHICLE_INFO_VIN,
     LCD_PAGE_SYSTEM_SETTING_VEHICLE_INFO_PROVINCE_ID, LCD_PAGE_SYSTEM_SETTING_VEHICLE_INFO_CITY_ID,
     LCD_PAGE_SYSTEM_SETTING_VEHICLE_INFO_PLATE_SET, LCD_PAGE_SYSTEM_SETTING_HOST_PARAM_LOCAL_PHONE}"

lemma back_key:
  assumes "keys_idle a" "g_lcd_current_page_id u \<noteq> LCD_PAGE_HOME" "\<not> own_keys (g_lcd_current_page_id u)"
  shows "keys_idle (fst (key_pass ops vio t ADC_KEY_S1 (a, u)))"
    "snd (key_pass ops vio t ADC_KEY_S1 (a, u))
       = lcd_pass_end ops vio t (lcd_page_handle_back (ui_env ops (at_key t)) (at_key t) u)"
  using assms(2,3)
  by (simp_all add: key_pass_def svc_lcd_thread_pass_def page_pass_def page_handlers_def handler_defs own_keys_def
      generic_keys_def consume_defs consume_raised [OF assms(1)] keys_idle_def)

lemma text_key:
  assumes "keys_idle a" "g_lcd_current_page_id u = LCD_PAGE_DRIVE_RECORD_INFO_CENTER_TEXT_NORMAL"
  shows "keys_idle (fst (key_pass ops vio t ADC_KEY_S1 (a, u)))"
    "snd (key_pass ops vio t ADC_KEY_S1 (a, u))
       = lcd_pass_end ops vio t (lcd_page_enter (hook_env ops) (at_key t) LCD_PAGE_DRIVE_RECORD_INFO_CENTER_TEXT u)"
  using assms(2)
  by (simp_all add: key_pass_def svc_lcd_thread_pass_def page_pass_def page_handlers_def handler_defs
      consume_defs consume_raised [OF assms(1)] keys_idle_def)

lemma char_edit_raised:
  assumes "keys_idle a"
  shows "char_edit_keys n cnt (raise_key_event ADC_KEY_S1 a) e = (Some EditRedraw, a, ce_key_s1 e)"
    "char_edit_keys n cnt (raise_key_event ADC_KEY_S2 a) e = (Some EditRedraw, a, ce_key_s2 n cnt e)"
    "char_edit_keys n cnt (raise_key_event ADC_KEY_S4 a) e = (Some (fst (ce_key_s4 n e)), a, snd (ce_key_s4 n e))"
  by (simp_all add: char_edit_keys_def consume_defs consume_raised [OF assms] case_prod_unfold Let_def)

section \<open>Leaving an editor\<close>

text \<open>
  An editor is left when some key brings it nearer to its exit in every state; \<open>remaining\<close> counts
  the presses that are left.
\<close>

locale exit_path =
  fixes ops :: "'b i2c_ops" and page target :: lcd_page_id and key :: "'b ui \<Rightarrow> adc_key" and remaining :: "'b ui \<Rightarrow> nat"
  assumes progress: "g_lcd_current_page_id u = page \<Longrightarrow> keys_idle a \<Longrightarrow> key_pass ops vio t (key u) (a, u) = (a', u') \<Longrightarrow>
      keys_idle a' \<and> (if remaining u \<le> 1 then g_lcd_current_page_id u' = target
        else g_lcd_current_page_id u' = page \<and> remaining u' < remaining u)"
begin

lemma leaves:
  assumes home: "\<And>u. g_lcd_current_page_id u = target \<Longrightarrow> home_within ops n u"
    and page: "g_lcd_current_page_id u = page" and r: "remaining u \<le> Suc k"
  shows "home_within ops (Suc (n + k)) u"
  using page r
proof (induction k arbitrary: u)
  case 0
  show ?case
  proof (rule home_step)
    fix vio t a
    assume a: "keys_idle a"
    obtain a' u' where p: "key_pass ops vio t (key u) (a, u) = (a', u')" by fastforce
    show "keys_idle (fst (key_pass ops vio t (key u) (a, u))) \<and> home_within ops (n + 0) (snd (key_pass ops vio t (key u) (a, u)))"
      using progress [OF 0(1) a p] 0(2) home p by simp
  qed
next
  case (Suc k)
  show ?case
  proof (rule home_step)
    fix vio t a
    assume a: "keys_idle a"
    obtain a' u' where p: "key_pass ops vio t (key u) (a, u) = (a', u')" by fastforce
    have "home_within ops (n + Suc k) u'"
    proof (cases "remaining u \<le> 1")
      case True
      then have "home_within ops n u'" using progress [OF Suc.prems(1) a p] home by simp
      then show ?thesis by (rule home_within_mono) simp
    next
      case False
      then show ?thesis using progress [OF Suc.prems(1) a p] Suc.IH [of u'] Suc.prems(2) by simp
    qed
    then show "keys_idle (fst (key_pass ops vio t (key u) (a, u))) \<and> home_within ops (n + Suc k) (snd (key_pass ops vio t (key u) (a, u)))"
      using progress [OF Suc.prems(1) a p] p by simp
  qed
qed

end

text \<open>The way out of the character editors: the exit button of the action area.\<close>

definition ce_exit_key :: "'m char_edit \<Rightarrow> adc_key" where
  "ce_exit_key e = (if ce_area e = LCD_VIN_AREA_ACTION
     then (if ce_action e = LCD_VIN_ACTION_EXIT then ADC_KEY_S4 else ADC_KEY_S2) else ADC_KEY_S1)"

definition ce_exit_steps :: "'m char_edit \<Rightarrow> nat" where
  "ce_exit_steps e = (if ce_area e = LCD_VIN_AREA_ACTION
     then (if ce_action e = LCD_VIN_ACTION_EXIT then 1 else if ce_action e = LCD_VIN_ACTION_CONFIRM then 2 else 3)
     else if ce_area e = LCD_VIN_AREA_CHAR_SELECT then 2 else if ce_area e = LCD_VIN_AREA_POSITION then 3 else 4)"

lemma ce_exit:
  assumes "keys_idle a"
  shows "\<exists>r e'. char_edit_keys n cnt (raise_key_event (ce_exit_key e) a) e = (Some r, a, e')
    \<and> (if ce_exit_steps e \<le> 1 then r = EditExit else r = EditRedraw \<and> ce_exit_steps e' < ce_exit_steps e)"
  by (auto simp: ce_exit_key_def char_edit_raised [OF assms] ce_key_s1_def ce_key_s2_def ce_toggle_def ce_key_s4_def
      ce_exit_steps_def dvr_const)

lemma exit_page:
  "g_lcd_current_page_id (lcd_pass_end ops vio t (lcd_page_enter (hook_env ops) now LCD_PAGE_SYSTEM_SETTING_VEHICLE_INFO u))
     = LCD_PAGE_SYSTEM_SETTING_VEHICLE_INFO"
  "g_lcd_current_page_id (lcd_pass_end ops vio t ((lcd_page_enter (hook_env ops) now LCD_PAGE_SYSTEM_SETTING_HOST_PARAM u)\<lparr>g_lcd_need_redraw := True\<rparr>))
     = LCD_PAGE_SYSTEM_SETTING_HOST_PARAM"
  by (simp_all add: pass_end_same enter_hook_env [of ops now] hook.enter_page page_shapes)

lemmas editor_pass = key_pass_def svc_lcd_thread_pass_def page_pass_def page_handlers_def handler_defs edit_done_def
  exit_page pass_end_same page_shapes Let_def

interpretation vin_exit: exit_path ops LCD_PAGE_SYSTEM_SETTING_VEHICLE_INFO_VIN LCD_PAGE_SYSTEM_SETTING_VEHICLE_INFO
    "\<lambda>u. ce_exit_key (ui_vin u)" "\<lambda>u. ce_exit_steps (ui_vin u)" for ops
proof
  fix u u' :: "'a ui" and a a' vio t
  assume u: "g_lcd_current_page_id u = LCD_PAGE_SYSTEM_SETTING_VEHICLE_INFO_VIN" and a: "keys_idle a"
    and p: "key_pass ops vio t (ce_exit_key (ui_vin u)) (a, u) = (a', u')"
  from ce_exit [OF a, of LCD_VIN_LEN LCD_VIN_CHAR_COUNT "ui_vin u"] p u a
  show "keys_idle a' \<and> (if ce_exit_steps (ui_vin u) \<le> 1 then g_lcd_current_page_id u' = LCD_PAGE_SYSTEM_SETTING_VEHICLE_INFO
      else g_lcd_current_page_id u' = LCD_PAGE_SYSTEM_SETTING_VEHICLE_INFO_VIN \<and> ce_exit_steps (ui_vin u') < ce_exit_steps (ui_vin u))"
    by (auto simp: editor_pass split: if_splits)
qed

interpretation province_exit: exit_path ops LCD_PAGE_SYSTEM_SETTING_VEHICLE_INFO_PROVINCE_ID LCD_PAGE_SYSTEM_SETTING_VEHICLE_INFO
    "\<lambda>u. ce_exit_key (ui_province_id u)" "\<lambda>u. ce_exit_steps (ui_province_id u)" for ops
proof
  fix u u' :: "'a ui" and a a' vio t
  assume u: "g_lcd_current_page_id u = LCD_PAGE_SYSTEM_SETTING_VEHICLE_INFO_PROVINCE_ID" and a: "keys_idle a"
    and p: "key_pass ops vio t (ce_exit_key (ui_province_id u)) (a, u) = (a', u')"
  from ce_exit [OF a, of LCD_PROVINCE_ID_LEN LCD_PROVINCE_ID_CHAR_COUNT "ui_province_id u"] p u a
  show "keys_idle a' \<and> (if ce_exit_steps (ui_province_id u) \<le> 1 then g_lcd_current_page_id u' = LCD_PAGE_SYSTEM_SETTING_VEHICLE_INFO
      else g_lcd_current_page_id u' = LCD_PAGE_SYSTEM_SETTING_VEHICLE_INFO_PROVINCE_ID
        \<and> ce_exit_steps (ui_province_id u') < ce_exit_steps (ui_province_id u))"
    by (auto simp: editor_pass split: if_splits)
qed

interpretation city_exit: exit_path ops LCD_PAGE_SYSTEM_SETTING_VEHICLE_INFO_CITY_ID LCD_PAGE_SYSTEM_SETTING_VEHICLE_INFO
    "\<lambda>u. ce_exit_key (ui_city_id u)" "\<lambda>u. ce_exit_steps (ui_city_id u)" for ops
proof
  fix u u' :: "'a ui" and a a' vio t
  assume u: "g_lcd_current_page_id u = LCD_PAGE_SYSTEM_SETTING_VEHICLE_INFO_CITY_ID" and a: "keys_idle a"
    and p: "key_pass ops vio t (ce_exit_key (ui_city_id u)) (a, u) = (a', u')"
  from ce_exit [OF a, of LCD_CITY_ID_LEN LCD_CITY_ID_CHAR_COUNT "ui_city_id u"] p u a
  show "keys_idle a' \<and> (if ce_exit_steps (ui_city_id u) \<le> 1 then g_lcd_current_page_id u' = LCD_PAGE_SYSTEM_SETTING_VEHICLE_INFO
      else g_lcd_current_page_id u' = LCD_PAGE_SYSTEM_SETTING_VEHICLE_INFO_CITY_ID
        \<and> ce_exit_steps (ui_city_id u') < ce_exit_steps (ui_city_id u))"
    by (auto simp: editor_pass split: if_splits)
qed

text \<open>The plate editor: the focus is moved on to the exit field.\<close>

definition plate_exit_key :: "plate_edit \<Rightarrow> adc_key" where
  "plate_exit_key e = (if pl_focus e = LCD_PLATE_FOCUS_EXIT then ADC_KEY_S4 else ADC_KEY_S1)"

definition plate_exit_steps :: "plate_edit \<Rightarrow> nat" where
  "plate_exit_steps e = (if pl_focus e \<le> LCD_PLATE_FOCUS_EXIT then 9 - unat (pl_focus e) else 10)"

lemma plate_exit_next:
  "pl_focus e \<noteq> LCD_PLATE_FOCUS_EXIT \<Longrightarrow> 1 < plate_exit_steps e \<and> plate_exit_steps (plate_key_s1 e) < plate_exit_steps e"
  "pl_focus e = LCD_PLATE_FOCUS_EXIT \<Longrightarrow> plate_exit_steps e = 1"
proof -
  have "unat (pl_focus e) \<noteq> 8" if "pl_focus e \<noteq> 8" using that word_unat_eq_iff [of "pl_focus e" 8] by simp
  then show "pl_focus e \<noteq> LCD_PLATE_FOCUS_EXIT \<Longrightarrow> 1 < plate_exit_steps e \<and> plate_exit_steps (plate_key_s1 e) < plate_exit_steps e"
    by (auto simp: plate_exit_steps_def plate_key_s1_def dvr_const word_less_nat_alt word_le_nat_alt unat_word_ariths)
  show "pl_focus e = LCD_PLATE_FOCUS_EXIT \<Longrightarrow> plate_exit_steps e = 1" by (simp add: plate_exit_steps_def dvr_const)
qed

interpretation plate_exit: exit_path ops LCD_PAGE_SYSTEM_SETTING_VEHICLE_INFO_PLATE_SET LCD_PAGE_SYSTEM_SETTING_VEHICLE_INFO
    "\<lambda>u. plate_exit_key (ui_plate u)" "\<lambda>u. plate_exit_steps (ui_plate u)" for ops
proof
  fix u u' :: "'a ui" and a a' vio t
  assume u: "g_lcd_current_page_id u = LCD_PAGE_SYSTEM_SETTING_VEHICLE_INFO_PLATE_SET" and a: "keys_idle a"
    and p: "key_pass ops vio t (plate_exit_key (ui_plate u)) (a, u) = (a', u')"
  have "keys_idle a' \<and> (if pl_focus (ui_plate u) = LCD_PLATE_FOCUS_EXIT then g_lcd_current_page_id u' = LCD_PAGE_SYSTEM_SETTING_VEHICLE_INFO
      else g_lcd_current_page_id u' = LCD_PAGE_SYSTEM_SETTING_VEHICLE_INFO_PLATE_SET \<and> ui_plate u' = plate_key_s1 (ui_plate u))"
    using p u a
    by (auto simp: editor_pass plate_exit_key_def plate_key_s4_def consume_defs consume_raised [OF a] dvr_const split: if_splits)
  then show "keys_idle a' \<and> (if plate_exit_steps (ui_plate u) \<le> 1 then g_lcd_current_page_id u' = LCD_PAGE_SYSTEM_SETTING_VEHICLE_INFO
      else g_lcd_current_page_id u' = LCD_PAGE_SYSTEM_SETTING_VEHICLE_INFO_PLATE_SET
        \<and> plate_exit_steps (ui_plate u') < plate_exit_steps (ui_plate u))"
    using plate_exit_next [of "ui_plate u"] by (auto split: if_splits)
qed

text \<open>The telephone editor: the back function of the action field.\<close>

definition phone_exit_key :: "phone_edit \<Rightarrow> adc_key" where
  "phone_exit_key e = (if ph_focus e = LCD_LOCAL_PHONE_FOCUS_NUMBER \<or> ph_focus e = LCD_LOCAL_PHONE_FOCUS_DIGIT
     then ADC_KEY_S1 else if ph_func_index e = 0 then ADC_KEY_S4 else ADC_KEY_S3)"

definition phone_exit_steps :: "phone_edit \<Rightarrow> nat" where
  "phone_exit_steps e = (if ph_focus e = LCD_LOCAL_PHONE_FOCUS_NUMBER then 4
     else if ph_focus e = LCD_LOCAL_PHONE_FOCUS_DIGIT then 3 else if ph_func_index e = 0 then 1 else 2)"

lemma phone_page_keys:
  assumes "g_lcd_current_page_id u = LCD_PAGE_SYSTEM_SETTING_HOST_PARAM_LOCAL_PHONE" "keys_idle a"
  shows "key_pass ops vio t ADC_KEY_S1 (a, u) = (a, lcd_pass_end ops vio t (phone_edited phone_key_s1 u))"
    "key_pass ops vio t ADC_KEY_S3 (a, u) = (a, lcd_pass_end ops vio t (phone_edited phone_key_s3 u))"
    "key_pass ops vio t ADC_KEY_S4 (a, u) = (a, lcd_pass_end ops vio t (phone_key_s4 ops (at_key t) u))"
  using assms(1)
  by (simp_all add: key_pass_def svc_lcd_thread_pass_def page_pass_def page_handlers_def handler_defs consume_defs
      consume_raised [OF assms(2)] Let_def)

lemma phone_exit_next:
  "phone_exit_key e = ADC_KEY_S1 \<Longrightarrow> 1 < phone_exit_steps e \<and> phone_exit_steps (phone_key_s1 e) < phone_exit_steps e"
  "phone_exit_key e = ADC_KEY_S3 \<Longrightarrow> 1 < phone_exit_steps e \<and> phone_exit_steps (phone_key_s3 e) < phone_exit_steps e"
proof -
  have one: "f < 1 \<longleftrightarrow> f = 0" for f :: u8 by (simp add: word_less_nat_alt unat_eq_zero)
  show "phone_exit_key e = ADC_KEY_S1 \<Longrightarrow> 1 < phone_exit_steps e \<and> phone_exit_steps (phone_key_s1 e) < phone_exit_steps e"
    "phone_exit_key e = ADC_KEY_S3 \<Longrightarrow> 1 < phone_exit_steps e \<and> phone_exit_steps (phone_key_s3 e) < phone_exit_steps e"
    by (auto simp: phone_exit_key_def phone_exit_steps_def phone_key_s1_def phone_key_s3_def one dvr_const split: if_splits)
qed

interpretation phone_exit: exit_path ops LCD_PAGE_SYSTEM_SETTING_HOST_PARAM_LOCAL_PHONE LCD_PAGE_SYSTEM_SETTING_HOST_PARAM
    "\<lambda>u. phone_exit_key (ui_phone u)" "\<lambda>u. phone_exit_steps (ui_phone u)" for ops
proof
  fix u u' :: "'a ui" and a a' vio t
  let ?e = "ui_phone u"
  assume u: "g_lcd_current_page_id u = LCD_PAGE_SYSTEM_SETTING_HOST_PARAM_LOCAL_PHONE" and a: "keys_idle a"
    and p: "key_pass ops vio t (phone_exit_key ?e) (a, u) = (a', u')"
  consider "phone_exit_key ?e = ADC_KEY_S1" | "phone_exit_key ?e = ADC_KEY_S3"
    | "phone_exit_key ?e = ADC_KEY_S4" "ph_focus ?e \<noteq> LCD_LOCAL_PHONE_FOCUS_NUMBER" "ph_focus ?e \<noteq> LCD_LOCAL_PHONE_FOCUS_DIGIT"
      "ph_func_index ?e = 0" "phone_exit_steps ?e = 1"
    by (cases "ph_focus ?e = LCD_LOCAL_PHONE_FOCUS_NUMBER \<or> ph_focus ?e = LCD_LOCAL_PHONE_FOCUS_DIGIT"; cases "ph_func_index ?e = 0")
       (simp_all add: phone_exit_key_def phone_exit_steps_def)
  then show "keys_idle a' \<and> (if phone_exit_steps ?e \<le> 1 then g_lcd_current_page_id u' = LCD_PAGE_SYSTEM_SETTING_HOST_PARAM
      else g_lcd_current_page_id u' = LCD_PAGE_SYSTEM_SETTING_HOST_PARAM_LOCAL_PHONE
        \<and> phone_exit_steps (ui_phone u') < phone_exit_steps ?e)"
  proof cases
    case 1
    then have "a' = a" "u' = lcd_pass_end ops vio t (phone_edited phone_key_s1 u)" using p phone_page_keys(1) [OF u a] by simp_all
    then show ?thesis using phone_exit_next(1) [OF 1] a u by (simp add: phone_edited_def pass_end_same page_shapes)
  next
    case 2
    then have "a' = a" "u' = lcd_pass_end ops vio t (phone_edited phone_key_s3 u)" using p phone_page_keys(2) [OF u a] by simp_all
    then show ?thesis using phone_exit_next(2) [OF 2] a u by (simp add: phone_edited_def pass_end_same page_shapes)
  next
    case 3
    then have "a' = a" "u' = lcd_pass_end ops vio t (phone_key_s4 ops (at_key t) u)" using p phone_page_keys(3) [OF u a] by simp_all
    then show ?thesis using 3 a by (simp add: phone_key_s4_def Let_def exit_page)
  qed
qed

section \<open>The way home\<close>

lemma parent_pages:
  assumes "p \<noteq> LCD_PAGE_MAX" "parent_id (g_lcd_pages_table ops now p) = q" "q \<noteq> LCD_PAGE_MAX"
  shows "\<not> own_keys q" "q \<noteq> LCD_PAGE_COMMON_CONFIG_OK" "auto_return_ms (g_lcd_pages_table ops' now' q) = 0"
  using assms by (cases p; auto simp: page_shapes own_keys_def)+

lemma level_independent: "page_level ops now p = page_level ops' now' p"
  by (cases p; simp add: page_level_def page_shapes numeral_eq_Suc)

lemma menus_home:
  assumes "g_lcd_current_page_id u = p" "\<not> own_keys p" "p \<noteq> LCD_PAGE_COMMON_CONFIG_OK" "p \<noteq> LCD_PAGE_MAX"
  shows "home_within ops (page_level at24_ops 0 p) u"
  using assms
proof (induction "page_level at24_ops 0 p" arbitrary: p u)
  case 0
  have "p = LCD_PAGE_HOME" using 0 by (cases p; simp add: page_level_def page_shapes numeral_eq_Suc own_keys_def)
  then show ?case using 0 by simp
next
  case (Suc n)
  have h: "p \<noteq> LCD_PAGE_HOME" using Suc.hyps(2) by (auto simp: page_level_def page_shapes numeral_eq_Suc)
  define q where "q = parent_id (g_lcd_pages_table at24_ops 0 p)"
  have q: "q \<noteq> LCD_PAGE_MAX" using Suc.hyps(2) level_step(2) [of at24_ops 0 p] by (auto simp: q_def)
  have par: "parent_id (g_lcd_pages_table ops now p) = q" for now
    unfolding q_def by (cases p) (simp_all add: page_shapes)
  have r: "auto_return_ms (g_lcd_pages_table ops now q) = 0" for now by (rule parent_pages(3) [OF Suc.prems(4) par q])
  have n: "n = page_level at24_ops 0 q" using Suc.hyps(2) level_step(1) [of at24_ops 0 p] q by (simp add: q_def)
  show ?case
    unfolding Suc.hyps(2) [symmetric]
  proof (rule home_step)
    fix vio t a
    assume a: "keys_idle a"
    let ?s = "key_pass ops vio t ADC_KEY_S1 (a, u)"
    note k = back_key [OF a, of u ops vio t]
    have "snd ?s = lcd_pass_end ops vio t (lcd_page_enter (ui_env ops (at_key t)) (at_key t) q u)"
      using k(2) Suc.prems h q par by (simp add: lcd_page_handle_back_def)
    then have "g_lcd_current_page_id (snd ?s) = q"
      using r q by (simp add: pass_end_same hook.enter_page)
    then have "home_within ops n (snd ?s)"
      unfolding n using parent_pages [OF Suc.prems(4) par q] q by (intro Suc.hyps(1) [OF n]) auto
    then show "keys_idle (fst ?s) \<and> home_within ops n (snd ?s)" using k(1) Suc.prems h by simp
  qed
qed

lemma pages_home:
  assumes "p \<noteq> LCD_PAGE_COMMON_CONFIG_OK" "p \<noteq> LCD_PAGE_MAX" "g_lcd_current_page_id u = p"
  shows "home_within ops 13 u"
proof (cases "own_keys p")
  case False
  then show ?thesis
    using home_within_mono [OF menus_home [OF assms(3)]] assms level_bound [of at24_ops 0 p] by simp
next
  case True
  have v: "home_within ops 3 v" if "g_lcd_current_page_id v = LCD_PAGE_SYSTEM_SETTING_VEHICLE_INFO" for v
    using menus_home [OF that, of ops] by (simp add: own_keys_def page_level_def page_shapes numeral_eq_Suc)
  have h: "home_within ops 3 v" if "g_lcd_current_page_id v = LCD_PAGE_SYSTEM_SETTING_HOST_PARAM" for v
    using menus_home [OF that, of ops] by (simp add: own_keys_def page_level_def page_shapes numeral_eq_Suc)
  have b: "ce_exit_steps e \<le> Suc 9" "plate_exit_steps f \<le> Suc 9" "phone_exit_steps g \<le> Suc 9" for e :: "'m char_edit" and f g
    by (auto simp: ce_exit_steps_def plate_exit_steps_def phone_exit_steps_def)
  have n: "Suc (3 + 9) = 13" by simp
  note editors = vin_exit.leaves [OF v _ b(1), unfolded n] province_exit.leaves [OF v _ b(1), unfolded n]
    city_exit.leaves [OF v _ b(1), unfolded n] plate_exit.leaves [OF v _ b(2), unfolded n]
    phone_exit.leaves [OF h _ b(3), unfolded n]
  have "home_within ops 5 u" if "p = LCD_PAGE_DRIVE_RECORD_INFO_CENTER_TEXT_NORMAL"
  proof -
    have m: "home_within ops 4 v" if "g_lcd_current_page_id v = LCD_PAGE_DRIVE_RECORD_INFO_CENTER_TEXT" for v
      using menus_home [OF that, of ops] by (simp add: own_keys_def page_level_def page_shapes numeral_eq_Suc)
    have "home_within ops (Suc 4) u"
    proof (rule home_step)
      fix vio t a
      assume "keys_idle a"
      note k = text_key [OF this, of u ops vio t]
      show "keys_idle (fst (key_pass ops vio t ADC_KEY_S1 (a, u))) \<and> home_within ops 4 (snd (key_pass ops vio t ADC_KEY_S1 (a, u)))"
        using k assms(3) that
        by (simp add: m pass_end_same enter_hook_env [of ops "at_key t"] hook.enter_page page_shapes)
    qed
    then show ?thesis by simp
  qed
  then have "home_within ops 13 u" if "p = LCD_PAGE_DRIVE_RECORD_INFO_CENTER_TEXT_NORMAL"
    using that by (auto intro: home_within_mono)
  then show ?thesis using True editors assms(3) by (auto simp: own_keys_def)
qed

lemma way_home:
  assumes "ui_nav_ok u" "return_ok u"
  shows "home_within ops 14 u"
proof (cases "g_lcd_current_page_id u = LCD_PAGE_COMMON_CONFIG_OK")
  case True
  let ?q = "g_lcd_common_ok_return_page u"
  have q: "?q \<noteq> LCD_PAGE_MAX" "?q \<noteq> LCD_PAGE_COMMON_CONFIG_OK" "?q \<noteq> LCD_PAGE_DRIVE_RECORD_LOAD_STATUS_OK"
    using assms(2) by (simp_all add: return_ok_def return_target_def)
  then have r: "auto_return_ms (g_lcd_pages_table ops now ?q) = 0" for now
    by (cases ?q) (simp_all add: page_shapes)
  have "home_within ops (Suc 13) u"
  proof (rule home_step)
    fix vio t a
    assume "keys_idle a"
    note k = back_key [OF this, of u ops vio t]
    have "g_lcd_current_page_id (snd (key_pass ops vio t ADC_KEY_S1 (a, u))) = ?q"
      using k(2) True q(1) r by (simp add: own_keys_def lcd_page_handle_back_def pass_end_same hook.enter_page)
    then have "home_within ops 13 (snd (key_pass ops vio t ADC_KEY_S1 (a, u)))"
      using q by (intro pages_home) auto
    then show "keys_idle (fst (key_pass ops vio t ADC_KEY_S1 (a, u))) \<and> home_within ops 13 (snd (key_pass ops vio t ADC_KEY_S1 (a, u)))"
      using k(1) True by (simp add: own_keys_def)
  qed
  then show ?thesis by simp
next
  case False
  moreover have "g_lcd_current_page_id u \<noteq> LCD_PAGE_MAX" using assms(1) by (simp add: ui_nav_ok_def nav_ok_def)
  ultimately have "home_within ops 13 u" by (rule pages_home) simp
  then show ?thesis by (rule home_within_mono) simp
qed

end
