(* ===== verification/App_Task.thy ===== *)
theory App_Task
  imports Svc_Power App_Can Uart_Cmd Svc_Lcd_Home
begin

text \<open>
  The firmware as a whole: \<open>main\<close>, the initialisation and the start of the threads
  (\<open>src/applications/main.c\<close>, \<open>app_init.c\<close>, \<open>app_task.c\<close>, the task starts of the services), the
  status light (\<open>svc_led.c\<close>, \<open>src/board/rtt_board.c\<close>) and the interleaving of the threads. The serial link and the display share the store, the configuration
  cache and the displayed data; the power and input services read the ADC snapshot. A step of the
  system is one pass of a thread or one interrupt.
\<close>

section \<open>Data\<close>

text \<open>The threads of the services; those of the CAN module are part of its own state.\<close>

datatype app_thread = LED_THREAD | POWER_THREAD | LCD_THREAD | IO_THREAD | ADC_THREAD | STORAGE_THREAD
  | UART_THREAD | VERSION_TX_THREAD

type_synonym 'b link = "('b, ('b, unit) ui_ext) uart"

record 'b dvr =
  d_adc :: adc_state
  d_power :: power_state
  d_can :: can_state
  d_vio :: vehicle_io
  d_link :: "'b link"
  d_threads :: "app_thread list"
  d_lcd_running :: bool
  d_led :: bool

text \<open>What the kernel and the devices answer during the start.\<close>

record boot_env =
  be_tick :: tick
  be_can :: can_env
  be_i2c_found :: bool
  be_uart :: uart_env
  be_thread_created :: "app_thread \<Rightarrow> bool"

text \<open>The memory when \<open>main\<close> is entered: the C initialisers; the EEPROM and the pins are as they are.\<close>

definition dvr_static :: "'b storage \<Rightarrow> power_state \<Rightarrow> 'b dvr" where
  "dvr_static st pw =
     \<lparr>d_adc = svc_adc_init, d_power = pw, d_can = can_boot, d_vio = svc_vehicle_io_init,
      d_link = \<lparr>g_uart_cmd_rx_ring = ring_zero, u_parser = parser_zero,
        g_uart_cmd_last_frame = \<lparr>fr_data = replicate 512 0, fr_length = 0\<rparr>, g_uart_cmd_tx_cb = None, g_uart_cmd_dev = False,
        g_uart_cmd_rx_sem = 0, u_text = text_rx_zero, g_mcu_config_cache = config_status_zero,
        u_odometer = odometer_static, u_storage = st, u_lcd = ui_static st config_status_zero, u_sent = []\<rparr>,
      d_threads = [], d_lcd_running = False, d_led = False\<rparr>"

section \<open>The status light\<close>

text \<open>\<open>app_init_led_pins\<close> sets two outputs of the power service as well, which sets them again itself.\<close>

definition APP_LED0 :: nat where [dvr_const]: "APP_LED0 = 0"

definition app_init_led_pins :: "'b dvr \<Rightarrow> 'b dvr" where
  "app_init_led_pins d = d\<lparr>d_led := False, d_power := (d_power d)\<lparr>pwren_soc := True, supercap_chrg := True\<rparr>\<rparr>"

definition app_led_write :: "nat \<Rightarrow> bool \<Rightarrow> 'b dvr \<Rightarrow> 'b dvr" where
  "app_led_write index state d = (if index = APP_LED0 then d\<lparr>d_led := state\<rparr> else d)"

definition svc_led_init :: rt_err where
  "svc_led_init = RT_EOK"

text \<open>
  The thread writes on and off in turn with a delay after each write, and nothing else writes the
  light after the start, so its level tells which write is next.
\<close>

definition svc_led_thread_pass :: "'b dvr \<Rightarrow> 'b dvr" where
  "svc_led_thread_pass d = app_led_write APP_LED0 (\<not> d_led d) d"

section \<open>Start\<close>

definition app_framework_init :: "'b i2c_ops \<Rightarrow> boot_env \<Rightarrow> 'b dvr \<Rightarrow> rt_err \<times> 'b dvr" where
  "app_framework_init ops e d =
     (let d = app_init_led_pins d;
          _ = svc_led_init;
          d = d\<lparr>d_adc := svc_adc_init\<rparr>;
          d = d\<lparr>d_link := (d_link d)\<lparr>u_lcd := snd (svc_lcd_init (u_lcd (d_link d)))\<rparr>\<rparr>;
          d = d\<lparr>d_power := svc_power_init (be_tick e) (d_power d)\<rparr>;
          d = d\<lparr>d_can := snd (svc_can_init (d_can d))\<rparr>;
          d = d\<lparr>d_vio := svc_vehicle_io_init\<rparr>;
          d = d\<lparr>d_link := (d_link d)\<lparr>u_storage := snd (svc_storage_init (be_i2c_found e) (u_storage (d_link d)))\<rparr>\<rparr>;
          (r, link) = app_usart_cmd_init ops (be_uart e) (d_link d);
          d = d\<lparr>d_link := link\<rparr>
      in if r \<noteq> RT_EOK then (RT_ERROR, d) else (RT_EOK, d))"

text \<open>The common shape of the task starts.\<close>

definition thread_start :: "app_thread \<Rightarrow> boot_env \<Rightarrow> 'b dvr \<Rightarrow> rt_err \<times> 'b dvr" where
  "thread_start t e d =
     (if \<not> be_thread_created e t then (RT_ERROR, d) else (RT_EOK, d\<lparr>d_threads := d_threads d @ [t]\<rparr>))"

definition svc_led_task_start :: "boot_env \<Rightarrow> 'b dvr \<Rightarrow> rt_err \<times> 'b dvr" where
  "svc_led_task_start = thread_start LED_THREAD"

definition svc_power_task_start :: "boot_env \<Rightarrow> 'b dvr \<Rightarrow> rt_err \<times> 'b dvr" where
  "svc_power_task_start = thread_start POWER_THREAD"

definition svc_lcd_task_start :: "boot_env \<Rightarrow> 'b dvr \<Rightarrow> rt_err \<times> 'b dvr" where
  "svc_lcd_task_start = thread_start LCD_THREAD"

definition svc_vehicle_io_task_start :: "boot_env \<Rightarrow> 'b dvr \<Rightarrow> rt_err \<times> 'b dvr" where
  "svc_vehicle_io_task_start = thread_start IO_THREAD"

definition svc_adc_task_start :: "boot_env \<Rightarrow> 'b dvr \<Rightarrow> rt_err \<times> 'b dvr" where
  "svc_adc_task_start = thread_start ADC_THREAD"

definition svc_storage_task_start :: "boot_env \<Rightarrow> 'b dvr \<Rightarrow> rt_err \<times> 'b dvr" where
  "svc_storage_task_start = thread_start STORAGE_THREAD"

definition can_tasks :: "boot_env \<Rightarrow> 'b dvr \<Rightarrow> rt_err \<times> 'b dvr" where
  "can_tasks e d = (let (r, c) = svc_can_task_start (be_can e) (d_can d) in (r, d\<lparr>d_can := c\<rparr>))"

definition uart_tasks :: "'b i2c_ops \<Rightarrow> boot_env \<Rightarrow> 'b dvr \<Rightarrow> rt_err \<times> 'b dvr" where
  "uart_tasks ops e d =
     (let (r, link) = app_usart_cmd_task_start ops (be_thread_created e UART_THREAD)
            (be_thread_created e VERSION_TX_THREAD) (d_link d)
      in (r, d\<lparr>d_link := link,
               d_threads := d_threads d @ (if be_thread_created e UART_THREAD
                 then UART_THREAD # (if be_thread_created e VERSION_TX_THREAD then [VERSION_TX_THREAD] else [])
                 else [])\<rparr>))"

text \<open>A sequence of starts, left at the first that fails.\<close>

fun start_all :: "('s \<Rightarrow> rt_err \<times> 's) list \<Rightarrow> 's \<Rightarrow> rt_err \<times> 's" where
  "start_all [] s = (RT_EOK, s)"
| "start_all (f # fs) s = (let (result, s) = f s in if result \<noteq> RT_EOK then (result, s) else start_all fs s)"

definition app_task_start :: "'b i2c_ops \<Rightarrow> boot_env \<Rightarrow> 'b dvr \<Rightarrow> rt_err \<times> 'b dvr" where
  "app_task_start ops e d =
     start_all [svc_led_task_start e, svc_power_task_start e, can_tasks e, svc_lcd_task_start e,
       svc_vehicle_io_task_start e, svc_adc_task_start e, svc_storage_task_start e, uart_tasks ops e] d"

text \<open>\<open>main\<close> ignores both results.\<close>

definition app_main :: "'b i2c_ops \<Rightarrow> boot_env \<Rightarrow> 'b dvr \<Rightarrow> 'b dvr" where
  "app_main ops e d = snd (app_task_start ops e (snd (app_framework_init ops e d)))"

section \<open>The threads together\<close>

text \<open>A pass of the display thread on the variables it shares with the serial link.\<close>

definition link_ui :: "'b link \<Rightarrow> 'b ui" where
  "link_ui w = (u_lcd w)\<lparr>ui_storage := u_storage w, ui_config_cache := g_mcu_config_cache w\<rparr>"

definition set_link_ui :: "'b ui \<Rightarrow> 'b link \<Rightarrow> 'b link" where
  "set_link_ui u w = w\<lparr>u_lcd := u, u_storage := ui_storage u, g_mcu_config_cache := ui_config_cache u\<rparr>"

definition lcd_thread_step :: "'b i2c_ops \<Rightarrow> ui_ticks \<Rightarrow> 'b dvr \<Rightarrow> 'b dvr" where
  "lcd_thread_step ops t d =
     (let (a, u) = svc_lcd_thread_pass ops (d_vio d) t (d_adc d, link_ui (d_link d))
      in d\<lparr>d_adc := a, d_link := set_link_ui u (d_link d)\<rparr>)"

text \<open>
  A step of the system: a pass of the display thread, or what any other thread or an interrupt does,
  the start of the display thread and a restart of the controller included.
\<close>

inductive dvr_background :: "'b i2c_ops \<Rightarrow> 'b dvr \<Rightarrow> 'b dvr \<Rightarrow> bool" for ops where
  led_pass: "LED_THREAD \<in> set (d_threads d) \<Longrightarrow> dvr_background ops d (svc_led_thread_pass d)"
| adc_pass: "ADC_THREAD \<in> set (d_threads d) \<Longrightarrow> dvr_background ops d (d\<lparr>d_adc := svc_adc_sample_update ad (d_adc d)\<rparr>)"
| io_pass: "IO_THREAD \<in> set (d_threads d) \<Longrightarrow>
    dvr_background ops d (d\<lparr>d_vio := svc_vehicle_io_thread_pass pin (svc_adc_get_snapshot (d_adc d)) (d_vio d)\<rparr>)"
| power_on: "POWER_THREAD \<in> set (d_threads d) \<Longrightarrow>
    svc_power_thread_pass pt (svc_adc_get_snapshot (d_adc d)) (svc_vehicle_io_get_state (d_vio d)) (d_power d) = Some pw \<Longrightarrow>
    dvr_background ops d (d\<lparr>d_power := pw\<rparr>)"
| power_restart: "POWER_THREAD \<in> set (d_threads d) \<Longrightarrow>
    svc_power_thread_pass pt (svc_adc_get_snapshot (d_adc d)) (svc_vehicle_io_get_state (d_vio d)) (d_power d) = None \<Longrightarrow>
    dvr_background ops d (app_main ops e (dvr_static (u_storage (d_link d)) (d_power d)))"
| can_irq: "dvr_background ops d (d\<lparr>d_can := app_can_rx_indicate i (d_can d)\<rparr>)"
| can_rx: "dvr_background ops d (d\<lparr>d_can := app_can_rx_thread n fifo (d_can d)\<rparr>)"
| can_monitor: "dvr_background ops d (d\<lparr>d_can := app_can_monitor_thread now (d_can d)\<rparr>)"
| lcd_begin: "LCD_THREAD \<in> set (d_threads d) \<Longrightarrow> \<not> d_lcd_running d \<Longrightarrow>
    dvr_background ops d (d\<lparr>d_link := (d_link d)\<lparr>u_lcd := svc_lcd_thread_start (u_lcd (d_link d))\<rparr>, d_lcd_running := True\<rparr>)"
| uart_irq: "app_uart_cmd_rx_indicate rd n (q :: bytes, d_link d) = (q', w) \<Longrightarrow> dvr_background ops d (d\<lparr>d_link := w\<rparr>)"
| uart_pass: "UART_THREAD \<in> set (d_threads d) \<Longrightarrow> app_usart_cmd_thread_pass ops (d_link d) = Some w \<Longrightarrow>
    dvr_background ops d (d\<lparr>d_link := w\<rparr>)"
| version_tx: "VERSION_TX_THREAD \<in> set (d_threads d) \<Longrightarrow>
    app_usart_cmd_send_mcu_version (d_vio d) (d_adc d) (d_link d) = (r, w) \<Longrightarrow> dvr_background ops d (d\<lparr>d_link := w\<rparr>)"

inductive dvr_step :: "'b i2c_ops \<Rightarrow> 'b dvr \<Rightarrow> 'b dvr \<Rightarrow> bool" for ops where
  background: "dvr_background ops d d' \<Longrightarrow> dvr_step ops d d'"
| lcd_pass: "d_lcd_running d \<Longrightarrow> dvr_step ops d (lcd_thread_step ops t d)"

inductive dvr_reach :: "'b i2c_ops \<Rightarrow> 'b dvr \<Rightarrow> bool" for ops where
  boot: "dvr_reach ops (app_main ops e (dvr_static st pw))"
| step: "dvr_reach ops d \<Longrightarrow> dvr_step ops d d' \<Longrightarrow> dvr_reach ops d'"

section \<open>What the serial link does to the display\<close>

lemmas led_defs = svc_led_thread_pass_def app_led_write_def APP_LED0_def

lemmas task_start_defs = svc_led_task_start_def svc_power_task_start_def svc_lcd_task_start_def
  svc_vehicle_io_task_start_def svc_adc_task_start_def svc_storage_task_start_def

lemma start_all_kept: "P s \<Longrightarrow> (\<And>f s. f \<in> set fs \<Longrightarrow> P s \<Longrightarrow> P (snd (f s))) \<Longrightarrow> P (snd (start_all fs s))"
proof (induction fs arbitrary: s)
  case (Cons f fs)
  have "P (snd (f s))" using Cons.prems by simp
  then show ?case using Cons.IH [of "snd (f s)"] Cons.prems(2) by (auto simp: Let_def case_prod_unfold)
qed simp

text \<open>
  What the serial link does to the display goes through eight update functions: a predicate they keep
  is kept by the reception and handling of any bytes.
\<close>

locale ui_updated =
  fixes I :: "'b ui \<Rightarrow> bool"
  assumes home_time: "I u \<Longrightarrow> I (svc_lcd_update_home_time ho mi se u)"
    and top_status: "I u \<Longrightarrow> I (svc_lcd_update_top_status v u)"
    and home_speed: "I u \<Longrightarrow> I (svc_lcd_update_home_speed sp u)"
    and drive_time: "I u \<Longrightarrow> I (svc_lcd_update_drive_time dh dm ds u)"
    and card_id: "I u \<Longrightarrow> I (svc_lcd_update_card_id cid u)"
    and home_location: "I u \<Longrightarrow> I (svc_lcd_update_home_location la lo lad lod ts u)"
    and text_message: "I u \<Longrightarrow> I (svc_lcd_update_text_message fl ty tx n u)"
    and total_mileage: "I u \<Longrightarrow> I (svc_lcd_update_total_mileage km rm u)"
begin

lemmas updates = home_time top_status home_speed drive_time card_id home_location text_message total_mileage

lemma status_kept: "I u \<Longrightarrow> I (show_soc_status msg u)"
  by (simp add: show_soc_status_def updates split: prod.split)

lemma text_kept:
  assumes "I u"
  shows "I (snd (snd (app_uart_cmd_parse_text_frame f t u)))" "I (snd (app_uart_cmd_force_finish_text_frame t u))"
  using assms updates
  by (auto simp: app_uart_cmd_parse_text_frame_def app_uart_cmd_force_finish_text_frame_def finish_text_def Let_def)

lemma mileage_kept: "I u \<Longrightarrow> I (snd (snd (app_uart_cmd_update_total_mileage ops' sp ts (od, st, u))))"
  using updates
  by (auto simp: app_uart_cmd_update_total_mileage_def mileage_load_def mileage_save_def Let_def split: prod.split)

lemma frame_kept: "I (u_lcd w) \<Longrightarrow> I (u_lcd (handle_frame ops' f w))"
  by (simp add: handle_frame_def Let_def case_prod_unfold text_kept(1) status_kept mileage_kept split: option.split)

lemma finish_kept: "I (u_lcd w) \<Longrightarrow> I (u_lcd (force_finish w))"
  using text_kept(2) [of "u_lcd w" "u_text w"] by (auto simp: force_finish_def split: prod.split)

lemma uart_byte_kept: "I (u_lcd w) \<Longrightarrow> I (u_lcd (uart_byte ops' b w))"
  by (auto simp: uart_byte_def apply_out_def frame_kept finish_kept split: prod.split parse_out.split)

lemma poll_kept: "I (u_lcd w) \<Longrightarrow> I (u_lcd (app_usart_cmd_poll ops' w))"
proof (induction "rcount (g_uart_cmd_rx_ring w)" arbitrary: w rule: less_induct)
  case less
  show ?case
  proof (cases "app_uart_cmd_ring_pop (g_uart_cmd_rx_ring w)")
    case None
    then show ?thesis using less.prems by (subst poll_step) simp
  next
    case (Some x)
    obtain b r where x: "x = (b, r)" by fastforce
    let ?w = "uart_byte ops' b (w\<lparr>g_uart_cmd_rx_ring := r\<rparr>)"
    have "rcount (g_uart_cmd_rx_ring ?w) < rcount (g_uart_cmd_rx_ring w)"
      using pop_count Some x by (simp add: uart_byte_upd)
    moreover have "I (u_lcd ?w)" using less.prems by (intro uart_byte_kept) simp
    ultimately show ?thesis using less.hyps Some x by (subst poll_step) simp
  qed
qed

lemma link_threads_kept:
  assumes "I (u_lcd w)"
  shows "app_usart_cmd_thread_pass ops' w = Some w' \<Longrightarrow> I (u_lcd w')"
    "app_usart_cmd_send_mcu_version vio a w = (b, w') \<Longrightarrow> I (u_lcd w')"
    "app_usart_cmd_task_start ops' b1 b2 w = (r, w') \<Longrightarrow> I (u_lcd w')"
    "app_usart_cmd_init ops' e w = (r, w') \<Longrightarrow> I (u_lcd w')"
proof -
  have "I (u_lcd (app_usart_cmd_poll ops' (w\<lparr>g_uart_cmd_rx_sem := n\<rparr>)))" for n
    using assms by (intro poll_kept) simp
  then show "app_usart_cmd_thread_pass ops' w = Some w' \<Longrightarrow> I (u_lcd w')"
    by (auto simp: app_usart_cmd_thread_pass_def split: if_splits)
  show "app_usart_cmd_send_mcu_version vio a w = (b, w') \<Longrightarrow> I (u_lcd w')"
    using assms
    by (auto simp: app_usart_cmd_send_mcu_version_def Let_def call_tx_def app_uart_cmd_uart_tx_def
        split: option.splits prod.splits if_splits tx_fn.splits)
  show "app_usart_cmd_task_start ops' b1 b2 w = (r, w') \<Longrightarrow> I (u_lcd w')"
    using assms mileage_kept [of "u_lcd w" ops' 0 1 "u_odometer w" "u_storage w"]
    by (auto simp: app_usart_cmd_task_start_def Let_def split: prod.splits if_splits)
  show "app_usart_cmd_init ops' e w = (r, w') \<Longrightarrow> I (u_lcd w')"
    using assms
    by (auto simp: app_usart_cmd_init_def refresh_cache_def app_usart_cmd_set_tx_callback_def Let_def
        split: prod.splits if_splits)
qed

lemma rx_loop_lcd: "u_lcd (snd (snd (rx_loop rd n b (q, w)))) = u_lcd w"
proof (induction rd n b "(q, w)" arbitrary: q w rule: rx_loop.induct)
  case (1 rd n b q w)
  have p: "u_lcd (app_usart_cmd_push_bytes bs k v) = u_lcd v" for bs k v
    by (simp add: app_usart_cmd_push_bytes_def push_bytes_ring split: option.split)
  show ?case
    using 1 by (subst rx_loop.simps) (auto simp: Let_def p split: prod.split)
qed

lemma rx_kept: "I (u_lcd w) \<Longrightarrow> app_uart_cmd_rx_indicate rd n (q, w) = (q', w') \<Longrightarrow> I (u_lcd w')"
  using rx_loop_lcd [of rd n False q w] by (auto simp: app_uart_cmd_rx_indicate_def Let_def split: prod.splits if_splits)

end

text \<open>A predicate that holds after the initialisation as well is one that holds when \<open>main\<close> has started the threads.\<close>

locale ui_started = ui_updated I for I :: "'b ui \<Rightarrow> bool" +
  assumes initial: "I (snd (svc_lcd_init (ui_static st c)))"
begin

lemma main_kept: "I (u_lcd (d_link (app_main ops' e (dvr_static st pw))))"
proof -
  let ?l = "\<lambda>d :: 'b dvr. I (u_lcd (d_link d))"
  have "?l (snd (app_framework_init ops' e (dvr_static st pw)))"
    using initial link_threads_kept(4) [OF _ prod.collapse [symmetric], of _ ops' "be_uart e"]
    by (simp add: app_framework_init_def app_init_led_pins_def dvr_static_def Let_def case_prod_unfold)
  moreover have "?l d \<Longrightarrow> ?l (snd (f d))"
    if "f \<in> {thread_start LED_THREAD e, thread_start POWER_THREAD e, can_tasks e, thread_start LCD_THREAD e,
      thread_start IO_THREAD e, thread_start ADC_THREAD e, thread_start STORAGE_THREAD e, uart_tasks ops' e}" for f d
    using that link_threads_kept(3)
    by (auto simp: thread_start_def can_tasks_def uart_tasks_def split: prod.split)
  ultimately show ?thesis
    unfolding app_main_def app_task_start_def task_start_defs by (rule start_all_kept) auto
qed

end

text \<open>
  A predicate kept by the display thread that the changes of the displayed data keep too is kept by
  every thread. The card number fills its array of 20 bytes, which the changes keep as well.
\<close>

definition card_ok :: "'b ui \<Rightarrow> bool" where
  "card_ok u \<longleftrightarrow> length (home_card_id (g_lcd_home_ui u)) = 20"

locale ui_shared = ui_kept ops I for ops :: "'b i2c_ops" and I +
  assumes home_data: "I u \<Longrightarrow> (card_ok u \<Longrightarrow> length (home_card_id h) = 20) \<Longrightarrow> I (u\<lparr>g_lcd_home_ui := h\<rparr>)"
    and mileage_data: "I u \<Longrightarrow> I (u\<lparr>g_lcd_total_mileage_km := km, g_lcd_total_mileage_rem_m := rm\<rparr>)"
    and starts: "I (snd (svc_lcd_init (ui_static st c)))"
    and restart: "I u \<Longrightarrow> I (svc_lcd_thread_start u)"
begin

lemma set_data_kept: "I u \<Longrightarrow> I (snd (lcd_home_ui_set_data sp ho mi se dh dm ds cid u))"
  by (auto simp: lcd_home_ui_set_data_def Let_def card_ok_def split: option.splits intro!: home_data redraw)

lemma updates_kept:
  assumes "I u"
  shows "I (svc_lcd_update_home_time ho mi se u)" "I (svc_lcd_update_top_status v u)" "I (svc_lcd_update_home_speed sp u)"
    "I (svc_lcd_update_drive_time dh dm ds u)" "I (svc_lcd_update_card_id cid u)"
    "I (svc_lcd_update_home_location la lo lad lod ts u)" "I (svc_lcd_update_text_message fl ty tx n u)"
    "I (svc_lcd_update_total_mileage km rm u)"
proof -
  have h: "I (u\<lparr>g_lcd_home_ui := h\<rparr>)" if "home_card_id h = home_card_id (g_lcd_home_ui u)" for h
    using home_data [OF assms, of h] that by (simp add: card_ok_def)
  note kept = edit_text [OF assms] mileage_data [OF assms]
  show "I (svc_lcd_update_home_time ho mi se u)" "I (svc_lcd_update_top_status v u)" "I (svc_lcd_update_home_speed sp u)"
    "I (svc_lcd_update_drive_time dh dm ds u)" "I (svc_lcd_update_card_id cid u)"
    "I (svc_lcd_update_home_location la lo lad lod ts u)" "I (svc_lcd_update_text_message fl ty tx n u)"
    "I (svc_lcd_update_total_mileage km rm u)"
    using assms h redraw [OF h] kept redraw [OF kept(1)] redraw [OF kept(2)]
    by (simp_all add: svc_lcd_update_home_time_def svc_lcd_update_top_status_def svc_lcd_update_home_speed_def
      svc_lcd_update_drive_time_def svc_lcd_update_card_id_def svc_lcd_update_home_location_def
      svc_lcd_update_text_message_def svc_lcd_update_total_mileage_def Let_def set_data_kept split: option.split)
qed

end

sublocale ui_shared \<subseteq> ui_started I
  by unfold_locales ((rule updates_kept, assumption)+, rule starts)

context ui_shared
begin

lemma lcd_thread_kept: "I (u_lcd (d_link d)) \<Longrightarrow> I (u_lcd (d_link (lcd_thread_step ops t d)))"
  using pass_kept [of "(d_adc d, link_ui (d_link d))" "d_vio d" t] store(2) [OF store(1)]
  by (auto simp: lcd_thread_step_def link_ui_def set_link_ui_def split: prod.splits)

lemma reach_kept: "dvr_reach ops d \<Longrightarrow> I (u_lcd (d_link d))"
proof (induction rule: dvr_reach.induct)
  case (step d d')
  from step.hyps(2) show ?case
  proof cases
    case background
    then show ?thesis using step.IH by cases (auto simp: main_kept restart led_defs intro: rx_kept link_threads_kept)
  qed (use step.IH in \<open>simp add: lcd_thread_kept\<close>)
qed (rule main_kept)

end


section \<open>The invariants hold in every reachable state\<close>

interpretation nav_shared: ui_shared ops ui_nav_ok for ops
  by unfold_locales (auto simp: ui_nav_ok_def nav_ok_def sel_ok_def svc_lcd_init_def lcd_ui_data_reset_def ui_static_def
      lcd.defs lcd_static_def svc_lcd_thread_start_def lcd_ui_core_reset_def)

interpretation editors_shared: ui_shared ops editors_ok for ops
  using static_editors
  by unfold_locales (auto simp: editors_ok_def svc_lcd_init_def lcd_ui_data_reset_def
      svc_lcd_thread_start_def lcd_ui_core_reset_def)

interpretation screen_shared: ui_shared ops screen_ok for ops
  by unfold_locales (auto simp: screen_ok_def svc_lcd_init_def lcd_ui_data_reset_def ui_static_def
      lcd.defs lcd_static_def svc_lcd_thread_start_def lcd_ui_core_reset_def)

interpretation return_shared: ui_shared ops return_ok for ops
  by unfold_locales (auto simp: return_ok_def return_target_def svc_lcd_init_def lcd_ui_data_reset_def ui_static_def
      lcd.defs lcd_static_def svc_lcd_thread_start_def lcd_ui_core_reset_def)

lemma hook_home: "g_lcd_home_ui (lcd_page_on_enter_prepare ops p u) = g_lcd_home_ui u"
  by (cases p) (simp_all add: lcd_page_on_enter_prepare_def prepare_defs Let_def case_prod_unfold)

interpretation card_kept: ui_kept ops card_ok for ops
proof
  fix u :: "'a ui" and p now
  assume "card_ok u"
  then show "card_ok (lcd_page_enter (hook_env ops) now p u)"
    by (simp add: card_ok_def lcd_page_enter_def hook_env_def hook_home Let_def)
qed (auto simp: card_ok_def lcd_page_handle_nav_def Let_def)

interpretation card_shared: ui_shared ops card_ok for ops
  by unfold_locales (auto simp: card_ok_def svc_lcd_init_def lcd_ui_data_reset_def ui_static_def
      lcd.defs lcd_static_def svc_lcd_thread_start_def lcd_ui_core_reset_def)

lemma power_reachable: "dvr_reach ops d \<Longrightarrow> power_reach (d_power d)"
proof (induction rule: dvr_reach.induct)
  have m: "power_reach (d_power (app_main ops e (dvr_static st pw)))" for e st pw
  proof -
    let ?P = "\<lambda>d :: 'a dvr. power_reach (d_power d)"
    have "?P (snd (app_framework_init ops e (dvr_static st pw)))"
      by (simp add: app_framework_init_def app_init_led_pins_def dvr_static_def Let_def case_prod_unfold power_boot)
    then show ?thesis
      unfolding app_main_def app_task_start_def task_start_defs
      by (rule start_all_kept) (auto simp: thread_start_def can_tasks_def uart_tasks_def split: prod.split)
  qed
  { case (boot e st pw) show ?case by (rule m) }
  { case (step d d')
    from step.hyps(2) step.IH show ?case
    proof cases
      case background
      then show ?thesis using step.IH by cases (auto simp: m led_defs intro: power_pass split: prod.split)
    qed (use step.IH in \<open>simp add: lcd_thread_step_def case_prod_unfold Let_def\<close>) }
qed

section \<open>A pass of the display thread shows the current page\<close>

definition display_current :: "'b ui \<Rightarrow> bool" where
  "display_current u \<longleftrightarrow> \<not> g_lcd_need_redraw u \<and> ui_drawn u = Some (g_lcd_current_page_id u)"

lemma pass_end_shows: "screen_ok u \<Longrightarrow> display_current (lcd_pass_end ops vio t u)"
  using screen_kept.pass_end [of u ops vio t]
  by (simp add: screen_ok_def display_current_def lcd_pass_end_def Let_def split: if_splits)

lemma pass_shows:
  assumes "screen_ok u" "\<not> (g_lcd_current_page_id u = LCD_PAGE_HOME \<and> g_adc_s1_event a)"
  shows "display_current (snd (svc_lcd_thread_pass ops vio t (a, u)))"
proof -
  have p: "display_current (snd (page_pass ops vio t b u))" for b
    using screen_kept.handlers_kept [OF assms(1), of ops "at_key t" b]
    by (simp add: page_pass_def Let_def case_prod_unfold pass_end_shows screen_kept.generic_kept)
  have "screen_ok (u\<lparr>g_lcd_home_subpage := k, g_lcd_need_redraw := True\<rparr>)"
    "screen_ok (lcd_page_enter (hook_env ops) now LCD_PAGE_MAIN_MENU u)" for k now
    using screen_kept.redraw [OF screen_kept.subpage [OF assms(1)]] screen_kept.enter_any [OF assms(1)] by simp_all
  then show ?thesis
    using assms(2) p
    by (auto simp: svc_lcd_thread_pass_def Let_def case_prod_unfold svc_adc_consume_s1_event_def intro: pass_end_shows)
qed

section \<open>Which threads run\<close>

text \<open>The threads \<open>app_task_start\<close> creates, in its order.\<close>

definition task_order :: "app_thread list" where
  "task_order = [LED_THREAD, POWER_THREAD, LCD_THREAD, IO_THREAD, ADC_THREAD, STORAGE_THREAD, UART_THREAD, VERSION_TX_THREAD]"

section \<open>Properties\<close>

text \<open>A start on an erased EEPROM at which nothing fails.\<close>

definition boot_ok :: boot_env where
  "boot_ok = \<lparr>be_tick = 5, be_can = can_env_ok, be_i2c_found = True,
     be_uart = \<lparr>sem_init_result = RT_EOK, device_found = True, open_result = RT_EOK, set_rx_result = RT_EOK\<rparr>,
     be_thread_created = (\<lambda>_. True)\<rparr>"

definition dvr_booted :: "at24 dvr" where
  "dvr_booted = app_main at24_ops boot_ok (dvr_static storage_blank power_zero)"

lemma booted_reach: "dvr_reach at24_ops dvr_booted"
  unfolding dvr_booted_def by (rule boot)

text \<open>
  C17: in every state the firmware can reach, with all threads and interrupts interleaved, the indices
  of the display are in range: every editor's cursor, option and character indices lie inside their
  arrays and tables, the telephone digits are digits, the selection of every page is one of its
  choices, and the current page is a page of the table.
\<close>

theorem display_indices_in_range:
  assumes "dvr_reach ops d"
  shows "editors_ok (u_lcd (d_link d))
    \<and> (\<forall>p. unat (g_lcd_page_selected (u_lcd (d_link d)) p) < max 1 (unat (page_choices p)))
    \<and> g_lcd_current_page_id (u_lcd (d_link d)) \<noteq> LCD_PAGE_MAX"
  using editors_shared.reach_kept [OF assms] nav_shared.reach_kept [OF assms]
  by (simp add: ui_nav_ok_def nav_ok_def sel_ok_choices)

theorem display_indices_in_range_witness:
  "dvr_reach at24_ops dvr_booted \<and> editors_ok (u_lcd (d_link dvr_booted))
    \<and> unat (g_lcd_page_selected (u_lcd (d_link dvr_booted)) LCD_PAGE_MAIN_MENU) < 3"
  using display_indices_in_range [OF booted_reach] booted_reach
  by (auto simp: page_choices_def lcd_page_get_select_count_def page_shapes dest!: spec [of _ LCD_PAGE_MAIN_MENU])

text \<open>
  C18: in every reachable state the display is due to be redrawn or shows the current page, and it is
  in menu mode exactly when that is not the home page; a pass of the display thread ends with the
  current page on the display, except that the home page ignores S1 without looking at the redraw
  request.
\<close>

theorem display_consistent:
  assumes "dvr_reach ops d"
  shows "let u = u_lcd (d_link d); u' = u_lcd (d_link (lcd_thread_step ops t d))
    in (g_lcd_need_redraw u \<or> ui_drawn u = Some (g_lcd_current_page_id u))
     \<and> (g_lcd_menu_mode u \<longleftrightarrow> g_lcd_current_page_id u \<noteq> LCD_PAGE_HOME)
     \<and> (if g_lcd_current_page_id u = LCD_PAGE_HOME \<and> g_adc_s1_event (d_adc d)
        then g_lcd_current_page_id u' = LCD_PAGE_HOME \<and> g_lcd_need_redraw u' = g_lcd_need_redraw u
        else \<not> g_lcd_need_redraw u' \<and> ui_drawn u' = Some (g_lcd_current_page_id u'))"
proof -
  let ?u = "link_ui (d_link d)"
  have s: "screen_ok (u_lcd (d_link d))" "ui_nav_ok (u_lcd (d_link d))"
    using screen_shared.reach_kept [OF assms] nav_shared.reach_kept [OF assms] by blast+
  have f: "g_lcd_current_page_id ?u = g_lcd_current_page_id (u_lcd (d_link d))" "screen_ok ?u = screen_ok (u_lcd (d_link d))"
    "g_lcd_need_redraw ?u = g_lcd_need_redraw (u_lcd (d_link d))"
    by (simp_all add: link_ui_def screen_ok_def)
  have w: "u_lcd (d_link (lcd_thread_step ops t d)) = snd (svc_lcd_thread_pass ops (d_vio d) t (d_adc d, ?u))"
    by (simp add: lcd_thread_step_def set_link_ui_def case_prod_unfold Let_def)
  have h: "snd (svc_lcd_thread_pass ops (d_vio d) t (d_adc d, ?u)) = ?u"
    if "g_lcd_current_page_id (u_lcd (d_link d)) = LCD_PAGE_HOME" "g_adc_s1_event (d_adc d)"
    using that f(1) by (simp add: svc_lcd_thread_pass_def svc_adc_consume_s1_event_def)
  have p: "display_current (snd (svc_lcd_thread_pass ops (d_vio d) t (d_adc d, ?u)))"
    if "\<not> (g_lcd_current_page_id (u_lcd (d_link d)) = LCD_PAGE_HOME \<and> g_adc_s1_event (d_adc d))"
    using that s(1) f by (intro pass_shows) simp_all
  show ?thesis
    using s h p by (auto simp: Let_def w f screen_ok_def ui_nav_ok_def nav_ok_def display_current_def)
qed

theorem display_consistent_witness:
  "dvr_reach at24_ops dvr_booted
   \<and> (let u = u_lcd (d_link dvr_booted);
          u' = u_lcd (d_link (lcd_thread_step at24_ops \<lparr>at_key = 6000, at_return = 6000, at_return_enter = 6000, at_refresh = 6000\<rparr> dvr_booted))
      in (g_lcd_menu_mode u \<longleftrightarrow> g_lcd_current_page_id u \<noteq> LCD_PAGE_HOME)
        \<and> (if g_lcd_current_page_id u = LCD_PAGE_HOME \<and> g_adc_s1_event (d_adc dvr_booted)
           then g_lcd_current_page_id u' = LCD_PAGE_HOME \<and> g_lcd_need_redraw u' = g_lcd_need_redraw u
           else \<not> g_lcd_need_redraw u' \<and> ui_drawn u' = Some (g_lcd_current_page_id u')))"
  using display_consistent [OF booted_reach] booted_reach unfolding Let_def by blast

text \<open>
  C16: in every reachable state of the firmware at most 14 key presses, whenever they are taken and
  whatever the vehicle inputs do, bring the display back to the home page.
\<close>

theorem home_always_reachable:
  assumes "dvr_reach ops d"
  shows "home_within ops 14 (u_lcd (d_link d))"
  using nav_shared.reach_kept [OF assms] return_shared.reach_kept [OF assms] by (rule way_home)

theorem home_always_reachable_witness:
  "dvr_reach at24_ops dvr_booted \<and> home_within at24_ops 14 (u_lcd (d_link dvr_booted))"
  using home_always_reachable [OF booted_reach] booted_reach by blast

lemma threads_started:
  assumes "d_threads d = []"
  shows "let (r, d') = app_task_start ops e d; can = fst (svc_can_task_start (be_can e) (d_can d)) = RT_EOK
    in (r = RT_EOK \<longleftrightarrow> can \<and> list_all (be_thread_created e) task_order)
     \<and> d_threads d' = takeWhile (be_thread_created e) (if can then task_order else take 2 task_order)"
  using assms
  by (auto simp: app_task_start_def task_start_defs thread_start_def can_tasks_def uart_tasks_def task_order_def Let_def
      app_usart_cmd_task_start_def case_prod_unfold)

text \<open>
  C28: starting the threads reports success exactly when the CAN module starts and every thread can
  be created. A failure stops the sequence: the threads that run are those before the first failure
  in the fixed order, and none behind the CAN module when that fails.
\<close>

theorem task_start_outcome:
  assumes "d_threads d = []"
  shows "let (r, d') = app_task_start ops e d; can = fst (svc_can_task_start (be_can e) (d_can d)) = RT_EOK
    in (r = RT_EOK \<longleftrightarrow> can \<and> list_all (be_thread_created e) task_order)
     \<and> d_threads d' = takeWhile (be_thread_created e) (if can then task_order else take 2 task_order)"
  using assms by (rule threads_started)

theorem task_start_outcome_witness:
  "d_threads (dvr_static storage_blank power_zero) = []
   \<and> (let (r, d') = app_task_start at24_ops (boot_ok\<lparr>be_thread_created := (\<lambda>t. t \<noteq> IO_THREAD)\<rparr>) (dvr_static storage_blank power_zero)
      in r \<noteq> RT_EOK \<and> d_threads d' \<in> {[LED_THREAD, POWER_THREAD], [LED_THREAD, POWER_THREAD, LCD_THREAD]})"
proof -
  have s: "d_threads (dvr_static storage_blank power_zero) = []" by (simp add: dvr_static_def)
  show ?thesis
    using task_start_outcome [OF s, of at24_ops "boot_ok\<lparr>be_thread_created := (\<lambda>t. t \<noteq> IO_THREAD)\<rparr>"] s
    by (auto simp: boot_ok_def task_order_def Let_def split: prod.splits)
qed

end
