(* ===== verification/Lcd_Time.thy ===== *)
theory Lcd_Time
  imports Dvr_Prelude "HOL-Library.Signed_Division"
begin

unbundle bit_operations_syntax

text \<open>
  The calendar of the display (\<open>lcd_timestamp_to_local_ymdhm\<close> of
  \<open>src/applications/LCD/lcd_ui.c\<close>): the date and time of day in the zone eight hours east of
  Greenwich, from a Unix time stamp. The \<open>int32_t\<close> variables are integers cut to 32 bits by
  \<open>i32\<close>; the division of C truncates.
\<close>

section \<open>The function\<close>

definition i32 :: "int \<Rightarrow> int" where
  "i32 x = signed_take_bit 31 x"

record ymdhm =
  t_year :: u16
  t_month :: u8
  t_day :: u8
  t_hour :: u8
  t_minute :: u8

text \<open>The year, month and day of a number of days since 1 January 1970 (the block \<open>civil_from_days\<close>
  of the function).\<close>

definition civil_from_days :: "u32 \<Rightarrow> u32 \<times> u32 \<times> u32" where
  "civil_from_days days =
     (let z = i32 (i32 (uint days) + 719468);
          era = i32 ((if 0 \<le> z then z else i32 (z - 146096)) sdiv 146097);
          doe = word_of_int (i32 (z - i32 (era * 146097))) :: u32;
          yoe = (doe - doe div 1460 + doe div 36524 - doe div 146096) div 365;
          y = yoe + word_of_int era * 400;
          doy = doe - (365 * yoe + yoe div 4 - yoe div 100);
          mp = (5 * doy + 2) div 153;
          d = doy - (153 * mp + 2) div 5 + 1;
          (m, y) = (if mp < 10 then (mp + 3, y) else (mp - 9, y + 1))
      in (y, m, d))"

definition lcd_timestamp_to_local_ymdhm :: "u32 \<Rightarrow> ymdhm" where
  "lcd_timestamp_to_local_ymdhm ts =
     (let local_seconds = ts + 8 * 3600;
          days = local_seconds div 86400; secs_of_day = local_seconds mod 86400;
          (y, m, d) = civil_from_days days
      in \<lparr>t_year = ucast y, t_month = ucast m, t_day = ucast d,
          t_hour = ucast (secs_of_day div 3600), t_minute = ucast ((secs_of_day mod 3600) div 60)\<rparr>)"

section \<open>The calendar\<close>

definition leap :: "nat \<Rightarrow> bool" where
  "leap y \<longleftrightarrow> y mod 4 = 0 \<and> (y mod 100 \<noteq> 0 \<or> y mod 400 = 0)"

definition year_days :: "nat \<Rightarrow> nat" where
  "year_days y = (if leap y then 366 else 365)"

definition month_days :: "nat \<Rightarrow> nat \<Rightarrow> nat" where
  "month_days y m = (if m = 2 then if leap y then 29 else 28 else if m \<in> {4, 6, 9, 11} then 30 else 31)"

definition valid_date :: "nat \<Rightarrow> nat \<Rightarrow> nat \<Rightarrow> bool" where
  "valid_date y m d \<longleftrightarrow> 1 \<le> m \<and> m \<le> 12 \<and> 1 \<le> d \<and> d \<le> month_days y m"

text \<open>Days from 1 January 1970 to a date.\<close>

definition date_days :: "nat \<Rightarrow> nat \<Rightarrow> nat \<Rightarrow> nat" where
  "date_days y m d = sum_list (map year_days [1970..<y]) + sum_list (map (month_days y) [1..<m]) + (d - 1)"

section \<open>The computation on naturals\<close>

definition yoe_of :: "nat \<Rightarrow> nat" where
  "yoe_of doe = (doe - doe div 1460 + doe div 36524 - doe div 146096) div 365"

definition year_start :: "nat \<Rightarrow> nat" where
  "year_start k = 365 * k + k div 4 - k div 100"

definition march_ymd :: "nat \<Rightarrow> nat \<Rightarrow> nat \<times> nat \<times> nat" where
  "march_ymd y doy =
     (let mp = (5 * doy + 2) div 153; d = doy - (153 * mp + 2) div 5 + 1
      in if mp < 10 then (y, mp + 3, d) else (y + 1, mp - 9, d))"

definition civil :: "nat \<Rightarrow> nat \<times> nat \<times> nat" where
  "civil days =
     (let z = days + 719468; era = z div 146097; doe = z - era * 146097; yoe = yoe_of doe
      in march_ymd (yoe + era * 400) (doe - year_start yoe))"

lemma i32_id: "0 \<le> x \<Longrightarrow> x < 2147483648 \<Longrightarrow> i32 x = x"
  by (simp add: i32_def signed_take_bit_int_eq_self)

section \<open>Years\<close>

text \<open>The day number of 1 March of year \<open>y\<close>, counted from 1 March of year 0.\<close>

definition march1 :: "nat \<Rightarrow> nat" where
  "march1 y = y div 400 * 146097 + year_start (y mod 400)"

definition jan1 :: "nat \<Rightarrow> nat" where
  "jan1 y = sum_list (map year_days [1970..<y])"

lemma year_start_Suc:
  "year_start (Suc k) = year_start k + (if Suc k mod 4 = 0 \<and> Suc k mod 100 \<noteq> 0 then 366 else 365)"
proof -
  have "k div 100 \<le> k div 4" by (rule div_le_mono2) simp_all
  moreover have "Suc k mod 100 mod 4 = Suc k mod 4" by (simp add: mod_mod_cancel)
  then have "Suc k mod 100 = 0 \<Longrightarrow> Suc k mod 4 = 0" by simp
  ultimately show ?thesis by (auto simp: year_start_def div_Suc algebra_simps)
qed

lemma march1_Suc: "march1 (Suc y) = march1 y + year_days (Suc y)"
proof (cases "Suc (y mod 400) = 400")
  case True
  then have k: "y mod 400 = 399" "Suc y mod 400 = 0" "Suc y div 400 = Suc (y div 400)" by (simp_all add: mod_Suc div_Suc)
  have "Suc y mod 400 mod 4 = Suc y mod 4" by (simp add: mod_mod_cancel)
  then have "leap (Suc y)" using k by (simp add: leap_def)
  then show ?thesis using k by (simp add: march1_def year_days_def year_start_def)
next
  case False
  then have k: "Suc y mod 400 = Suc (y mod 400)" "Suc y div 400 = y div 400" by (simp_all add: mod_Suc div_Suc)
  have "Suc (y mod 400) mod 4 = Suc y mod 4" "Suc (y mod 400) mod 100 = Suc y mod 100"
    unfolding k(1) [symmetric] by (simp_all add: mod_mod_cancel)
  then show ?thesis using k by (auto simp: march1_def year_days_def leap_def year_start_Suc)
qed

lemma jan1_Suc: "1970 \<le> y \<Longrightarrow> jan1 (Suc y) = jan1 y + year_days y"
  by (simp add: jan1_def)

lemma jan1_march1: "1969 \<le> y \<Longrightarrow> jan1 (Suc y) + 719468 = march1 y + 306"
proof (induction y rule: dec_induct)
  case base
  then show ?case by (simp add: jan1_def march1_def year_start_def)
next
  case (step y)
  then show ?case using jan1_Suc [of "Suc y"] march1_Suc [of y] by simp
qed

lemma march1_grows: "march1 m + k \<le> march1 (m + k)"
  by (induction k) (simp_all add: march1_Suc year_days_def)

lemma year_cover: "march1 m \<le> z \<Longrightarrow> \<exists>y. m \<le> y \<and> march1 y \<le> z \<and> z < march1 (Suc y)"
proof -
  assume m: "march1 m \<le> z"
  have "z < march1 (m + k) \<Longrightarrow> \<exists>y. m \<le> y \<and> march1 y \<le> z \<and> z < march1 (Suc y)" for k
  proof (induction k)
    case (Suc k)
    then show ?case by (cases "z < march1 (m + k)") (auto intro: exI [of _ "m + k"])
  qed (use m in simp)
  moreover have "z < march1 (m + Suc z)" using march1_grows [of m "Suc z"] by simp
  ultimately show ?thesis by blast
qed

text \<open>
  The year of the era, from the day of the era: century \<open>c\<close>, four-year cycle \<open>t\<close>, year \<open>s\<close> of the
  cycle and day \<open>r\<close> of the year.
\<close>

lemma year_start_parts:
  assumes "c \<le> 3" "t \<le> 24" "s \<le> (3 :: nat)"
  shows "year_start (100 * c + 4 * t + s) = 36524 * c + 1461 * t + 365 * s"
proof -
  have "(100 * c + 4 * t + s) div 4 = 25 * c + t" "(100 * c + 4 * t + s) div 100 = c"
    using assms by (intro div_nat_eqI; simp)+
  then show ?thesis by (simp add: year_start_def)
qed

lemma yoe_parts:
  assumes cts: "c \<le> 3" "t \<le> 24" "s \<le> (3 :: nat)" and r: "r \<le> 364 \<or> r = 365 \<and> s = 3"
    and last: "1461 * t + 365 * s + r < 36524"
  shows "yoe_of (36524 * c + 1461 * t + 365 * s + r) = 100 * c + 4 * t + s"
proof -
  let ?doe = "36524 * c + 1461 * t + 365 * s + r" and ?u = "24 * c + t + 365 * s + r"
  define dl :: nat where "dl = (if ?u < 1460 then 0 else 1)"
  have "?doe = 1460 * (25 * c + t) + ?u" by simp
  then have d1: "?doe div 1460 = 25 * c + t + dl"
    using assms by (intro div_nat_eqI) (auto simp: dl_def)
  have d2: "?doe div 36524 = c" using last by (intro div_nat_eqI) auto
  have d3: "?doe div 146096 = 0" using last cts by simp
  have dr: "dl \<le> r" "r - dl \<le> 364" using assms by (auto simp: dl_def)
  have "?doe - ?doe div 1460 + ?doe div 36524 - ?doe div 146096 = 365 * (100 * c + 4 * t + s) + (r - dl)"
    unfolding d1 d2 d3 using dr by simp
  then show ?thesis unfolding yoe_of_def using dr by simp
qed

lemma yoe_year:
  assumes y: "k = y mod 400" and r: "r < year_days (Suc y)"
  shows "yoe_of (year_start k + r) = k"
proof -
  let ?c = "k div 100" and ?t = "k mod 100 div 4" and ?s = "k mod 4"
  have k400: "k < 400" using y by simp
  have k: "k = 100 * ?c + 4 * ?t + ?s"
  proof -
    have "k mod 100 mod 4 = k mod 4" by (simp add: mod_mod_cancel)
    then show ?thesis using div_mult_mod_eq [of k 100] div_mult_mod_eq [of "k mod 100" 4] by linarith
  qed
  have cts: "?c \<le> 3" "?t \<le> 24" "?s \<le> 3" using k400 by (auto simp: less_mult_imp_div_less)
  have st: "year_start k = 36524 * ?c + 1461 * ?t + 365 * ?s" using year_start_parts [OF cts] k by simp
  have r5: "r \<le> 364 \<or> r = 365 \<and> leap (Suc y)" using r by (auto simp: year_days_def split: if_splits)
  have lp: "?s = 3 \<and> (?t = 24 \<longrightarrow> ?c = 3)" if "leap (Suc y)"
  proof -
    have l: "Suc y mod 4 = 0" "Suc y mod 100 \<noteq> 0 \<or> Suc y mod 400 = 0" using that by (simp_all add: leap_def)
    have m: "k mod 4 = y mod 4" "k mod 100 = y mod 100" "k mod 100 mod 4 = k mod 4"
      using y by (simp_all add: mod_mod_cancel)
    have s3: "?s = 3" using l(1) m by (simp add: mod_Suc split: if_splits)
    have "?c = 3" if "?t = 24"
    proof -
      have "k mod 100 = 99" using div_mult_mod_eq [of "k mod 100" 4] that m(3) s3 by linarith
      then have "Suc y mod 100 = 0" using m by (simp add: mod_Suc)
      then have "k = 399" using l(2) y by (simp add: mod_Suc split: if_splits)
      then show ?thesis by simp
    qed
    then show ?thesis using s3 by blast
  qed
  show ?thesis
  proof (cases "1461 * ?t + 365 * ?s + r < 36524")
    case True
    then show ?thesis using yoe_parts [OF cts _ True] r5 lp st k by (metis add.assoc)
  next
    case False
    then have "?t = 24" "?s = 3" "r = 365" using cts r5 by auto
    moreover have "?c = 3" using lp r5 calculation by auto
    ultimately have "k = 399" "r = 365" using k by simp_all
    then show ?thesis by (simp add: yoe_of_def year_start_def)
  qed
qed

section \<open>Months\<close>

definition march_lengths :: "nat list" where
  "march_lengths = [31, 30, 31, 30, 31, 31, 30, 31, 30, 31, 31, 29]"

definition doy_check :: "nat \<Rightarrow> bool" where
  "doy_check doy \<longleftrightarrow>
     (let mp = (5 * doy + 2) div 153; d = doy - (153 * mp + 2) div 5 + 1
      in mp < 12 \<and> 1 \<le> d \<and> d \<le> march_lengths ! mp \<and> sum_list (take mp march_lengths) + d - 1 = doy
         \<and> (153 * mp + 2) div 5 \<le> doy)"

lemma month_table:
  "list_all (\<lambda>i. (153 * i + 2) div 5 = sum_list (take i march_lengths)
      \<and> 153 * i \<le> 5 * sum_list (take i march_lengths) + 2
      \<and> 5 * sum_list (take (Suc i) march_lengths) < 153 * (i + 1) + 3) [0..<12]"
  by (simp add: upt_rec march_lengths_def)

lemma take_sum: "i < length xs \<Longrightarrow> sum_list (take (Suc i) xs) = sum_list (take i xs) + (xs ! i :: nat)"
  by (simp add: take_Suc_conv_app_nth)

lemma month_cover:
  "doy < sum_list (take n xs) \<Longrightarrow>
   \<exists>i < n. sum_list (take i xs) \<le> doy \<and> doy < sum_list (take (Suc i) xs)" for doy :: nat
proof (induction n)
  case (Suc n)
  then show ?case by (cases "doy < sum_list (take n xs)") (auto intro: less_SucI)
qed simp

lemma scaled_less: "a < b \<Longrightarrow> 5 * b < 153 * (i + 1) + 3 \<Longrightarrow> 5 * a + 2 < 153 * Suc i" for a b i :: nat
proof -
  assume "a < b" "5 * b < 153 * (i + 1) + 3"
  then have "5 * (a + 1) \<le> 5 * b" "5 * b \<le> 153 * i + 155" by simp_all
  then show ?thesis by simp
qed

lemma doy_checked:
  assumes "doy < 366"
  shows "doy_check doy"
proof -
  have "sum_list (take 12 march_lengths) = 366" by (simp add: march_lengths_def)
  then obtain i where i: "i < 12" "sum_list (take i march_lengths) \<le> doy" "doy < sum_list (take (Suc i) march_lengths)"
    using month_cover [of doy 12 march_lengths] assms by auto
  have "i \<in> set [0..<12]" using i(1) by (simp only: set_upt atLeastLessThan_iff) simp
  then have t: "(153 * i + 2) div 5 = sum_list (take i march_lengths)" "153 * i \<le> 5 * sum_list (take i march_lengths) + 2"
      "5 * sum_list (take (Suc i) march_lengths) < 153 * (i + 1) + 3"
    using month_table unfolding list_all_iff by blast+
  have "153 * i \<le> 5 * doy + 2" using i(2) t(2) by linarith
  moreover have "5 * doy + 2 < 153 * Suc i" using scaled_less [OF i(3) t(3)] .
  ultimately have mp: "(5 * doy + 2) div 153 = i" by (rule div_nat_eqI)
  have "sum_list (take (Suc i) march_lengths) = sum_list (take i march_lengths) + march_lengths ! i"
    using i(1) by (intro take_sum) (simp add: march_lengths_def)
  then show ?thesis using i t mp by (simp add: doy_check_def Let_def)
qed

section \<open>Dates\<close>

lemma months_before:
  assumes "i < 10"
  shows "sum_list (map (month_days y) [1..<i + 3]) = sum_list (take i march_lengths) + (if leap y then 60 else 59)"
    "month_days y (i + 3) = march_lengths ! i"
proof -
  have "i \<in> {0, 1, 2, 3, 4, 5, 6, 7, 8, 9}" using assms by auto
  then show "sum_list (map (month_days y) [1..<i + 3]) = sum_list (take i march_lengths) + (if leap y then 60 else 59)"
    "month_days y (i + 3) = march_lengths ! i"
    by (auto simp: month_days_def march_lengths_def upt_rec)
qed

lemma march_date:
  assumes y: "1969 \<le> y" and doy: "doy < year_days (Suc y)" and ge: "719468 \<le> march1 y + doy"
  shows "case march_ymd y doy of (y', m, d) \<Rightarrow>
    valid_date y' m d \<and> date_days y' m d + 719468 = march1 y + doy"
proof -
  define mp where "mp = (5 * doy + 2) div 153"
  define d where "d = doy - (153 * mp + 2) div 5 + 1"
  have "doy < 366" using doy by (simp add: year_days_def split: if_splits)
  then have c: "mp < 12" "1 \<le> d" "d \<le> march_lengths ! mp" "sum_list (take mp march_lengths) + d - 1 = doy"
    using doy_checked [of doy] by (simp_all only: doy_check_def Let_def mp_def d_def)
  have j: "jan1 (Suc y) + 719468 = march1 y + 306" using y by (rule jan1_march1)
  show ?thesis
  proof (cases "mp < 10")
    case True
    have y70: "1970 \<le> y"
    proof (rule ccontr)
      assume "\<not> 1970 \<le> y"
      then have "y = 1969" using y by simp
      then have "306 \<le> doy" using ge by (simp add: march1_def year_start_def)
      moreover have "5 * doy + 2 < 153 * 10" using True by (simp add: mp_def div_less_iff_less_mult)
      ultimately show False by simp
    qed
    have "jan1 y + 719468 + (if leap y then 60 else 59) = march1 y"
      using j jan1_Suc [OF y70] by (cases "leap y") (simp_all add: year_days_def)
    then have "date_days y (mp + 3) d + 719468 = march1 y + doy"
      using months_before(1) [OF True, of y] c unfolding date_days_def jan1_def by simp
    moreover have "valid_date y (mp + 3) d" using c True months_before(2) [OF True, of y] by (simp add: valid_date_def)
    ultimately show ?thesis using True by (simp add: march_ymd_def Let_def mp_def d_def)
  next
    case False
    then consider "mp = 10" | "mp = 11" using c(1) by linarith
    then have "valid_date (Suc y) (mp - 9) d \<and> date_days (Suc y) (mp - 9) d + 719468 = march1 y + doy"
    proof cases
      case 1
      have "sum_list (take 10 march_lengths) = 306" "march_lengths ! 10 = 31" by (simp_all add: march_lengths_def)
      then show ?thesis
        using c j unfolding 1 by (simp add: valid_date_def month_days_def date_days_def jan1_def)
    next
      case 2
      have s: "sum_list (take 11 march_lengths) = 337" "march_lengths ! 11 = 29" by (simp_all add: march_lengths_def)
      have jan: "sum_list (map (month_days (Suc y)) [1..<2]) = 31" by (simp add: upt_rec month_days_def)
      have e: "doy = 337 + d - 1" using c(4) unfolding 2 s by simp
      then have "d \<le> month_days (Suc y) 2"
        using c(3) doy unfolding 2 s by (simp add: month_days_def year_days_def split: if_splits)
      then show ?thesis
        using c(2) e j jan unfolding 2 by (simp add: valid_date_def date_days_def jan1_def)
    qed
    then show ?thesis using False by (simp add: march_ymd_def Let_def mp_def d_def)
  qed
qed

lemma era_bound: "march1 (Suc y) \<le> (y div 400 + 1) * 146097"
proof (cases "Suc (y mod 400) = 400")
  case True
  then show ?thesis by (simp add: march1_def mod_Suc div_Suc year_start_def)
next
  case False
  then have k: "Suc (y mod 400) \<le> 399" using mod_less_divisor [of 400 y] by linarith
  have "year_start (Suc (y mod 400)) \<le> 365 * Suc (y mod 400) + Suc (y mod 400) div 4" by (simp add: year_start_def)
  also have "\<dots> \<le> 365 * 399 + 399 div 4" using k by (intro add_mono mult_le_mono div_le_mono) simp_all
  finally have "year_start (Suc (y mod 400)) \<le> 146097" by simp
  then show ?thesis using False by (simp add: march1_def mod_Suc div_Suc)
qed

section \<open>The words of the code\<close>

lemma u32_div: "a < 4294967296 \<Longrightarrow> b < 4294967296 \<Longrightarrow> (of_nat a :: u32) div of_nat b = of_nat (a div b)"
  by (simp add: word_unat_eq_iff unat_div unsigned_of_nat take_bit_nat_eq_self div_le_dividend [THEN order_le_less_trans])

lemma u32_div_numeral:
  "a < 4294967296 \<Longrightarrow> numeral n < (4294967296 :: nat) \<Longrightarrow> (of_nat a :: u32) div numeral n = of_nat (a div numeral n)"
  using u32_div [of a "numeral n"] by simp

lemma u32_mod: "a < 4294967296 \<Longrightarrow> b < 4294967296 \<Longrightarrow> (of_nat a :: u32) mod of_nat b = of_nat (a mod b)"
  by (simp add: word_unat_eq_iff unat_mod unsigned_of_nat take_bit_nat_eq_self mod_less_eq_dividend [THEN order_le_less_trans])

lemma u32_mod_numeral:
  "a < 4294967296 \<Longrightarrow> numeral n < (4294967296 :: nat) \<Longrightarrow> (of_nat a :: u32) mod numeral n = of_nat (a mod numeral n)"
  using u32_mod [of a "numeral n"] by simp

lemma u32_less: "a < 4294967296 \<Longrightarrow> b < 4294967296 \<Longrightarrow> (of_nat a :: u32) < of_nat b \<longleftrightarrow> a < b"
  by (simp add: word_less_nat_alt unsigned_of_nat take_bit_nat_eq_self)

lemma u32_less_numeral:
  "a < 4294967296 \<Longrightarrow> numeral n < (4294967296 :: nat) \<Longrightarrow> (of_nat a :: u32) < numeral n \<longleftrightarrow> a < numeral n"
  using u32_less [of a "numeral n"] by simp

lemma yoe_word:
  assumes "D < 146097"
  shows "(of_nat D - of_nat D div 1460 + of_nat D div 36524 - of_nat D div 146096) div 365 = (of_nat (yoe_of D) :: u32)"
proof -
  have le: "D div 1460 \<le> D" "D div 146096 \<le> D - D div 1460 + D div 36524"
    using assms by (auto simp: div_le_mono2)
  have "(of_nat D - of_nat D div 1460 + of_nat D div 36524 - of_nat D div 146096 :: u32)
      = of_nat (D - D div 1460 + D div 36524 - D div 146096)"
    using assms le by (simp add: u32_div_numeral of_nat_diff)
  then show ?thesis
    using u32_div [of "D - D div 1460 + D div 36524 - D div 146096" 365] assms by (simp only: yoe_of_def) simp
qed
lemma march_word:
  assumes "doy < 366" "y < 65535"
  shows "(let mp = (5 * of_nat doy + 2) div 153; d = of_nat doy - (153 * mp + 2) div 5 + 1;
              (m, y') = (if mp < 10 then (mp + 3, of_nat y) else (mp - 9, of_nat y + 1))
          in (y', m, d)) = (case march_ymd y doy of (y', m, d) \<Rightarrow> (of_nat y' :: u32, of_nat m :: u32, of_nat d :: u32))"
proof -
  define mp where "mp = (5 * doy + 2) div 153"
  have c: "mp < 12" "(153 * mp + 2) div 5 \<le> doy" 
    using doy_checked [OF assms(1)] by (simp_all only: doy_check_def Let_def mp_def)
  have mp: "(5 * of_nat doy + 2) div 153 = (of_nat mp :: u32)"
    using assms(1) u32_div [of "5 * doy + 2" 153] by (simp add: mp_def add.commute)
  have q: "(153 * of_nat mp + 2) div 5 = (of_nat ((153 * mp + 2) div 5) :: u32)"
    using c(1) u32_div [of "153 * mp + 2" 5] by (simp add: add.commute)
  have d: "of_nat doy - (153 * of_nat mp + 2) div 5 + 1 = (of_nat (doy - (153 * mp + 2) div 5 + 1) :: u32)"
    unfolding q using c(2) by (simp add: of_nat_diff)
  have lt: "(of_nat mp :: u32) < 10 \<longleftrightarrow> mp < 10" using c(1) by (simp add: u32_less_numeral)
  have s: "mp \<ge> 10 \<Longrightarrow> (of_nat mp - 9 :: u32) = of_nat (mp - 9)" by (simp add: of_nat_diff)
  show ?thesis
    unfolding mp Let_def lt d march_ymd_def mp_def [symmetric] using s by (simp add: add.commute)
qed

lemma era_split:
  obtains y r where "1969 \<le> y" "r < year_days (Suc y)" "days + 719468 = march1 y + r"
    "(days + 719468) div 146097 = y div 400"
    "days + 719468 - y div 400 * 146097 = year_start (y mod 400) + r"
    "yoe_of (year_start (y mod 400) + r) = y mod 400" "year_start (y mod 400) + r < 146097"
    "civil days = march_ymd y r"
proof -
  define z where "z = days + 719468"
  have "march1 1969 \<le> z" by (simp add: march1_def year_start_def z_def)
  then obtain y where y: "1969 \<le> y" "march1 y \<le> z" "z < march1 (Suc y)" using year_cover by blast
  define r where "r = z - march1 y"
  let ?e = "y div 400" and ?k = "y mod 400"
  have r: "r < year_days (Suc y)" using y march1_Suc [of y] by (simp add: r_def)
  have z: "z = ?e * 146097 + (year_start ?k + r)" using y(2) by (simp add: r_def march1_def)
  have lt: "year_start ?k + r < 146097" using y(3) era_bound [of y] z by simp
  have e: "z div 146097 = ?e" unfolding z using lt by simp
  have doe: "z - ?e * 146097 = year_start ?k + r" "z = march1 y + r" using z by (simp_all add: march1_def)
  have yoe: "yoe_of (year_start ?k + r) = ?k" by (rule yoe_year [OF refl r])
  have "civil days = march_ymd y r"
    unfolding civil_def Let_def z_def [symmetric] e doe(1) yoe by (simp add: add.commute)
  then show thesis using that y(1) r e doe yoe lt unfolding z_def by blast
qed

lemma civil_date:
  "case civil days of (y, m, d) \<Rightarrow> valid_date y m d \<and> date_days y m d = days"
proof -
  obtain y r where y: "1969 \<le> y" "r < year_days (Suc y)" "days + 719468 = march1 y + r"
    and c: "civil days = march_ymd y r" by (rule era_split)
  show ?thesis unfolding c using march_date [OF y(1,2)] y(3) by auto
qed

lemma civil_word:
  assumes n: "days < 49711"
  shows "civil_from_days (of_nat days) = (case civil days of (y, m, d) \<Rightarrow> (of_nat y, of_nat m, of_nat d))"
proof -
  obtain y r where y: "1969 \<le> y" "r < year_days (Suc y)" "days + 719468 = march1 y + r"
    "(days + 719468) div 146097 = y div 400" "days + 719468 - y div 400 * 146097 = year_start (y mod 400) + r"
    "yoe_of (year_start (y mod 400) + r) = y mod 400" "year_start (y mod 400) + r < 146097"
    and c: "civil days = march_ymd y r" by (rule era_split)
  define e where "e = y div 400"
  define D where "D = year_start (y mod 400) + r"
  have e6: "e \<le> 5" using n y(4) unfolding e_def by simp
  have z: "i32 (i32 (uint (of_nat days :: u32)) + 719468) = int (days + 719468)"
    using n by (simp add: i32_id unsigned_of_nat take_bit_nat_eq_self uint_nat)
  have "int (days + 719468) sdiv 146097 = int e"
    unfolding e_def y(4) [symmetric] by (simp add: signed_divide_int_def zdiv_int)
  then have era: "i32 ((if 0 \<le> int (days + 719468) then int (days + 719468) else i32 (int (days + 719468) - 146096)) sdiv 146097) = int e"
    using e6 by (simp add: i32_id)
  have De: "int (days + 719468) - int e * 146097 = int D" using y(5) y(4) unfolding e_def D_def by linarith
  have "i32 (int (days + 719468) - i32 (int e * 146097)) = int D"
    using e6 De y(7) by (simp add: i32_id D_def)
  then have doe: "(word_of_int (i32 (int (days + 719468) - i32 (int e * 146097))) :: u32) = of_nat D" by simp
  have yoe: "(of_nat D - of_nat D div 1460 + of_nat D div 36524 - of_nat D div 146096) div 365 = (of_nat (y mod 400) :: u32)"
    using yoe_word [of D] y(6,7) by (simp add: D_def)
  have k: "y mod 400 < 400" by simp
  then have "(365 * of_nat (y mod 400) + of_nat (y mod 400) div 4 - of_nat (y mod 400) div 100 :: u32) = of_nat (year_start (y mod 400))"
    by (simp add: u32_div_numeral year_start_def of_nat_diff div_le_mono2 trans_le_add2)
  then have doy: "of_nat D - (365 * of_nat (y mod 400) + of_nat (y mod 400) div 4 - of_nat (y mod 400) div 100 :: u32) = of_nat r"
    by (simp add: D_def)
  have yw: "of_nat (y mod 400) + word_of_int (int e) * 400 = (of_nat y :: u32)"
  proof -
    have "(of_nat (y mod 400 + e * 400) :: u32) = of_nat y" by (simp add: e_def)
    then show ?thesis by simp
  qed
  have "r < 366" using y(2) by (simp add: year_days_def split: if_splits)
  moreover have "y < 65535" using e6 by (simp add: e_def)
  ultimately show ?thesis
    unfolding c using march_word [of r y] unfolding civil_from_days_def Let_def z era doe yoe doy yw by simp
qed

lemma minutes: "(L div 86400 * 24 + L mod 86400 div 3600) * 60 + L mod 86400 mod 3600 div 60 = L div 60" for L :: nat
proof -
  define a b c e g h where "a = L div 86400" and "b = L mod 86400" and "c = b div 3600" and "e = b mod 3600"
    and "g = e div 60" and "h = e mod 60"
  have "L = 86400 * a + b" "b = 3600 * c + e" "e = 60 * g + h" "h < 60"
    by (simp_all add: a_def b_def c_def e_def g_def h_def)
  then have "L div 60 = (a * 24 + c) * 60 + g" by simp
  then show ?thesis by (simp add: a_def b_def c_def e_def g_def)
qed

lemma civil_small:
  assumes "days < 49711" "civil days = (y, m, d)"
  shows "y < 65536" "m < 256" "d < 256"
proof -
  obtain y' r where y: "r < year_days (Suc y')" "(days + 719468) div 146097 = y' div 400"
    and c: "civil days = march_ymd y' r" by (rule era_split)
  have "y' div 400 \<le> 5" using assms(1) y(2) by simp
  then have "y' < 2400" by simp
  moreover have "y \<le> Suc y'" using c assms(2) by (simp add: march_ymd_def Let_def split: if_splits)
  ultimately show "y < 65536" by simp
  have "valid_date y m d" using civil_date [of days] assms(2) by simp
  then show "m < 256" "d < 256" by (auto simp: valid_date_def month_days_def split: if_splits)
qed

lemma date_exact:
  "let t = lcd_timestamp_to_local_ymdhm ts in
    valid_date (unat (t_year t)) (unat (t_month t)) (unat (t_day t))
    \<and> unat (t_hour t) < 24 \<and> unat (t_minute t) < 60
    \<and> (date_days (unat (t_year t)) (unat (t_month t)) (unat (t_day t)) * 24
        + unat (t_hour t)) * 60 + unat (t_minute t)
      = (unat ts + 28800) mod 2 ^ 32 div 60"
proof -
  define L where "L = (unat ts + 28800) mod 2 ^ 32"
  have L: "L < 4294967296" by (simp add: L_def)
  have ls: "ts + 8 * 3600 = (of_nat L :: u32)"
    by (simp add: L_def word_unat_eq_iff unat_word_ariths unsigned_of_nat take_bit_nat_def)
  have dv: "(of_nat L :: u32) div 86400 = of_nat (L div 86400)" using L by (simp add: u32_div_numeral)
  have md: "(of_nat L :: u32) mod 86400 = of_nat (L mod 86400)" using L by (simp add: u32_mod_numeral)
  obtain y m d where c: "civil (L div 86400) = (y, m, d)" by (cases "civil (L div 86400)") auto
  have hm: "(of_nat (L mod 86400) :: u32) div 3600 = of_nat (L mod 86400 div 3600)"
    "(of_nat (L mod 86400) :: u32) mod 3600 div 60 = of_nat (L mod 86400 mod 3600 div 60)"
    using mod_less_divisor [of 86400 L] mod_less_divisor [of 3600 "L mod 86400"]
    by (simp_all add: u32_div_numeral u32_mod_numeral)
  have "L div 86400 < 49711" using L by simp
  note w = civil_word [OF this] and small = civil_small [OF this c]
  have f: "lcd_timestamp_to_local_ymdhm ts =
      \<lparr>t_year = ucast (of_nat y :: u32), t_month = ucast (of_nat m :: u32), t_day = ucast (of_nat d :: u32),
       t_hour = ucast (of_nat (L mod 86400 div 3600) :: u32), t_minute = ucast (of_nat (L mod 86400 mod 3600 div 60) :: u32)\<rparr>"
    using w unfolding lcd_timestamp_to_local_ymdhm_def Let_def ls dv md c hm
    by (simp only: prod.case)
  define H M where "H = L mod 86400 div 3600" and "M = L mod 86400 mod 3600 div 60"
  have lt: "H < 24" "M < 60" by (simp_all add: H_def M_def less_mult_imp_div_less)
  have v: "valid_date y m d" "date_days y m d = L div 86400" using civil_date [of "L div 86400"] c by simp_all
  have l: "(L div 86400 * 24 + H) * 60 + M = L div 60" unfolding H_def M_def by (rule minutes)
  have u: "unat (ucast (of_nat k :: u32) :: u8) = k" if "k < 256" for k
    using that by (simp add: unsigned_ucast_eq unsigned_of_nat take_bit_nat_eq_self)
  have "unat (ucast (of_nat y :: u32) :: u16) = y"
    using small by (simp add: unsigned_ucast_eq unsigned_of_nat take_bit_nat_eq_self)
  then show ?thesis
    unfolding f Let_def H_def [symmetric] M_def [symmetric] L_def [symmetric] using v small lt l by (simp add: u)
qed

text \<open>
  C40: for every time stamp, \<open>lcd_timestamp_to_local_ymdhm\<close> gives a valid date of the Gregorian
  calendar, an hour below 24 and a minute below 60, and together they are exactly the whole minutes
  from 1 January 1970 to the local time, the stamp plus eight hours (counted modulo \<open>2 ^ 32\<close>
  seconds, so that only stamps of the last eight hours before the 32-bit clock ends wrap to 1970).
\<close>

theorem date_correct:
  "let t = lcd_timestamp_to_local_ymdhm ts in
    valid_date (unat (t_year t)) (unat (t_month t)) (unat (t_day t))
    \<and> unat (t_hour t) < 24 \<and> unat (t_minute t) < 60
    \<and> (date_days (unat (t_year t)) (unat (t_month t)) (unat (t_day t)) * 24
        + unat (t_hour t)) * 60 + unat (t_minute t)
      = (unat ts + 28800) mod 2 ^ 32 div 60"
  by (rule date_exact)

end
