(* ===== verification/Svc_Lcd_Draw.thy ===== *)
theory Svc_Lcd_Draw
  imports Svc_Lcd_Pages Lcd_Time "HOL-Library.State_Monad"
begin

unbundle bit_operations_syntax

text \<open>
  Drawing (\<open>src/applications/svc_lcd.c\<close>, \<open>src/applications/LCD/lcd_ui.c\<close>). The graphics library u8g2 is
  not part of the repository: a drawing function is a program of the state monad over a \<open>canvas\<close> that
  records the library calls it makes, in their order and with their arguments, and the font in
  effect. What the library returns, the width of a glyph, is a parameter (\<open>u8g2_lib\<close>). A read
  outside an array, or of an element that was not initialised, sets \<open>cv_fault\<close>. The theory has the
  calls, the text helpers, the label tables, the menus with their scrolling window, and the rules by
  which the pages are verified: \<open>paints t m\<close> says that the program \<open>m\<close> makes no faulty read, stays inside
  the panel, and writes exactly the text \<open>t\<close> inverted, which is how the display marks a choice.
\<close>

section \<open>The graphics library\<close>

datatype lcd_font = LCD_FONT_ASCII_SMALL | LCD_FONT_CN_12 | FONT_5X7

text \<open>
  The calls, with coordinates as the 16-bit \<open>u8g2_uint_t\<close>. A text call carries the font that is in
  effect. \<open>u8g2_port_get\<close> never returns a null pointer, so the test for it has no branch here.
\<close>

datatype draw_call =
    ClearBuffer
  | FlushBuffer
  | SetFontMode u8
  | SetDrawColor u8
  | SetFont lcd_font
  | DrawBox u16 u16 u16 u16
  | DrawFrame u16 u16 u16 u16
  | DrawLine u16 u16 u16 u16
  | DrawXBMP u16 u16 u16 u16 bytes
  | DrawStr "lcd_font option" u16 u16 bytes
  | DrawGlyph "lcd_font option" u16 u16 u16

record u8g2_lib =
  glyph_advance :: "lcd_font option \<Rightarrow> u16 \<Rightarrow> u16"
  glyph_width :: "lcd_font option \<Rightarrow> u16 \<Rightarrow> u16"

record canvas =
  cv_font :: "lcd_font option"
  cv_calls :: "draw_call list"
  cv_fault :: bool

type_synonym 'a draw = "(canvas, 'a) state"

definition u8g2_call :: "draw_call \<Rightarrow> unit draw" where
  "u8g2_call d = State_Monad.update (\<lambda>c. c\<lparr>cv_calls := cv_calls c @ [d]\<rparr>)"

definition u8g2_SetFont :: "lcd_font \<Rightarrow> unit draw" where
  "u8g2_SetFont f = State_Monad.update (\<lambda>c. c\<lparr>cv_font := Some f, cv_calls := cv_calls c @ [SetFont f]\<rparr>)"

definition u8g2_DrawStr :: "u16 \<Rightarrow> u16 \<Rightarrow> bytes \<Rightarrow> unit draw" where
  "u8g2_DrawStr x y s = do {
     c \<leftarrow> State_Monad.get;
     u8g2_call (DrawStr (cv_font c) x y (cstr s))
   }"

definition u8g2_DrawGlyph :: "u8g2_lib \<Rightarrow> u16 \<Rightarrow> u16 \<Rightarrow> u16 \<Rightarrow> u16 draw" where
  "u8g2_DrawGlyph lib x y code = do {
     c \<leftarrow> State_Monad.get;
     u8g2_call (DrawGlyph (cv_font c) x y code);
     State_Monad.return (glyph_advance lib (cv_font c) code)
   }"

definition u8g2_GetGlyphWidth :: "u8g2_lib \<Rightarrow> u16 \<Rightarrow> u16 draw" where
  "u8g2_GetGlyphWidth lib code = do {
     c \<leftarrow> State_Monad.get;
     State_Monad.return (glyph_width lib (cv_font c) code)
   }"

section \<open>Reads, loops and text\<close>

definition array_at :: "'a \<Rightarrow> 'a list \<Rightarrow> nat \<Rightarrow> 'a draw" where
  "array_at dflt xs i =
     (if i < length xs then State_Monad.return (xs ! i)
      else do { State_Monad.update (\<lambda>c. c\<lparr>cv_fault := True\<rparr>); State_Monad.return dflt })"

primrec for_each :: "('a \<Rightarrow> unit draw) \<Rightarrow> 'a list \<Rightarrow> unit draw" where
  "for_each f [] = State_Monad.return ()"
| "for_each f (x # xs) = do { f x; for_each f xs }"

definition draw_when :: "bool \<Rightarrow> unit draw \<Rightarrow> unit draw" where
  "draw_when b m = (if b then m else State_Monad.return ())"

text \<open>\<open>rt_snprintf\<close> writes at most \<open>n\<close> bytes with the terminator; \<open>%u\<close> and \<open>%0<w>u\<close> print decimal.\<close>

definition lit :: "string \<Rightarrow> bytes" where
  "lit s = map of_char s"

definition dec_pad :: "nat \<Rightarrow> nat \<Rightarrow> bytes" where
  "dec_pad w n = replicate (w - length (dec n)) 0x30 @ dec n"

definition rt_snprintf :: "nat \<Rightarrow> bytes \<Rightarrow> bytes" where
  "rt_snprintf n s = take (n - 1) s @ [0]"

fun glyph_loop :: "u8g2_lib \<Rightarrow> u16 \<Rightarrow> u16 list \<Rightarrow> nat list \<Rightarrow> u16 \<Rightarrow> u16 draw" where
  "glyph_loop lib y codes [] x = State_Monad.return x"
| "glyph_loop lib y codes (i # is) x = do {
     code \<leftarrow> array_at 0 codes i;
     advance \<leftarrow> u8g2_DrawGlyph lib x y code;
     glyph_loop lib y codes is (x + advance)
   }"

definition lcd_u8g2_draw_unicode_seq :: "u8g2_lib \<Rightarrow> u16 \<Rightarrow> u16 \<Rightarrow> u16 list \<Rightarrow> u8 \<Rightarrow> u16 draw" where
  "lcd_u8g2_draw_unicode_seq lib x y codes count = glyph_loop lib y codes [0..<unat count] x"

fun width_loop :: "u8g2_lib \<Rightarrow> u16 list \<Rightarrow> nat list \<Rightarrow> u16 \<Rightarrow> u16 draw" where
  "width_loop lib codes [] width = State_Monad.return width"
| "width_loop lib codes (i # is) width = do {
     code \<leftarrow> array_at 0 codes i;
     w \<leftarrow> u8g2_GetGlyphWidth lib code;
     width_loop lib codes is (width + w)
   }"

definition lcd_u8g2_get_unicode_seq_width :: "u8g2_lib \<Rightarrow> u16 list \<Rightarrow> u8 \<Rightarrow> u16 draw" where
  "lcd_u8g2_get_unicode_seq_width lib codes count = width_loop lib codes [0..<unat count] 0"

text \<open>
  How a choice is drawn throughout: with a filled box behind it and in the inverse colour when it is
  selected, and with the normal colour restored afterwards.
\<close>

definition draw_choice :: "bool \<Rightarrow> draw_call \<Rightarrow> 'a draw \<Rightarrow> unit draw" where
  "draw_choice selected box content = do {
     draw_when selected (do { u8g2_call box; u8g2_call (SetDrawColor 0) });
     content;
     u8g2_call (SetDrawColor 1)
   }"

text \<open>A choice at the right border: its start is computed from its width.\<close>

definition draw_choice_right :: "u8g2_lib \<Rightarrow> bool \<Rightarrow> draw_call \<Rightarrow> u16 \<Rightarrow> u16 list \<Rightarrow> u8 \<Rightarrow> unit draw" where
  "draw_choice_right lib selected box y codes count = do {
     width \<leftarrow> lcd_u8g2_get_unicode_seq_width lib codes count;
     draw_choice selected box (lcd_u8g2_draw_unicode_seq lib (132 - 2 - width) y codes count)
   }"

text \<open>The start of every page.\<close>

definition new_page :: "unit draw" where
  "new_page = do {
     u8g2_call ClearBuffer;
     u8g2_call (SetFontMode 1);
     u8g2_call (SetDrawColor 1)
   }"

section \<open>Labels\<close>

definition g_menu_title_u8g2 :: "u16 list" where
  "g_menu_title_u8g2 = [0x83DC, 0x5355]"

definition g_menu_item_texts_u8g2 :: "u16 list list" where
  "g_menu_item_texts_u8g2 =
     [[0x884C, 0x9A76, 0x8BB0, 0x5F55],
      [0x8BBE, 0x5907, 0x72B6, 0x6001],
      [0x7CFB, 0x7EDF, 0x8BBE, 0x7F6E]]"

definition g_drive_sub_item_texts_u8g2 :: "u16 list list" where
  "g_drive_sub_item_texts_u8g2 =
     [[0x75B2, 0x52B3, 0x9A7E, 0x9A76],
      [0x4F4D, 0x7F6E, 0x5B9A, 0x4F4D],
      [0x884C, 0x9A76, 0x8BB0, 0x5F55],
      [0x9A7E, 0x9A76, 0x5458, 0x4FE1, 0x606F],
      [0x8F66, 0x8F86, 0x4FE1, 0x606F],
      [0x8F66, 0x8F86, 0x8F7D, 0x91CD, 0x4FE1, 0x606F],
      [0x6570, 0x636E, 0x5BFC, 0x51FA],
      [0x4FE1, 0x606F, 0x4E2D, 0x5FC3],
      [0x901A, 0x8BDD, 0x8BB0, 0x5F55]]"

definition g_info_center_item_texts_u8g2 :: "u16 list list" where
  "g_info_center_item_texts_u8g2 =
     [[0x6587, 0x672C, 0x4FE1, 0x606F],
      [0x4FE1, 0x606F, 0x70B9, 0x64AD],
      [0x4E8B, 0x4EF6, 0x4E0A, 0x62A5],
      [0x7535, 0x5B50, 0x8FD0, 0x5355]]"

definition g_info_text_item_texts_u8g2 :: "u16 list list" where
  "g_info_text_item_texts_u8g2 =
     [[0x8C03, 0x5EA6, 0x4FE1, 0x606F],
      [0x666E, 0x901A, 0x4FE1, 0x606F],
      [0x6545, 0x969C, 0x4FE1, 0x606F],
      [0x7D27, 0x6025, 0x4FE1, 0x606F]]"

definition g_device_sub_item_texts_u8g2 :: "u16 list list" where
  "g_device_sub_item_texts_u8g2 =
     [[0x7248, 0x672C, 0x53F7, 0x67E5, 0x8BE2],
      [0x0047, 0x0046, 0x0052, 0x0053, 0x4FE1, 0x606F],
      [0x72B6, 0x6001, 0x81EA, 0x68C0],
      [0x5B9A, 0x4F4D, 0x6A21, 0x5757, 0x72B6, 0x6001],
      [0x6574, 0x8F66, 0x72B6, 0x6001],
      [0x5B58, 0x50A8, 0x5668, 0x68C0, 0x6D4B],
      [0x5F55, 0x97F3, 0x5F55, 0x50CF, 0x68C0, 0x6D4B],
      [0x901F, 0x5EA6, 0x67E5, 0x8BE2],
      [0x9A7E, 0x9A76, 0x5458, 0x72B6, 0x6001, 0x76D1, 0x63A7]]"

definition g_system_sub_item_texts_u8g2 :: "u16 list list" where
  "g_system_sub_item_texts_u8g2 =
     [[0x6309, 0x952E, 0x97F3, 0x91CF, 0x8BBE, 0x7F6E],
      [0x5C4F, 0x5E55, 0x4EAE, 0x5EA6, 0x8BBE, 0x7F6E],
      [0x8F66, 0x8F86, 0x4FE1, 0x606F, 0x8BBE, 0x7F6E],
      [0x4E3B, 0x673A, 0x53C2, 0x6570, 0x8BBE, 0x7F6E],
      [0x521D, 0x59CB, 0x91CC, 0x7A0B],
      [0x4E3B, 0x673A, 0x6CE8, 0x518C],
      [0x4E3B, 0x673A, 0x6CE8, 0x9500],
      [0x8BB0, 0x5F55, 0x4EEA, 0x8F6F, 0x4EF6, 0x7248, 0x672C],
      [0x5143, 0x5668, 0x4EF6, 0x8F6F, 0x4EF6, 0x7248, 0x672C]]"

definition g_host_param_item_texts_u8g2 :: "u16 list list" where
  "g_host_param_item_texts_u8g2 =
     [[0x672C, 0x673A, 0x53F7, 0x7801, 0x8BBE, 0x7F6E],
      [0x0053, 0x004F, 0x0053, 0x53F7, 0x7801, 0x8BBE, 0x7F6E],
      [0x7B2C, 0x4E00, 0x670D, 0x52A1, 0x5668],
      [0x7B2C, 0x4E8C, 0x670D, 0x52A1, 0x5668]]"

definition g_vehicle_info_setting_item_texts_u8g2 :: "u16 list list" where
  "g_vehicle_info_setting_item_texts_u8g2 =
     [[0x8F66, 0x8F86, 0x0056, 0x0049, 0x004E],
      [0x8F66, 0x724C, 0x8BBE, 0x7F6E],
      [0x8F66, 0x724C, 0x989C, 0x8272],
      [0x8F66, 0x724C, 0x5206, 0x7C7B],
      [0x7701, 0x57DF, 0x0049, 0x0044],
      [0x5E02, 0x57DF, 0x0049, 0x0044]]"

definition g_vehicle_plate_class_item_texts_u8g2 :: "u16 list list" where
  "g_vehicle_plate_class_item_texts_u8g2 =
     [[0x4E58, 0x7528, 0x8F66],
      [0x8D27, 0x8F66],
      [0x4E13, 0x7528, 0x6C7D, 0x8F66],
      [0x6302, 0x8F66],
      [0x6C7D, 0x8F66, 0x5217, 0x8F66]]"

definition g_vehicle_plate_color_item_texts_u8g2 :: "u16 list list" where
  "g_vehicle_plate_color_item_texts_u8g2 =
     [[0x84DD, 0x8272],
      [0x9EC4, 0x8272],
      [0x767D, 0x8272],
      [0x9ED1, 0x8272],
      [0x7EFF, 0x8272]]"

definition g_menu_item_text_counts_u8g2 :: "u8 list" where
  "g_menu_item_text_counts_u8g2 = [4, 4, 4]"

definition g_drive_sub_item_counts_u8g2 :: "u8 list" where
  "g_drive_sub_item_counts_u8g2 = [4, 4, 4, 5, 4, 6, 4, 4, 4]"

definition g_info_center_item_counts_u8g2 :: "u8 list" where
  "g_info_center_item_counts_u8g2 = [4, 4, 4, 4]"

definition g_info_text_item_counts_u8g2 :: "u8 list" where
  "g_info_text_item_counts_u8g2 = [4, 4, 4, 4]"

definition g_device_sub_item_counts_u8g2 :: "u8 list" where
  "g_device_sub_item_counts_u8g2 = [5, 6, 4, 6, 4, 5, 6, 4, 7]"

definition g_system_sub_item_counts_u8g2 :: "u8 list" where
  "g_system_sub_item_counts_u8g2 = [6, 6, 6, 6, 4, 4, 4, 7, 7]"

definition g_host_param_item_counts_u8g2 :: "u8 list" where
  "g_host_param_item_counts_u8g2 = [6, 7, 5, 5]"

definition g_vehicle_info_setting_item_counts_u8g2 :: "u8 list" where
  "g_vehicle_info_setting_item_counts_u8g2 = [5, 4, 4, 4, 4, 4]"

definition g_vehicle_plate_class_item_counts_u8g2 :: "u8 list" where
  "g_vehicle_plate_class_item_counts_u8g2 = [3, 2, 4, 2, 4]"

definition g_vehicle_plate_color_item_counts_u8g2 :: "u8 list" where
  "g_vehicle_plate_color_item_counts_u8g2 = [2, 2, 2, 2, 2]"

record lcd_ui_list_resource =
  res_page_id :: lcd_page_id
  res_item_texts :: "u16 list list"
  res_item_counts :: "u8 list"
  res_item_count :: u8
  res_title_text :: "u16 list"
  res_title_count :: u8

definition g_lcd_list_resources :: "lcd_ui_list_resource list" where
  "g_lcd_list_resources =
     [\<lparr>res_page_id = LCD_PAGE_DRIVE_RECORD_MENU, res_item_texts = g_drive_sub_item_texts_u8g2,
       res_item_counts = g_drive_sub_item_counts_u8g2, res_item_count = 9,
       res_title_text = g_menu_item_texts_u8g2 ! 0, res_title_count = 4\<rparr>,
      \<lparr>res_page_id = LCD_PAGE_DEVICE_STATUS_MENU, res_item_texts = g_device_sub_item_texts_u8g2,
       res_item_counts = g_device_sub_item_counts_u8g2, res_item_count = 9,
       res_title_text = g_menu_item_texts_u8g2 ! 1, res_title_count = 4\<rparr>,
      \<lparr>res_page_id = LCD_PAGE_SYSTEM_SETTING_MENU, res_item_texts = g_system_sub_item_texts_u8g2,
       res_item_counts = g_system_sub_item_counts_u8g2, res_item_count = 9,
       res_title_text = g_menu_item_texts_u8g2 ! 2, res_title_count = 4\<rparr>,
      \<lparr>res_page_id = LCD_PAGE_SYSTEM_SETTING_VEHICLE_INFO, res_item_texts = g_vehicle_info_setting_item_texts_u8g2,
       res_item_counts = g_vehicle_info_setting_item_counts_u8g2, res_item_count = 6,
       res_title_text = g_system_sub_item_texts_u8g2 ! 2, res_title_count = 6\<rparr>,
      \<lparr>res_page_id = LCD_PAGE_SYSTEM_SETTING_VEHICLE_INFO_PLATE_COLOR,
       res_item_texts = g_vehicle_plate_color_item_texts_u8g2,
       res_item_counts = g_vehicle_plate_color_item_counts_u8g2, res_item_count = 5,
       res_title_text = g_vehicle_info_setting_item_texts_u8g2 ! 2, res_title_count = 4\<rparr>,
      \<lparr>res_page_id = LCD_PAGE_SYSTEM_SETTING_VEHICLE_INFO_PLATE_CLASS,
       res_item_texts = g_vehicle_plate_class_item_texts_u8g2,
       res_item_counts = g_vehicle_plate_class_item_counts_u8g2, res_item_count = 5,
       res_title_text = g_vehicle_info_setting_item_texts_u8g2 ! 3, res_title_count = 4\<rparr>,
      \<lparr>res_page_id = LCD_PAGE_DRIVE_RECORD_INFO_CENTER, res_item_texts = g_info_center_item_texts_u8g2,
       res_item_counts = g_info_center_item_counts_u8g2, res_item_count = 4,
       res_title_text = g_drive_sub_item_texts_u8g2 ! 7, res_title_count = 4\<rparr>,
      \<lparr>res_page_id = LCD_PAGE_DRIVE_RECORD_INFO_CENTER_TEXT, res_item_texts = g_info_text_item_texts_u8g2,
       res_item_counts = g_info_text_item_counts_u8g2, res_item_count = 4,
       res_title_text = g_info_center_item_texts_u8g2 ! 0, res_title_count = 4\<rparr>,
      \<lparr>res_page_id = LCD_PAGE_SYSTEM_SETTING_HOST_PARAM, res_item_texts = g_host_param_item_texts_u8g2,
       res_item_counts = g_host_param_item_counts_u8g2, res_item_count = 4,
       res_title_text = g_system_sub_item_texts_u8g2 ! 3, res_title_count = 6\<rparr>]"

definition lcd_get_list_page_resources :: "lcd_page_id \<Rightarrow> lcd_ui_list_resource option" where
  "lcd_get_list_page_resources page = find (\<lambda>r. res_page_id r = page) g_lcd_list_resources"

text \<open>The \<open>show_title\<close> field of the page table.\<close>

definition page_show_title :: "lcd_page_id \<Rightarrow> bool" where
  "page_show_title p \<longleftrightarrow> p \<in> {LCD_PAGE_MAIN_MENU, LCD_PAGE_DRIVE_RECORD_MENU, LCD_PAGE_DEVICE_STATUS_MENU,
     LCD_PAGE_SYSTEM_SETTING_MENU, LCD_PAGE_DRIVE_RECORD_INFO_CENTER, LCD_PAGE_DRIVE_RECORD_INFO_CENTER_TEXT}"

section \<open>Menus\<close>

definition draw_item_row :: "u8g2_lib \<Rightarrow> u8 \<Rightarrow> u8 \<Rightarrow> bool \<Rightarrow> u16 list list \<Rightarrow> u8 list \<Rightarrow> unit draw" where
  "draw_item_row lib index baseline_y selected texts counts = do {
     (if selected
      then do {
        u8g2_call (SetDrawColor 1);
        u8g2_call (DrawBox 0 (ucast (baseline_y - 11)) 132 13);
        u8g2_call (SetDrawColor 0)
      }
      else u8g2_call (SetDrawColor 1));
     u8g2_SetFont LCD_FONT_ASCII_SMALL;
     u8g2_DrawStr 2 (ucast baseline_y) (rt_snprintf 4 (dec (unat index + 1) @ lit ''.''));
     u8g2_SetFont LCD_FONT_CN_12;
     text \<leftarrow> array_at [] texts (unat index);
     count \<leftarrow> array_at 0 counts (unat index);
     lcd_u8g2_draw_unicode_seq lib 16 (ucast baseline_y) text count;
     u8g2_call (SetDrawColor 1)
   }"

definition lcd_u8g2_draw_menu_item :: "u8g2_lib \<Rightarrow> u8 \<Rightarrow> u8 \<Rightarrow> bool \<Rightarrow> unit draw" where
  "lcd_u8g2_draw_menu_item lib index baseline_y selected =
     draw_item_row lib index baseline_y selected g_menu_item_texts_u8g2 g_menu_item_text_counts_u8g2"

definition lcd_u8g2_draw_submenu_item :: "u8g2_lib \<Rightarrow> lcd_page_id \<Rightarrow> u8 \<Rightarrow> u8 \<Rightarrow> bool \<Rightarrow> unit draw" where
  "lcd_u8g2_draw_submenu_item lib page index baseline_y selected =
     (case lcd_get_list_page_resources page of
        None \<Rightarrow> u8g2_call (SetDrawColor 1)
      | Some r \<Rightarrow>
          if res_item_count r \<le> index then u8g2_call (SetDrawColor 1)
          else draw_item_row lib index baseline_y selected (res_item_texts r) (res_item_counts r))"

text \<open>The loop over the rows; \<open>row_y\<close> has the elements the code initialises.\<close>

definition draw_rows :: "(u8 \<Rightarrow> u8 \<Rightarrow> bool \<Rightarrow> unit draw) \<Rightarrow> u8 \<Rightarrow> u8 \<Rightarrow> u8 list \<Rightarrow> u8 \<Rightarrow> unit draw" where
  "draw_rows item page_start row_count row_y selected_index =
     for_each (\<lambda>row. do {
         y \<leftarrow> array_at 0 row_y row;
         (let item_index = page_start + of_nat row in item item_index y (item_index = selected_index))
       }) [0..<unat row_count]"

definition lcd_render_menu_ui :: "u8g2_lib \<Rightarrow> 'b ui \<Rightarrow> unit draw" where
  "lcd_render_menu_ui lib u =
     (let selected_index = g_lcd_page_selected u LCD_PAGE_MAIN_MENU in do {
        new_page;
        (if selected_index < 3
         then do {
           u8g2_SetFont LCD_FONT_CN_12;
           lcd_u8g2_draw_unicode_seq lib 2 12 g_menu_title_u8g2 2;
           draw_rows (lcd_u8g2_draw_menu_item lib) 0 3 [28, 42, 56] selected_index
         }
         else draw_rows (lcd_u8g2_draw_menu_item lib) 3 4 [14, 28, 42, 56] selected_index);
        u8g2_call FlushBuffer
      })"

text \<open>The page for what has no renderer of its own: its level in the page tree.\<close>

definition lcd_render_submenu_ui :: "'b ui lcd_env \<Rightarrow> 'b ui \<Rightarrow> unit draw" where
  "lcd_render_submenu_ui env u = do {
     new_page;
     (case lcd_page_get_depth env (g_lcd_current_page_id u) of
        None \<Rightarrow> State_Monad.update (\<lambda>c. c\<lparr>cv_fault := True\<rparr>)
      | Some depth \<Rightarrow> do {
          u8g2_SetFont LCD_FONT_ASCII_SMALL;
          u8g2_DrawStr 18 24 (lit ''SUBMENU'');
          u8g2_DrawStr 18 40 (rt_snprintf 12 (lit ''LEVEL '' @ dec (unat depth)));
          u8g2_call FlushBuffer
        })
   }"

definition lcd_render_drive_record_submenu_ui :: "u8g2_lib \<Rightarrow> 'b ui lcd_env \<Rightarrow> 'b ui \<Rightarrow> unit draw" where
  "lcd_render_drive_record_submenu_ui lib env u =
     (let page = g_lcd_current_page_id u;
          show_title = (case lcd_get_page_node env page of None \<Rightarrow> True | Some _ \<Rightarrow> page_show_title page)
      in do {
        new_page;
        (case lcd_get_list_page_resources page of
           None \<Rightarrow> lcd_render_submenu_ui env u
         | Some r \<Rightarrow>
             (let selected_index = g_lcd_page_selected u page; count = res_item_count r;
                  rows = draw_rows (lcd_u8g2_draw_submenu_item lib page)
              in do {
                (if show_title
                 then
                   if selected_index < 3
                   then do {
                     u8g2_SetFont LCD_FONT_CN_12;
                     lcd_u8g2_draw_unicode_seq lib 2 12 (res_title_text r) (res_title_count r);
                     rows 0 (if count < 3 then count else 3) [28, 42, 56] selected_index
                   }
                   else if selected_index < 7 \<and> 3 < count
                   then (let row_count = count - 3
                         in rows 3 (if 4 < row_count then 4 else row_count) [14, 28, 42, 56] selected_index)
                   else if 7 < count
                   then (let row_count = count - 7
                         in rows 7 (if 2 < row_count then 2 else row_count) [28, 42] selected_index)
                   else State_Monad.return ()
                 else
                   if selected_index < 4
                   then rows 0 (if count < 4 then count else 4) [16, 30, 44, 58] selected_index
                   else (let row_count = count - 4
                         in rows 4 (if 4 < row_count then 4 else row_count) [16, 30, 44, 58] selected_index));
                u8g2_call FlushBuffer
              }))
      })"

section \<open>Rules\<close>

named_theorems paint_rules \<open>what a drawing step paints\<close>

lemma run_update [simp]: "run_state (State_Monad.update f) c = ((), f c)"
  by (simp add: State_Monad.update_def)

text \<open>The text written while the drawing colour is 0, and the colour at the end.\<close>

fun inverted :: "u8 \<Rightarrow> draw_call list \<Rightarrow> u16 list \<times> u8" where
  "inverted col [] = ([], col)"
| "inverted col (SetDrawColor k # ds) = inverted k ds"
| "inverted col (DrawStr f x y s # ds) =
     (let (t, k) = inverted col ds in ((if col = 0 then map ucast s else []) @ t, k))"
| "inverted col (DrawGlyph f x y code # ds) =
     (let (t, k) = inverted col ds in ((if col = 0 then [code] else []) @ t, k))"
| "inverted col (d # ds) = inverted col ds"

lemma inverted_append:
  "inverted col (ds @ es) = (let (t, k) = inverted col ds; (t', k') = inverted k es in (t @ t', k'))"
  by (induction col ds rule: inverted.induct) (simp_all add: Let_def case_prod_unfold)

text \<open>
  A call stays inside the panel of 132 by 64 pixels: the whole of a box, frame, line, bitmap or glyph;
  of a string its start (the library clips the rest). A bitmap has the bytes its size needs.
\<close>

fun inside :: "u8g2_lib \<Rightarrow> draw_call \<Rightarrow> bool" where
  "inside lib (DrawBox x y w h) \<longleftrightarrow> unat x + unat w \<le> 132 \<and> unat y + unat h \<le> 64"
| "inside lib (DrawFrame x y w h) \<longleftrightarrow> unat x + unat w \<le> 132 \<and> unat y + unat h \<le> 64"
| "inside lib (DrawLine x y x' y') \<longleftrightarrow> x < 132 \<and> y < 64 \<and> x' < 132 \<and> y' < 64"
| "inside lib (DrawXBMP x y w h bits) \<longleftrightarrow>
     unat x + unat w \<le> 132 \<and> unat y + unat h \<le> 64 \<and> length bits = (unat w + 7) div 8 * unat h"
| "inside lib (DrawStr f x y s) \<longleftrightarrow> x < 132 \<and> y < 64"
| "inside lib (DrawGlyph f x y code) \<longleftrightarrow> unat x + unat (glyph_advance lib f code) \<le> 132 \<and> y < 64"
| "inside lib _ \<longleftrightarrow> True"

text \<open>What the layout relies on: no glyph is wider than 12 pixels, and the width is the advance.\<close>

definition fonts_fit :: "u8g2_lib \<Rightarrow> bool" where
  "fonts_fit lib \<longleftrightarrow> (\<forall>f code. unat (glyph_advance lib f code) \<le> 12 \<and> glyph_width lib f code = glyph_advance lib f code)"

definition adds :: "u8g2_lib \<Rightarrow> (draw_call list \<Rightarrow> bool) \<Rightarrow> 'a draw \<Rightarrow> bool" where
  "adds lib Q m \<longleftrightarrow>
     (\<forall>c. \<exists>ds. cv_calls (snd (run_state m c)) = cv_calls c @ ds \<and> cv_fault (snd (run_state m c)) = cv_fault c
        \<and> list_all (inside lib) ds \<and> Q ds)"

text \<open>Text in whatever colour is set, and a step from the normal colour to the normal colour.\<close>

definition writes :: "u8g2_lib \<Rightarrow> u16 list \<Rightarrow> 'a draw \<Rightarrow> bool" where
  "writes lib t = adds lib (\<lambda>ds. \<forall>col. inverted col ds = (if col = 0 then t else [], col))"

definition paints :: "u8g2_lib \<Rightarrow> u16 list \<Rightarrow> 'a draw \<Rightarrow> bool" where
  "paints lib t = adds lib (\<lambda>ds. inverted 1 ds = (t, 1))"

lemma adds_bind:
  assumes "adds lib Q m" "\<And>a. adds lib R (f a)" "\<And>ds es. Q ds \<Longrightarrow> R es \<Longrightarrow> S (ds @ es)"
  shows "adds lib S (State_Monad.bind m f)"
  unfolding adds_def
proof
  fix c
  obtain a c' where r: "run_state m c = (a, c')" by (cases "run_state m c")
  obtain ds where d: "cv_calls c' = cv_calls c @ ds" "cv_fault c' = cv_fault c" "list_all (inside lib) ds" "Q ds"
    using assms(1) r unfolding adds_def by (metis snd_conv)
  obtain es where e: "cv_calls (snd (run_state (f a) c')) = cv_calls c' @ es"
    "cv_fault (snd (run_state (f a) c')) = cv_fault c'" "list_all (inside lib) es" "R es"
    using assms(2) [of a] unfolding adds_def by blast
  show "\<exists>ds. cv_calls (snd (run_state (State_Monad.bind m f) c)) = cv_calls c @ ds
      \<and> cv_fault (snd (run_state (State_Monad.bind m f) c)) = cv_fault c \<and> list_all (inside lib) ds \<and> S ds"
    by (rule exI [of _ "ds @ es"]) (use r d e assms(3) in simp)
qed

lemma adds_mono: "adds lib Q m \<Longrightarrow> (\<And>ds. Q ds \<Longrightarrow> R ds) \<Longrightarrow> adds lib R m"
  unfolding adds_def by blast

lemma adds_one:
  "inside lib d \<Longrightarrow> Q [d] \<Longrightarrow> adds lib Q (u8g2_call d)"
  "Q [SetFont f] \<Longrightarrow> adds lib Q (u8g2_SetFont f)"
  "Q [] \<Longrightarrow> adds lib Q (State_Monad.return a)"
  "i < length xs \<Longrightarrow> Q [] \<Longrightarrow> adds lib Q (array_at dflt xs i)"
  by (auto simp: adds_def u8g2_call_def u8g2_SetFont_def array_at_def)

lemma writes_bind: "writes lib s m \<Longrightarrow> (\<And>a. writes lib t (f a)) \<Longrightarrow> writes lib (s @ t) (State_Monad.bind m f)"
  unfolding writes_def by (erule adds_bind, assumption) (auto simp: inverted_append)

lemma paints_bind [paint_rules]:
  "paints lib s m \<Longrightarrow> (\<And>a. paints lib t (f a)) \<Longrightarrow> paints lib (s @ t) (State_Monad.bind m f)"
  unfolding paints_def by (erule adds_bind, assumption) (auto simp: inverted_append)

lemma writes_paints: "writes lib t m \<Longrightarrow> paints lib [] m"
  unfolding writes_def paints_def by (erule adds_mono) simp

lemma paints_eq: "paints lib t m \<Longrightarrow> t = t' \<Longrightarrow> paints lib t' m"
  by simp

text \<open>Calls that neither write text nor set the colour.\<close>

fun shape :: "draw_call \<Rightarrow> bool" where
  "shape (SetDrawColor k) \<longleftrightarrow> False"
| "shape (DrawStr f x y s) \<longleftrightarrow> False"
| "shape (DrawGlyph f x y code) \<longleftrightarrow> False"
| "shape d \<longleftrightarrow> True"

lemma inverted_shape: "shape d \<Longrightarrow> inverted col (d # ds) = inverted col ds"
  by (cases d) simp_all

lemma paints_call [paint_rules]: "shape d \<Longrightarrow> inside lib d \<Longrightarrow> paints lib [] (u8g2_call d)"
  by (simp add: paints_def adds_one inverted_shape)

lemma paints_steps [paint_rules]:
  "paints lib [] (u8g2_call (SetDrawColor 1))"
  "paints lib [] (u8g2_SetFont f)"
  "paints lib [] (State_Monad.return a)"
  by (simp_all add: paints_def adds_one)

lemma writes_str: "x < 132 \<Longrightarrow> y < 64 \<Longrightarrow> writes lib (map ucast (cstr s)) (u8g2_DrawStr x y s)"
  by (simp add: writes_def adds_def u8g2_DrawStr_def u8g2_call_def)

lemma writes_steps:
  "writes lib [] (u8g2_SetFont f)"
  "fonts_fit lib \<Longrightarrow> unat x \<le> 120 \<Longrightarrow> y < 64 \<Longrightarrow> writes lib [code] (u8g2_DrawGlyph lib x y code)"
proof -
  show "writes lib [] (u8g2_SetFont f)" by (simp add: writes_def adds_one)
  assume a: "fonts_fit lib" "unat x \<le> 120" "y < 64"
  have "unat x + unat (glyph_advance lib g code) \<le> 132" for g
    using add_le_mono [OF a(2), of "unat (glyph_advance lib g code)" 12] a(1) by (simp add: fonts_fit_def)
  then show "writes lib [code] (u8g2_DrawGlyph lib x y code)"
    using a(3) by (simp add: writes_def adds_def u8g2_DrawGlyph_def u8g2_call_def)
qed

lemma array_at_bind: "i < length xs \<Longrightarrow> State_Monad.bind (array_at dflt xs i) f = f (xs ! i)"
  by (simp add: array_at_def)

lemma paints_read: "i < length xs \<Longrightarrow> paints lib t (f (xs ! i)) \<Longrightarrow> paints lib t (State_Monad.bind (array_at dflt xs i) f)"
  by (simp add: array_at_bind)

lemma writes_read: "i < length xs \<Longrightarrow> writes lib t (f (xs ! i)) \<Longrightarrow> writes lib t (State_Monad.bind (array_at dflt xs i) f)"
  by (simp add: array_at_bind)

lemma paints_str [paint_rules]: "x < 132 \<Longrightarrow> y < 64 \<Longrightarrow> paints lib [] (u8g2_DrawStr x y s)"
  by (rule writes_paints [OF writes_str])

lemma paints_each [paint_rules]:
  "(\<And>x. x \<in> set xs \<Longrightarrow> paints lib (t x) (f x)) \<Longrightarrow> paints lib (concat (map t xs)) (for_each f xs)"
proof (induction xs)
  case Nil
  show ?case by (simp add: paints_steps)
next
  case (Cons x xs)
  show ?case using paints_bind [OF Cons.prems [of x] Cons.IH] Cons.prems by simp
qed

lemma paints_if [paint_rules]:
  "(b \<Longrightarrow> paints lib s m) \<Longrightarrow> (\<not> b \<Longrightarrow> paints lib t n) \<Longrightarrow> paints lib (if b then s else t) (if b then m else n)"
  by simp

lemma paints_when [paint_rules]: "(b \<Longrightarrow> paints lib t m) \<Longrightarrow> paints lib (if b then t else []) (draw_when b m)"
  by (simp add: draw_when_def paints_steps)

lemma paints_new_page [paint_rules]: "paints lib [] new_page"
  unfolding new_page_def by (rule paints_eq, (rule paint_rules | (simp; fail))+)

text \<open>A choice shows its text inverted exactly when it is selected.\<close>

lemma paints_choice [paint_rules]:
  assumes "writes lib t content" "shape box" "inside lib box"
  shows "paints lib (if selected then t else []) (draw_choice selected box content)"
proof -
  have w: "adds lib (\<lambda>ds. \<forall>col. inverted col ds = (if col = 0 then t else [], col)) content"
    using assms(1) by (simp add: writes_def)
  have box: "adds lib (\<lambda>ds. ds = [box, SetDrawColor 0]) (do { u8g2_call box; u8g2_call (SetDrawColor 0) })"
    using assms(3) by (intro adds_bind [where Q = "\<lambda>ds. ds = [box]" and R = "\<lambda>ds. ds = [SetDrawColor 0]"] adds_one) simp_all
  have h: "adds lib (\<lambda>ds. inverted 1 ds = ([], if selected then 0 else 1))
      (draw_when selected (do { u8g2_call box; u8g2_call (SetDrawColor 0) }))"
    using adds_mono [OF box, of "\<lambda>ds. inverted 1 ds = ([], 0)"] assms(2)
    by (simp add: draw_when_def adds_one inverted_shape)
  have e: "adds lib (\<lambda>ds. ds = [SetDrawColor 1]) (u8g2_call (SetDrawColor 1))" by (rule adds_one) simp_all
  have "adds lib (\<lambda>ds. \<forall>col. inverted col ds = (if col = 0 then t else [], 1)) (do { content; u8g2_call (SetDrawColor 1) })"
    by (rule adds_bind [OF w e]) (simp add: inverted_append)
  then show ?thesis
    unfolding paints_def draw_choice_def
    by (intro adds_bind [OF h, where R = "\<lambda>ds. \<forall>col. inverted col ds = (if col = 0 then t else [], 1)"])
      (auto simp: inverted_append)
qed

section \<open>Text\<close>

text \<open>The width of a sequence of characters in a font.\<close>

definition extent :: "u8g2_lib \<Rightarrow> lcd_font option \<Rightarrow> u16 list \<Rightarrow> nat" where
  "extent lib f codes = (\<Sum>code\<leftarrow>codes. unat (glyph_advance lib f code))"

lemma extent_le: "fonts_fit lib \<Longrightarrow> extent lib f codes \<le> 12 * length codes"
  by (induction codes) (auto simp: extent_def fonts_fit_def add_le_mono)

lemma glyphs_drawn:
  assumes "\<forall>i\<in>set is. i < length codes" "unat x + extent lib (cv_font c) (map (nth codes) is) \<le> 132" "y < 64"
  shows "\<exists>ds. cv_calls (snd (run_state (glyph_loop lib y codes is x) c)) = cv_calls c @ ds
    \<and> cv_fault (snd (run_state (glyph_loop lib y codes is x) c)) = cv_fault c
    \<and> list_all (inside lib) ds \<and> (\<forall>col. inverted col ds = (if col = 0 then map (nth codes) is else [], col))"
  using assms
proof (induction "is" arbitrary: x c)
  case (Cons i "is")
  let ?w = "glyph_advance lib (cv_font c) (codes ! i)"
  let ?c = "c\<lparr>cv_calls := cv_calls c @ [DrawGlyph (cv_font c) x y (codes ! i)]\<rparr>"
  have le: "unat x + unat ?w \<le> 132" using Cons.prems(2) by (simp add: extent_def)
  then have "unat (x + ?w) = unat x + unat ?w" by (simp add: unat_word_ariths)
  then have "unat (x + ?w) + extent lib (cv_font ?c) (map (nth codes) is) \<le> 132"
    using Cons.prems(2) by (simp add: extent_def)
  then obtain ds where ds: "cv_calls (snd (run_state (glyph_loop lib y codes is (x + ?w)) ?c)) = cv_calls ?c @ ds"
    "cv_fault (snd (run_state (glyph_loop lib y codes is (x + ?w)) ?c)) = cv_fault ?c"
    "list_all (inside lib) ds" "\<forall>col. inverted col ds = (if col = 0 then map (nth codes) is else [], col)"
    using Cons.IH [of "x + ?w" ?c] Cons.prems(1,3) by auto
  have r: "run_state (glyph_loop lib y codes (i # is) x) c = run_state (glyph_loop lib y codes is (x + ?w)) ?c"
    using Cons.prems(1) by (simp add: array_at_def u8g2_DrawGlyph_def u8g2_call_def)
  show ?case
    by (rule exI [of _ "DrawGlyph (cv_font c) x y (codes ! i) # ds"]) (use ds le Cons.prems(3) r in simp)
qed simp

lemma writes_seq:
  assumes "fonts_fit lib" "unat count \<le> length codes" "unat x + 12 * unat count \<le> 132" "y < 64"
  shows "writes lib (take (unat count) codes) (lcd_u8g2_draw_unicode_seq lib x y codes count)"
proof -
  have m: "map (nth codes) [0..<unat count] = take (unat count) codes"
    using assms(2) by (simp add: list_eq_iff_nth_eq)
  have "unat x + extent lib f (take (unat count) codes) \<le> 132" for f
    using extent_le [OF assms(1), of f "take (unat count) codes"] assms(2,3) by simp
  then show ?thesis
    unfolding writes_def adds_def lcd_u8g2_draw_unicode_seq_def
    using glyphs_drawn [of "[0..<unat count]" codes x lib _ y, unfolded m] assms(2,4) by simp
qed

declare writes_bind [paint_rules] writes_str [paint_rules] writes_steps [paint_rules] writes_seq [paint_rules]

lemma paints_seq [paint_rules]:
  "fonts_fit lib \<Longrightarrow> unat count \<le> length codes \<Longrightarrow> unat x + 12 * unat count \<le> 132 \<Longrightarrow> y < 64
   \<Longrightarrow> paints lib [] (lcd_u8g2_draw_unicode_seq lib x y codes count)"
  by (rule writes_paints [OF writes_seq])

text \<open>A choice at the right border: the width it computes is the width it takes.\<close>

lemma widths_added:
  assumes "\<forall>i\<in>set is. i < length codes" "fonts_fit lib"
  shows "run_state (width_loop lib codes is w) c = (w + of_nat (extent lib (cv_font c) (map (nth codes) is)), c)"
  using assms
  by (induction "is" arbitrary: w) (simp_all add: array_at_def u8g2_GetGlyphWidth_def extent_def fonts_fit_def add.assoc)

lemma paints_choice_right [paint_rules]:
  assumes "fonts_fit lib" "unat count \<le> length codes" "12 * unat count \<le> 130" "y < 64" "shape box" "inside lib box"
  shows "paints lib (if selected then take (unat count) codes else []) (draw_choice_right lib selected box y codes count)"
  unfolding paints_def adds_def
proof
  fix c :: canvas
  let ?is = "[0..<unat count]" and ?t = "take (unat count) codes"
  have m: "map (nth codes) ?is = ?t" using assms(2) by (simp add: list_eq_iff_nth_eq)
  have e: "extent lib (cv_font c) ?t \<le> 130" using extent_le [OF assms(1), of "cv_font c" ?t] assms(2,3) by simp
  let ?x = "132 - 2 - of_nat (extent lib (cv_font c) ?t) :: u16"
  have x: "unat ?x + extent lib (cv_font c) ?t \<le> 132"
    using e by (simp add: unat_sub word_le_nat_alt unsigned_of_nat take_bit_nat_eq_self)
  let ?c = "if selected then c\<lparr>cv_calls := cv_calls c @ [box, SetDrawColor 0]\<rparr> else c"
  have f: "cv_font ?c = cv_font c" and i: "\<forall>i\<in>set ?is. i < length codes" using assms(2) by simp_all
  obtain ds where ds: "cv_calls (snd (run_state (glyph_loop lib y codes ?is ?x) ?c)) = cv_calls ?c @ ds"
    "cv_fault (snd (run_state (glyph_loop lib y codes ?is ?x) ?c)) = cv_fault ?c" "list_all (inside lib) ds"
    "\<forall>col. inverted col ds = (if col = 0 then ?t else [], col)"
    using glyphs_drawn [of ?is codes ?x lib ?c y, OF i _ assms(4), unfolded m f, OF x] by blast
  have r: "run_state (draw_choice_right lib selected box y codes count) c =
      (let c' = snd (run_state (glyph_loop lib y codes ?is ?x) ?c) in ((), c'\<lparr>cv_calls := cv_calls c' @ [SetDrawColor 1]\<rparr>))"
    using widths_added [of ?is codes lib 0 c, unfolded m] assms(1,2)
    by (simp add: draw_choice_right_def draw_choice_def lcd_u8g2_get_unicode_seq_width_def lcd_u8g2_draw_unicode_seq_def
        draw_when_def u8g2_call_def Let_def case_prod_unfold)
  show "\<exists>ds. cv_calls (snd (run_state (draw_choice_right lib selected box y codes count) c)) = cv_calls c @ ds
      \<and> cv_fault (snd (run_state (draw_choice_right lib selected box y codes count) c)) = cv_fault c
      \<and> list_all (inside lib) ds \<and> inverted 1 ds = (if selected then ?t else [], 1)"
    by (rule exI [of _ "(if selected then [box, SetDrawColor 0] else []) @ ds @ [SetDrawColor 1]"])
      (use ds assms(5,6) r in \<open>simp add: Let_def inverted_append inverted_shape\<close>)
qed

text \<open>
  Steps that end with the normal colour, whatever colour they start with; and steps behind one that
  chooses the colour.
\<close>

definition ends :: "u8g2_lib \<Rightarrow> u16 list \<Rightarrow> 'a draw \<Rightarrow> bool" where
  "ends lib t = adds lib (\<lambda>ds. \<forall>col. inverted col ds = (if col = 0 then t else [], 1))"

lemma ends_normal: "ends lib [] (u8g2_call (SetDrawColor 1))"
  by (simp add: ends_def adds_one)

lemma ends_bind: "writes lib s m \<Longrightarrow> (\<And>a. ends lib t (f a)) \<Longrightarrow> ends lib (s @ t) (State_Monad.bind m f)"
  unfolding writes_def ends_def by (erule adds_bind, assumption) (auto simp: inverted_append)

lemma paints_coloured:
  assumes "adds lib (\<lambda>ds. inverted 1 ds = ([], k)) pre" "ends lib t rest"
  shows "paints lib (if k = 0 then t else []) (do { pre; rest })"
  using assms unfolding paints_def ends_def by (rule adds_bind) (simp add: inverted_append)

section \<open>Menus show the selection\<close>

lemma concat_single: "j < n \<Longrightarrow> concat (map (\<lambda>i. if i = j then f i else []) [0..<n]) = f j"
proof (induction n)
  case (Suc n)
  show ?case
  proof (cases "j = n")
    case True
    have "concat (map (\<lambda>i. if i = n then f i else []) [0..<n]) = []" by simp
    then show ?thesis using True by simp
  next
    case False
    then show ?thesis using Suc by simp
  qed
qed simp

text \<open>The text of a numbered menu item.\<close>

definition item_text :: "nat \<Rightarrow> u16 list \<Rightarrow> u16 list" where
  "item_text i label = map ucast (dec (i + 1)) @ [0x2E] @ label"

definition labels_ok :: "u16 list list \<Rightarrow> u8 list \<Rightarrow> bool" where
  "labels_ok texts counts \<longleftrightarrow>
     length texts \<le> 9 \<and> map unat counts = map length texts \<and> list_all (\<lambda>t. length t \<le> 9) texts"

lemma item_prefix: "i < 9 \<Longrightarrow> map ucast (cstr (rt_snprintf 4 (dec (i + 1) @ lit ''.''))) = map ucast (dec (i + 1)) @ [0x2E :: u16]"
proof -
  assume "i < 9"
  moreover have "list_all (\<lambda>i. map ucast (cstr (rt_snprintf 4 (dec (i + 1) @ lit ''.''))) = map ucast (dec (i + 1)) @ [0x2E :: u16]) [0..<9]"
    by code_simp
  ultimately show ?thesis by (simp only: list_all_iff set_upt atLeastLessThan_iff) auto
qed

lemma row_painted:
  assumes "fonts_fit lib" "labels_ok texts counts" "unat index < length texts" "unat y \<in> {11..62}"
  shows "paints lib (if selected then item_text (unat index) (texts ! unat index) else [])
    (draw_item_row lib index y selected texts counts)"
proof -
  let ?t = "texts ! unat index"
  have m: "map unat counts = map length texts" using assms(2) by (simp add: labels_ok_def)
  then have l: "length counts = length texts" by (rule map_eq_imp_length_eq)
  then have c: "unat (counts ! unat index) = length ?t"
    using arg_cong [OF m, of "\<lambda>xs. xs ! unat index"] assms(3) by simp
  have t: "length ?t \<le> 9" using assms(2,3) by (auto simp: labels_ok_def list_all_length)
  have i: "unat index < 9" using assms(2,3) by (simp add: labels_ok_def)
  have y: "(ucast y :: u16) < 64" using assms(4) by (simp add: word_less_nat_alt)
  have yb: "unat (y - 11) + 13 \<le> 64" using assms(4) by (simp add: unat_sub word_le_nat_alt)
  have "writes lib (take (unat (counts ! unat index)) ?t) (lcd_u8g2_draw_unicode_seq lib 16 (ucast y) ?t (counts ! unat index))"
    using assms(1) c t y by (intro writes_seq) simp_all
  then have w: "writes lib ?t (lcd_u8g2_draw_unicode_seq lib 16 (ucast y) ?t (counts ! unat index))" by (simp add: c)
  have pre: "adds lib (\<lambda>ds. inverted 1 ds = ([], if selected then 0 else 1))
    (if selected then do { u8g2_call (SetDrawColor 1); u8g2_call (DrawBox 0 (ucast (y - 11)) 132 13); u8g2_call (SetDrawColor 0) }
     else u8g2_call (SetDrawColor 1))"
    using yb by (simp add: adds_def u8g2_call_def)
  have f: "writes lib [] (u8g2_SetFont f)" for f by (simp add: writes_def adds_one)
  have s: "writes lib (map ucast (dec (unat index + 1)) @ [0x2E]) (u8g2_DrawStr 2 (ucast y) (rt_snprintf 4 (dec (unat index + 1) @ lit ''.'')))"
    using writes_str [of 2 "ucast y" lib "rt_snprintf 4 (dec (unat index + 1) @ lit ''.'')"] y item_prefix [OF i] by simp
  have "ends lib ([] @ (map ucast (dec (unat index + 1)) @ [0x2E]) @ [] @ ?t @ []) (do {
      u8g2_SetFont LCD_FONT_ASCII_SMALL;
      u8g2_DrawStr 2 (ucast y) (rt_snprintf 4 (dec (unat index + 1) @ lit ''.''));
      u8g2_SetFont LCD_FONT_CN_12;
      lcd_u8g2_draw_unicode_seq lib 16 (ucast y) ?t (counts ! unat index);
      u8g2_call (SetDrawColor 1) })"
    by (intro ends_bind f s w ends_normal)
  from paints_coloured [OF pre this] show ?thesis
    using assms(3) l by (cases selected) (simp_all add: draw_item_row_def array_at_def item_text_def)
qed

lemma window_index:
  assumes "unat (start :: u8) \<le> unat k" "unat start + n \<le> 255" "i < n"
  shows "start + of_nat i = k \<longleftrightarrow> i = unat k - unat start"
proof -
  have "unat (start + of_nat i) = unat start + i"
    using assms(2,3) by (simp add: unat_word_ariths unsigned_of_nat take_bit_nat_eq_self)
  then show ?thesis using assms(1) by (auto simp: word_unat_eq_iff)
qed

lemma concat_window:
  assumes "unat (start :: u8) \<le> unat k" "unat start + n \<le> 255" "unat k < unat start + n"
  shows "concat (map (\<lambda>i. if start + of_nat i = k then f i else []) [0..<n]) = f (unat k - unat start)"
proof -
  have "concat (map (\<lambda>i. if start + of_nat i = k then f i else []) [0..<n])
      = concat (map (\<lambda>i. if i = unat k - unat start then f i else []) [0..<n])"
    using window_index [OF assms(1,2)] by (intro arg_cong [of _ _ concat]) simp
  then show ?thesis using assms by (simp add: concat_single less_diff_conv2)
qed

lemma rows_painted:
  assumes "\<And>row. row < unat row_count \<Longrightarrow> paints lib (if page_start + of_nat row = selected then T (unat page_start + row) else [])
      (item (page_start + of_nat row) (row_y ! row) (page_start + of_nat row = selected))"
    and "unat row_count \<le> length row_y" "unat page_start \<le> unat selected"
      "unat selected < unat page_start + unat row_count" "unat page_start + unat row_count \<le> 255"
  shows "paints lib (T (unat selected)) (draw_rows item page_start row_count row_y selected)"
proof -
  have "paints lib (concat (map (\<lambda>row. if page_start + of_nat row = selected then T (unat page_start + row) else []) [0..<unat row_count]))
      (draw_rows item page_start row_count row_y selected)"
    unfolding draw_rows_def Let_def
    by (rule paints_each) (use assms(1,2) in \<open>auto simp: array_at_def\<close>)
  then show ?thesis using assms(3-5) by (simp add: concat_window)
qed

text \<open>A page of the list table: its texts have the lengths given, and the title fits.\<close>

definition resource_ok :: "lcd_ui_list_resource \<Rightarrow> bool" where
  "resource_ok r \<longleftrightarrow> labels_ok (res_item_texts r) (res_item_counts r)
     \<and> unat (res_item_count r) = length (res_item_texts r) \<and> unat (res_title_count r) = length (res_title_text r)
     \<and> length (res_title_text r) \<le> 9 \<and> (page_show_title (res_page_id r) \<or> length (res_item_texts r) \<le> 8)"

lemmas label_tables = g_menu_item_texts_u8g2_def g_menu_item_text_counts_u8g2_def g_drive_sub_item_texts_u8g2_def
  g_drive_sub_item_counts_u8g2_def g_device_sub_item_texts_u8g2_def g_device_sub_item_counts_u8g2_def
  g_system_sub_item_texts_u8g2_def g_system_sub_item_counts_u8g2_def g_info_center_item_texts_u8g2_def
  g_info_center_item_counts_u8g2_def g_info_text_item_texts_u8g2_def g_info_text_item_counts_u8g2_def
  g_host_param_item_texts_u8g2_def g_host_param_item_counts_u8g2_def g_vehicle_info_setting_item_texts_u8g2_def
  g_vehicle_info_setting_item_counts_u8g2_def g_vehicle_plate_class_item_texts_u8g2_def
  g_vehicle_plate_class_item_counts_u8g2_def g_vehicle_plate_color_item_texts_u8g2_def
  g_vehicle_plate_color_item_counts_u8g2_def

lemma resources_ok: "list_all resource_ok g_lcd_list_resources"
  by (simp add: g_lcd_list_resources_def resource_ok_def labels_ok_def page_show_title_def label_tables)

lemma resource_found:
  assumes "lcd_get_list_page_resources page = Some r"
  shows "resource_ok r" "res_page_id r = page"
  using assms resources_ok by (auto simp: lcd_get_list_page_resources_def find_Some_iff list_all_length)

lemma submenu_rows_painted:
  assumes "fonts_fit lib" "lcd_get_list_page_resources page = Some r" "unat row_count \<le> length row_y"
    "unat page_start \<le> unat selected" "unat selected < unat page_start + unat row_count"
    "unat page_start + unat row_count \<le> length (res_item_texts r)" "list_all (\<lambda>y. unat y \<in> {11..62}) row_y"
  shows "paints lib (item_text (unat selected) (res_item_texts r ! unat selected))
    (draw_rows (lcd_u8g2_draw_submenu_item lib page) page_start row_count row_y selected)"
proof (rule rows_painted [where T = "\<lambda>i. item_text i (res_item_texts r ! i)"])
  have r: "resource_ok r" using resource_found(1) [OF assms(2)] .
  then have n: "length (res_item_texts r) \<le> 9" by (simp add: resource_ok_def labels_ok_def)
  show "unat page_start + unat row_count \<le> 255" using assms(6) n by simp
  fix row assume row: "row < unat row_count"
  then have u: "unat (page_start + of_nat row) = unat page_start + row"
    using assms(6) n by (simp add: unat_word_ariths unsigned_of_nat take_bit_nat_eq_self)
  then have lt: "unat (page_start + of_nat row) < length (res_item_texts r)" using row assms(6) by simp
  then have "\<not> res_item_count r \<le> page_start + of_nat row" using r by (simp add: resource_ok_def word_le_nat_alt)
  then show "paints lib (if page_start + of_nat row = selected then item_text (unat page_start + row) (res_item_texts r ! (unat page_start + row)) else [])
      (lcd_u8g2_draw_submenu_item lib page (page_start + of_nat row) (row_y ! row) (page_start + of_nat row = selected))"
    unfolding u [symmetric] lcd_u8g2_draw_submenu_item_def assms(2) option.case
    using row_painted [OF assms(1) _ lt, of "res_item_counts r" "row_y ! row"] r row assms(3,7)
    by (simp add: resource_ok_def list_all_length)
qed (use assms in simp_all)

lemma resource_counts:
  assumes "lcd_get_list_page_resources page = Some r"
  shows "length (res_item_texts r) \<le> 9" "unat (res_item_count r) = length (res_item_texts r)"
    "unat w \<le> length (res_item_texts r) \<Longrightarrow> unat (res_item_count r - w) = length (res_item_texts r) - unat w"
  using resource_found(1) [OF assms] by (auto simp: resource_ok_def labels_ok_def unat_sub word_le_nat_alt)

text \<open>A window of a list that contains the selection, with as many rows as fit or are left.\<close>

lemma submenu_window:
  assumes "fonts_fit lib" "lcd_get_list_page_resources page = Some r" "unat selected < length (res_item_texts r)"
    "unat page_start \<le> unat selected" "unat selected < unat page_start + length row_y"
    "unat row_count = min (length row_y) (length (res_item_texts r) - unat page_start)" "list_all (\<lambda>y. unat y \<in> {11..62}) row_y"
  shows "paints lib (item_text (unat selected) (res_item_texts r ! unat selected))
    (do { draw_rows (lcd_u8g2_draw_submenu_item lib page) page_start row_count row_y selected; u8g2_call FlushBuffer })"
  using paints_bind [OF submenu_rows_painted [OF assms(1,2), of row_count row_y page_start selected] paints_call [of FlushBuffer]] assms(3-7)
  by (simp add: min_def split: if_splits)

lemma submenu_scrolled:
  assumes "fonts_fit lib" "lcd_get_list_page_resources page = Some r" "unat selected < length (res_item_texts r)"
    "unat page_start \<le> unat selected" "unat selected < unat page_start + length row_y"
    "unat row_count = min (length row_y) (length (res_item_texts r) - unat page_start)" "list_all (\<lambda>y. unat y \<in> {11..62}) row_y"
  shows "paints lib (item_text (unat selected) (res_item_texts r ! unat selected))
    (do { new_page; draw_rows (lcd_u8g2_draw_submenu_item lib page) page_start row_count row_y selected; u8g2_call FlushBuffer })"
  using paints_bind [OF paints_new_page submenu_window [OF assms]] by simp

lemma submenu_titled_painted:
  assumes "fonts_fit lib" "lcd_get_list_page_resources (g_lcd_current_page_id u) = Some r"
    "lcd_get_page_node env (g_lcd_current_page_id u) = Some node" "page_show_title (g_lcd_current_page_id u)"
    "unat (g_lcd_page_selected u (g_lcd_current_page_id u)) < length (res_item_texts r)"
  shows "paints lib (let i = unat (g_lcd_page_selected u (g_lcd_current_page_id u)) in item_text i (res_item_texts r ! i))
    (lcd_render_drive_record_submenu_ui lib env u)"
proof -
  let ?s = "g_lcd_page_selected u (g_lcd_current_page_id u)"
  note n = resource_counts [OF assms(2)] and wn = word_less_nat_alt word_le_nat_alt resource_counts(2) [OF assms(2)]
  note window = submenu_scrolled [OF assms(1,2,5)]
  note page = lcd_render_drive_record_submenu_ui_def Let_def
  have t: "paints lib [] (lcd_u8g2_draw_unicode_seq lib 2 12 (res_title_text r) (res_title_count r))"
    using assms(1) resource_found(1) [OF assms(2)] by (intro paints_seq) (auto simp: resource_ok_def)
  consider "unat ?s < 3" | "3 \<le> unat ?s" "unat ?s < 7" | "7 \<le> unat ?s" by linarith
  then show ?thesis
  proof cases
    case 1
    note rows = submenu_window [OF assms(1,2,5), of 0 "[28, 42, 56]" "if res_item_count r < 3 then res_item_count r else 3"]
    from paints_bind [OF paints_new_page paints_bind [OF paints_steps(2) [where f = LCD_FONT_CN_12] paints_bind [OF t rows]]]
    show ?thesis using 1 assms(2-4) by (simp add: page wn min_def split: if_splits)
  next
    case 2
    then show ?thesis
      using window [of 3 "[14, 28, 42, 56]" "if 4 < res_item_count r - 3 then 4 else res_item_count r - 3"] assms n(3) [of 3]
      by (simp add: page wn min_def split: if_splits)
  next
    case 3
    then show ?thesis
      using window [of 7 "[28, 42]" "if 2 < res_item_count r - 7 then 2 else res_item_count r - 7"] assms n(1) n(3) [of 7]
      by (simp add: page wn min_def split: if_splits)
  qed
qed

lemma submenu_untitled_painted:
  assumes "fonts_fit lib" "lcd_get_list_page_resources (g_lcd_current_page_id u) = Some r"
    "lcd_get_page_node env (g_lcd_current_page_id u) = Some node" "\<not> page_show_title (g_lcd_current_page_id u)"
    "unat (g_lcd_page_selected u (g_lcd_current_page_id u)) < length (res_item_texts r)"
  shows "paints lib (let i = unat (g_lcd_page_selected u (g_lcd_current_page_id u)) in item_text i (res_item_texts r ! i))
    (lcd_render_drive_record_submenu_ui lib env u)"
proof -
  let ?s = "g_lcd_page_selected u (g_lcd_current_page_id u)"
  note n = resource_counts [OF assms(2)] and wn = word_less_nat_alt word_le_nat_alt resource_counts(2) [OF assms(2)]
  note window = submenu_scrolled [OF assms(1,2,5)]
  note page = lcd_render_drive_record_submenu_ui_def Let_def
  have n8: "length (res_item_texts r) \<le> 8" using resource_found [OF assms(2)] assms(4) by (simp add: resource_ok_def)
  show ?thesis
  proof (cases "unat ?s < 4")
    case True
    then show ?thesis
      using window [of 0 "[16, 30, 44, 58]" "if res_item_count r < 4 then res_item_count r else 4"] assms
      by (simp add: page wn min_def split: if_splits)
  next
    case False
    then show ?thesis
      using window [of 4 "[16, 30, 44, 58]" "if 4 < res_item_count r - 4 then 4 else res_item_count r - 4"] assms n8 n(3) [of 4]
      by (simp add: page wn min_def split: if_splits)
  qed
qed

lemma submenu_painted:
  assumes "fonts_fit lib" "lcd_get_list_page_resources (g_lcd_current_page_id u) = Some r"
    "lcd_get_page_node env (g_lcd_current_page_id u) \<noteq> None"
    "unat (g_lcd_page_selected u (g_lcd_current_page_id u)) < length (res_item_texts r)"
  shows "paints lib (let i = unat (g_lcd_page_selected u (g_lcd_current_page_id u)) in item_text i (res_item_texts r ! i))
    (lcd_render_drive_record_submenu_ui lib env u)"
  using assms submenu_titled_painted [OF assms(1,2)] submenu_untitled_painted [OF assms(1,2)] by blast

lemma menu_painted:
  assumes "fonts_fit lib" "unat (g_lcd_page_selected u LCD_PAGE_MAIN_MENU) < 3"
  shows "paints lib (let i = unat (g_lcd_page_selected u LCD_PAGE_MAIN_MENU) in item_text i (g_menu_item_texts_u8g2 ! i))
    (lcd_render_menu_ui lib u)"
proof -
  let ?s = "g_lcd_page_selected u LCD_PAGE_MAIN_MENU"
  have l: "labels_ok g_menu_item_texts_u8g2 g_menu_item_text_counts_u8g2" by (simp add: labels_ok_def label_tables)
  have "paints lib (item_text (unat ?s) (g_menu_item_texts_u8g2 ! unat ?s)) (draw_rows (lcd_u8g2_draw_menu_item lib) 0 3 [28, 42, 56] ?s)"
  proof (rule rows_painted [where T = "\<lambda>i. item_text i (g_menu_item_texts_u8g2 ! i)"])
    fix row assume "row < unat (3 :: u8)"
    then have "row \<in> {0, 1, 2}" by auto
    then show "paints lib (if 0 + of_nat row = ?s then item_text (unat 0 + row) (g_menu_item_texts_u8g2 ! (unat 0 + row)) else [])
        (lcd_u8g2_draw_menu_item lib (0 + of_nat row) ([28, 42, 56] ! row) (0 + of_nat row = ?s))"
      using row_painted [OF assms(1) l, of "of_nat row" "[28, 42, 56] ! row" "of_nat row = ?s"]
      by (auto simp: lcd_u8g2_draw_menu_item_def g_menu_item_texts_u8g2_def)
  qed (use assms(2) in simp_all)
  from paints_bind [OF paints_new_page paints_bind [OF paints_bind [OF paints_steps(2) [where f = LCD_FONT_CN_12]
    paints_bind [OF paints_seq [of lib 2 g_menu_title_u8g2 2 12] this]] paints_call [of FlushBuffer]]]
  show ?thesis using assms by (simp add: lcd_render_menu_ui_def Let_def word_less_nat_alt g_menu_title_u8g2_def)
qed

end
