(* ===== verification/Svc_Lcd_Screens.thy ===== *)
theory Svc_Lcd_Screens
  imports Svc_Lcd_Draw Svc_Lcd_Thread
begin

unbundle bit_operations_syntax

text \<open>
  The pages as the display draws them (\<open>src/applications/svc_lcd.c\<close>): a definition for every
  \<open>lcd_render_\<dots>_ui\<close> function as the sequence of its library calls, and \<open>lcd_draw_page\<close>, which calls the
  renderer that the page table names. The main result is \<open>page_painted\<close>: with the selections and the
  editors in range, every page is drawn without a faulty array access and inside the panel, and what
  it shows inverted is the focus of the page, given independently by \<open>focus_text\<close>.
\<close>

section \<open>Settings\<close>

definition lcd_render_key_volume_ui :: "u8g2_lib \<Rightarrow> 'b ui \<Rightarrow> unit draw" where
  "lcd_render_key_volume_ui lib u =
     (let selected_index = g_lcd_page_selected u LCD_PAGE_SYSTEM_SETTING_KEY_VOLUME in do {
        new_page;
        u8g2_SetFont LCD_FONT_CN_12;
        draw_choice (selected_index = 0) (DrawBox 0 11 132 15)
          (lcd_u8g2_draw_unicode_seq lib 2 23 [0x6309, 0x952E, 0x9759, 0x97F3] 4);
        draw_choice (selected_index = 1) (DrawBox 0 31 132 15)
          (lcd_u8g2_draw_unicode_seq lib 2 43 [0x6309, 0x952E, 0x53D1, 0x97F3] 4);
        u8g2_call FlushBuffer
      })"

definition lcd_render_common_config_ok_ui :: "u8g2_lib \<Rightarrow> unit draw" where
  "lcd_render_common_config_ok_ui lib = do {
     new_page;
     u8g2_SetFont LCD_FONT_CN_12;
     lcd_u8g2_draw_unicode_seq lib 24 32 [0x914D, 0x7F6E, 0x6570, 0x636E, 0x6210, 0x529F, 0xFF01] 7;
     u8g2_call (DrawFrame 46 46 40 14);
     lcd_u8g2_draw_unicode_seq lib 54 58 [0x786E, 0x8BA4] 2;
     u8g2_call FlushBuffer
   }"

definition lcd_render_brightness_menu_ui :: "u8g2_lib \<Rightarrow> 'b ui \<Rightarrow> unit draw" where
  "lcd_render_brightness_menu_ui lib u =
     (let selected_index = g_lcd_page_selected u LCD_PAGE_SYSTEM_SETTING_BRIGHTNESS in do {
        new_page;
        u8g2_SetFont LCD_FONT_CN_12;
        draw_choice (selected_index = 0) (DrawBox 0 11 132 15)
          (lcd_u8g2_draw_unicode_seq lib 2 23 [0x80CC, 0x5149, 0x6301, 0x7EED, 0x65F6, 0x95F4, 0x8BBE, 0x7F6E] 8);
        draw_choice (selected_index = 1) (DrawBox 0 31 132 15)
          (lcd_u8g2_draw_unicode_seq lib 2 43 [0x5C4F, 0x5E55, 0x4EAE, 0x5EA6, 0x8BBE, 0x7F6E] 6);
        u8g2_call FlushBuffer
      })"

definition lcd_render_backlight_time_ui :: "u8g2_lib \<Rightarrow> 'b ui \<Rightarrow> unit draw" where
  "lcd_render_backlight_time_ui lib u =
     (let selected_index = g_lcd_page_selected u LCD_PAGE_SYSTEM_SETTING_BACKLIGHT_TIME in do {
        new_page;
        u8g2_SetFont LCD_FONT_CN_12;
        draw_choice (selected_index = 0) (DrawBox 0 11 58 15)
          (lcd_u8g2_draw_unicode_seq lib 2 23 [0x5173, 0x95ED] 2);
        draw_choice_right lib (selected_index = 1) (DrawBox 66 11 66 15) 23 [0x0031, 0x0035, 0x79D2] 3;
        draw_choice (selected_index = 2) (DrawBox 0 27 58 15)
          (lcd_u8g2_draw_unicode_seq lib 2 39 [0x0033, 0x0030, 0x79D2] 3);
        draw_choice_right lib (selected_index = 3) (DrawBox 66 27 66 15) 39 [0x0031, 0x006D, 0x0069, 0x006E] 4;
        draw_choice (selected_index = 4) (DrawBox 0 43 58 15)
          (lcd_u8g2_draw_unicode_seq lib 2 55 [0x0032, 0x006D, 0x0069, 0x006E] 4);
        draw_choice_right lib (selected_index = 5) (DrawBox 66 43 66 15) 55 [0x5E38, 0x4EAE] 2;
        u8g2_call FlushBuffer
      })"

definition lcd_render_brightness_level_ui :: "u8g2_lib \<Rightarrow> 'b ui \<Rightarrow> unit draw" where
  "lcd_render_brightness_level_ui lib u =
     (let selected_index = g_lcd_page_selected u LCD_PAGE_SYSTEM_SETTING_BRIGHTNESS_LEVEL in do {
        new_page;
        u8g2_SetFont LCD_FONT_CN_12;
        draw_choice (selected_index = 0) (DrawBox 0 11 58 15)
          (lcd_u8g2_draw_unicode_seq lib 2 23 [0x0031, 0x0030, 0x0025] 3);
        draw_choice_right lib (selected_index = 1) (DrawBox 66 11 66 15) 23 [0x0033, 0x0030, 0x0025] 3;
        draw_choice (selected_index = 2) (DrawBox 0 27 58 15)
          (lcd_u8g2_draw_unicode_seq lib 2 39 [0x0035, 0x0030, 0x0025] 3);
        draw_choice_right lib (selected_index = 3) (DrawBox 66 27 66 15) 39 [0x0037, 0x0030, 0x0025] 3;
        draw_choice (selected_index = 4) (DrawBox 0 43 132 15)
          (lcd_u8g2_draw_unicode_seq lib 2 55 [0x0031, 0x0030, 0x0030, 0x0025] 4);
        u8g2_call FlushBuffer
      })"

section \<open>Records and state of the vehicle\<close>

definition lcd_render_fatigue_drive_record_ui :: "u8g2_lib \<Rightarrow> 'b ui \<Rightarrow> unit draw" where
  "lcd_render_fatigue_drive_record_ui lib u = do {
     new_page;
     u8g2_SetFont LCD_FONT_CN_12;
     lcd_u8g2_draw_unicode_seq lib 2 16 [0x8D85, 0x65F6, 0x9A7E, 0x9A76, 0x8BB0, 0x5F55] 6;
     u8g2_DrawStr 74 16 (lit '':'');
     u8g2_SetFont LCD_FONT_ASCII_SMALL;
     u8g2_DrawStr 86 16 (rt_snprintf 12 (dec (unat (g_lcd_overtime_drive_count u))));
     u8g2_call FlushBuffer
   }"

definition mileage_text :: "'b ui \<Rightarrow> bytes" where
  "mileage_text u = rt_snprintf 24
     (dec (unat (g_lcd_total_mileage_km u)) @ lit ''.'' @ dec_pad 3 (unat (g_lcd_total_mileage_rem_m u)) @ lit '' km'')"

definition lcd_render_drive_mileage_ui :: "u8g2_lib \<Rightarrow> 'b ui \<Rightarrow> unit draw" where
  "lcd_render_drive_mileage_ui lib u = do {
     new_page;
     u8g2_SetFont LCD_FONT_CN_12;
     lcd_u8g2_draw_unicode_seq lib 2 16 [0x7D2F, 0x8BA1, 0x884C, 0x9A76, 0x91CC, 0x7A0B] 6;
     u8g2_SetFont LCD_FONT_ASCII_SMALL;
     u8g2_DrawStr 2 38 (mileage_text u);
     u8g2_call FlushBuffer
   }"

text \<open>The loop over the card number stops at the first character that is not 0.\<close>

fun all_zero_loop :: "bytes \<Rightarrow> nat list \<Rightarrow> bool draw" where
  "all_zero_loop card_id [] = State_Monad.return True"
| "all_zero_loop card_id (i # is) = do {
     ch \<leftarrow> array_at 0 card_id i;
     (if ch \<noteq> 0x30 then State_Monad.return False else all_zero_loop card_id is)
   }"

definition lcd_render_driver_info_ui :: "u8g2_lib \<Rightarrow> 'b ui \<Rightarrow> unit draw" where
  "lcd_render_driver_info_ui lib u =
     (let card_id = home_card_id (g_lcd_home_ui u) in do {
        all_zero \<leftarrow> all_zero_loop card_id [0..<18];
        new_page;
        u8g2_SetFont LCD_FONT_CN_12;
        lcd_u8g2_draw_unicode_seq lib 2 14 [0x9A7E, 0x9A76, 0x5458, 0x8BC1, 0x53F7] 5;
        u8g2_DrawStr 64 14 (lit '':'');
        u8g2_SetFont LCD_FONT_ASCII_SMALL;
        u8g2_DrawStr 2 32 card_id;
        u8g2_SetFont LCD_FONT_CN_12;
        (if all_zero then lcd_u8g2_draw_unicode_seq lib 2 50 [0x672A, 0x767B, 0x5F55] 3
         else lcd_u8g2_draw_unicode_seq lib 2 50 [0x5DF2, 0x767B, 0x5F55] 3);
        u8g2_call FlushBuffer
      })"

definition lcd_render_info_center_dispatch_ui :: "u8g2_lib \<Rightarrow> unit draw" where
  "lcd_render_info_center_dispatch_ui lib = do {
     new_page;
     u8g2_SetFont LCD_FONT_CN_12;
     lcd_u8g2_draw_unicode_seq lib 2 16 [0x8C03, 0x5EA6, 0x4FE1, 0x606F] 4;
     u8g2_DrawStr 50 16 (lit '':'');
     u8g2_SetFont LCD_FONT_ASCII_SMALL;
     u8g2_DrawStr 58 16 (lit ''0'');
     u8g2_SetFont LCD_FONT_CN_12;
     lcd_u8g2_draw_unicode_seq lib 70 16 [0x65F6, 0x95F4] 2;
     u8g2_DrawStr 94 16 (lit '':'');
     lcd_u8g2_draw_unicode_seq lib 102 16 [0x65E0] 1;
     lcd_u8g2_draw_unicode_seq lib 2 36 [0x65E0, 0x6587, 0x672C] 3;
     u8g2_call FlushBuffer
   }"

definition lcd_render_vehicle_info_ui :: "u8g2_lib \<Rightarrow> unit draw" where
  "lcd_render_vehicle_info_ui lib = do {
     new_page;
     u8g2_SetFont LCD_FONT_CN_12;
     lcd_u8g2_draw_unicode_seq lib 2 12 [0x8F66, 0x724C, 0x53F7] 3;
     u8g2_DrawStr 38 12 (lit '':'');
     lcd_u8g2_draw_unicode_seq lib 2 24 [0x8F66, 0x8F86, 0x5206, 0x7C7B] 4;
     u8g2_DrawStr 50 24 (lit '':'');
     lcd_u8g2_draw_unicode_seq lib 2 36 [0x7EC8, 0x7AEF, 0x0049, 0x0044] 4;
     u8g2_DrawStr 46 36 (lit '':'');
     lcd_u8g2_draw_unicode_seq lib 2 48 [0x8109, 0x51B2, 0x7CFB, 0x6570] 4;
     u8g2_DrawStr 50 48 (lit '':'');
     u8g2_SetFont LCD_FONT_ASCII_SMALL;
     u8g2_DrawStr 56 48 (lit ''3600 P/Km'');
     u8g2_SetFont LCD_FONT_CN_12;
     lcd_u8g2_draw_unicode_seq lib 2 60 [0x0056, 0x0049, 0x004E, 0x7801] 4;
     u8g2_DrawStr 38 60 (lit '':'');
     u8g2_call FlushBuffer
   }"

definition lcd_vehicle_draw_symbol :: "u8 \<Rightarrow> u8 \<Rightarrow> bool \<Rightarrow> unit draw" where
  "lcd_vehicle_draw_symbol x8 y8 ok =
     (let x = ucast x8; y = ucast y8 in
      if ok
      then do {
        u8g2_call (DrawLine (x + 1) (y - 5) (x + 4) (y - 2));
        u8g2_call (DrawLine (x + 4) (y - 2) (x + 10) (y - 10));
        u8g2_call (DrawLine (x + 1) (y - 4) (x + 4) (y - 1));
        u8g2_call (DrawLine (x + 4) (y - 1) (x + 10) (y - 9))
      }
      else do {
        u8g2_call (DrawLine (x + 1) (y - 10) (x + 9) (y - 2));
        u8g2_call (DrawLine (x + 9) (y - 10) (x + 1) (y - 2));
        u8g2_call (DrawLine (x + 2) (y - 10) (x + 10) (y - 2));
        u8g2_call (DrawLine (x + 10) (y - 10) (x + 2) (y - 2))
      })"

definition lcd_vehicle_draw_cn_left :: "u8g2_lib \<Rightarrow> u8 \<Rightarrow> u16 list \<Rightarrow> u8 \<Rightarrow> bool \<Rightarrow> unit draw" where
  "lcd_vehicle_draw_cn_left lib y label label_count ok = do {
     lcd_u8g2_draw_unicode_seq lib 2 (ucast y) label label_count;
     lcd_vehicle_draw_symbol (2 + label_count * 12 + 2) y ok
   }"

definition lcd_vehicle_draw_cn_right :: "u8g2_lib \<Rightarrow> u8 \<Rightarrow> u16 list \<Rightarrow> u8 \<Rightarrow> bool \<Rightarrow> unit draw" where
  "lcd_vehicle_draw_cn_right lib y label label_count ok =
     (let symbol_x = 118; label_x = symbol_x - 2 - label_count * 12 in do {
        lcd_u8g2_draw_unicode_seq lib (ucast label_x) (ucast y) label label_count;
        lcd_vehicle_draw_symbol symbol_x y ok
      })"

definition lcd_vehicle_draw_ascii_left :: "u8 \<Rightarrow> bytes \<Rightarrow> bool \<Rightarrow> unit draw" where
  "lcd_vehicle_draw_ascii_left y label ok = do {
     u8g2_SetFont LCD_FONT_ASCII_SMALL;
     u8g2_DrawStr 2 (ucast y) label;
     u8g2_SetFont LCD_FONT_CN_12;
     lcd_vehicle_draw_symbol 32 y ok
   }"

definition lcd_vehicle_draw_ascii_right :: "u8 \<Rightarrow> bytes \<Rightarrow> bool \<Rightarrow> unit draw" where
  "lcd_vehicle_draw_ascii_right y label ok = do {
     u8g2_SetFont LCD_FONT_ASCII_SMALL;
     u8g2_DrawStr 84 (ucast y) label;
     u8g2_SetFont LCD_FONT_CN_12;
     lcd_vehicle_draw_symbol 118 y ok
   }"

definition lcd_render_vehicle_status_ui :: "u8g2_lib \<Rightarrow> vehicle_io \<Rightarrow> 'b ui \<Rightarrow> unit draw" where
  "lcd_render_vehicle_status_ui lib vio u =
     (let state = svc_vehicle_io_get_state vio; page = g_lcd_page_selected u LCD_PAGE_DEVICE_STATUS_VEHICLE in do {
        new_page;
        u8g2_SetFont LCD_FONT_CN_12;
        (if page = 0
         then do {
           lcd_vehicle_draw_ascii_left 14 (lit ''ACC'') (wk_acc state \<noteq> 0);
           lcd_vehicle_draw_ascii_right 14 (lit ''ON'') (wk_on state \<noteq> 0);
           lcd_vehicle_draw_cn_left lib 34 [0x5236, 0x52A8] 2 (sw_kl2 state \<noteq> 0);
           lcd_vehicle_draw_cn_right lib 34 [0x5DE6, 0x8F6C, 0x5411, 0x706F] 4 (sw_kl3 state \<noteq> 0);
           lcd_vehicle_draw_cn_left lib 54 [0x53F3, 0x8F6C, 0x5411, 0x706F] 4 (sw_kl4 state \<noteq> 0);
           lcd_vehicle_draw_cn_right lib 54 [0x5C0F, 0x706F] 2 (sw_kl1 state \<noteq> 0)
         }
         else if page = 1
         then do {
           lcd_vehicle_draw_ascii_left 14 (lit ''SOS'') True;
           lcd_vehicle_draw_cn_right lib 14 [0x8FDC, 0x5149, 0x706F] 3 (sw_kl5 state \<noteq> 0);
           lcd_vehicle_draw_cn_left lib 34 [0x8FD1, 0x5149, 0x706F] 3 (sw_kl6 state \<noteq> 0);
           lcd_vehicle_draw_cn_right lib 34 [0x540E, 0x96FE, 0x706F] 3 (sw_kl7 state \<noteq> 0);
           lcd_vehicle_draw_cn_left lib 54 [0x5012, 0x8F66] 2 (sw_kl8 state \<noteq> 0);
           lcd_vehicle_draw_cn_right lib 54 [0x8F66, 0x95E8] 2 (sw_kl10 state = 0)
         }
         else lcd_vehicle_draw_cn_left lib 24 [0x5EA7, 0x6905, 0x5B89, 0x5168, 0x5E26] 5 (sw_kl9 state = 0));
        u8g2_call FlushBuffer
      })"

definition load_status_texts :: "u16 list list" where
  "load_status_texts = [[0x8BBE, 0x4E3A, 0x7A7A, 0x8F7D], [0x8BBE, 0x4E3A, 0x534A, 0x8F7D], [0x8BBE, 0x4E3A, 0x6EE1, 0x8F7D]]"

definition lcd_render_vehicle_load_status_ui :: "u8g2_lib \<Rightarrow> 'b ui \<Rightarrow> unit draw" where
  "lcd_render_vehicle_load_status_ui lib u = do {
     new_page;
     for_each (\<lambda>i.
       (let y = 18 + of_nat i * 16 :: u8
        in draw_choice (g_lcd_page_selected u LCD_PAGE_DRIVE_RECORD_LOAD_STATUS = of_nat i)
             (DrawBox 0 (ucast (y - 11)) 132 13)
             (do {
                u8g2_SetFont LCD_FONT_CN_12;
                text \<leftarrow> array_at [] load_status_texts i;
                lcd_u8g2_draw_unicode_seq lib 10 (ucast y) text 4
              }))) [0..<3];
     u8g2_call FlushBuffer
   }"

definition lcd_render_vehicle_load_status_ok_ui :: "u8g2_lib \<Rightarrow> unit draw" where
  "lcd_render_vehicle_load_status_ok_ui lib = do {
     new_page;
     u8g2_SetFont LCD_FONT_CN_12;
     lcd_u8g2_draw_unicode_seq lib 34 28 [0x8BBE, 0x7F6E, 0x6210, 0x529F] 4;
     lcd_u8g2_draw_unicode_seq lib 52 58 [0x786E, 0x8BA4] 2;
     u8g2_call FlushBuffer
   }"

definition speed_text :: "'b ui \<Rightarrow> bytes" where
  "speed_text u = rt_snprintf 16
     (dec (unat (home_speed_kmh_x10 (g_lcd_home_ui u) div 10)) @ lit ''.''
      @ dec (unat (home_speed_kmh_x10 (g_lcd_home_ui u) mod 10)) @ lit '' km/h'')"

definition lcd_render_location_status_ui :: "u8g2_lib \<Rightarrow> 'b ui \<Rightarrow> unit draw" where
  "lcd_render_location_status_ui lib u = do {
     new_page;
     u8g2_SetFont LCD_FONT_CN_12;
     lcd_u8g2_draw_unicode_seq lib 2 16 [0x536B, 0x661F] 2;
     u8g2_DrawStr 28 16 (lit '':'');
     u8g2_SetFont LCD_FONT_ASCII_SMALL;
     u8g2_DrawStr 36 16 (rt_snprintf 8 (dec_pad 2 (unat (home_top_status_value (g_lcd_home_ui u)))));
     u8g2_DrawStr 72 16 (speed_text u);
     u8g2_SetFont LCD_FONT_CN_12;
     (if home_top_status_value (g_lcd_home_ui u) = 0
      then lcd_u8g2_draw_unicode_seq lib 2 38 [0x672A, 0x5B9A, 0x4F4D] 3
      else lcd_u8g2_draw_unicode_seq lib 2 38 [0x5DF2, 0x5B9A, 0x4F4D] 3);
     u8g2_call FlushBuffer
   }"

definition lcd_render_device_version_ui :: "u8g2_lib \<Rightarrow> unit draw" where
  "lcd_render_device_version_ui lib = do {
     new_page;
     u8g2_SetFont LCD_FONT_CN_12;
     lcd_u8g2_draw_unicode_seq lib 2 18 [0x8F6F, 0x4EF6, 0x7248, 0x672C] 4;
     u8g2_SetFont LCD_FONT_ASCII_SMALL;
     u8g2_DrawStr 54 18 (lit '':'');
     u8g2_DrawStr 62 18 APP_SOFTWARE_VERSION;
     u8g2_call FlushBuffer
   }"

section \<open>Text messages\<close>

text \<open>A line of the message; its characters come from \<open>text_lines\<close>, which ends it at a line break.\<close>

fun line_loop :: "u8g2_lib \<Rightarrow> u16 \<Rightarrow> u16 list \<Rightarrow> u16 \<Rightarrow> unit draw" where
  "line_loop lib y [] x = State_Monad.return ()"
| "line_loop lib y (code # codes) x = do {
     advance \<leftarrow> u8g2_DrawGlyph lib x y code;
     line_loop lib y codes (x + advance)
   }"

definition text_page_draw :: "u8g2_lib \<Rightarrow> 'b ui \<Rightarrow> unit draw" where
  "text_page_draw lib u =
     (let m = g_lcd_text_msg u; (ls, u') = lcd_render_info_center_text_normal_ui u; m' = g_lcd_text_msg u' in do {
        new_page;
        u8g2_SetFont LCD_FONT_CN_12;
        (if lt_valid m = 0 \<or> lt_text_len m = 0
         then do {
           lcd_u8g2_draw_unicode_seq lib 2 28 [0x65E0, 0x6587, 0x672C] 3;
           u8g2_call FlushBuffer
         }
         else do {
           for_each (\<lambda>(line, codes). line_loop lib (of_nat (16 + line * 16)) codes 2) (enumerate 0 ls);
           u8g2_SetFont LCD_FONT_ASCII_SMALL;
           u8g2_DrawStr 96 62 (rt_snprintf 16
             (dec (unat (lt_page_index m') + 1) @ lit ''/'' @ dec (unat (lt_page_count m'))));
           u8g2_call FlushBuffer
         })
      })"

section \<open>The home pages\<close>

definition g_icon_signal_12x12 :: bytes where
  "g_icon_signal_12x12 =
     [0x00, 0x00, 0x00, 0xe0, 0x3e, 0xe0, 0x1e, 0xc0, 0x0c, 0xc2, 0x0c, 0xc3, 0x8c, 0xc3, 0xcc, 0xc3,
      0xec, 0xc3, 0xfc, 0x03, 0x00, 0x00, 0x00, 0xf0]"

definition g_icon_g_12x12 :: bytes where
  "g_icon_g_12x12 =
     [0xff, 0x3f, 0x03, 0x3c, 0x03, 0x3c, 0xf3, 0xbd, 0x1b, 0xbc, 0x9b, 0xbd, 0x1b, 0xbd, 0xfb, 0x3d,
      0xf3, 0x3c, 0x03, 0xfc, 0xff, 0xff, 0xff, 0x0f]"

definition g_icon_status_12x12 :: bytes where
  "g_icon_status_12x12 =
     [0x00, 0xc0, 0x0c, 0x46, 0xb4, 0xc5, 0xcc, 0x84, 0xa8, 0x02, 0x10, 0x83, 0xb8, 0x83, 0xc8, 0x44,
      0xe4, 0xc5, 0x1c, 0x06, 0x00, 0x00, 0x00, 0xf0]"

text \<open>The bitmap built bit by bit from the 12 columns of every row; an icon has 24 bytes.\<close>

definition xbmp_set :: "u16 \<Rightarrow> nat \<Rightarrow> nat \<Rightarrow> bytes \<Rightarrow> bytes" where
  "xbmp_set bits row col xbmp =
     (if bits AND push_bit col 1 \<noteq> 0
      then xbmp[row * 2 + col div 8 := xbmp ! (row * 2 + col div 8) OR push_bit (col mod 8) 1] else xbmp)"

definition icon_xbmp :: "bytes \<Rightarrow> bytes" where
  "icon_xbmp glyph =
     fold (\<lambda>row xbmp. let bits = ucast (glyph ! (row * 2)) OR push_bit 8 (ucast (glyph ! (row * 2 + 1)))
            in fold (xbmp_set bits row) [0..<12] xbmp) [0..<12] (replicate 24 0)"

definition lcd_u8g2_draw_bitmap12x12 :: "u8 \<Rightarrow> u8 \<Rightarrow> bytes \<Rightarrow> unit draw" where
  "lcd_u8g2_draw_bitmap12x12 x y glyph = u8g2_call (DrawXBMP (ucast x) (ucast y) 12 12 (icon_xbmp glyph))"

definition lcd_u8g2_draw_top_icons :: "u8 \<Rightarrow> u8 \<Rightarrow> 'b ui \<Rightarrow> unit draw" where
  "lcd_u8g2_draw_top_icons x y u = do {
     lcd_u8g2_draw_bitmap12x12 x y g_icon_signal_12x12;
     draw_when (home_top_status_value (g_lcd_home_ui u) \<noteq> 0) (do {
       lcd_u8g2_draw_bitmap12x12 (x + 18) y g_icon_g_12x12;
       lcd_u8g2_draw_bitmap12x12 (x + 36) y g_icon_status_12x12;
       u8g2_SetFont FONT_5X7;
       u8g2_DrawStr (ucast (x + 50)) (ucast (y + 9))
         (rt_snprintf 4 (dec_pad 2 (unat (home_top_status_value (g_lcd_home_ui u)))))
     })
   }"

definition hms_text :: "u8 \<Rightarrow> u8 \<Rightarrow> u8 \<Rightarrow> bytes" where
  "hms_text h m s = rt_snprintf 16
     (dec_pad 2 (unat h) @ lit '':'' @ dec_pad 2 (unat m) @ lit '':'' @ dec_pad 2 (unat s))"

definition degree_text :: "u8 \<Rightarrow> u32 \<Rightarrow> bytes" where
  "degree_text direction v = rt_snprintf 24
     ((if direction \<noteq> 0 then lit ''-'' else []) @ dec (unat (v div 1000000)) @ lit ''.'' @ dec_pad 6 (unat (v mod 1000000)))"

definition date_text :: "u32 \<Rightarrow> bytes" where
  "date_text ts =
     (let t = lcd_timestamp_to_local_ymdhm ts
      in rt_snprintf 24 (dec (unat (t_year t)) @ lit ''.'' @ dec (unat (t_month t)) @ lit ''.'' @ dec (unat (t_day t))
           @ lit ''    '' @ dec_pad 2 (unat (t_hour t)) @ lit '':'' @ dec_pad 2 (unat (t_minute t))))"

definition lcd_render_home_sub_ui :: "u8g2_lib \<Rightarrow> 'b ui \<Rightarrow> unit draw" where
  "lcd_render_home_sub_ui lib u =
     (let h = g_lcd_home_ui u in do {
        new_page;
        lcd_u8g2_draw_top_icons 2 2 u;
        u8g2_SetFont LCD_FONT_CN_12;
        lcd_u8g2_draw_unicode_seq lib 2 24 [0x7EAC, 0x5EA6, 0xFF1A] 3;
        lcd_u8g2_draw_unicode_seq lib 2 40 [0x7ECF, 0x5EA6, 0xFF1A] 3;
        u8g2_SetFont LCD_FONT_ASCII_SMALL;
        u8g2_DrawStr 40 24 (degree_text (home_latitude_direction h) (home_latitude h));
        u8g2_DrawStr 40 40 (degree_text (home_longitude_direction h) (home_longitude h));
        u8g2_DrawStr 8 56 (date_text (home_timestamp h));
        u8g2_call FlushBuffer
      })"

definition lcd_render_home_ui :: "u8g2_lib \<Rightarrow> 'b ui \<Rightarrow> unit draw" where
  "lcd_render_home_ui lib u =
     (if g_lcd_home_subpage u \<noteq> 0 then lcd_render_home_sub_ui lib u
      else
        let h = g_lcd_home_ui u in do {
          new_page;
          lcd_u8g2_draw_top_icons 2 2 u;
          u8g2_SetFont LCD_FONT_ASCII_SMALL;
          u8g2_DrawStr 10 24 (speed_text u);
          u8g2_DrawStr 72 24 (hms_text (home_hour h) (home_minute h) (home_second h));
          u8g2_SetFont LCD_FONT_CN_12;
          lcd_u8g2_draw_unicode_seq lib 8 40 [0x8FDE, 0x7EED, 0x9A7E, 0x9A76] 4;
          u8g2_SetFont LCD_FONT_ASCII_SMALL;
          u8g2_DrawStr 72 40 (hms_text (home_drive_hour h) (home_drive_minute h) (home_drive_second h));
          u8g2_call (DrawBox 2 50 6 8);
          u8g2_SetFont LCD_FONT_ASCII_SMALL;
          u8g2_DrawStr 12 58 (home_card_id h);
          u8g2_call FlushBuffer
        })"

definition lcd_render_boot_check_ui :: "u8g2_lib \<Rightarrow> unit draw" where
  "lcd_render_boot_check_ui lib = do {
     new_page;
     u8g2_SetFont LCD_FONT_CN_12;
     lcd_u8g2_draw_unicode_seq lib 28 30 [0x6B63, 0x5728, 0x81EA, 0x68C0] 4;
     u8g2_SetFont LCD_FONT_ASCII_SMALL;
     u8g2_DrawStr 76 30 (lit ''......'');
     u8g2_call FlushBuffer
   }"

section \<open>The editors\<close>

definition g_confirm_text :: "u16 list" where "g_confirm_text = [0x786E, 0x8BA4]"
definition g_exit_text :: "u16 list" where "g_exit_text = [0x9000, 0x51FA]"
definition g_save_text :: "u16 list" where "g_save_text = [0x4FDD, 0x5B58]"

definition lcd_plate_draw_ascii_cell :: "u8 \<Rightarrow> u8 \<Rightarrow> u8 \<Rightarrow> bool \<Rightarrow> unit draw" where
  "lcd_plate_draw_ascii_cell x y ch selected =
     draw_choice selected (DrawBox (ucast (x - 1)) (ucast (y - 10)) 8 12) (u8g2_DrawStr (ucast x) (ucast y) [ch, 0])"

definition lcd_plate_draw_ascii_option :: "u8 \<Rightarrow> u8 \<Rightarrow> u8 \<Rightarrow> bool \<Rightarrow> unit draw" where
  "lcd_plate_draw_ascii_option x y ch selected =
     draw_choice selected (DrawBox (ucast (x - 1)) (ucast (y - 10)) 9 12) (u8g2_DrawStr (ucast x) (ucast y) [ch, 0])"

text \<open>The top line of the VIN, province and city editors differs in the length and the positions.\<close>

definition char_edit_top_line :: "nat \<Rightarrow> u8 \<Rightarrow> u8 \<Rightarrow> 'm::len word char_edit \<Rightarrow> unit draw" where
  "char_edit_top_line len x0 dx e = do {
     u8g2_SetFont LCD_FONT_ASCII_SMALL;
     for_each (\<lambda>i. do {
         ch \<leftarrow> (if ce_edit_mask e AND push_bit i 1 \<noteq> 0
                then do { k \<leftarrow> array_at 0 (ce_chars e) i; array_at 0 g_lcd_plate_tail_chars (unat k) }
                else State_Monad.return 0x5F);
         lcd_plate_draw_ascii_cell (x0 + of_nat i * dx) 12 ch
           (ce_area e \<noteq> LCD_VIN_AREA_ACTION \<and> ce_cursor e = of_nat i)
       }) [0..<len]
   }"

definition lcd_vin_draw_top_line :: "'b ui \<Rightarrow> unit draw" where
  "lcd_vin_draw_top_line u = char_edit_top_line LCD_VIN_LEN 4 7 (ui_vin u)"

definition lcd_province_id_draw_top_line :: "'b ui \<Rightarrow> unit draw" where
  "lcd_province_id_draw_top_line u = char_edit_top_line LCD_PROVINCE_ID_LEN 56 12 (ui_province_id u)"

definition lcd_city_id_draw_top_line :: "'b ui \<Rightarrow> unit draw" where
  "lcd_city_id_draw_top_line u = char_edit_top_line LCD_CITY_ID_LEN 44 12 (ui_city_id u)"

text \<open>A row of the characters to choose from, from index \<open>from\<close> up to \<open>up\<close>.\<close>

definition option_row :: "nat \<Rightarrow> nat \<Rightarrow> u8 \<Rightarrow> u8 \<Rightarrow> u8 \<Rightarrow> u8 \<Rightarrow> unit draw" where
  "option_row from up x0 dx y option_index =
     for_each (\<lambda>i. do {
         ch \<leftarrow> array_at 0 g_lcd_plate_tail_chars i;
         lcd_plate_draw_ascii_option (x0 + (of_nat i - of_nat from) * dx) y ch (of_nat i = option_index)
       }) [from..<up]"

text \<open>The buttons below the editors.\<close>

definition draw_buttons :: "u8g2_lib \<Rightarrow> bool \<Rightarrow> bool \<Rightarrow> unit draw" where
  "draw_buttons lib confirm exit = do {
     u8g2_SetFont LCD_FONT_CN_12;
     draw_choice confirm (DrawBox 0 49 34 14) (lcd_u8g2_draw_unicode_seq lib 2 60 g_confirm_text 2);
     draw_choice exit (DrawBox 96 49 34 14) (lcd_u8g2_draw_unicode_seq lib 104 60 g_exit_text 2);
     u8g2_call FlushBuffer
   }"

definition char_edit_page :: "u8g2_lib \<Rightarrow> unit draw \<Rightarrow> unit draw \<Rightarrow> 'm::len word char_edit \<Rightarrow> unit draw" where
  "char_edit_page lib top_line options e = do {
     new_page;
     top_line;
     u8g2_call (DrawFrame 2 18 128 28);
     draw_when (ce_area e = LCD_VIN_AREA_CHAR_SELECT) (do { u8g2_SetFont LCD_FONT_ASCII_SMALL; options });
     draw_buttons lib (ce_area e = LCD_VIN_AREA_ACTION \<and> ce_action e = LCD_VIN_ACTION_CONFIRM)
       (ce_area e = LCD_VIN_AREA_ACTION \<and> ce_action e = LCD_VIN_ACTION_EXIT)
   }"

definition lcd_render_vin_set_ui :: "u8g2_lib \<Rightarrow> 'b ui \<Rightarrow> unit draw" where
  "lcd_render_vin_set_ui lib u =
     char_edit_page lib (lcd_vin_draw_top_line u)
       (do { option_row 0 18 4 7 30 (ce_option_index (ui_vin u)); option_row 18 36 4 7 42 (ce_option_index (ui_vin u)) })
       (ui_vin u)"

definition lcd_render_province_id_set_ui :: "u8g2_lib \<Rightarrow> 'b ui \<Rightarrow> unit draw" where
  "lcd_render_province_id_set_ui lib u =
     char_edit_page lib (lcd_province_id_draw_top_line u)
       (option_row 0 10 26 9 36 (ce_option_index (ui_province_id u))) (ui_province_id u)"

definition lcd_render_city_id_set_ui :: "u8g2_lib \<Rightarrow> 'b ui \<Rightarrow> unit draw" where
  "lcd_render_city_id_set_ui lib u =
     char_edit_page lib (lcd_city_id_draw_top_line u)
       (option_row 0 10 26 9 36 (ce_option_index (ui_city_id u))) (ui_city_id u)"

definition lcd_plate_draw_top_line :: "u8g2_lib \<Rightarrow> plate_edit \<Rightarrow> unit draw" where
  "lcd_plate_draw_top_line lib e =
     (if pl_valid e = 0 \<and> pl_dirty e = 0
      then do {
        u8g2_SetFont LCD_FONT_ASCII_SMALL;
        u8g2_DrawStr 2 12 (lit ''_ _._ _ _ _ _'')
      }
      else do {
        u8g2_SetFont LCD_FONT_CN_12;
        draw_choice (pl_focus e = LCD_PLATE_FOCUS_PROVINCE) (DrawBox 1 1 14 14) (do {
          code \<leftarrow> array_at 0 g_lcd_plate_province_codes (unat (pl_province_index e));
          u8g2_DrawGlyph lib 2 12 code
        });
        u8g2_SetFont LCD_FONT_ASCII_SMALL;
        ch \<leftarrow> array_at 0 g_lcd_plate_letters (unat (pl_letter_index e));
        lcd_plate_draw_ascii_cell 18 12 ch (pl_focus e = LCD_PLATE_FOCUS_LETTER);
        u8g2_DrawStr 26 12 (lit ''.'');
        for_each (\<lambda>i. do {
            x \<leftarrow> array_at 0 [34, 42, 50, 58, 66] i;
            k \<leftarrow> array_at 0 (pl_digits e) i;
            ch \<leftarrow> array_at 0 g_lcd_plate_tail_chars (unat k);
            lcd_plate_draw_ascii_cell x 12 ch (pl_focus e = LCD_PLATE_FOCUS_DIGIT0 + of_nat i)
          }) [0..<5]
      })"

text \<open>The first province, letter or character of the window that shows the selected one.\<close>

definition province_start :: "u8 \<Rightarrow> u8" where
  "province_start index =
     (let province_count = of_nat (length g_lcd_plate_province_codes)
      in if index < 2 then 0
         else if province_count - 2 \<le> index then province_count - 4
         else index - 1)"

definition letter_start :: "u8 \<Rightarrow> u8" where
  "letter_start letter_index = (if letter_index < 3 then 0 else if 22 < letter_index then 20 else letter_index - 3)"

definition tail_start :: "u8 \<Rightarrow> u8" where
  "tail_start selected_digit = (if selected_digit < 4 then 0 else if 31 < selected_digit then 27 else selected_digit - 4)"

definition plate_provinces :: "u8g2_lib \<Rightarrow> plate_edit \<Rightarrow> unit draw" where
  "plate_provinces lib e = do {
     u8g2_SetFont LCD_FONT_CN_12;
     for_each (\<lambda>i.
       (let province_index = province_start (pl_province_index e) + of_nat i; x = 14 + of_nat i * 28 :: u8
        in draw_choice (province_index = pl_province_index e) (DrawBox (ucast (x - 3)) 24 18 16) (do {
             code \<leftarrow> array_at 0 g_lcd_plate_province_codes (unat province_index);
             u8g2_DrawGlyph lib (ucast x) 37 code
           }))) [0..<4]
   }"

definition plate_letters :: "plate_edit \<Rightarrow> unit draw" where
  "plate_letters e = do {
     u8g2_SetFont LCD_FONT_ASCII_SMALL;
     for_each (\<lambda>i.
       (let letter_index = letter_start (pl_letter_index e) + of_nat i in do {
          ch \<leftarrow> array_at 0 g_lcd_plate_letters (unat letter_index);
          lcd_plate_draw_ascii_option (12 + of_nat i * 18) 36 ch (letter_index = pl_letter_index e)
        })) [0..<6]
   }"

text \<open>The second row ends at the last character (the loop breaks there).\<close>

definition plate_tail_option :: "u8 \<Rightarrow> u8 \<Rightarrow> u8 \<Rightarrow> nat \<Rightarrow> unit draw" where
  "plate_tail_option selected_digit first y i =
     (let index = first + of_nat i in do {
        ch \<leftarrow> array_at 0 g_lcd_plate_tail_chars (unat index);
        lcd_plate_draw_ascii_option (6 + of_nat i * 14) y ch (index = selected_digit)
      })"

definition plate_tail_chars :: "plate_edit \<Rightarrow> unit draw" where
  "plate_tail_chars e = do {
     u8g2_SetFont LCD_FONT_ASCII_SMALL;
     selected_digit \<leftarrow> array_at 0 (pl_digits e) (unat (pl_focus e - LCD_PLATE_FOCUS_DIGIT0));
     for_each (plate_tail_option selected_digit (tail_start selected_digit) 30) [0..<9];
     for_each (plate_tail_option selected_digit (tail_start selected_digit + 9) 42)
       (takeWhile (\<lambda>i. \<not> 36 \<le> tail_start selected_digit + 9 + of_nat i) [0..<9])
   }"

definition lcd_render_plate_set_ui :: "u8g2_lib \<Rightarrow> 'b ui \<Rightarrow> unit draw" where
  "lcd_render_plate_set_ui lib u =
     (let e = ui_plate u in do {
        new_page;
        lcd_plate_draw_top_line lib e;
        u8g2_call (DrawFrame 2 18 128 28);
        (if pl_focus e = LCD_PLATE_FOCUS_PROVINCE then plate_provinces lib e
         else if pl_focus e = LCD_PLATE_FOCUS_LETTER then plate_letters e
         else draw_when (LCD_PLATE_FOCUS_DIGIT0 \<le> pl_focus e \<and> pl_focus e \<le> LCD_PLATE_FOCUS_DIGIT4) (plate_tail_chars e));
        draw_buttons lib (pl_focus e = LCD_PLATE_FOCUS_CONFIRM) (pl_focus e = LCD_PLATE_FOCUS_EXIT)
      })"

definition lcd_render_local_phone_ui :: "u8g2_lib \<Rightarrow> 'b ui \<Rightarrow> unit draw" where
  "lcd_render_local_phone_ui lib u =
     (let e = ui_phone u; cursor_x = 62 + ph_cursor e * 6 :: u8 in do {
        new_page;
        u8g2_SetFont LCD_FONT_CN_12;
        lcd_u8g2_draw_unicode_seq lib 2 12 [0x672C, 0x673A, 0x53F7, 0x7801, 0xFF1A] 5;
        u8g2_SetFont LCD_FONT_ASCII_SMALL;
        u8g2_DrawStr 62 12 (ph_digits e);
        (if ph_focus e = LCD_LOCAL_PHONE_FOCUS_NUMBER
         then draw_choice True (DrawBox (ucast cursor_x - 1) 2 8 12) (do {
           ch \<leftarrow> array_at 0 (ph_digits e) (unat (ph_cursor e));
           u8g2_SetFont LCD_FONT_ASCII_SMALL;
           u8g2_DrawStr (ucast cursor_x) 12 [ch, 0]
         })
         else u8g2_call (DrawFrame (ucast cursor_x - 1) 2 8 12));
        u8g2_SetFont LCD_FONT_ASCII_SMALL;
        for_each (\<lambda>i.
          (let x = 4 + of_nat i * 12 :: u8
           in draw_choice (ph_focus e = LCD_LOCAL_PHONE_FOCUS_DIGIT \<and> of_nat i = ph_selected_digit e)
                (DrawBox (ucast x - 1) 20 10 12) (u8g2_DrawStr (ucast x) 30 [0x30 + of_nat i, 0]))) [0..<10];
        u8g2_SetFont LCD_FONT_CN_12;
        draw_choice (ph_focus e = LCD_LOCAL_PHONE_FOCUS_ACTION \<and> ph_func_index e = 0) (DrawBox 10 40 34 14)
          (lcd_u8g2_draw_unicode_seq lib 16 52 g_exit_text 2);
        draw_choice (ph_focus e = LCD_LOCAL_PHONE_FOCUS_ACTION \<and> ph_func_index e = 1) (DrawBox 78 40 34 14)
          (lcd_u8g2_draw_unicode_seq lib 84 52 g_save_text 2);
        u8g2_call FlushBuffer
      })"

section \<open>The renderer of a page\<close>

text \<open>The \<open>render\<close> field of the page table; every page has one, so the fallback is never called.\<close>

definition lcd_draw_page :: "u8g2_lib \<Rightarrow> 'b ui lcd_env \<Rightarrow> vehicle_io \<Rightarrow> 'b ui \<Rightarrow> unit draw" where
  "lcd_draw_page lib env vio u =
     (case g_lcd_current_page_id u of
        LCD_PAGE_HOME \<Rightarrow> lcd_render_home_ui lib u
      | LCD_PAGE_MAIN_MENU \<Rightarrow> lcd_render_menu_ui lib u
      | LCD_PAGE_DRIVE_RECORD_FATIGUE \<Rightarrow> lcd_render_fatigue_drive_record_ui lib u
      | LCD_PAGE_DRIVE_RECORD_LOCATION \<Rightarrow> lcd_render_location_status_ui lib u
      | LCD_PAGE_DRIVE_RECORD_MILEAGE \<Rightarrow> lcd_render_drive_mileage_ui lib u
      | LCD_PAGE_DRIVE_RECORD_DRIVER_INFO \<Rightarrow> lcd_render_driver_info_ui lib u
      | LCD_PAGE_DRIVE_RECORD_VEHICLE_INFO \<Rightarrow> lcd_render_vehicle_info_ui lib
      | LCD_PAGE_DRIVE_RECORD_LOAD_STATUS \<Rightarrow> lcd_render_vehicle_load_status_ui lib u
      | LCD_PAGE_DRIVE_RECORD_LOAD_STATUS_OK \<Rightarrow> lcd_render_vehicle_load_status_ok_ui lib
      | LCD_PAGE_DRIVE_RECORD_INFO_CENTER_TEXT_DISPATCH \<Rightarrow> lcd_render_info_center_dispatch_ui lib
      | LCD_PAGE_DRIVE_RECORD_INFO_CENTER_TEXT_NORMAL \<Rightarrow> text_page_draw lib u
      | LCD_PAGE_DEVICE_STATUS_VERSION \<Rightarrow> lcd_render_device_version_ui lib
      | LCD_PAGE_DEVICE_STATUS_VEHICLE \<Rightarrow> lcd_render_vehicle_status_ui lib vio u
      | LCD_PAGE_SYSTEM_SETTING_KEY_VOLUME \<Rightarrow> lcd_render_key_volume_ui lib u
      | LCD_PAGE_COMMON_CONFIG_OK \<Rightarrow> lcd_render_common_config_ok_ui lib
      | LCD_PAGE_SYSTEM_SETTING_BRIGHTNESS \<Rightarrow> lcd_render_brightness_menu_ui lib u
      | LCD_PAGE_SYSTEM_SETTING_BACKLIGHT_TIME \<Rightarrow> lcd_render_backlight_time_ui lib u
      | LCD_PAGE_SYSTEM_SETTING_BRIGHTNESS_LEVEL \<Rightarrow> lcd_render_brightness_level_ui lib u
      | LCD_PAGE_SYSTEM_SETTING_VEHICLE_INFO_VIN \<Rightarrow> lcd_render_vin_set_ui lib u
      | LCD_PAGE_SYSTEM_SETTING_VEHICLE_INFO_PLATE_SET \<Rightarrow> lcd_render_plate_set_ui lib u
      | LCD_PAGE_SYSTEM_SETTING_VEHICLE_INFO_PROVINCE_ID \<Rightarrow> lcd_render_province_id_set_ui lib u
      | LCD_PAGE_SYSTEM_SETTING_VEHICLE_INFO_CITY_ID \<Rightarrow> lcd_render_city_id_set_ui lib u
      | LCD_PAGE_SYSTEM_SETTING_HOST_PARAM_LOCAL_PHONE \<Rightarrow> lcd_render_local_phone_ui lib u
      | p \<Rightarrow>
          if p \<in> {LCD_PAGE_DRIVE_RECORD_MENU, LCD_PAGE_DEVICE_STATUS_MENU, LCD_PAGE_SYSTEM_SETTING_MENU,
                 LCD_PAGE_DRIVE_RECORD_INFO_CENTER, LCD_PAGE_DRIVE_RECORD_INFO_CENTER_TEXT,
                 LCD_PAGE_SYSTEM_SETTING_VEHICLE_INFO, LCD_PAGE_SYSTEM_SETTING_VEHICLE_INFO_PLATE_COLOR,
                 LCD_PAGE_SYSTEM_SETTING_VEHICLE_INFO_PLATE_CLASS, LCD_PAGE_SYSTEM_SETTING_HOST_PARAM}
          then lcd_render_drive_record_submenu_ui lib env u
          else lcd_render_submenu_ui env u)"

section \<open>Pages without a focus\<close>

lemma paints_symbol [paint_rules]:
  assumes "unat x \<le> 121" "unat y \<in> {10..63}"
  shows "paints lib [] (lcd_vehicle_draw_symbol x y ok)"
proof -
  have x: "(ucast x :: u16) + k < 132" if "k \<le> 10" for k
    using that assms(1) by (simp add: word_less_nat_alt word_le_nat_alt unat_word_ariths)
  have y: "(ucast y :: u16) - k < 64" if "k \<le> 10" for k
    using that assms(2) by (simp add: word_less_nat_alt word_le_nat_alt unat_sub; linarith)
  show ?thesis
    unfolding lcd_vehicle_draw_symbol_def Let_def
    by (rule paints_eq, (rule paint_rules | (simp add: x y; fail))+)
qed

lemma paints_all_zero [paint_rules]: "\<forall>i\<in>set is. i < length card_id \<Longrightarrow> paints lib [] (all_zero_loop card_id is)"
proof (induction "is")
  case (Cons i "is")
  then show ?case by (simp add: array_at_bind paint_rules)
qed (simp add: paint_rules)

lemma paints_line [paint_rules]:
  "fonts_fit lib \<Longrightarrow> unat x + 12 * length codes \<le> 132 \<Longrightarrow> y < 64 \<Longrightarrow> paints lib [] (line_loop lib y codes x)"
proof -
  assume a: "fonts_fit lib" "unat x + 12 * length codes \<le> 132" "y < 64"
  have "\<exists>ds. cv_calls (snd (run_state (line_loop lib y codes x) c)) = cv_calls c @ ds
      \<and> cv_fault (snd (run_state (line_loop lib y codes x) c)) = cv_fault c
      \<and> list_all (inside lib) ds \<and> inverted 1 ds = ([], 1)" for c
    using a(2)
  proof (induction codes arbitrary: x c)
    case (Cons code codes)
    let ?w = "glyph_advance lib (cv_font c) code"
    let ?c = "c\<lparr>cv_calls := cv_calls c @ [DrawGlyph (cv_font c) x y code]\<rparr>"
    have w: "unat ?w \<le> 12" using a(1) by (simp add: fonts_fit_def)
    then have "unat (x + ?w) + 12 * length codes \<le> 132" using Cons.prems by (simp add: unat_word_ariths)
    then obtain ds where "cv_calls (snd (run_state (line_loop lib y codes (x + ?w)) ?c)) = cv_calls ?c @ ds"
      "cv_fault (snd (run_state (line_loop lib y codes (x + ?w)) ?c)) = cv_fault ?c"
      "list_all (inside lib) ds" "inverted 1 ds = ([], 1)"
      using Cons.IH [of "x + ?w" ?c] by blast
    then show ?case
      using w Cons.prems a(3) by (intro exI [of _ "DrawGlyph (cv_font c) x y code # ds"]) (simp add: u8g2_DrawGlyph_def u8g2_call_def)
  qed simp
  then show ?thesis by (simp add: paints_def adds_def)
qed

lemma length_fold: "(\<And>x s. length (f x s) = length s) \<Longrightarrow> length (fold f xs s) = length s"
  by (induction xs arbitrary: s) simp_all

lemma length_icon [simp]: "length (icon_xbmp glyph) = 24"
  by (simp add: icon_xbmp_def Let_def length_fold xbmp_set_def)

lemma paints_icons [paint_rules]:
  "paints lib [] (lcd_u8g2_draw_top_icons 2 2 u)"
  unfolding lcd_u8g2_draw_top_icons_def lcd_u8g2_draw_bitmap12x12_def
  by (rule paints_eq, (rule paint_rules | (simp; fail))+)

lemmas plain_pages = lcd_render_common_config_ok_ui_def lcd_render_fatigue_drive_record_ui_def
  lcd_render_drive_mileage_ui_def lcd_render_info_center_dispatch_ui_def lcd_render_vehicle_info_ui_def
  lcd_render_vehicle_load_status_ok_ui_def lcd_render_location_status_ui_def lcd_render_device_version_ui_def
  lcd_render_home_ui_def lcd_render_home_sub_ui_def lcd_render_boot_check_ui_def

lemma plain_painted:
  assumes f: "fonts_fit lib"
  shows "paints lib [] (lcd_render_common_config_ok_ui lib)" "paints lib [] (lcd_render_fatigue_drive_record_ui lib u)"
    "paints lib [] (lcd_render_drive_mileage_ui lib u)" "paints lib [] (lcd_render_info_center_dispatch_ui lib)"
    "paints lib [] (lcd_render_vehicle_info_ui lib)" "paints lib [] (lcd_render_vehicle_load_status_ok_ui lib)"
    "paints lib [] (lcd_render_location_status_ui lib u)" "paints lib [] (lcd_render_device_version_ui lib)"
    "paints lib [] (lcd_render_home_ui lib u)" "paints lib [] (lcd_render_boot_check_ui lib)"
  unfolding plain_pages Let_def
  by (rule paints_eq, (rule f paint_rules | (simp; fail))+)+

lemma paints_if_same: "paints lib t m \<Longrightarrow> paints lib t n \<Longrightarrow> paints lib t (if b then m else n)"
  by simp

lemma driver_info_painted:
  assumes f: "fonts_fit lib" and "length (home_card_id (g_lcd_home_ui u)) = 20"
  shows "paints lib [] (lcd_render_driver_info_ui lib u)"
  unfolding lcd_render_driver_info_ui_def Let_def
  by (rule paints_eq, (rule f paints_if_same paint_rules | (simp add: assms(2); fail))+)

lemma vehicle_status_painted:
  assumes f: "fonts_fit lib"
  shows "paints lib [] (lcd_render_vehicle_status_ui lib vio u)"
  unfolding lcd_render_vehicle_status_ui_def lcd_vehicle_draw_ascii_left_def lcd_vehicle_draw_ascii_right_def
    lcd_vehicle_draw_cn_left_def lcd_vehicle_draw_cn_right_def Let_def
  by (rule paints_eq, (rule f paint_rules | (simp; fail))+)

lemma length_text_line: "length (fst (text_line n p)) \<le> n"
  by (induction n arbitrary: p) (auto simp: Let_def case_prod_unfold)

lemma length_text_lines: "length (text_lines k p) = k" "list_all (\<lambda>cs. length cs \<le> 10) (text_lines k p)"
  by (induction k arbitrary: p) (use length_text_line [of 10] in \<open>auto simp: Let_def case_prod_unfold dvr_const\<close>)

lemma text_page_painted:
  assumes f: "fonts_fit lib"
  shows "paints lib [] (text_page_draw lib u)"
proof -
  have ls: "paints lib [] (for_each (\<lambda>(line, codes). line_loop lib (of_nat (16 + line * 16)) codes 2) (enumerate 0 (text_lines 3 p)))" for p
  proof (rule paints_eq [OF paints_each])
    fix x assume "x \<in> set (enumerate 0 (text_lines 3 p))"
    then have "fst x < 3" "length (snd x) \<le> 10"
      using length_text_lines [of 3 p] by (auto simp: in_set_enumerate_eq list_all_length)
    then obtain line codes where x: "x = (line, codes)" "line < 3" "length codes \<le> 10" by (cases x) simp
    then have "of_nat (16 + line * 16) < (64 :: u16)"
      by (simp add: word_less_nat_alt unsigned_of_nat take_bit_nat_eq_self del: of_nat_add of_nat_mult)
    then show "paints lib [] ((\<lambda>(line, codes). line_loop lib (of_nat (16 + line * 16)) codes 2) x)"
      using x f by (simp add: paints_line del: of_nat_add of_nat_mult)
  qed simp
  then have ls': "paints lib [] (for_each (\<lambda>(line, codes). line_loop lib (of_nat (16 + line * 16)) codes 2)
      (enumerate 0 (fst (lcd_render_info_center_text_normal_ui u))))"
    if "\<not> (lt_valid (g_lcd_text_msg u) = 0 \<or> lt_text_len (g_lcd_text_msg u) = 0)"
    using that unfolding lcd_render_info_center_text_normal_ui_def Let_def if_not_P [OF that] fst_conv
    by (simp only: dvr_const)
  obtain ls u' where r: "lcd_render_info_center_text_normal_ui u = (ls, u')" by (rule prod.exhaust)
  show ?thesis
    unfolding text_page_draw_def Let_def r prod.case
    by (rule paints_eq, (rule f ls' [unfolded r fst_conv] paint_rules | assumption | (simp; fail))+)
qed

lemma submenu_level_painted: "paints lib [] (lcd_render_submenu_ui (ui_env ops now) u)"
  unfolding lcd_render_submenu_ui_def tree.depth option.case
  by (rule paints_eq, (rule paint_rules | (simp; fail))+)

section \<open>The focus\<close>

text \<open>
  What a page has to show as selected, from the state alone: the numbered item of a menu, the setting
  chosen, the character under the cursor and the one offered for it, the button.
\<close>

definition setting_labels :: "lcd_page_id \<Rightarrow> u16 list list" where
  "setting_labels p =
     (if p = LCD_PAGE_SYSTEM_SETTING_KEY_VOLUME then [[0x6309, 0x952E, 0x9759, 0x97F3], [0x6309, 0x952E, 0x53D1, 0x97F3]]
      else if p = LCD_PAGE_SYSTEM_SETTING_BRIGHTNESS
      then [[0x80CC, 0x5149, 0x6301, 0x7EED, 0x65F6, 0x95F4, 0x8BBE, 0x7F6E], [0x5C4F, 0x5E55, 0x4EAE, 0x5EA6, 0x8BBE, 0x7F6E]]
      else if p = LCD_PAGE_SYSTEM_SETTING_BACKLIGHT_TIME
      then [[0x5173, 0x95ED], [0x31, 0x35, 0x79D2], [0x33, 0x30, 0x79D2], [0x31, 0x6D, 0x69, 0x6E], [0x32, 0x6D, 0x69, 0x6E],
            [0x5E38, 0x4EAE]]
      else if p = LCD_PAGE_SYSTEM_SETTING_BRIGHTNESS_LEVEL
      then [[0x31, 0x30, 0x25], [0x33, 0x30, 0x25], [0x35, 0x30, 0x25], [0x37, 0x30, 0x25], [0x31, 0x30, 0x30, 0x25]]
      else if p = LCD_PAGE_DRIVE_RECORD_LOAD_STATUS then load_status_texts
      else [])"

definition tail_char :: "u8 \<Rightarrow> u16" where
  "tail_char k = ucast (g_lcd_plate_tail_chars ! unat k)"

definition char_edit_focus :: "'m::len word char_edit \<Rightarrow> u16 list" where
  "char_edit_focus e =
     (if ce_area e = LCD_VIN_AREA_ACTION
      then if ce_action e = LCD_VIN_ACTION_CONFIRM then g_confirm_text
           else if ce_action e = LCD_VIN_ACTION_EXIT then g_exit_text else []
      else (if bit (ce_edit_mask e) (unat (ce_cursor e)) then tail_char (ce_chars e ! unat (ce_cursor e)) else 0x5F)
           # (if ce_area e = LCD_VIN_AREA_CHAR_SELECT then [tail_char (ce_option_index e)] else []))"

definition plate_focus :: "plate_edit \<Rightarrow> u16 list" where
  "plate_focus e =
     (if pl_focus e = LCD_PLATE_FOCUS_CONFIRM then g_confirm_text
      else if pl_focus e = LCD_PLATE_FOCUS_EXIT then g_exit_text
      else
        let c = (if pl_focus e = LCD_PLATE_FOCUS_PROVINCE then g_lcd_plate_province_codes ! unat (pl_province_index e)
                 else if pl_focus e = LCD_PLATE_FOCUS_LETTER then ucast (g_lcd_plate_letters ! unat (pl_letter_index e))
                 else tail_char (pl_digits e ! (unat (pl_focus e) - 2)))
        in (if pl_valid e = 0 \<and> pl_dirty e = 0 then [] else [c]) @ [c])"

definition phone_focus :: "phone_edit \<Rightarrow> u16 list" where
  "phone_focus e =
     (if ph_focus e = LCD_LOCAL_PHONE_FOCUS_NUMBER then [ucast (ph_digits e ! unat (ph_cursor e))]
      else if ph_focus e = LCD_LOCAL_PHONE_FOCUS_DIGIT then [ucast (0x30 + ph_selected_digit e)]
      else if ph_focus e = LCD_LOCAL_PHONE_FOCUS_ACTION
      then if ph_func_index e = 0 then g_exit_text else g_save_text
      else [])"

definition focus_text :: "'b ui \<Rightarrow> u16 list" where
  "focus_text u =
     (let p = g_lcd_current_page_id u; i = unat (g_lcd_page_selected u p) in
      if p = LCD_PAGE_MAIN_MENU then item_text i (g_menu_item_texts_u8g2 ! i)
      else if p = LCD_PAGE_SYSTEM_SETTING_VEHICLE_INFO_VIN then char_edit_focus (ui_vin u)
      else if p = LCD_PAGE_SYSTEM_SETTING_VEHICLE_INFO_PROVINCE_ID then char_edit_focus (ui_province_id u)
      else if p = LCD_PAGE_SYSTEM_SETTING_VEHICLE_INFO_CITY_ID then char_edit_focus (ui_city_id u)
      else if p = LCD_PAGE_SYSTEM_SETTING_VEHICLE_INFO_PLATE_SET then plate_focus (ui_plate u)
      else if p = LCD_PAGE_SYSTEM_SETTING_HOST_PARAM_LOCAL_PHONE then phone_focus (ui_phone u)
      else case lcd_get_list_page_resources p of
             Some r \<Rightarrow> item_text i (res_item_texts r ! i)
           | None \<Rightarrow> if i < length (setting_labels p) then setting_labels p ! i else [])"

section \<open>Settings show the choice\<close>

lemma u8_small: "unat (w :: u8) < 6 \<Longrightarrow> w \<in> {0, 1, 2, 3, 4, 5}"
proof -
  assume "unat w < 6"
  then have "unat w \<in> {0, 1, 2, 3, 4, 5}" by auto
  then have "of_nat (unat w) \<in> {0, 1, 2, 3, 4, 5 :: u8}" by (auto simp del: of_nat_unat)
  then show ?thesis by simp
qed

lemma settings_painted:
  assumes f: "fonts_fit lib" and s: "s = g_lcd_page_selected u p"
  shows "p = LCD_PAGE_SYSTEM_SETTING_KEY_VOLUME \<Longrightarrow> unat s < 2 \<Longrightarrow> paints lib (setting_labels p ! unat s) (lcd_render_key_volume_ui lib u)"
    "p = LCD_PAGE_SYSTEM_SETTING_BRIGHTNESS \<Longrightarrow> unat s < 2 \<Longrightarrow> paints lib (setting_labels p ! unat s) (lcd_render_brightness_menu_ui lib u)"
    "p = LCD_PAGE_SYSTEM_SETTING_BACKLIGHT_TIME \<Longrightarrow> unat s < 6 \<Longrightarrow> paints lib (setting_labels p ! unat s) (lcd_render_backlight_time_ui lib u)"
    "p = LCD_PAGE_SYSTEM_SETTING_BRIGHTNESS_LEVEL \<Longrightarrow> unat s < 5 \<Longrightarrow> paints lib (setting_labels p ! unat s) (lcd_render_brightness_level_ui lib u)"
  unfolding lcd_render_key_volume_ui_def lcd_render_brightness_menu_ui_def lcd_render_backlight_time_ui_def
    lcd_render_brightness_level_ui_def Let_def
  by ((rule paints_eq, (rule f paint_rules | (simp; fail))+,
      use u8_small [of s] s in \<open>auto simp: setting_labels_def\<close>)[1])+

lemma load_status_painted:
  assumes f: "fonts_fit lib" and s: "s = g_lcd_page_selected u LCD_PAGE_DRIVE_RECORD_LOAD_STATUS" "unat s < 3"
  shows "paints lib (setting_labels LCD_PAGE_DRIVE_RECORD_LOAD_STATUS ! unat s) (lcd_render_vehicle_load_status_ui lib u)"
proof -
  have i: "paints lib (if s = of_nat i then load_status_texts ! i else [])
      (draw_choice (s = of_nat i) (DrawBox 0 (ucast (18 + of_nat i * 16 - 11 :: u8)) 132 13)
        (do { u8g2_SetFont LCD_FONT_CN_12; text \<leftarrow> array_at [] load_status_texts i;
              lcd_u8g2_draw_unicode_seq lib 10 (ucast (18 + of_nat i * 16 :: u8)) text 4 }))"
    if "i \<in> {0, 1, 2}" for i
    using that by (elim insertE emptyE; simp only:)
      ((rule paints_eq, (rule f writes_read paint_rules | (simp add: load_status_texts_def; fail))+)[1])+
  have n: "[0..<3] = [0, 1, 2 :: nat]" by (simp add: upt_rec)
  show ?thesis
    unfolding lcd_render_vehicle_load_status_ui_def Let_def s(1) [symmetric]
    by (rule paints_eq, (rule f i paint_rules | (auto; fail))+,
        use u8_small [of s] s(2) in \<open>auto simp: setting_labels_def n load_status_texts_def\<close>)
qed

section \<open>Editors show the cursor\<close>

lemma cell_text: "map ucast (cstr [ch, 0]) = (if ch = 0 then [] else [ucast ch :: u16])"
  by (simp add: cstr_def)

definition cell_fits :: "u8 \<Rightarrow> u8 \<Rightarrow> bool" where
  "cell_fits x y \<longleftrightarrow> unat x \<in> {1..124} \<and> unat y \<in> {10..62}"

lemma paints_cell:
  assumes "cell_fits x y" "ch \<noteq> 0"
  shows "paints lib (if selected then [ucast ch] else []) (lcd_plate_draw_ascii_cell x y ch selected)"
    "paints lib (if selected then [ucast ch] else []) (lcd_plate_draw_ascii_option x y ch selected)"
proof -
  have c: "unat (x - 1) = unat x - 1" "unat (y - 10) = unat y - 10" "(ucast x :: u16) < 132" "(ucast y :: u16) < 64"
    using assms(1) by (simp_all add: cell_fits_def unat_sub word_le_nat_alt word_less_nat_alt)
  have w: "writes lib [ucast ch] (u8g2_DrawStr (ucast x) (ucast y) [ch, 0])"
    using writes_str [OF c(3,4), of lib "[ch, 0]"] assms(2) by (simp add: cell_text)
  have "inside lib (DrawBox (ucast (x - 1)) (ucast (y - 10)) k 12)" if "unat k \<le> 9" for k
    using that assms(1) by (auto simp: c cell_fits_def)
  then show "paints lib (if selected then [ucast ch] else []) (lcd_plate_draw_ascii_cell x y ch selected)"
    "paints lib (if selected then [ucast ch] else []) (lcd_plate_draw_ascii_option x y ch selected)"
    unfolding lcd_plate_draw_ascii_cell_def lcd_plate_draw_ascii_option_def
    by (simp_all add: paints_choice [OF w] del: inside.simps)
qed

lemma tail_chars: "k < 36 \<Longrightarrow> g_lcd_plate_tail_chars ! k \<noteq> 0" "length g_lcd_plate_tail_chars = 37"
proof -
  have "list_all (\<lambda>k. g_lcd_plate_tail_chars ! k \<noteq> 0) [0..<36]" by code_simp
  then show "k < 36 \<Longrightarrow> g_lcd_plate_tail_chars ! k \<noteq> 0" by (simp only: list_all_iff set_upt) simp
  show "length g_lcd_plate_tail_chars = 37" by code_simp
qed

lemma letters: "k < 26 \<Longrightarrow> g_lcd_plate_letters ! k \<noteq> 0" "length g_lcd_plate_letters = 27"
proof -
  have "list_all (\<lambda>k. g_lcd_plate_letters ! k \<noteq> 0) [0..<26]" by code_simp
  then show "k < 26 \<Longrightarrow> g_lcd_plate_letters ! k \<noteq> 0" by (simp only: list_all_iff set_upt) simp
  show "length g_lcd_plate_letters = 27" by code_simp
qed

lemma concat_cursor:
  assumes "unat (k :: u8) < n" "n \<le> 255"
  shows "concat (map (\<lambda>i. if b \<and> k = of_nat i then f i else []) [0..<n]) = (if b then f (unat k) else [])"
  using concat_window [of 0 k n f] assms by (simp add: eq_commute [of k])

lemma top_line_painted:
  assumes e: "char_edit_ok n cnt e" and cnt: "cnt \<le> 36" and n: "n \<le> 255"
    and fit: "list_all (\<lambda>i. cell_fits (x0 + of_nat i * dx) 12) [0..<n]"
  shows "paints lib (if ce_area e \<noteq> LCD_VIN_AREA_ACTION
      then [if bit (ce_edit_mask e) (unat (ce_cursor e)) then tail_char (ce_chars e ! unat (ce_cursor e)) else 0x5F] else [])
    (char_edit_top_line n x0 dx e)"
proof -
  let ?c = "\<lambda>i. if bit (ce_edit_mask e) i then tail_char (ce_chars e ! i) else 0x5F"
  have k: "unat (ce_chars e ! i) < 36" if "i < n" for i
    using e cnt that by (force simp: char_edit_ok_def list_all_length word_less_nat_alt word_le_nat_alt)
  have b: "ce_edit_mask e AND 2 ^ i = 0 \<longleftrightarrow> \<not> bit (ce_edit_mask e) i" for i
    by (rule and_exp_eq_0_iff_not_bit)
  have cell: "paints lib (if ce_area e \<noteq> LCD_VIN_AREA_ACTION \<and> ce_cursor e = of_nat i then [?c i] else [])
     (do { ch \<leftarrow> (if ce_edit_mask e AND push_bit i 1 \<noteq> 0
                then do { k \<leftarrow> array_at 0 (ce_chars e) i; array_at 0 g_lcd_plate_tail_chars (unat k) }
                else State_Monad.return 0x5F);
           lcd_plate_draw_ascii_cell (x0 + of_nat i * dx) 12 ch (ce_area e \<noteq> LCD_VIN_AREA_ACTION \<and> ce_cursor e = of_nat i) })"
    if i: "i \<in> set [0..<n]" for i
  proof -
    have x: "cell_fits (x0 + of_nat i * dx) 12" using fit i by (simp add: list_all_iff)
    show ?thesis
      using i k [of i] e tail_chars paints_cell(1) [OF x, of "g_lcd_plate_tail_chars ! unat (ce_chars e ! i)" lib]
        paints_cell(1) [OF x, of "0x5F" lib]
      by (cases "bit (ce_edit_mask e) i") (simp_all add: b array_at_def char_edit_ok_def tail_char_def split del: if_split cong: if_cong)
  qed
  have "concat (map (\<lambda>i. if ce_area e \<noteq> LCD_VIN_AREA_ACTION \<and> ce_cursor e = of_nat i then [?c i] else []) [0..<n])
      = (if ce_area e \<noteq> LCD_VIN_AREA_ACTION then [?c (unat (ce_cursor e))] else [])"
    using e n by (intro concat_cursor) (simp_all add: char_edit_ok_def)
  then show ?thesis
    unfolding char_edit_top_line_def
    by - (rule paints_eq, rule paints_bind, rule paints_steps(2), rule paints_each, rule cell, assumption, simp only: append_Nil)
qed

lemma options_painted:
  assumes "up \<le> 36" "from \<le> up" "list_all (\<lambda>i. cell_fits (x0 + (of_nat i - of_nat from) * dx) y) [from..<up]"
  shows "paints lib (if unat k \<in> {from..<up} then [tail_char k] else []) (option_row from up x0 dx y k)"
proof -
  have i: "(of_nat i = k) \<longleftrightarrow> i = unat k" if "i < 36" for i
    using that by (auto simp: word_unat_eq_iff unsigned_of_nat take_bit_nat_eq_self)
  have "paints lib (if of_nat i = k then [ucast (g_lcd_plate_tail_chars ! i)] else [])
     (do { ch \<leftarrow> array_at 0 g_lcd_plate_tail_chars i;
           lcd_plate_draw_ascii_option (x0 + (of_nat i - of_nat from) * dx) y ch (of_nat i = k) })"
    if "i \<in> set [from..<up]" for i
    using that assms tail_chars paints_cell(2) [of "x0 + (of_nat i - of_nat from) * dx" y "g_lcd_plate_tail_chars ! i" lib]
    by (simp add: array_at_def list_all_iff)
  from paints_each [of "[from..<up]", OF this]
  have p: "paints lib (concat (map (\<lambda>i. if of_nat i = k then [ucast (g_lcd_plate_tail_chars ! i)] else []) [from..<up])) (option_row from up x0 dx y k)"
    unfolding option_row_def .
  have "concat (map (\<lambda>i. if of_nat i = k then [ucast (g_lcd_plate_tail_chars ! i)] else []) [from..<up])
      = concat (map (\<lambda>i. if i = unat k then [tail_char k] else []) [from..<up])"
    using i assms(1) by (intro arg_cong [of _ _ concat]) (auto simp: tail_char_def)
  also have "\<dots> = (if unat k \<in> {from..<up} then [tail_char k] else [])"
    using assms(2)
  proof (induction up rule: dec_induct)
    case (step m)
    then show ?case by auto
  qed simp
  finally show ?thesis using p by simp
qed

lemma buttons_painted [paint_rules]:
  "fonts_fit lib \<Longrightarrow> paints lib ((if confirm then g_confirm_text else []) @ (if exit then g_exit_text else [])) (draw_buttons lib confirm exit)"
  unfolding draw_buttons_def
  by (rule paints_eq, (rule paint_rules | assumption | (simp add: g_confirm_text_def g_exit_text_def; fail))+)

lemma char_page_painted:
  assumes "fonts_fit lib"
    "paints lib (if ce_area e \<noteq> LCD_VIN_AREA_ACTION
      then [if bit (ce_edit_mask e) (unat (ce_cursor e)) then tail_char (ce_chars e ! unat (ce_cursor e)) else 0x5F] else []) top_line"
    "paints lib [tail_char (ce_option_index e)] options"
  shows "paints lib (char_edit_focus e) (char_edit_page lib top_line options e)"
  unfolding char_edit_page_def
  by (rule paints_eq, (rule assms paint_rules | (simp; fail))+)
    (auto simp: char_edit_focus_def LCD_VIN_AREA_ACTION_def LCD_VIN_AREA_CHAR_SELECT_def LCD_VIN_ACTION_CONFIRM_def LCD_VIN_ACTION_EXIT_def)

lemma char_edits_painted:
  assumes f: "fonts_fit lib" and e: "editors_ok u"
  shows "paints lib (char_edit_focus (ui_vin u)) (lcd_render_vin_set_ui lib u)"
    "paints lib (char_edit_focus (ui_province_id u)) (lcd_render_province_id_set_ui lib u)"
    "paints lib (char_edit_focus (ui_city_id u)) (lcd_render_city_id_set_ui lib u)"
proof -
  have ok: "char_edit_ok 17 36 (ui_vin u)" "char_edit_ok 2 10 (ui_province_id u)" "char_edit_ok 4 10 (ui_city_id u)"
    using e by (simp_all add: editors_ok_def dvr_const)
  have "list_all (\<lambda>i. cell_fits (4 + (of_nat i - of_nat 0) * 7) 30) [0..<18]" by code_simp
  then have v1: "paints lib (if unat (ce_option_index (ui_vin u)) \<in> {0..<18} then [tail_char (ce_option_index (ui_vin u))] else [])
      (option_row 0 18 4 7 30 (ce_option_index (ui_vin u)))" by (intro options_painted) simp_all
  have "list_all (\<lambda>i. cell_fits (4 + (of_nat i - of_nat 18) * 7) 42) [18..<36]" by code_simp
  then have v2: "paints lib (if unat (ce_option_index (ui_vin u)) \<in> {18..<36} then [tail_char (ce_option_index (ui_vin u))] else [])
      (option_row 18 36 4 7 42 (ce_option_index (ui_vin u)))" by (intro options_painted) simp_all
  have v: "paints lib [tail_char (ce_option_index (ui_vin u))]
      (do { option_row 0 18 4 7 30 (ce_option_index (ui_vin u)); option_row 18 36 4 7 42 (ce_option_index (ui_vin u)) })"
    using paints_bind [OF v1 v2] ok(1) by (auto simp: char_edit_ok_def word_less_nat_alt split: if_splits)
  have "list_all (\<lambda>i. cell_fits (26 + (of_nat i - of_nat 0) * 9) 36) [0..<10]" by code_simp
  then have o: "paints lib [tail_char k] (option_row 0 10 26 9 36 k)" if "k < 10" for k
    using options_painted [of 10 0 26 9 36 lib k] that by (simp add: word_less_nat_alt)
  have x: "list_all (\<lambda>i. cell_fits (4 + of_nat i * 7) 12) [0..<17]" "list_all (\<lambda>i. cell_fits (56 + of_nat i * 12) 12) [0..<2]"
    "list_all (\<lambda>i. cell_fits (44 + of_nat i * 12) 12) [0..<4]" by code_simp+
  show "paints lib (char_edit_focus (ui_vin u)) (lcd_render_vin_set_ui lib u)"
    unfolding lcd_render_vin_set_ui_def lcd_vin_draw_top_line_def LCD_VIN_LEN_def
    by (rule char_page_painted [OF f top_line_painted [OF ok(1) _ _ x(1)] v]) simp_all
  show "paints lib (char_edit_focus (ui_province_id u)) (lcd_render_province_id_set_ui lib u)"
    unfolding lcd_render_province_id_set_ui_def lcd_province_id_draw_top_line_def LCD_PROVINCE_ID_LEN_def
    by (rule char_page_painted [OF f top_line_painted [OF ok(2) _ _ x(2)] o]) (use ok(2) in \<open>simp_all add: char_edit_ok_def\<close>)
  show "paints lib (char_edit_focus (ui_city_id u)) (lcd_render_city_id_set_ui lib u)"
    unfolding lcd_render_city_id_set_ui_def lcd_city_id_draw_top_line_def LCD_CITY_ID_LEN_def
    by (rule char_page_painted [OF f top_line_painted [OF ok(3) _ _ x(3)] o]) (use ok(3) in \<open>simp_all add: char_edit_ok_def\<close>)
qed

text \<open>The windows of the plate editor contain the selected character and stay inside their tables.\<close>

lemma plate_windows:
  "unat k < 31 \<Longrightarrow> unat (province_start k) \<le> unat k \<and> unat k < unat (province_start k) + 4 \<and> unat (province_start k) + 4 \<le> 31"
  "unat k < 26 \<Longrightarrow> unat (letter_start k) \<le> unat k \<and> unat k < unat (letter_start k) + 6 \<and> unat (letter_start k) + 6 \<le> 26"
  "unat k < 36 \<Longrightarrow> unat (tail_start k) \<le> unat k \<and> unat k < unat (tail_start k) + 9 \<and> unat (tail_start k) + 9 \<le> 36"
proof -
  show "unat k < 31 \<Longrightarrow> unat (province_start k) \<le> unat k \<and> unat k < unat (province_start k) + 4 \<and> unat (province_start k) + 4 \<le> 31"
    by (rule small_bytes [where n = 31]) code_simp
  show "unat k < 26 \<Longrightarrow> unat (letter_start k) \<le> unat k \<and> unat k < unat (letter_start k) + 6 \<and> unat (letter_start k) + 6 \<le> 26"
    by (rule small_bytes [where n = 26]) code_simp
  show "unat k < 36 \<Longrightarrow> unat (tail_start k) \<le> unat k \<and> unat k < unat (tail_start k) + 9 \<and> unat (tail_start k) + 9 \<le> 36"
    by (rule small_bytes [where n = 36]) code_simp
qed

lemma window_at: "unat (start :: u8) + i \<le> 255 \<Longrightarrow> unat (start + of_nat i) = unat start + i"
  by (simp add: unat_word_ariths unsigned_of_nat take_bit_nat_eq_self)

lemma provinces_painted:
  assumes f: "fonts_fit lib" and e: "unat (pl_province_index e) < 31"
  shows "paints lib [g_lcd_plate_province_codes ! unat (pl_province_index e)] (plate_provinces lib e)"
proof -
  let ?k = "pl_province_index e"
  let ?P = "\<lambda>i. g_lcd_plate_province_codes ! (unat (province_start ?k) + i)"
  have n: "length g_lcd_plate_province_codes = 31" by (simp add: g_lcd_plate_province_codes_def)
  note w = plate_windows(1) [OF e]
  have cell: "paints lib (if province_start ?k + of_nat i = ?k then [?P i] else [])
      (draw_choice (province_start ?k + of_nat i = ?k) (DrawBox (ucast (14 + of_nat i * 28 - 3 :: u8)) 24 18 16)
        (do { code \<leftarrow> array_at 0 g_lcd_plate_province_codes (unat (province_start ?k + of_nat i));
              u8g2_DrawGlyph lib (ucast (14 + of_nat i * 28 :: u8)) 37 code }))"
    if i: "i \<in> set [0..<4]" for i
  proof -
    have u: "unat (province_start ?k + of_nat i) = unat (province_start ?k) + i" using i w by (intro window_at) simp
    have x: "list_all (\<lambda>i. unat (14 + of_nat i * 28 :: u8) \<le> 120 \<and> unat (14 + of_nat i * 28 - 3 :: u8) + 18 \<le> 132) [0..<4]"
      by code_simp
    then have "unat (14 + of_nat i * 28 :: u8) \<le> 120" "unat (14 + of_nat i * 28 - 3 :: u8) + 18 \<le> 132"
      using i unfolding list_all_iff by blast+
    then show ?thesis
      unfolding u by (intro paints_choice writes_read writes_steps f) (use i n w in simp_all)
  qed
  have "concat (map (\<lambda>i. if province_start ?k + of_nat i = ?k then [?P i] else []) [0..<4]) = [g_lcd_plate_province_codes ! unat ?k]"
    using w by (subst concat_window) simp_all
  then show ?thesis
    unfolding plate_provinces_def Let_def
    by - (rule paints_eq, rule paints_bind, rule paints_steps(2), rule paints_each, rule cell, assumption, simp only: append_Nil)
qed

lemma letters_painted:
  assumes e: "pl_letter_index e < 26"
  shows "paints lib [ucast (g_lcd_plate_letters ! unat (pl_letter_index e))] (plate_letters e)"
proof -
  let ?k = "pl_letter_index e"
  let ?P = "\<lambda>i. ucast (g_lcd_plate_letters ! (unat (letter_start ?k) + i))"
  have k: "unat ?k < 26" using e by (simp add: word_less_nat_alt)
  note w = plate_windows(2) [OF k]
  have cell: "paints lib (if letter_start ?k + of_nat i = ?k then [?P i] else [])
      (do { ch \<leftarrow> array_at 0 g_lcd_plate_letters (unat (letter_start ?k + of_nat i));
            lcd_plate_draw_ascii_option (12 + of_nat i * 18) 36 ch (letter_start ?k + of_nat i = ?k) })"
    if i: "i \<in> set [0..<6]" for i
  proof -
    have u: "unat (letter_start ?k + of_nat i) = unat (letter_start ?k) + i" using i w by (intro window_at) simp
    have "list_all (\<lambda>i. cell_fits (12 + of_nat i * 18) 36) [0..<6]" by code_simp
    then have "cell_fits (12 + of_nat i * 18) 36" using i unfolding list_all_iff by blast
    then show ?thesis
      unfolding u by (intro paints_read paints_cell(2)) (use i w letters in simp_all)
  qed
  have "concat (map (\<lambda>i. if letter_start ?k + of_nat i = ?k then [?P i] else []) [0..<6]) = [ucast (g_lcd_plate_letters ! unat ?k)]"
    using w by (subst concat_window) simp_all
  then show ?thesis
    unfolding plate_letters_def Let_def
    by - (rule paints_eq, rule paints_bind, rule paints_steps(2), rule paints_each, rule cell, assumption, simp only: append_Nil)
qed

lemma tail_option_painted:
  assumes "unat first + i < 36" "i < 9" "y \<in> {30, 42}"
  shows "paints lib (if first + of_nat i = k then [tail_char k] else []) (plate_tail_option k first y i)"
proof -
  have u: "unat (first + of_nat i) = unat first + i" using assms(1) by (intro window_at) simp
  have "list_all (\<lambda>i. cell_fits (6 + of_nat i * 14) 30 \<and> cell_fits (6 + of_nat i * 14) 42) [0..<9]" by code_simp
  then have c: "cell_fits (6 + of_nat i * 14) y" using assms(2,3) unfolding list_all_iff by auto
  have "paints lib (if first + of_nat i = k then [ucast (g_lcd_plate_tail_chars ! unat (first + of_nat i))] else []) (plate_tail_option k first y i)"
    unfolding plate_tail_option_def Let_def
    by (intro paints_read paints_cell(2) c) (use u assms(1) tail_chars in simp_all)
  then show ?thesis by (rule paints_eq) (simp add: tail_char_def)
qed

lemma tails_painted:
  assumes e: "plate_ok e" "LCD_PLATE_FOCUS_DIGIT0 \<le> pl_focus e" "pl_focus e \<le> LCD_PLATE_FOCUS_DIGIT4"
  shows "paints lib [tail_char (pl_digits e ! (unat (pl_focus e) - 2))] (plate_tail_chars e)"
proof -
  have fo: "unat (pl_focus e - LCD_PLATE_FOCUS_DIGIT0) = unat (pl_focus e) - 2" "unat (pl_focus e) - 2 < length (pl_digits e)"
    using e by (auto simp: plate_ok_def dvr_const unat_sub word_le_nat_alt)
  let ?k = "pl_digits e ! (unat (pl_focus e) - 2)"
  have k: "unat ?k < 36" using e(1) fo(2) by (auto simp: plate_ok_def list_all_length word_less_nat_alt)
  note w = plate_windows(3) [OF k]
  let ?is = "takeWhile (\<lambda>i. \<not> 36 \<le> tail_start ?k + 9 + of_nat i) [0..<9]"
  have idx: "i < 9 \<and> unat (tail_start ?k + 9) + i < 36 \<and> tail_start ?k + 9 + of_nat i \<noteq> ?k" if "i \<in> set ?is" for i
  proof -
    have i: "i < 9" "\<not> 36 \<le> tail_start ?k + 9 + of_nat i" using set_takeWhileD [OF that] by simp_all
    have n: "unat (tail_start ?k + 9) = unat (tail_start ?k) + 9" using window_at [of "tail_start ?k" 9] w by simp
    then have "unat (tail_start ?k + 9 + of_nat i) = unat (tail_start ?k) + 9 + i" using i w by (subst window_at) simp_all
    then show ?thesis using i w n by (auto simp: word_le_nat_alt)
  qed
  have r1: "paints lib (concat (map (\<lambda>i. if tail_start ?k + of_nat i = ?k then [tail_char ?k] else []) [0..<9]))
      (for_each (plate_tail_option ?k (tail_start ?k) 30) [0..<9])"
    using w by (intro paints_each tail_option_painted) simp_all
  have r2: "paints lib (concat (map (\<lambda>i. if tail_start ?k + 9 + of_nat i = ?k then [tail_char ?k] else []) ?is))
      (for_each (plate_tail_option ?k (tail_start ?k + 9) 42) ?is)"
    using idx by (intro paints_each tail_option_painted) simp_all
  have "concat (map (\<lambda>i. if tail_start ?k + 9 + of_nat i = ?k then [tail_char ?k] else []) ?is) = []" using idx by auto
  moreover have "concat (map (\<lambda>i. if tail_start ?k + of_nat i = ?k then [tail_char ?k] else []) [0..<9]) = [tail_char ?k]"
    using w by (subst concat_window) simp_all
  ultimately show ?thesis
    unfolding plate_tail_chars_def
    by - (rule paints_eq, rule paints_bind, rule paints_steps(2), rule paints_read, simp only: fo, unfold fo, rule paints_bind, rule r1, rule r2, simp)
qed

lemma plate_top_painted:
  assumes f: "fonts_fit lib" and e: "plate_ok e"
  shows "paints lib (if pl_valid e = 0 \<and> pl_dirty e = 0 \<or> 6 < unat (pl_focus e) then []
      else if pl_focus e = 0 then [g_lcd_plate_province_codes ! unat (pl_province_index e)]
      else if pl_focus e = 1 then [ucast (g_lcd_plate_letters ! unat (pl_letter_index e))]
      else [tail_char (pl_digits e ! (unat (pl_focus e) - 2))]) (lcd_plate_draw_top_line lib e)"
proof -
  have n: "unat (pl_province_index e) < length g_lcd_plate_province_codes" "unat (pl_letter_index e) < 26" "length (pl_digits e) = 5"
    "unat (pl_focus e) \<le> 8"
    using e by (auto simp: plate_ok_def word_less_nat_alt word_le_nat_alt dvr_const)
  have k: "unat (pl_digits e ! i) < 36" if "i < 5" for i using e that by (auto simp: plate_ok_def list_all_length word_less_nat_alt)
  have "list_all (\<lambda>x. cell_fits x 12) [34, 42, 50, 58, 66]" by (simp add: cell_fits_def)
  then have fits: "cell_fits 18 12" "\<forall>i<5. cell_fits ([34, 42, 50, 58, 66] ! i) 12"
    unfolding list_all_length by (simp_all add: cell_fits_def)
  have d: "paints lib (if pl_focus e = 2 + of_nat i then [tail_char (pl_digits e ! i)] else [])
      (do { x \<leftarrow> array_at 0 [34, 42, 50, 58, 66] i; k \<leftarrow> array_at 0 (pl_digits e) i;
            ch \<leftarrow> array_at 0 g_lcd_plate_tail_chars (unat k);
            lcd_plate_draw_ascii_cell x 12 ch (pl_focus e = 2 + of_nat i) })" if i: "i \<in> set [0..<5]" for i
    unfolding tail_char_def
    by (intro paints_read paints_cell(1)) (use i n k [of i] fits(2) tail_chars in simp_all)
  have dt: "concat (map (\<lambda>i. if pl_focus e = 2 + of_nat i then [tail_char (pl_digits e ! i)] else []) [0..<5])
      = (if unat (pl_focus e) \<in> {2..6} then [tail_char (pl_digits e ! (unat (pl_focus e) - 2))] else [])"
  proof (cases "unat (pl_focus e) \<in> {2..6}")
    case True
    then show ?thesis using concat_window [of 2 "pl_focus e" 5 "\<lambda>i. [tail_char (pl_digits e ! i)]"] by (simp add: eq_commute [of "pl_focus e"])
  next
    case False
    then have "pl_focus e \<noteq> 2 + of_nat i" if "i < 5" for i using that window_at [of 2 i] by auto
    then show ?thesis using False by auto
  qed
  have s: "unat (pl_focus e) = 0 \<longleftrightarrow> pl_focus e = 0" "unat (pl_focus e) = 1 \<longleftrightarrow> pl_focus e = 1"
    by (simp_all add: word_unat_eq_iff)
  have la: "array_at 0 g_lcd_plate_letters (unat (pl_letter_index e)) = State_Monad.return (g_lcd_plate_letters ! unat (pl_letter_index e))"
    using n(2) letters(2) by (simp add: array_at_def)
  have "paints lib (if pl_valid e = 0 \<and> pl_dirty e = 0 then [] @ []
     else [] @ (if pl_focus e = 0 then [g_lcd_plate_province_codes ! unat (pl_province_index e)] else []) @ []
       @ (if pl_focus e = 1 then [ucast (g_lcd_plate_letters ! unat (pl_letter_index e))] else []) @ []
       @ concat (map (\<lambda>i. if pl_focus e = 2 + of_nat i then [tail_char (pl_digits e ! i)] else []) [0..<5]))
     (lcd_plate_draw_top_line lib e)"
    unfolding lcd_plate_draw_top_line_def LCD_PLATE_FOCUS_PROVINCE_def LCD_PLATE_FOCUS_LETTER_def LCD_PLATE_FOCUS_DIGIT0_def
      la bind_left_identity
    by (intro paints_if paints_bind paints_choice paints_steps paints_str paints_each writes_read writes_steps paints_cell(1) d f fits)
      (use n letters in simp_all)
  then show ?thesis
    unfolding dt by (rule paints_eq) (use n(4) s in \<open>auto simp: word_unat_eq_iff\<close>)
qed

lemma plate_painted:
  assumes f: "fonts_fit lib" and e: "plate_ok (ui_plate u)"
  shows "paints lib (plate_focus (ui_plate u)) (lcd_render_plate_set_ui lib u)"
proof -
  let ?e = "ui_plate u"
  have n: "unat (pl_province_index ?e) < 31" "pl_letter_index ?e < 26" "unat (pl_focus ?e) \<le> 8"
    using e by (auto simp: plate_ok_def g_lcd_plate_province_codes_def word_le_nat_alt dvr_const)
  have r: "paints lib (if pl_focus ?e = 0 then [g_lcd_plate_province_codes ! unat (pl_province_index ?e)]
      else if pl_focus ?e = 1 then [ucast (g_lcd_plate_letters ! unat (pl_letter_index ?e))]
      else if 2 \<le> pl_focus ?e \<and> pl_focus ?e \<le> 6 then [tail_char (pl_digits ?e ! (unat (pl_focus ?e) - 2))] else [])
    (if pl_focus ?e = 0 then plate_provinces lib ?e else if pl_focus ?e = 1 then plate_letters ?e
     else draw_when (2 \<le> pl_focus ?e \<and> pl_focus ?e \<le> 6) (plate_tail_chars ?e))"
    by (intro paints_if paints_when provinces_painted letters_painted tails_painted f e n) (simp_all add: dvr_const)
  have c: "pl_focus ?e \<in> {0, 1, 2, 3, 4, 5, 6, 7, 8}"
  proof -
    have "unat (pl_focus ?e) \<in> {0, 1, 2, 3, 4, 5, 6, 7, 8}" using n(3) by auto
    then show ?thesis by (auto simp: word_unat_eq_iff)
  qed
  note foci = LCD_PLATE_FOCUS_PROVINCE_def LCD_PLATE_FOCUS_LETTER_def LCD_PLATE_FOCUS_DIGIT0_def LCD_PLATE_FOCUS_DIGIT4_def
    LCD_PLATE_FOCUS_CONFIRM_def LCD_PLATE_FOCUS_EXIT_def
  have eq: "(if pl_valid ?e = 0 \<and> pl_dirty ?e = 0 \<or> 6 < unat (pl_focus ?e) then []
        else if pl_focus ?e = 0 then [g_lcd_plate_province_codes ! unat (pl_province_index ?e)]
        else if pl_focus ?e = 1 then [ucast (g_lcd_plate_letters ! unat (pl_letter_index ?e))]
        else [tail_char (pl_digits ?e ! (unat (pl_focus ?e) - 2))])
      @ (if pl_focus ?e = 0 then [g_lcd_plate_province_codes ! unat (pl_province_index ?e)]
        else if pl_focus ?e = 1 then [ucast (g_lcd_plate_letters ! unat (pl_letter_index ?e))]
        else if 2 \<le> pl_focus ?e \<and> pl_focus ?e \<le> 6 then [tail_char (pl_digits ?e ! (unat (pl_focus ?e) - 2))] else [])
      @ (if pl_focus ?e = 7 then g_confirm_text else []) @ (if pl_focus ?e = 8 then g_exit_text else [])
    = plate_focus ?e"
    using c unfolding plate_focus_def foci Let_def by (elim insertE emptyE) simp_all
  have "paints lib ([] @ (if pl_valid ?e = 0 \<and> pl_dirty ?e = 0 \<or> 6 < unat (pl_focus ?e) then []
      else if pl_focus ?e = 0 then [g_lcd_plate_province_codes ! unat (pl_province_index ?e)]
      else if pl_focus ?e = 1 then [ucast (g_lcd_plate_letters ! unat (pl_letter_index ?e))]
      else [tail_char (pl_digits ?e ! (unat (pl_focus ?e) - 2))])
     @ [] @ (if pl_focus ?e = 0 then [g_lcd_plate_province_codes ! unat (pl_province_index ?e)]
      else if pl_focus ?e = 1 then [ucast (g_lcd_plate_letters ! unat (pl_letter_index ?e))]
      else if 2 \<le> pl_focus ?e \<and> pl_focus ?e \<le> 6 then [tail_char (pl_digits ?e ! (unat (pl_focus ?e) - 2))] else [])
     @ (if pl_focus ?e = 7 then g_confirm_text else []) @ (if pl_focus ?e = 8 then g_exit_text else []))
    (lcd_render_plate_set_ui lib u)"
    unfolding lcd_render_plate_set_ui_def Let_def foci
    by (intro paints_bind paints_new_page plate_top_painted r buttons_painted f e paints_call) simp_all
  then show ?thesis by (rule paints_eq) (simp only: append_Nil eq)
qed

lemma phone_painted:
  assumes f: "fonts_fit lib" and e: "phone_ok (ui_phone u)"
  shows "paints lib (phone_focus (ui_phone u)) (lcd_render_local_phone_ui lib u)"
proof -
  let ?e = "ui_phone u" let ?x = "62 + ph_cursor ?e * 6 :: u8"
  have c: "unat (ph_cursor ?e) \<le> 10" "length (ph_digits ?e) = 12" "ph_selected_digit ?e \<le> 9" "ph_func_index ?e \<le> 1"
    using e by (auto simp: phone_ok_def word_le_nat_alt)
  have ch: "ph_digits ?e ! unat (ph_cursor ?e) \<noteq> 0"
    using phone_digit(1) [OF e, of "ph_cursor ?e"] c(1) by (auto simp: is_digit_def word_le_nat_alt)
  have x: "unat ?x = 62 + unat (ph_cursor ?e) * 6" using c(1) by (simp add: unat_word_ariths)
  have box: "inside lib (DrawBox (ucast ?x - 1) 2 8 12)" "inside lib (DrawFrame (ucast ?x - 1) 2 8 12)" "(ucast ?x :: u16) < 132"
    using c(1) x by (auto simp: unat_sub word_le_nat_alt word_less_nat_alt)
  have d: "paints lib (if b \<and> of_nat i = k then [ucast (0x30 + of_nat i :: u8)] else [])
      (draw_choice (b \<and> of_nat i = k) (DrawBox (ucast (4 + of_nat i * 12 :: u8) - 1) 20 10 12)
        (u8g2_DrawStr (ucast (4 + of_nat i * 12 :: u8)) 30 [0x30 + of_nat i, 0]))" if i: "i \<in> set [0..<10]" for i b and k :: u8
  proof -
    have "list_all (\<lambda>i. unat (ucast (4 + of_nat i * 12 :: u8) - 1 :: u16) + 10 \<le> 132 \<and> (ucast (4 + of_nat i * 12 :: u8) :: u16) < 132
        \<and> 0x30 + of_nat i \<noteq> (0 :: u8)) [0..<10]" by code_simp
    then have b: "unat (ucast (4 + of_nat i * 12 :: u8) - 1 :: u16) + 10 \<le> 132" "(ucast (4 + of_nat i * 12 :: u8) :: u16) < 132"
      "0x30 + of_nat i \<noteq> (0 :: u8)" using i unfolding list_all_iff by blast+
    have "writes lib [ucast (0x30 + of_nat i :: u8)] (u8g2_DrawStr (ucast (4 + of_nat i * 12 :: u8)) 30 [0x30 + of_nat i, 0])"
      using writes_str [OF b(2), of 30 lib "[0x30 + of_nat i, 0]"] b(3) by (simp add: cell_text)
    then show ?thesis by (rule paints_choice) (use b(1) in simp_all)
  qed
  have dt: "concat (map (\<lambda>i. if b \<and> of_nat i = ph_selected_digit ?e then [ucast (0x30 + of_nat i :: u8)] else []) [0..<10])
      = (if b then [ucast (0x30 + ph_selected_digit ?e)] else [])" for b
    using concat_cursor [of "ph_selected_digit ?e" 10 b "\<lambda>i. [ucast (0x30 + of_nat i :: u8)]"] c(3)
    by (cases b) (simp_all add: word_le_nat_alt eq_commute [of "ph_selected_digit ?e"])
  have cell: "writes lib [ucast (ph_digits ?e ! unat (ph_cursor ?e))] (u8g2_DrawStr (ucast ?x) 12 [ph_digits ?e ! unat (ph_cursor ?e), 0])"
    using writes_str [OF box(3), of 12 lib "[ph_digits ?e ! unat (ph_cursor ?e), 0]"] ch by (simp add: cell_text)
  have fi: "ph_func_index ?e = 0 \<or> ph_func_index ?e = 1"
  proof -
    have "unat (ph_func_index ?e) = 0 \<or> unat (ph_func_index ?e) = 1" using c(4) by (auto simp: word_le_nat_alt)
    then show ?thesis by (simp add: word_unat_eq_iff)
  qed
  show ?thesis
    unfolding lcd_render_local_phone_ui_def Let_def
    by (rule paints_eq, (rule f d box cell writes_read paint_rules | assumption | (use c in \<open>simp add: g_exit_text_def g_save_text_def; fail\<close>))+)
      (use fi in \<open>auto simp: dt phone_focus_def g_exit_text_def g_save_text_def dvr_const\<close>)
qed

section \<open>Every page\<close>

lemma resource_choices:
  "lcd_get_list_page_resources p = Some r \<Longrightarrow> length (res_item_texts r) = unat (page_choices p)"
  by (cases p) (auto simp: lcd_get_list_page_resources_def g_lcd_list_resources_def page_choices_def
      lcd_page_get_select_count_def page_shapes label_tables)

lemma list_pages:
  "(lcd_get_list_page_resources p \<noteq> None) \<longleftrightarrow>
     p \<in> {LCD_PAGE_DRIVE_RECORD_MENU, LCD_PAGE_DEVICE_STATUS_MENU, LCD_PAGE_SYSTEM_SETTING_MENU,
       LCD_PAGE_DRIVE_RECORD_INFO_CENTER, LCD_PAGE_DRIVE_RECORD_INFO_CENTER_TEXT, LCD_PAGE_SYSTEM_SETTING_VEHICLE_INFO,
       LCD_PAGE_SYSTEM_SETTING_VEHICLE_INFO_PLATE_COLOR, LCD_PAGE_SYSTEM_SETTING_VEHICLE_INFO_PLATE_CLASS,
       LCD_PAGE_SYSTEM_SETTING_HOST_PARAM}"
  by (cases p; simp add: lcd_get_list_page_resources_def g_lcd_list_resources_def)

lemma selected_choice:
  assumes "ui_nav_ok u" "0 < page_choices p"
  shows "unat (g_lcd_page_selected u p) < unat (page_choices p)"
proof -
  have "unat (g_lcd_page_selected u p) < max 1 (unat (page_choices p))"
    using assms(1) by (simp add: ui_nav_ok_def nav_ok_def sel_ok_choices)
  moreover have "0 < unat (page_choices p)" using assms(2) by (simp add: word_less_nat_alt)
  ultimately show ?thesis by simp
qed

lemma list_page_painted:
  assumes "fonts_fit lib" "ui_nav_ok u" "lcd_get_list_page_resources (g_lcd_current_page_id u) = Some r"
  shows "paints lib (focus_text u) (lcd_draw_page lib (ui_env ops now) vio u)"
proof -
  let ?p = "g_lcd_current_page_id u"
  have p: "?p \<in> {LCD_PAGE_DRIVE_RECORD_MENU, LCD_PAGE_DEVICE_STATUS_MENU, LCD_PAGE_SYSTEM_SETTING_MENU,
       LCD_PAGE_DRIVE_RECORD_INFO_CENTER, LCD_PAGE_DRIVE_RECORD_INFO_CENTER_TEXT, LCD_PAGE_SYSTEM_SETTING_VEHICLE_INFO,
       LCD_PAGE_SYSTEM_SETTING_VEHICLE_INFO_PLATE_COLOR, LCD_PAGE_SYSTEM_SETTING_VEHICLE_INFO_PLATE_CLASS,
       LCD_PAGE_SYSTEM_SETTING_HOST_PARAM}"
    using assms(3) list_pages [of ?p] by simp
  then have c: "0 < page_choices ?p"
    by (elim insertE emptyE) (simp_all add: page_choices_def lcd_page_get_select_count_def page_shapes)
  have n: "lcd_get_page_node (ui_env ops now) ?p \<noteq> None" using p by (elim insertE emptyE) simp_all
  have "lcd_draw_page lib (ui_env ops now) vio u = lcd_render_drive_record_submenu_ui lib (ui_env ops now) u"
    using p by (elim insertE emptyE) (simp_all add: lcd_draw_page_def)
  moreover have "focus_text u = (let i = unat (g_lcd_page_selected u ?p) in item_text i (res_item_texts r ! i))"
    using p assms(3) by (elim insertE emptyE) (simp_all add: focus_text_def)
  ultimately show ?thesis
    using submenu_painted [OF assms(1,3) n] selected_choice [OF assms(2) c] resource_choices [OF assms(3)] by simp
qed

lemma page_painted:
  assumes f: "fonts_fit lib" and u: "ui_nav_ok u" "editors_ok u" "length (home_card_id (g_lcd_home_ui u)) = 20"
  shows "paints lib (focus_text u) (lcd_draw_page lib (ui_env ops now) vio u)"
proof (cases "lcd_get_list_page_resources (g_lcd_current_page_id u)")
  case (Some r)
  then show ?thesis using list_page_painted [OF f u(1)] by blast
next
  case None
  have choices: "page_choices LCD_PAGE_MAIN_MENU = 3" "page_choices LCD_PAGE_SYSTEM_SETTING_KEY_VOLUME = 2"
    "page_choices LCD_PAGE_SYSTEM_SETTING_BRIGHTNESS = 2" "page_choices LCD_PAGE_SYSTEM_SETTING_BACKLIGHT_TIME = 6"
    "page_choices LCD_PAGE_SYSTEM_SETTING_BRIGHTNESS_LEVEL = 5" "page_choices LCD_PAGE_DRIVE_RECORD_LOAD_STATUS = 3"
    by (simp_all add: page_choices_def lcd_page_get_select_count_def page_shapes)
  have sel: "unat (g_lcd_page_selected u LCD_PAGE_MAIN_MENU) < 3" "unat (g_lcd_page_selected u LCD_PAGE_SYSTEM_SETTING_KEY_VOLUME) < 2"
    "unat (g_lcd_page_selected u LCD_PAGE_SYSTEM_SETTING_BRIGHTNESS) < 2"
    "unat (g_lcd_page_selected u LCD_PAGE_SYSTEM_SETTING_BACKLIGHT_TIME) < 6"
    "unat (g_lcd_page_selected u LCD_PAGE_SYSTEM_SETTING_BRIGHTNESS_LEVEL) < 5"
    "unat (g_lcd_page_selected u LCD_PAGE_DRIVE_RECORD_LOAD_STATUS) < 3"
    using selected_choice [OF u(1), of LCD_PAGE_MAIN_MENU] selected_choice [OF u(1), of LCD_PAGE_SYSTEM_SETTING_KEY_VOLUME]
      selected_choice [OF u(1), of LCD_PAGE_SYSTEM_SETTING_BRIGHTNESS] selected_choice [OF u(1), of LCD_PAGE_SYSTEM_SETTING_BACKLIGHT_TIME]
      selected_choice [OF u(1), of LCD_PAGE_SYSTEM_SETTING_BRIGHTNESS_LEVEL]
      selected_choice [OF u(1), of LCD_PAGE_DRIVE_RECORD_LOAD_STATUS]
    by (simp_all add: choices)
  have lens: "length (setting_labels LCD_PAGE_SYSTEM_SETTING_KEY_VOLUME) = 2" "length (setting_labels LCD_PAGE_SYSTEM_SETTING_BRIGHTNESS) = 2"
    "length (setting_labels LCD_PAGE_SYSTEM_SETTING_BACKLIGHT_TIME) = 6"
    "length (setting_labels LCD_PAGE_SYSTEM_SETTING_BRIGHTNESS_LEVEL) = 5"
    "length (setting_labels LCD_PAGE_DRIVE_RECORD_LOAD_STATUS) = 3"
    by (simp_all add: setting_labels_def load_status_texts_def)
  have e: "plate_ok (ui_plate u)" "phone_ok (ui_phone u)" using u(2) by (simp_all add: editors_ok_def)
  note painted = menu_painted [OF f sel(1), unfolded Let_def] settings_painted(1) [OF f refl refl sel(2)]
    settings_painted(2) [OF f refl refl sel(3)] settings_painted(3) [OF f refl refl sel(4)] settings_painted(4) [OF f refl refl sel(5)]
    load_status_painted [OF f refl sel(6)] char_edits_painted [OF f u(2)] plate_painted [OF f e(1)] phone_painted [OF f e(2)]
    plain_painted [OF f] driver_info_painted [OF f u(3)] vehicle_status_painted [OF f] text_page_painted [OF f]
    submenu_level_painted
  show ?thesis
    using None list_pages [of "g_lcd_current_page_id u"] u(1)
    by (cases "g_lcd_current_page_id u";
        simp add: lcd_draw_page_def focus_text_def Let_def painted sel lens; simp add: setting_labels_def painted)
qed

end
