(* ===== verification/Svc_Lcd_Shown.thy ===== *)
theory Svc_Lcd_Shown
  imports App_Task Svc_Lcd_Screens
begin

text \<open>
  What the display shows in the states the firmware can reach. The theory joins the invariants that
  every thread keeps (\<open>App_Task\<close>) with the rules of drawing (\<open>Svc_Lcd_Draw\<close>, \<open>Svc_Lcd_Screens\<close>), reads the
  decimal text of the formatted fields back into numbers, and so shows that the home pages lose
  nothing of what they display.
\<close>

section \<open>Decimal text\<close>

text \<open>Reading a decimal number back.\<close>

definition undec :: "bytes \<Rightarrow> nat" where
  "undec = foldl (\<lambda>v c. 10 * v + unat (c - 0x30)) 0"

lemma digit_of: "d < 10 \<Longrightarrow> is_digit (0x30 + of_nat d)" "d < 10 \<Longrightarrow> unat ((0x30 + of_nat d :: u8) - 0x30) = d"
  using digit_char [of d] by (simp_all add: is_digit_def unsigned_of_nat take_bit_nat_eq_self)

lemma dec_digits: "list_all is_digit (dec n)" "undec (dec n) = n" "dec n \<noteq> []"
proof (induction n rule: less_induct)
  case (less n)
  have "list_all is_digit (dec n) \<and> undec (dec n) = n \<and> dec n \<noteq> []"
  proof (cases "n < 10")
    case True
    then show ?thesis using digit_of [of n] by (simp add: dec_small undec_def)
  next
    case False
    then have "n div 10 < n" "n mod 10 < 10" by simp_all
    then show ?thesis
      using less.IH [of "n div 10"] digit_of [of "n mod 10"] by (simp add: dec_large [OF False] undec_def)
  qed
  then show "list_all is_digit (dec n)" "undec (dec n) = n" "dec n \<noteq> []" by auto
qed

lemma dec_length: "n < 10 ^ k \<Longrightarrow> 0 < k \<Longrightarrow> length (dec n) \<le> k"
proof (induction k arbitrary: n)
  case (Suc k)
  show ?case
  proof (cases "n < 10")
    case False
    have "n div 10 < 10 ^ k" using Suc.prems(1) by (simp add: less_mult_imp_div_less mult.commute)
    moreover have "0 < k" using False Suc.prems(1) by (cases k) simp_all
    ultimately show ?thesis using Suc.IH [of "n div 10"] by (simp add: dec_large [OF False])
  qed (simp add: dec_small)
qed simp

lemma pad_digits: "list_all is_digit (dec_pad w n)" "undec (dec_pad w n) = n"
proof -
  have "foldl (\<lambda>v c. 10 * v + unat (c - 0x30)) 0 (replicate k 0x30 @ bs) = undec bs" for k and bs :: bytes
    by (induction k) (simp_all add: undec_def)
  then show "undec (dec_pad w n) = n" by (simp add: dec_pad_def undec_def [symmetric] dec_digits(2))
  show "list_all is_digit (dec_pad w n)" using dec_digits(1) [of n] by (auto simp: dec_pad_def list_all_iff is_digit_def)
qed

lemma pad_length: "n < 10 ^ k \<Longrightarrow> 0 < k \<Longrightarrow> w \<le> k \<Longrightarrow> length (dec_pad w n) \<le> k"
  using dec_length [of n k] by (simp add: dec_pad_def)

lemma digits_split:
  assumes "list_all is_digit a" "list_all is_digit b" "\<not> is_digit c" "\<not> is_digit c'" "a @ c # x = b @ c' # y"
  shows "a = b" "c # x = c' # y"
proof -
  have t: "takeWhile is_digit (a @ c # x) = a" "takeWhile is_digit (b @ c' # y) = b"
    using assms(1-4) by (simp_all add: list_all_iff takeWhile_append)
  then show "a = b" using assms(5) by metis
  then show "c # x = c' # y" using assms(5) by simp
qed

lemma printed:
  assumes "length s < n" "0 \<notin> set s"
  shows "cstr (rt_snprintf n s) = s"
proof -
  have "take (n - 1) s = s" using assms(1) by simp
  then show ?thesis using assms(2) by (simp add: rt_snprintf_def cstr_def takeWhile_append)
qed

lemma no_nul: "list_all is_digit s \<Longrightarrow> 0 \<notin> set s"
  by (auto simp: list_all_iff is_digit_def)

lemma seps: "lit ''.'' = [0x2E]" "lit '':'' = [0x3A]" "lit ''-'' = [0x2D]" "lit '' km/h'' = [0x20, 0x6B, 0x6D, 0x2F, 0x68]"
  "lit ''    '' = [0x20, 0x20, 0x20, 0x20]"
  by code_simp+

lemma not_digits: "\<not> is_digit 0x2E" "\<not> is_digit 0x3A" "\<not> is_digit 0x2D" "\<not> is_digit 0x20"
  by (simp_all add: is_digit_def)

lemmas dec_facts = dec_digits pad_digits no_nul [OF dec_digits(1)] no_nul [OF pad_digits(1)] not_digits

lemma speed_printed:
  "cstr (speed_text u) = dec (unat (home_speed_kmh_x10 (g_lcd_home_ui u)) div 10) @ 0x2E
     # dec (unat (home_speed_kmh_x10 (g_lcd_home_ui u)) mod 10) @ [0x20, 0x6B, 0x6D, 0x2F, 0x68]"
proof -
  let ?s = "home_speed_kmh_x10 (g_lcd_home_ui u)"
  have "length (dec (unat ?s div 10)) \<le> 4" using unat_lt_u16 [of ?s] by (intro dec_length) simp_all
  moreover have "length (dec (unat ?s mod 10)) \<le> 1" by (intro dec_length) simp_all
  ultimately show ?thesis
    unfolding speed_text_def seps by (subst printed) (auto simp: unat_div unat_mod dec_facts)
qed

lemma hms_printed: "cstr (hms_text h m s) = dec_pad 2 (unat h) @ 0x3A # dec_pad 2 (unat m) @ 0x3A # dec_pad 2 (unat s)"
proof -
  have "length (dec_pad 2 (unat k)) \<le> 3" for k :: u8 using unat_lt_u8 [of k] by (intro pad_length) simp_all
  from this [of h] this [of m] this [of s] show ?thesis
    unfolding hms_text_def seps by (subst printed) (auto simp: dec_facts)
qed

lemma degree_printed:
  "cstr (degree_text dir v) = (if dir \<noteq> 0 then [0x2D] else []) @ dec (unat v div 1000000) @ 0x2E # dec_pad 6 (unat v mod 1000000)"
proof -
  have "length (dec (unat v div 1000000)) \<le> 4" using unat_lt_u32 [of v] by (intro dec_length) simp_all
  moreover have "length (dec_pad 6 (unat v mod 1000000)) \<le> 6" by (intro pad_length) simp_all
  ultimately show ?thesis
    unfolding degree_text_def seps by (subst printed) (auto simp: unat_div unat_mod dec_facts)
qed

lemma date_printed:
  "cstr (date_text ts) = (let t = lcd_timestamp_to_local_ymdhm ts
     in dec (unat (t_year t)) @ 0x2E # dec (unat (t_month t)) @ 0x2E # dec (unat (t_day t)) @ 0x20 # 0x20 # 0x20 # 0x20
       # dec_pad 2 (unat (t_hour t)) @ 0x3A # dec_pad 2 (unat (t_minute t)))"
proof -
  let ?t = "lcd_timestamp_to_local_ymdhm ts"
  have b: "unat (t_month ?t) < 100" "unat (t_day ?t) < 100" "unat (t_hour ?t) < 100" "unat (t_minute ?t) < 100"
    using date_exact [of ts] by (auto simp: Let_def valid_date_def month_days_def split: if_splits)
  have "length (dec (unat (t_year ?t))) \<le> 5" using unat_lt_u16 [of "t_year ?t"] by (intro dec_length) simp_all
  moreover have "length (dec (unat (t_month ?t))) \<le> 2" "length (dec (unat (t_day ?t))) \<le> 2"
    using b by (auto intro!: dec_length)
  moreover have "length (dec_pad 2 (unat (t_hour ?t))) \<le> 2" "length (dec_pad 2 (unat (t_minute ?t))) \<le> 2"
    using b by (auto intro!: pad_length)
  ultimately show ?thesis
    unfolding date_text_def seps Let_def by (subst printed) (auto simp: dec_facts)
qed

section \<open>The home pages are faithful\<close>

text \<open>The text fields a program draws, with their places.\<close>

definition fields :: "draw_call list \<Rightarrow> (u16 \<times> u16 \<times> bytes) list" where
  "fields ds = concat (map (\<lambda>d. case d of DrawStr f x y s \<Rightarrow> [(x, y, s)] | _ \<Rightarrow> []) ds)"

definition says :: "(u16 \<times> u16 \<times> bytes) list \<Rightarrow> 'a draw \<Rightarrow> bool" where
  "says t m \<longleftrightarrow> (\<forall>c. fields (cv_calls (snd (run_state m c))) = fields (cv_calls c) @ t)"

named_theorems says_rules \<open>the text a drawing step adds\<close>

lemma says_bind [says_rules]: "says s m \<Longrightarrow> (\<And>a. says t (f a)) \<Longrightarrow> says (s @ t) (State_Monad.bind m f)"
  by (simp add: says_def case_prod_unfold)

lemma says_steps [says_rules]:
  "shape d \<Longrightarrow> says [] (u8g2_call d)"
  "says [] (u8g2_call (SetDrawColor k))"
  "says [] (u8g2_SetFont f)"
  "says [(x, y, cstr s)] (u8g2_DrawStr x y s)"
  "says [] (State_Monad.return a)"
  "says [] (array_at dflt xs i)"
  "says [] (u8g2_DrawGlyph lib x y code)"
  by (cases d; simp add: says_def fields_def u8g2_call_def)
    (simp_all add: says_def fields_def u8g2_call_def u8g2_SetFont_def u8g2_DrawStr_def array_at_def u8g2_DrawGlyph_def)

lemma says_loop: "says [] (glyph_loop lib y codes is x)"
proof (induction "is" arbitrary: x)
  case (Cons i "is")
  then show ?case
    using says_bind [OF says_steps(6) says_bind [OF says_steps(7) Cons.IH]] by simp
qed (simp add: says_rules)

lemma says_seq [says_rules]: "says [] (lcd_u8g2_draw_unicode_seq lib x y codes count)"
  by (simp add: lcd_u8g2_draw_unicode_seq_def says_loop)

lemma says_when [says_rules]: "says t m \<Longrightarrow> says (if b then t else []) (draw_when b m)"
  by (simp add: draw_when_def says_rules)

lemma says_eq: "says t m \<Longrightarrow> t = t' \<Longrightarrow> says t' m"
  by simp

lemma says_new_page [says_rules]: "says [] new_page"
  unfolding new_page_def by (rule says_eq, (rule says_rules | (simp; fail))+)

definition status_field :: "'b ui \<Rightarrow> (u16 \<times> u16 \<times> bytes) list" where
  "status_field u =
     (let v = home_top_status_value (g_lcd_home_ui u) in if v \<noteq> 0 then [(52, 11, dec_pad 2 (unat v))] else [])"

lemma says_icons [says_rules]: "says (status_field u) (lcd_u8g2_draw_top_icons 2 2 u)"
proof -
  have "length (dec_pad 2 (unat (home_top_status_value (g_lcd_home_ui u)))) \<le> 3"
    using unat_lt_u8 [of "home_top_status_value (g_lcd_home_ui u)"] by (intro pad_length) simp_all
  then have s: "cstr (rt_snprintf 4 (dec_pad 2 (unat (home_top_status_value (g_lcd_home_ui u)))))
      = dec_pad 2 (unat (home_top_status_value (g_lcd_home_ui u)))"
    by (intro printed) (auto simp: dec_facts)
  show ?thesis
    unfolding lcd_u8g2_draw_top_icons_def lcd_u8g2_draw_bitmap12x12_def
    by (rule says_eq, (rule says_rules | (simp; fail))+) (simp add: s status_field_def Let_def)
qed

definition home_fields :: "'b ui \<Rightarrow> (u16 \<times> u16 \<times> bytes) list" where
  "home_fields u =
     (let h = g_lcd_home_ui u in status_field u @
        (if g_lcd_home_subpage u \<noteq> 0
         then [(40, 24, cstr (degree_text (home_latitude_direction h) (home_latitude h))),
               (40, 40, cstr (degree_text (home_longitude_direction h) (home_longitude h))),
               (8, 56, cstr (date_text (home_timestamp h)))]
         else [(10, 24, cstr (speed_text u)), (72, 24, cstr (hms_text (home_hour h) (home_minute h) (home_second h))),
               (72, 40, cstr (hms_text (home_drive_hour h) (home_drive_minute h) (home_drive_second h))),
               (12, 58, cstr (home_card_id h))]))"

lemma says_home: "says (home_fields u) (lcd_render_home_ui lib u)"
proof (cases "g_lcd_home_subpage u = 0")
  case True
  show ?thesis
    unfolding lcd_render_home_ui_def if_not_P [OF not_not [THEN iffD2, OF True]] Let_def
    by (rule says_eq, (rule says_rules | (simp; fail))+) (simp add: home_fields_def True Let_def)
next
  case False
  show ?thesis
    unfolding lcd_render_home_ui_def if_P [OF False] lcd_render_home_sub_ui_def Let_def
    by (rule says_eq, (rule says_rules | (simp; fail))+) (simp add: home_fields_def False Let_def)
qed

definition canvas_blank :: canvas where
  "canvas_blank = \<lparr>cv_font = None, cv_calls = [], cv_fault = False\<rparr>"

definition home_calls :: "u8g2_lib \<Rightarrow> 'b ui \<Rightarrow> draw_call list" where
  "home_calls lib u = cv_calls (snd (run_state (lcd_render_home_ui lib u) canvas_blank))"

lemma home_calls_fields: "fields (home_calls lib u) = home_fields u"
  using says_home [of u lib] by (simp add: says_def home_calls_def canvas_blank_def fields_def)

lemma pad_inj: "dec_pad 2 (unat (a :: u8)) = dec_pad 2 (unat b) \<Longrightarrow> a = b"
  by (metis pad_digits(2) word_unat_eq_iff)

lemma hms_inj:
  assumes "cstr (hms_text h m s) = cstr (hms_text h' m' s')"
  shows "h = h'" "m = m'" "s = s'"
proof -
  note eq = assms [unfolded hms_printed]
  note e1 = digits_split [OF pad_digits(1) pad_digits(1) not_digits(2) not_digits(2) eq]
  then have "dec_pad 2 (unat m) @ 0x3A # dec_pad 2 (unat s) = dec_pad 2 (unat m') @ 0x3A # dec_pad 2 (unat s')" by simp
  note e2 = digits_split [OF pad_digits(1) pad_digits(1) not_digits(2) not_digits(2) this]
  show "h = h'" "m = m'" "s = s'" using e1(1) e2 by (auto dest: pad_inj)
qed

lemma speed_inj:
  assumes "cstr (speed_text u) = cstr (speed_text v)"
  shows "home_speed_kmh_x10 (g_lcd_home_ui u) = home_speed_kmh_x10 (g_lcd_home_ui v)"
proof -
  let ?a = "unat (home_speed_kmh_x10 (g_lcd_home_ui u))" and ?b = "unat (home_speed_kmh_x10 (g_lcd_home_ui v))"
  note eq = assms [unfolded speed_printed]
  note e1 = digits_split [OF dec_digits(1) dec_digits(1) not_digits(1) not_digits(1) eq]
  then have "dec (?a div 10) = dec (?b div 10)" "dec (?a mod 10) = dec (?b mod 10)" by simp_all
  then have "?a div 10 = ?b div 10" "?a mod 10 = ?b mod 10" by (metis dec_digits(2))+
  then have "?a = ?b" by (metis div_mult_mod_eq)
  then show ?thesis by (simp add: word_unat_eq_iff)
qed

lemma degree_inj:
  assumes "cstr (degree_text dir v) = cstr (degree_text dir' v')"
  shows "v = v'" "dir \<noteq> 0 \<longleftrightarrow> dir' \<noteq> 0"
proof -
  let ?t = "\<lambda>v. dec (unat (v :: u32) div 1000000) @ 0x2E # dec_pad 6 (unat v mod 1000000)"
  have h: "hd (?t v) \<noteq> 0x2D" "?t v \<noteq> []" for v
    using dec_digits(1,3) [of "unat v div 1000000"] by (auto simp: hd_append list_all_iff is_digit_def neq_Nil_conv)
  have eq: "(if dir \<noteq> 0 then [0x2D] else []) @ ?t v = (if dir' \<noteq> 0 then [0x2D] else []) @ ?t v'"
    using assms unfolding degree_printed .
  show d: "dir \<noteq> 0 \<longleftrightarrow> dir' \<noteq> 0" using eq h [of v] h [of v'] by (auto split: if_splits) (metis list.sel(1))+
  then have "?t v = ?t v'" using eq by (auto split: if_splits)
  note e = digits_split [OF dec_digits(1) dec_digits(1) not_digits(1) not_digits(1) this]
  then have "unat v div 1000000 = unat v' div 1000000" "unat v mod 1000000 = unat v' mod 1000000"
    by (metis dec_digits(2), metis list.inject pad_digits(2))
  then have "unat v = unat v'" by (metis div_mult_mod_eq)
  then show "v = v'" by (simp add: word_unat_eq_iff)
qed

lemma date_inj:
  assumes "cstr (date_text ts) = cstr (date_text ts')"
  shows "(unat ts + 28800) mod 2 ^ 32 div 60 = (unat ts' + 28800) mod 2 ^ 32 div 60"
proof -
  let ?t = "lcd_timestamp_to_local_ymdhm ts" and ?s = "lcd_timestamp_to_local_ymdhm ts'"
  note eq = assms [unfolded date_printed Let_def]
  note e1 = digits_split [OF dec_digits(1) dec_digits(1) not_digits(1) not_digits(1) eq]
  note e2 = digits_split [OF dec_digits(1) dec_digits(1) not_digits(1) not_digits(1) list.inject [THEN iffD1, OF e1(2), THEN conjunct2]]
  note e3 = digits_split [OF dec_digits(1) dec_digits(1) not_digits(4) not_digits(4) list.inject [THEN iffD1, OF e2(2), THEN conjunct2]]
  from e3(2) have e4: "dec_pad 2 (unat (t_hour ?t)) @ 0x3A # dec_pad 2 (unat (t_minute ?t)) = dec_pad 2 (unat (t_hour ?s)) @ 0x3A # dec_pad 2 (unat (t_minute ?s))"
    by simp
  note e5 = digits_split [OF pad_digits(1) pad_digits(1) not_digits(2) not_digits(2) e4]
  have "unat (t_year ?t) = unat (t_year ?s)" "unat (t_month ?t) = unat (t_month ?s)" "unat (t_day ?t) = unat (t_day ?s)"
    using e1(1) e2(1) e3(1) by (metis dec_digits(2))+
  moreover have "t_hour ?t = t_hour ?s" "t_minute ?t = t_minute ?s" using e5 by (auto dest: pad_inj)
  ultimately show ?thesis using date_exact [of ts] date_exact [of ts'] by (simp add: Let_def)
qed


section \<open>The display of the firmware\<close>

lemma reached_paints:
  assumes "dvr_reach ops d" "fonts_fit lib"
  shows "paints lib (focus_text (u_lcd (d_link d))) (lcd_draw_page lib (ui_env ops now) (d_vio d) (u_lcd (d_link d)))"
  using card_shared.reach_kept [OF assms(1)]
  by (intro page_painted assms(2) nav_shared.reach_kept [OF assms(1)] editors_shared.reach_kept [OF assms(1)])
    (simp add: card_ok_def)

text \<open>A library whose glyphs are all six pixels wide.\<close>

definition u8g2_fixed :: u8g2_lib where
  "u8g2_fixed = \<lparr>glyph_advance = (\<lambda>f code. 6), glyph_width = (\<lambda>f code. 6)\<rparr>"

lemma fixed_fits: "fonts_fit u8g2_fixed"
  by (simp add: fonts_fit_def u8g2_fixed_def)






text \<open>The home page of a moving vehicle; only its second page shows the longitude.\<close>

definition home_sample :: "u32 \<Rightarrow> at24 ui" where
  "home_sample lon = (let u = u_lcd (d_link dvr_booted)
     in u\<lparr>g_lcd_home_subpage := 0, g_lcd_home_ui := (g_lcd_home_ui u)\<lparr>home_speed_kmh_x10 := 605, home_longitude := lon\<rparr>\<rparr>)"


end
