(* ===== verification/Svc_Lcd_Fresh.thy ===== *)
theory Svc_Lcd_Fresh
  imports Svc_Lcd_Shown
begin

text \<open>
  The display follows the state (\<open>src/applications/svc_lcd.c\<close>, \<open>src/applications/app_usart_cmd.c\<close>): what
  every renderer reads; that the serial link and the key handlers ask for a redraw when they change
  something the current page shows; and so, over all interleavings of the threads, that the panel
  shows the current page as it is now or a redraw is due.
\<close>

section \<open>What a page depends on\<close>

text \<open>
  The pages whose content can change while they are shown without a request to redraw: the two that
  show data of the home page, and the live page of the inputs, which is looked at every 100 ms.
\<close>

definition stale_pages :: "lcd_page_id set" where
  "stale_pages = {LCD_PAGE_DRIVE_RECORD_LOCATION, LCD_PAGE_DRIVE_RECORD_DRIVER_INFO, LCD_PAGE_DEVICE_STATUS_VEHICLE}"

text \<open>What every renderer reads.\<close>

named_theorems reads \<open>a renderer draws the same when what it reads is the same\<close>

lemma selection_reads [reads]:
  assumes "g_lcd_page_selected v = g_lcd_page_selected u"
  shows "lcd_render_menu_ui lib v = lcd_render_menu_ui lib u"
    "lcd_render_vehicle_load_status_ui lib v = lcd_render_vehicle_load_status_ui lib u"
    "lcd_render_key_volume_ui lib v = lcd_render_key_volume_ui lib u"
    "lcd_render_brightness_menu_ui lib v = lcd_render_brightness_menu_ui lib u"
    "lcd_render_backlight_time_ui lib v = lcd_render_backlight_time_ui lib u"
    "lcd_render_brightness_level_ui lib v = lcd_render_brightness_level_ui lib u"
    "lcd_render_vehicle_status_ui lib vio v = lcd_render_vehicle_status_ui lib vio u"
  using assms
  by (simp_all only: lcd_render_menu_ui_def lcd_render_vehicle_load_status_ui_def lcd_render_key_volume_ui_def
      lcd_render_brightness_menu_ui_def lcd_render_backlight_time_ui_def lcd_render_brightness_level_ui_def
      lcd_render_vehicle_status_ui_def)

lemma list_reads [reads]:
  assumes "g_lcd_current_page_id v = g_lcd_current_page_id u"
  shows "lcd_render_submenu_ui env v = lcd_render_submenu_ui env u"
    "g_lcd_page_selected v = g_lcd_page_selected u
     \<Longrightarrow> lcd_render_drive_record_submenu_ui lib env v = lcd_render_drive_record_submenu_ui lib env u"
  using assms by (simp_all only: lcd_render_submenu_ui_def lcd_render_drive_record_submenu_ui_def)

lemma data_reads [reads]:
  "g_lcd_home_ui v = g_lcd_home_ui u \<Longrightarrow> g_lcd_home_subpage v = g_lcd_home_subpage u \<Longrightarrow> lcd_render_home_ui lib v = lcd_render_home_ui lib u"
  "g_lcd_home_ui v = g_lcd_home_ui u \<Longrightarrow> lcd_render_location_status_ui lib v = lcd_render_location_status_ui lib u"
  "g_lcd_home_ui v = g_lcd_home_ui u \<Longrightarrow> lcd_render_driver_info_ui lib v = lcd_render_driver_info_ui lib u"
  "g_lcd_overtime_drive_count v = g_lcd_overtime_drive_count u
   \<Longrightarrow> lcd_render_fatigue_drive_record_ui lib v = lcd_render_fatigue_drive_record_ui lib u"
  "g_lcd_total_mileage_km v = g_lcd_total_mileage_km u \<Longrightarrow> g_lcd_total_mileage_rem_m v = g_lcd_total_mileage_rem_m u
   \<Longrightarrow> lcd_render_drive_mileage_ui lib v = lcd_render_drive_mileage_ui lib u"
  by (simp_all only: lcd_render_home_ui_def lcd_render_home_sub_ui_def lcd_u8g2_draw_top_icons_def speed_text_def
      lcd_render_location_status_ui_def lcd_render_driver_info_ui_def lcd_render_fatigue_drive_record_ui_def
      lcd_render_drive_mileage_ui_def mileage_text_def)

lemma text_reads [reads]: "g_lcd_text_msg v = g_lcd_text_msg u \<Longrightarrow> text_page_draw lib v = text_page_draw lib u"
  by (simp add: text_page_draw_def lcd_render_info_center_text_normal_ui_def Let_def)

lemma editor_reads [reads]:
  "ui_vin v = ui_vin u \<Longrightarrow> lcd_render_vin_set_ui lib v = lcd_render_vin_set_ui lib u"
  "ui_province_id v = ui_province_id u \<Longrightarrow> lcd_render_province_id_set_ui lib v = lcd_render_province_id_set_ui lib u"
  "ui_city_id v = ui_city_id u \<Longrightarrow> lcd_render_city_id_set_ui lib v = lcd_render_city_id_set_ui lib u"
  "ui_plate v = ui_plate u \<Longrightarrow> lcd_render_plate_set_ui lib v = lcd_render_plate_set_ui lib u"
  "ui_phone v = ui_phone u \<Longrightarrow> lcd_render_local_phone_ui lib v = lcd_render_local_phone_ui lib u"
  by (simp_all only: lcd_render_vin_set_ui_def lcd_vin_draw_top_line_def lcd_render_province_id_set_ui_def
      lcd_province_id_draw_top_line_def lcd_render_city_id_set_ui_def lcd_city_id_draw_top_line_def
      lcd_render_plate_set_ui_def lcd_render_local_phone_ui_def)

lemma page_reads:
  assumes p: "g_lcd_current_page_id v = g_lcd_current_page_id u" "g_lcd_page_selected v = g_lcd_page_selected u"
    and e: "ui_vin v = ui_vin u" "ui_province_id v = ui_province_id u" "ui_city_id v = ui_city_id u" "ui_plate v = ui_plate u"
      "ui_phone v = ui_phone u" "g_lcd_home_subpage v = g_lcd_home_subpage u" "g_lcd_overtime_drive_count v = g_lcd_overtime_drive_count u"
    and h: "g_lcd_current_page_id u \<in> insert LCD_PAGE_HOME stale_pages \<Longrightarrow> g_lcd_home_ui v = g_lcd_home_ui u"
    and t: "g_lcd_current_page_id u = LCD_PAGE_DRIVE_RECORD_INFO_CENTER_TEXT_NORMAL \<Longrightarrow> g_lcd_text_msg v = g_lcd_text_msg u"
    and m: "g_lcd_current_page_id u = LCD_PAGE_DRIVE_RECORD_MILEAGE
      \<Longrightarrow> g_lcd_total_mileage_km v = g_lcd_total_mileage_km u \<and> g_lcd_total_mileage_rem_m v = g_lcd_total_mileage_rem_m u"
    and i: "g_lcd_current_page_id u = LCD_PAGE_DEVICE_STATUS_VEHICLE \<Longrightarrow> vio' = vio"
  shows "lcd_draw_page lib env vio' v = lcd_draw_page lib env vio u"
  by (cases "g_lcd_current_page_id u"; simp add: lcd_draw_page_def p(1) i; (rule reads)?; simp add: p e h t m stale_pages_def)

lemma draw_unread [simp]:
  "lcd_draw_page lib env vio (u\<lparr>g_lcd_need_redraw := b\<rparr>) = lcd_draw_page lib env vio u"
  "lcd_draw_page lib env vio (u\<lparr>ui_storage := st\<rparr>) = lcd_draw_page lib env vio u"
  "lcd_draw_page lib env vio (u\<lparr>ui_config_cache := cc\<rparr>) = lcd_draw_page lib env vio u"
  "lcd_draw_page lib env vio (u\<lparr>ui_drawn := dr\<rparr>) = lcd_draw_page lib env vio u"
  "lcd_draw_page lib env vio (u\<lparr>g_lcd_vehicle_status_last_bits := bits\<rparr>) = lcd_draw_page lib env vio u"
  "lcd_draw_page lib env vio (u\<lparr>g_lcd_vehicle_status_check_tick := tk\<rparr>) = lcd_draw_page lib env vio u"
  by (rule page_reads; simp)+

lemma draw_other_data:
  "g_lcd_current_page_id u \<notin> insert LCD_PAGE_HOME stale_pages
   \<Longrightarrow> lcd_draw_page lib env vio (u\<lparr>g_lcd_home_ui := h\<rparr>) = lcd_draw_page lib env vio u"
  "g_lcd_current_page_id u \<noteq> LCD_PAGE_DRIVE_RECORD_INFO_CENTER_TEXT_NORMAL
   \<Longrightarrow> lcd_draw_page lib env vio (u\<lparr>g_lcd_text_msg := m\<rparr>) = lcd_draw_page lib env vio u"
  "g_lcd_current_page_id u \<noteq> LCD_PAGE_DRIVE_RECORD_MILEAGE
   \<Longrightarrow> lcd_draw_page lib env vio (u\<lparr>g_lcd_total_mileage_km := km, g_lcd_total_mileage_rem_m := rm\<rparr>) = lcd_draw_page lib env vio u"
  "g_lcd_current_page_id u \<notin> stale_pages \<Longrightarrow> lcd_draw_page lib env vio' u = lcd_draw_page lib env vio u"
  by (rule page_reads; simp add: stale_pages_def)+

text \<open>Drawing the text page again, after its number of pages was stored, draws the same.\<close>

lemma draw_rendered [simp]: "lcd_draw_page lib env vio (lcd_render_current_page u) = lcd_draw_page lib env vio u"
proof (cases "g_lcd_current_page_id u = LCD_PAGE_DRIVE_RECORD_INFO_CENTER_TEXT_NORMAL")
  case True
  let ?v = "snd (lcd_render_info_center_text_normal_ui u)"
  have "text_page_draw lib ?v = text_page_draw lib u"
    by (simp add: text_page_draw_def lcd_render_info_center_text_normal_ui_def Let_def)
  moreover have "g_lcd_current_page_id ?v = g_lcd_current_page_id u"
    by (simp add: lcd_render_info_center_text_normal_ui_def Let_def)
  ultimately show ?thesis using True by (simp add: lcd_render_current_page_def Let_def lcd_draw_page_def text_reads [of "?v\<lparr>ui_drawn := d\<rparr>" ?v for d])
qed (simp add: lcd_render_current_page_def Let_def)

section \<open>Changes that ask for a redraw\<close>

text \<open>Between two states of the display: a redraw is due, or none was and the page looks the same.\<close>

definition asks :: "'b ui \<Rightarrow> 'b ui \<Rightarrow> bool" where
  "asks u v \<longleftrightarrow> g_lcd_need_redraw v \<or> (\<not> g_lcd_need_redraw u \<and> g_lcd_current_page_id v = g_lcd_current_page_id u
     \<and> (\<forall>lib env vio. lcd_draw_page lib env vio v = lcd_draw_page lib env vio u))"

lemma asks_refl [simp]: "asks u u"
  by (simp add: asks_def)

lemma asks_trans: "asks u v \<Longrightarrow> asks v w \<Longrightarrow> asks u w"
  by (auto simp: asks_def)

lemma asks_redraw [simp]: "g_lcd_need_redraw v \<Longrightarrow> asks u v"
  by (simp add: asks_def)

lemma asks_unread [simp]:
  "asks u (u\<lparr>ui_storage := st\<rparr>)" "asks u (u\<lparr>ui_config_cache := cc\<rparr>)"
  "asks u (u\<lparr>g_lcd_vehicle_status_last_bits := bits\<rparr>)" "asks u (u\<lparr>g_lcd_vehicle_status_check_tick := tk\<rparr>)"
  "asks u (u\<lparr>g_lcd_vehicle_status_check_tick := tk, g_lcd_vehicle_status_last_bits := bits\<rparr>)"
  by (auto simp: asks_def)

section \<open>The serial link\<close>

text \<open>The display is in menu mode exactly off the home page, and the current page is one of those above or has asked.\<close>

definition follows :: "'b ui \<Rightarrow> 'b ui \<Rightarrow> bool" where
  "follows u0 u \<longleftrightarrow> (g_lcd_menu_mode u \<longleftrightarrow> g_lcd_current_page_id u \<noteq> LCD_PAGE_HOME)
     \<and> (g_lcd_current_page_id u \<in> stale_pages \<or> asks u0 u)"

lemma follows_home:
  assumes "follows u0 u" "h \<noteq> g_lcd_home_ui u \<Longrightarrow> g_lcd_current_page_id u = LCD_PAGE_HOME \<Longrightarrow> b"
  shows "follows u0 (let v = u\<lparr>g_lcd_home_ui := h\<rparr> in if b then v\<lparr>g_lcd_need_redraw := True\<rparr> else v)"
proof -
  have "asks u (u\<lparr>g_lcd_home_ui := h\<rparr>)" if "\<not> b" "g_lcd_current_page_id u \<notin> stale_pages"
  proof (cases "g_lcd_current_page_id u = LCD_PAGE_HOME")
    case True
    then have "u\<lparr>g_lcd_home_ui := h\<rparr> = u" using assms(2) that(1) by (cases u) auto
    then show ?thesis by simp
  next
    case False
    then show ?thesis using that(2) by (simp add: asks_def draw_other_data(1))
  qed
  then show ?thesis using assms(1) by (auto simp: follows_def Let_def intro: asks_trans)
qed

lemma follows_text:
  assumes "follows u0 u" "g_lcd_current_page_id u = LCD_PAGE_DRIVE_RECORD_INFO_CENTER_TEXT_NORMAL \<Longrightarrow> b"
  shows "follows u0 (let v = u\<lparr>g_lcd_text_msg := m\<rparr> in if b then v\<lparr>g_lcd_need_redraw := True\<rparr> else v)"
proof -
  have "asks u (u\<lparr>g_lcd_text_msg := m\<rparr>)" if "\<not> b"
  proof -
    have "g_lcd_current_page_id u \<noteq> LCD_PAGE_DRIVE_RECORD_INFO_CENTER_TEXT_NORMAL" using that assms(2) by blast
    then show ?thesis by (simp add: asks_def draw_other_data(2))
  qed
  then show ?thesis using assms(1) by (auto simp: follows_def Let_def intro: asks_trans)
qed

lemma follows_mileage:
  assumes "follows u0 u" "g_lcd_current_page_id u = LCD_PAGE_DRIVE_RECORD_MILEAGE \<Longrightarrow> b"
  shows "follows u0 (let v = u\<lparr>g_lcd_total_mileage_km := km, g_lcd_total_mileage_rem_m := rm\<rparr>
    in if b then v\<lparr>g_lcd_need_redraw := True\<rparr> else v)"
proof -
  have "asks u (u\<lparr>g_lcd_total_mileage_km := km, g_lcd_total_mileage_rem_m := rm\<rparr>)" if "\<not> b"
  proof -
    have "g_lcd_current_page_id u \<noteq> LCD_PAGE_DRIVE_RECORD_MILEAGE" using that assms(2) by blast
    then show ?thesis by (simp add: asks_def draw_other_data(3))
  qed
  then show ?thesis using assms(1) by (auto simp: follows_def Let_def intro: asks_trans)
qed

lemma follows_set_data:
  assumes "follows u0 u"
  shows "follows u0 (snd (lcd_home_ui_set_data sp ho mi se dh dm ds cid u))"
proof -
  let ?h = "g_lcd_home_ui u"
  let ?k = "?h\<lparr>home_speed_kmh_x10 := sp, home_hour := ho, home_minute := mi, home_second := se,
    home_drive_hour := dh, home_drive_minute := dm, home_drive_second := ds\<rparr>"
  have m: "g_lcd_menu_mode u \<longleftrightarrow> g_lcd_current_page_id u \<noteq> LCD_PAGE_HOME" using assms by (simp add: follows_def)
  have k: "?k = ?h" if "home_speed_kmh_x10 ?h = sp" "home_hour ?h = ho" "home_minute ?h = mi" "home_second ?h = se"
    "home_drive_hour ?h = dh" "home_drive_minute ?h = dm" "home_drive_second ?h = ds"
    using that by (cases ?h) simp
  define c where "c \<longleftrightarrow> home_speed_kmh_x10 ?h \<noteq> sp \<or> home_hour ?h \<noteq> ho \<or> home_minute ?h \<noteq> mi \<or> home_second ?h \<noteq> se
    \<or> home_drive_hour ?h \<noteq> dh \<or> home_drive_minute ?h \<noteq> dm \<or> home_drive_second ?h \<noteq> ds"
  have 1: "follows u0 (let v = u\<lparr>g_lcd_home_ui := ?k\<rparr> in if c \<and> \<not> g_lcd_menu_mode u then v\<lparr>g_lcd_need_redraw := True\<rparr> else v)"
    using k m by (intro follows_home [OF assms]) (auto simp: c_def)
  have 2: "follows u0 (let v = u\<lparr>g_lcd_home_ui := k\<rparr> in if \<not> g_lcd_menu_mode u then v\<lparr>g_lcd_need_redraw := True\<rparr> else v)" for k
    using m by (intro follows_home [OF assms]) auto
  show ?thesis
    using 1 2 unfolding lcd_home_ui_set_data_def c_def [symmetric] Let_def by (auto split: option.split)
qed

interpretation link_follows: ui_updated "follows u0" for u0 :: "'b ui"
proof
  fix u :: "'b ui"
  assume u: "follows u0 u"
  then have m: "g_lcd_menu_mode u \<longleftrightarrow> g_lcd_current_page_id u \<noteq> LCD_PAGE_HOME" by (simp add: follows_def)
  note set_data = follows_set_data [OF u]
  show "follows u0 (svc_lcd_update_home_time ho mi se u)" for ho mi se by (simp add: svc_lcd_update_home_time_def Let_def set_data)
  show "follows u0 (svc_lcd_update_home_speed sp u)" for sp by (simp add: svc_lcd_update_home_speed_def Let_def set_data)
  show "follows u0 (svc_lcd_update_drive_time dh dm ds u)" for dh dm ds by (simp add: svc_lcd_update_drive_time_def Let_def set_data)
  show "follows u0 (svc_lcd_update_card_id cid u)" for cid by (simp add: svc_lcd_update_card_id_def Let_def set_data u split: option.split)
  show "follows u0 (svc_lcd_update_top_status v u)" for v
    using follows_home [OF u, of "(g_lcd_home_ui u)\<lparr>home_top_status_value := v\<rparr>" "\<not> g_lcd_menu_mode u"] m u
    by (simp add: svc_lcd_update_top_status_def Let_def)
  show "follows u0 (svc_lcd_update_home_location la lo lad lod ts u)" for la lo lad lod ts
  proof -
    define h where "h = g_lcd_home_ui u"
    let ?k = "h\<lparr>home_latitude := la, home_longitude := lo, home_latitude_direction := lad, home_longitude_direction := lod, home_timestamp := ts\<rparr>"
    define c where "c \<longleftrightarrow> home_latitude h \<noteq> la \<or> home_longitude h \<noteq> lo \<or> home_latitude_direction h \<noteq> lad
      \<or> home_longitude_direction h \<noteq> lod \<or> home_timestamp h \<noteq> ts"
    have "?k = h" if "\<not> c" using that by (cases h) (simp add: c_def)
    then have "follows u0 (let v = u\<lparr>g_lcd_home_ui := ?k\<rparr>
        in if c \<and> g_lcd_current_page_id u = LCD_PAGE_HOME then v\<lparr>g_lcd_need_redraw := True\<rparr> else v)"
      by (intro follows_home [OF u]) (auto simp: h_def)
    then show ?thesis
      unfolding svc_lcd_update_home_location_def h_def [symmetric] Let_def c_def [symmetric] by simp
  qed
  show "follows u0 (svc_lcd_update_text_message fl ty tx n u)" for fl ty tx n
    using follows_text [OF u, of "g_lcd_current_page_id u = LCD_PAGE_DRIVE_RECORD_INFO_CENTER_TEXT_NORMAL"] u
    by (simp add: svc_lcd_update_text_message_def Let_def split: option.split)
  show "follows u0 (svc_lcd_update_total_mileage km rm u)" for km rm
    using follows_mileage [OF u, of "g_lcd_current_page_id u = LCD_PAGE_DRIVE_RECORD_MILEAGE"] u
    by (simp add: svc_lcd_update_total_mileage_def Let_def)
qed

section \<open>The display thread\<close>

named_theorems asks_rules \<open>operations that ask for a redraw when they change what is shown\<close>

lemma asks_enter [asks_rules]:
  "asks u (lcd_page_enter env now p u)" "asks u (lcd_page_enter_common_ok env now p u)"
  by (simp_all add: lcd_page_enter_def lcd_page_enter_common_ok_def Let_def)

lemma common_ok_redraws: "g_lcd_need_redraw (lcd_page_enter_common_ok env now p u)"
  by (simp add: lcd_page_enter_common_ok_def lcd_page_enter_def Let_def)

lemma asks_save [asks_rules]: "asks u (save_done ops now page f res u)"
  by (simp add: save_done_def Let_def common_ok_redraws split: prod.split)

lemma asks_saves [asks_rules]:
  "asks u (lcd_vin_save_and_ok ops now u)" "asks u (lcd_province_id_save_and_ok ops now u)"
  "asks u (lcd_city_id_save_and_ok ops now u)" "asks u (lcd_plate_save_and_ok ops now u)" "asks u (phone_save ops now u)"
  "asks u (lcd_page_confirm_vehicle_plate_class ops now u)" "asks u (lcd_page_confirm_vehicle_plate_color ops now u)"
  "asks u (lcd_page_confirm_load_status ops now u)" "asks u (lcd_page_confirm_key_volume ops now u)"
  "asks u (lcd_page_confirm_backlight_time ops now u)" "asks u (lcd_page_confirm_brightness_level ops now u)"
  unfolding save_defs lcd_page_confirm_load_status_def lcd_page_confirm_key_volume_def
    lcd_page_confirm_backlight_time_def lcd_page_confirm_brightness_level_def
  by (rule asks_rules)+

lemma asks_on_confirm: "on_confirm (g_lcd_pages_table ops now p) = Some f \<Longrightarrow> asks u (f u)"
  by (cases p) (auto simp: page_shapes asks_rules)

lemma asks_keys [asks_rules]:
  "asks u (lcd_page_handle_back env now u)" "asks u (lcd_page_handle_nav env d u)"
  "asks u (lcd_page_handle_auto_return env now now' u)" "asks u (lcd_page_handle_dynamic_refresh vio now u)"
  by (simp_all add: lcd_page_handle_back_def lcd_page_handle_nav_def lcd_page_handle_auto_return_def
      lcd_page_handle_dynamic_refresh_def Let_def asks_rules split: option.split)

lemma asks_confirm [asks_rules]: "asks u (lcd_page_handle_confirm (ui_env ops now) now' u)"
proof -
  have "asks u (f u)" if "lcd_get_page_node (ui_env ops now) p = Some page" "on_confirm page = Some f" for p page f
    using asks_on_confirm [of ops now p f u] that by (cases "p = LCD_PAGE_MAX") auto
  then show ?thesis
    by (auto simp: lcd_page_handle_confirm_def Let_def asks_rules simp del: page_node split: option.split)
qed

lemma asks_then: "asks u v \<Longrightarrow> asks v (f v) \<Longrightarrow> asks u (if b then f v else v)"
  by (auto intro: asks_trans)

lemma asks_generic: "asks u (snd (generic_keys ops now a u))"
  unfolding generic_keys_def Let_def case_prod_unfold snd_conv by (intro asks_then asks_rules asks_refl)

text \<open>The editors: without a key, and when the value is to be saved, the editor is as it was.\<close>

lemma char_edit_same:
  "fst (char_edit_keys n cnt a e) = None \<or> fst (char_edit_keys n cnt a e) = Some EditSave \<Longrightarrow> snd (snd (char_edit_keys n cnt a e)) = e"
  by (auto simp: char_edit_keys_def ce_key_s4_def Let_def split: prod.splits if_splits)

lemma asks_done:
  assumes "r = None \<or> r = Some EditSave \<Longrightarrow> v = u" "asks v (save v)"
  shows "asks u (snd (snd (edit_done ops now save r a v)))"
  using assms by (auto simp: edit_done_def lcd_page_enter_def Let_def split: option.split edit_request.split)

lemma asks_handlers:
  "h \<in> set (page_handlers ops now) \<Longrightarrow> asks u (snd (snd (h a u)))"
proof -
  have "asks u (snd (snd (lcd_handle_vin_set_keys ops now a u)))" "asks u (snd (snd (lcd_handle_province_id_set_keys ops now a u)))"
    "asks u (snd (snd (lcd_handle_city_id_set_keys ops now a u)))"
    unfolding lcd_handle_vin_set_keys_def lcd_handle_province_id_set_keys_def lcd_handle_city_id_set_keys_def
    by (auto simp: case_prod_unfold Let_def char_edit_same intro!: asks_done asks_rules)
  moreover have "asks u (snd (snd (lcd_handle_plate_set_keys ops now a u)))"
    unfolding lcd_handle_plate_set_keys_def by (auto simp: case_prod_unfold Let_def intro!: asks_done asks_rules)
  moreover have "asks u (snd (snd (lcd_handle_local_phone_keys ops now a u)))"
    unfolding lcd_handle_local_phone_keys_def phone_edited_def phone_key_s4_def by (auto simp: case_prod_unfold Let_def)
  moreover have "asks u (snd (snd (lcd_handle_text_normal_keys ops now a u)))"
    unfolding lcd_handle_text_normal_keys_def by (auto simp: case_prod_unfold Let_def intro: asks_rules)
  ultimately show "h \<in> set (page_handlers ops now) \<Longrightarrow> asks u (snd (snd (h a u)))" by (auto simp: page_handlers_def)
qed

lemma asks_try: "(\<And>h a u. h \<in> set hs \<Longrightarrow> asks u (snd (snd (h a u)))) \<Longrightarrow> asks u (snd (snd (try_handlers hs a u)))"
proof (induction hs arbitrary: a u)
  case (Cons h hs)
  have "asks u (snd (snd (h a u)))" using Cons.prems by simp
  moreover have "asks (snd (snd (h a u))) (snd (snd (try_handlers hs (fst (snd (h a u))) (snd (snd (h a u))))))"
    using Cons.IH Cons.prems by simp
  ultimately show ?case by (auto simp: case_prod_unfold Let_def intro: asks_trans)
qed simp

section \<open>A pass\<close>

text \<open>
  A pass of the display thread in two parts: the keys, and the end with the drawing. On the home page
  S1 leaves the pass at once. \<open>drawn_state\<close> is the state a pass draws, if it draws.
\<close>

definition pass_keys :: "'b i2c_ops \<Rightarrow> ui_ticks \<Rightarrow> adc_state \<Rightarrow> 'b ui \<Rightarrow> adc_state \<times> 'b ui option" where
  "pass_keys ops t a u =
     (let page = (\<lambda>a. let (r, a, v) = try_handlers (page_handlers ops (at_key t)) a u;
                         (a, v) = (if r then (a, v) else generic_keys ops (at_key t) a v)
                     in (a, Some v))
      in if g_lcd_current_page_id u = LCD_PAGE_HOME
         then
           let (s1, a) = svc_adc_consume_s1_event a in
           if s1 then (a, None)
           else let (s2, a) = svc_adc_consume_s2_event a;
                    (s23, a) = (if s2 then (True, a) else svc_adc_consume_s3_event a) in
           if s23
           then (a, Some (u\<lparr>g_lcd_home_subpage := if g_lcd_home_subpage u = 0 then 1 else 0, g_lcd_need_redraw := True\<rparr>))
           else let (s4, a) = svc_adc_consume_s4_event a in
           if s4 then (a, Some (lcd_page_enter (hook_env ops) (at_key t) LCD_PAGE_MAIN_MENU u))
           else page a
         else page a)"

definition before_draw :: "'b i2c_ops \<Rightarrow> vehicle_io \<Rightarrow> ui_ticks \<Rightarrow> 'b ui \<Rightarrow> 'b ui" where
  "before_draw ops vio t u =
     lcd_page_handle_dynamic_refresh vio (at_refresh t)
       (lcd_page_handle_auto_return (ui_env ops (at_key t)) (at_return t) (at_return_enter t) u)"

definition drawn_state :: "'b i2c_ops \<Rightarrow> vehicle_io \<Rightarrow> ui_ticks \<Rightarrow> adc_state \<Rightarrow> 'b ui \<Rightarrow> 'b ui option" where
  "drawn_state ops vio t a u =
     (case snd (pass_keys ops t a u) of
        None \<Rightarrow> None
      | Some v \<Rightarrow> let v = before_draw ops vio t v in if g_lcd_need_redraw v then Some v else None)"

lemma pass_split:
  "svc_lcd_thread_pass ops vio t (a, u) =
     (case pass_keys ops t a u of (a, None) \<Rightarrow> (a, u) | (a, Some v) \<Rightarrow> (a, lcd_pass_end ops vio t v))"
  by (simp add: svc_lcd_thread_pass_def pass_keys_def page_pass_def Let_def case_prod_unfold)

lemma asks_pass_keys: "snd (pass_keys ops t a u) = Some v \<Longrightarrow> asks u v"
proof -
  let ?h = "\<lambda>b. try_handlers (page_handlers ops (at_key t)) b u"
  have t: "asks u (snd (snd (?h b)))" for b by (rule asks_try) (rule asks_handlers)
  then have "asks u (snd (generic_keys ops (at_key t) b (snd (snd (?h c)))))" for b c by (rule asks_trans) (rule asks_generic)
  then show "snd (pass_keys ops t a u) = Some v \<Longrightarrow> asks u v"
    using t by (auto simp: pass_keys_def Let_def case_prod_unfold asks_rules split: if_splits)
qed

lemma asks_before_draw: "asks u (before_draw ops vio t u)"
  unfolding before_draw_def by (intro asks_trans [OF asks_keys(3) asks_keys(4)])

text \<open>After a pass the state that was drawn still looks the same; a pass that draws nothing has changed nothing.\<close>

lemma pass_drawn:
  assumes "drawn_state ops vio t a u = Some v" "snd (svc_lcd_thread_pass ops vio t (a, u)) = u'"
  shows "g_lcd_current_page_id u' = g_lcd_current_page_id v" "lcd_draw_page lib env vio' u' = lcd_draw_page lib env vio' v"
proof -
  have "u' = (lcd_render_current_page v)\<lparr>g_lcd_need_redraw := False\<rparr>"
    using assms unfolding drawn_state_def pass_split
    by (auto simp: Let_def before_draw_def lcd_pass_end_def split: option.splits prod.splits if_splits)
  then show "g_lcd_current_page_id u' = g_lcd_current_page_id v" "lcd_draw_page lib env vio' u' = lcd_draw_page lib env vio' v"
    by (simp_all add: lcd_render_current_page_def lcd_render_info_center_text_normal_ui_def Let_def flip: draw_rendered [of lib env vio' v])
qed

lemma pass_not_drawn:
  assumes "drawn_state ops vio t a u = None" "snd (svc_lcd_thread_pass ops vio t (a, u)) = u'"
  shows "asks u u'"
proof (cases "snd (pass_keys ops t a u)")
  case None
  then show ?thesis using assms(2) by (auto simp: pass_split split: prod.splits)
next
  case (Some v)
  then have "u' = before_draw ops vio t v"
    using assms unfolding drawn_state_def pass_split
    by (auto simp: Let_def before_draw_def lcd_pass_end_def split: option.splits prod.splits if_splits)
  then show ?thesis using asks_trans [OF asks_pass_keys [OF Some] asks_before_draw] by simp
qed

section \<open>What the panel shows\<close>

text \<open>
  The calls that draw a page, on an empty canvas. The page table does not depend on the time in what
  drawing uses of it. \<open>dvr_shown d s\<close>: the firmware can reach \<open>d\<close> while the panel shows what the calls
  \<open>s\<close> have drawn, the last drawing of the display thread.
\<close>

definition page_calls :: "u8g2_lib \<Rightarrow> 'b i2c_ops \<Rightarrow> vehicle_io \<Rightarrow> 'b ui \<Rightarrow> draw_call list" where
  "page_calls lib ops vio u = cv_calls (snd (run_state (lcd_draw_page lib (ui_env ops 0) vio u) canvas_blank))"

inductive dvr_shown :: "u8g2_lib \<Rightarrow> 'b i2c_ops \<Rightarrow> 'b dvr \<Rightarrow> draw_call list \<Rightarrow> bool" for lib ops where
  shown_boot: "dvr_shown lib ops (app_main ops e (dvr_static st pw)) []"
| shown_background: "dvr_shown lib ops d s \<Longrightarrow> dvr_background ops d d' \<Longrightarrow> dvr_shown lib ops d' s"
| shown_pass: "dvr_shown lib ops d s \<Longrightarrow> d_lcd_running d \<Longrightarrow>
    dvr_shown lib ops (lcd_thread_step ops t d)
      (case drawn_state ops (d_vio d) t (d_adc d) (link_ui (d_link d)) of
         None \<Rightarrow> s
       | Some v \<Rightarrow> page_calls lib ops (d_vio d) v)"

lemma shown_reach: "dvr_shown lib ops d s \<Longrightarrow> dvr_reach ops d"
  by (induction rule: dvr_shown.induct) (auto intro: dvr_reach.intros dvr_step.intros)

definition fresh :: "u8g2_lib \<Rightarrow> 'b i2c_ops \<Rightarrow> vehicle_io \<Rightarrow> 'b ui \<Rightarrow> draw_call list \<Rightarrow> bool" where
  "fresh lib ops vio u s \<longleftrightarrow>
     g_lcd_current_page_id u \<in> stale_pages \<or> g_lcd_need_redraw u \<or> s = page_calls lib ops vio u"

lemma fresh_asks:
  assumes "fresh lib ops vio u s" "g_lcd_current_page_id v \<in> stale_pages \<or> asks u v"
  shows "fresh lib ops vio' v s"
proof (cases "g_lcd_current_page_id v \<in> stale_pages \<or> g_lcd_need_redraw v")
  case False
  then have "\<not> g_lcd_need_redraw u" "g_lcd_current_page_id v = g_lcd_current_page_id u"
    "lcd_draw_page lib (ui_env ops 0) vio' v = lcd_draw_page lib (ui_env ops 0) vio' u"
    using assms(2) by (auto simp: asks_def)
  moreover from this have "lcd_draw_page lib (ui_env ops 0) vio' u = lcd_draw_page lib (ui_env ops 0) vio u"
    using False draw_other_data(4) [of u lib "ui_env ops 0" vio' vio] by simp
  ultimately show ?thesis using False assms(1) by (simp add: fresh_def page_calls_def)
qed (auto simp: fresh_def)

interpretation redraw_started: ui_started g_lcd_need_redraw
  by unfold_locales
    (auto simp: svc_lcd_update_home_time_def svc_lcd_update_top_status_def svc_lcd_update_home_speed_def
      svc_lcd_update_drive_time_def svc_lcd_update_card_id_def svc_lcd_update_home_location_def lcd_home_ui_set_data_def
      svc_lcd_update_text_message_def svc_lcd_update_total_mileage_def Let_def svc_lcd_init_def lcd_ui_data_reset_def
      ui_static_def lcd.defs lcd_static_def split: option.split)

lemma background_follows:
  assumes "dvr_background ops d d'" "follows (u_lcd (d_link d)) (u_lcd (d_link d))"
  shows "g_lcd_current_page_id (u_lcd (d_link d')) \<in> stale_pages \<or> asks (u_lcd (d_link d)) (u_lcd (d_link d'))"
proof -
  have f: "follows (u_lcd (d_link d)) v \<Longrightarrow> g_lcd_current_page_id v \<in> stale_pages \<or> asks (u_lcd (d_link d)) v" for v
    by (simp add: follows_def)
  show ?thesis
    using assms(1)
  proof cases
    case (uart_irq rd n q q' w)
    then show ?thesis using f [OF link_follows.rx_kept [OF assms(2)]] by simp
  next
    case (uart_pass w)
    then show ?thesis using f [OF link_follows.link_threads_kept(1) [OF assms(2)]] by simp
  next
    case (version_tx r w)
    then show ?thesis using f [OF link_follows.link_threads_kept(2) [OF assms(2)]] by simp
  qed (simp_all add: led_defs svc_lcd_thread_start_def redraw_started.main_kept)
qed

lemma shown_fresh: "dvr_shown lib ops d s \<Longrightarrow> fresh lib ops (d_vio d) (u_lcd (d_link d)) s"
proof (induction rule: dvr_shown.induct)
  case (shown_boot e st pw)
  show ?case by (simp add: fresh_def redraw_started.main_kept)
next
  case (shown_background d s d')
  have "ui_nav_ok (u_lcd (d_link d))" by (rule nav_shared.reach_kept [OF shown_reach [OF shown_background.hyps(1)]])
  then have "follows (u_lcd (d_link d)) (u_lcd (d_link d))" by (simp add: follows_def ui_nav_ok_def nav_ok_def)
  then show ?case using fresh_asks [OF shown_background.IH background_follows [OF shown_background.hyps(2)]] by blast
next
  case (shown_pass d s t)
  let ?u = "link_ui (d_link d)" let ?d = "lcd_thread_step ops t d"
  have l: "snd (svc_lcd_thread_pass ops (d_vio d) t (d_adc d, ?u)) = u_lcd (d_link ?d)" "d_vio ?d = d_vio d"
    by (simp_all add: lcd_thread_step_def set_link_ui_def case_prod_unfold Let_def)
  show ?case
  proof (cases "drawn_state ops (d_vio d) t (d_adc d) ?u")
    case None
    have "asks (u_lcd (d_link d)) ?u" unfolding link_ui_def by (rule asks_trans [OF asks_unread(1) asks_unread(2)])
    from fresh_asks [OF shown_pass.IH] asks_trans [OF this pass_not_drawn [OF None l(1)]]
    show ?thesis using None l(2) by simp
  next
    case (Some v)
    then show ?thesis using pass_drawn [OF Some l(1)] l(2) by (simp add: fresh_def page_calls_def)
  qed
qed

text \<open>
  The location page shows the speed but does not follow it: an update of the speed while that page is
  shown changes what it would draw, and asks for no redraw. (The driver page and the card number are
  another case.)
\<close>

lemma says_location:
  "says [(28, 16, [0x3A]), (36, 16, dec_pad 2 (unat (home_top_status_value (g_lcd_home_ui u)))), (72, 16, cstr (speed_text u))]
    (lcd_render_location_status_ui lib u)"
proof -
  have "length (dec_pad 2 (unat (home_top_status_value (g_lcd_home_ui u)))) \<le> 3"
    using unat_lt_u8 [of "home_top_status_value (g_lcd_home_ui u)"] by (intro pad_length) simp_all
  then have s: "cstr (rt_snprintf 8 (dec_pad 2 (unat (home_top_status_value (g_lcd_home_ui u)))))
      = dec_pad 2 (unat (home_top_status_value (g_lcd_home_ui u)))"
    by (intro printed) (auto simp: dec_facts)
  have c: "cstr (lit '':'') = [0x3A]" by code_simp
  have i: "says [] (if b then lcd_u8g2_draw_unicode_seq lib x y codes n else lcd_u8g2_draw_unicode_seq lib x' y' codes' n')"
    for b x y codes n x' y' codes' n' by (simp add: says_seq)
  show ?thesis
    unfolding lcd_render_location_status_ui_def
    by (rule says_eq, (rule i says_rules | (simp; fail))+) (simp add: s c)
qed

lemma location_page_stale:
  assumes "g_lcd_current_page_id u = LCD_PAGE_DRIVE_RECORD_LOCATION" "g_lcd_menu_mode u" "\<not> g_lcd_need_redraw u"
    "home_speed_kmh_x10 (g_lcd_home_ui u) \<noteq> speed"
  shows "\<not> g_lcd_need_redraw (svc_lcd_update_home_speed speed u)"
    "page_calls lib ops vio (svc_lcd_update_home_speed speed u) \<noteq> page_calls lib ops vio u"
proof -
  let ?v = "svc_lcd_update_home_speed speed u"
  show "\<not> g_lcd_need_redraw ?v"
    using assms by (simp add: svc_lcd_update_home_speed_def lcd_home_ui_set_data_def Let_def)
  have p: "g_lcd_current_page_id ?v = LCD_PAGE_DRIVE_RECORD_LOCATION" using assms(1) by simp
  have f: "fields (page_calls lib ops vio w) = [(28, 16, [0x3A]),
      (36, 16, dec_pad 2 (unat (home_top_status_value (g_lcd_home_ui w)))), (72, 16, cstr (speed_text w))]"
    if "g_lcd_current_page_id w = LCD_PAGE_DRIVE_RECORD_LOCATION" for w
    using says_location [of w lib] that by (simp add: page_calls_def lcd_draw_page_def says_def canvas_blank_def fields_def)
  have "cstr (speed_text ?v) \<noteq> cstr (speed_text u)" using speed_inj [of ?v u] assms(4) by (auto simp: update_home)
  then show "page_calls lib ops vio ?v \<noteq> page_calls lib ops vio u" using f [OF p] f [OF assms(1)] by auto
qed

section \<open>The first pass\<close>

text \<open>After a start without failures the display thread starts, and a pass without a key draws the home page.\<close>

lemma can_starts: "fst (svc_can_task_start can_env_ok (snd (svc_can_init can_boot))) = RT_EOK"
  by code_simp

lemma framework_kept:
  "d_threads (snd (app_framework_init ops e d)) = d_threads d" "d_lcd_running (snd (app_framework_init ops e d)) = d_lcd_running d"
  "d_can (snd (app_framework_init ops e d)) = snd (svc_can_init (d_can d))" "d_adc (snd (app_framework_init ops e d)) = svc_adc_init"
  by (simp_all add: app_framework_init_def app_init_led_pins_def Let_def case_prod_unfold)

lemma tasks_kept:
  "d_lcd_running (snd (app_task_start ops e d)) = d_lcd_running d \<and> d_adc (snd (app_task_start ops e d)) = d_adc d"
  unfolding app_task_start_def task_start_defs
  by (rule start_all_kept [where P = "\<lambda>d'. d_lcd_running d' = d_lcd_running d \<and> d_adc d' = d_adc d"])
    (auto simp: thread_start_def can_tasks_def uart_tasks_def case_prod_unfold Let_def split: if_splits)

lemma booted_threads: "LCD_THREAD \<in> set (d_threads dvr_booted)" "\<not> d_lcd_running dvr_booted" "d_adc dvr_booted = svc_adc_init"
proof -
  let ?d = "snd (app_framework_init at24_ops boot_ok (dvr_static storage_blank power_zero))"
  have s: "d_threads ?d = []" "d_can ?d = snd (svc_can_init can_boot)" "\<not> d_lcd_running ?d" "d_adc ?d = svc_adc_init"
    by (simp_all add: framework_kept dvr_static_def)
  have b: "be_can boot_ok = can_env_ok" "be_thread_created boot_ok = (\<lambda>_. True)" by (simp_all add: boot_ok_def)
  show "LCD_THREAD \<in> set (d_threads dvr_booted)"
    using threads_started [OF s(1), of at24_ops boot_ok] can_starts
    by (simp add: dvr_booted_def app_main_def s(2) b task_order_def Let_def case_prod_unfold)
  show "\<not> d_lcd_running dvr_booted" "d_adc dvr_booted = svc_adc_init"
    using s by (simp_all add: dvr_booted_def app_main_def tasks_kept)
qed

definition first_ticks :: ui_ticks where
  "first_ticks = \<lparr>at_key = 6000, at_return = 6000, at_return_enter = 6000, at_refresh = 6000\<rparr>"

definition dvr_lcd_begun :: "at24 dvr" where
  "dvr_lcd_begun = dvr_booted\<lparr>d_link := (d_link dvr_booted)\<lparr>u_lcd := svc_lcd_thread_start (u_lcd (d_link dvr_booted))\<rparr>, d_lcd_running := True\<rparr>"

lemma begun: "dvr_background at24_ops dvr_booted dvr_lcd_begun" "d_lcd_running dvr_lcd_begun"
  unfolding dvr_lcd_begun_def by (rule lcd_begin) (simp_all add: booted_threads)

lemma first_pass:
  "g_lcd_current_page_id (u_lcd (d_link (lcd_thread_step at24_ops first_ticks dvr_lcd_begun))) = LCD_PAGE_HOME"
  "\<not> g_lcd_need_redraw (u_lcd (d_link (lcd_thread_step at24_ops first_ticks dvr_lcd_begun)))"
proof -
  have a: "d_adc dvr_lcd_begun = svc_adc_init" by (simp add: dvr_lcd_begun_def booted_threads)
  have e: "\<not> g_adc_s1_event svc_adc_init" "\<not> g_adc_s2_event svc_adc_init" "\<not> g_adc_s3_event svc_adc_init" "\<not> g_adc_s4_event svc_adc_init"
    by (simp_all add: svc_adc_init_def)
  have u: "g_lcd_current_page_id (link_ui (d_link dvr_lcd_begun)) = LCD_PAGE_HOME" "g_lcd_need_redraw (link_ui (d_link dvr_lcd_begun))"
    by (simp_all add: dvr_lcd_begun_def link_ui_def svc_lcd_thread_start_def lcd_ui_core_reset_def)
  show "g_lcd_current_page_id (u_lcd (d_link (lcd_thread_step at24_ops first_ticks dvr_lcd_begun))) = LCD_PAGE_HOME"
    "\<not> g_lcd_need_redraw (u_lcd (d_link (lcd_thread_step at24_ops first_ticks dvr_lcd_begun)))"
    using u e
    by (simp_all add: lcd_thread_step_def a set_link_ui_def case_prod_unfold Let_def svc_lcd_thread_pass_def page_pass_def page_handlers_def
       svc_adc_consume_s1_event_def svc_adc_consume_s2_event_def svc_adc_consume_s3_event_def svc_adc_consume_s4_event_def
       lcd_handle_text_normal_keys_def lcd_handle_vin_set_keys_def lcd_handle_province_id_set_keys_def lcd_handle_city_id_set_keys_def
       lcd_handle_plate_set_keys_def lcd_handle_local_phone_keys_def generic_keys_def lcd_pass_end_def lcd_page_handle_auto_return_def
       lcd_page_handle_dynamic_refresh_def lcd_render_current_page_def page_shapes)
qed

section \<open>Properties\<close>



end
