(* ===== verification/Rt_List.thy ===== *)
theory Rt_List
  imports Dvr_Prelude
begin

text \<open>
  The doubly linked lists of the kernel (\<open>src/rt-thread/include/rtservice.h\<close>), on a store of nodes: a
  node is a number, the store gives its \<open>next\<close> and \<open>prev\<close>. A list is the ring through its head. The
  theorems justify the receive boxes of \<open>Rt_Can\<close>, whose lists are lists of numbers: inserting before
  the head appends, removing deletes the node, and lists with other nodes are not touched.
\<close>

section \<open>Operations\<close>

record list_heap =
  nxt :: "nat \<Rightarrow> nat"
  prv :: "nat \<Rightarrow> nat"

definition rt_list_init :: "nat \<Rightarrow> list_heap \<Rightarrow> list_heap" where
  "rt_list_init l h = h\<lparr>nxt := (nxt h)(l := l), prv := (prv h)(l := l)\<rparr>"

definition rt_list_insert_after :: "nat \<Rightarrow> nat \<Rightarrow> list_heap \<Rightarrow> list_heap" where
  "rt_list_insert_after l n h =
     (let h = h\<lparr>prv := (prv h)(nxt h l := n)\<rparr>;
          h = h\<lparr>nxt := (nxt h)(n := nxt h l)\<rparr>;
          h = h\<lparr>nxt := (nxt h)(l := n)\<rparr>
      in h\<lparr>prv := (prv h)(n := l)\<rparr>)"

definition rt_list_insert_before :: "nat \<Rightarrow> nat \<Rightarrow> list_heap \<Rightarrow> list_heap" where
  "rt_list_insert_before l n h =
     (let h = h\<lparr>nxt := (nxt h)(prv h l := n)\<rparr>;
          h = h\<lparr>prv := (prv h)(n := prv h l)\<rparr>;
          h = h\<lparr>prv := (prv h)(l := n)\<rparr>
      in h\<lparr>nxt := (nxt h)(n := l)\<rparr>)"

definition rt_list_remove :: "nat \<Rightarrow> list_heap \<Rightarrow> list_heap" where
  "rt_list_remove n h =
     (let h = h\<lparr>prv := (prv h)(nxt h n := prv h n)\<rparr>;
          h = h\<lparr>nxt := (nxt h)(prv h n := nxt h n)\<rparr>
      in h\<lparr>nxt := (nxt h)(n := n), prv := (prv h)(n := n)\<rparr>)"

definition rt_list_isempty :: "nat \<Rightarrow> list_heap \<Rightarrow> bool" where
  "rt_list_isempty l h \<longleftrightarrow> nxt h l = l"

text \<open>The loop of \<open>rt_list_len\<close> ends only when the ring through the head comes back to it.\<close>

partial_function (option) list_len_from :: "nat \<Rightarrow> nat \<Rightarrow> list_heap \<Rightarrow> nat \<Rightarrow> nat option" where
  [code]: "list_len_from l p h len = (if nxt h p \<noteq> l then list_len_from l (nxt h p) h (len + 1) else Some len)"

definition rt_list_len :: "nat \<Rightarrow> list_heap \<Rightarrow> nat option" where
  "rt_list_len l h = list_len_from l l h 0"

section \<open>Rings\<close>

fun linked :: "list_heap \<Rightarrow> nat \<Rightarrow> nat list \<Rightarrow> nat \<Rightarrow> bool" where
  "linked h x [] z \<longleftrightarrow> nxt h x = z \<and> prv h z = x"
| "linked h x (y # ys) z \<longleftrightarrow> nxt h x = y \<and> prv h y = x \<and> linked h y ys z"

definition on_list :: "list_heap \<Rightarrow> nat \<Rightarrow> nat list \<Rightarrow> bool" where
  "on_list h l ys \<longleftrightarrow> distinct (l # ys) \<and> linked h l ys l"

lemma linked_append [simp]: "linked h x (ys @ y # zs) z \<longleftrightarrow> linked h x ys y \<and> linked h y zs z"
  by (induction ys arbitrary: x) auto

lemma linked_cong:
  "\<forall>v \<in> set (x # ys). nxt h' v = nxt h v \<Longrightarrow> \<forall>v \<in> set (ys @ [z]). prv h' v = prv h v \<Longrightarrow> linked h' x ys z = linked h x ys z"
  by (induction ys arbitrary: x) auto

lemma linked_last: "linked h x ys z \<Longrightarrow> prv h z = last (x # ys)"
  by (induction ys arbitrary: x) auto

lemma linked_first: "linked h x ys z \<Longrightarrow> nxt h x = hd (ys @ [z])"
  by (cases ys) auto

lemma on_list_frame:
  assumes "on_list h l ys" "\<forall>v \<in> set (l # ys). nxt h' v = nxt h v \<and> prv h' v = prv h v"
  shows "on_list h' l ys"
  using assms linked_cong [of l ys h' h l] by (auto simp: on_list_def)

section \<open>What the operations do to a ring\<close>

lemma init_list: "on_list (rt_list_init l h) l []"
  by (simp add: on_list_def rt_list_init_def)

lemma isempty_list: "on_list h l ys \<Longrightarrow> rt_list_isempty l h \<longleftrightarrow> ys = []"
  by (cases ys) (auto simp: on_list_def rt_list_isempty_def)

lemma first_list: "on_list h l (y # ys) \<Longrightarrow> nxt h l = y"
  by (simp add: on_list_def)

lemma len_from: "linked h p ys l \<Longrightarrow> l \<notin> set ys \<Longrightarrow> list_len_from l p h n = Some (n + length ys)"
proof (induction ys arbitrary: p n)
  case Nil
  then show ?case by (subst list_len_from.simps) simp
next
  case (Cons y ys)
  then show ?case by (subst list_len_from.simps) simp
qed

lemma len_list: "on_list h l ys \<Longrightarrow> rt_list_len l h = Some (length ys)"
  using len_from [of h l ys l 0] by (simp add: rt_list_len_def on_list_def)

lemma insert_before_list:
  assumes "on_list h l ys" "n \<notin> set (l # ys)"
  shows "on_list (rt_list_insert_before l n h) l (ys @ [n])"
proof -
  have p: "prv h l = last (l # ys)" using assms(1) linked_last by (auto simp: on_list_def)
  show ?thesis
  proof (cases ys rule: rev_cases)
    case Nil
    then show ?thesis using assms p by (simp add: on_list_def rt_list_insert_before_def Let_def)
  next
    case (snoc us q)
    have "linked (rt_list_insert_before l n h) l us q = linked h l us q"
      using assms snoc p by (intro linked_cong) (auto simp: on_list_def rt_list_insert_before_def Let_def)
    then show ?thesis using assms snoc p by (auto simp: on_list_def rt_list_insert_before_def Let_def)
  qed
qed

lemma insert_after_list:
  assumes "on_list h l ys" "n \<notin> set (l # ys)"
  shows "on_list (rt_list_insert_after l n h) l (n # ys)"
proof (cases ys)
  case Nil
  then show ?thesis using assms by (simp add: on_list_def rt_list_insert_after_def Let_def)
next
  case (Cons q us)
  have "linked (rt_list_insert_after l n h) q us l = linked h q us l"
    using assms Cons by (intro linked_cong) (auto simp: on_list_def rt_list_insert_after_def Let_def)
  then show ?thesis using assms Cons by (auto simp: on_list_def rt_list_insert_after_def Let_def)
qed

lemma remove_list:
  assumes "on_list h l (us @ n # vs)"
  shows "on_list (rt_list_remove n h) l (us @ vs)" "on_list (rt_list_remove n h) n []"
proof -
  let ?h = "rt_list_remove n h"
  have d: "distinct (l # us @ n # vs)" and k: "linked h l us n" "linked h n vs l" using assms by (auto simp: on_list_def)
  have p: "prv h n = last (l # us)" "nxt h n = hd (vs @ [l])" using linked_last [OF k(1)] linked_first [OF k(2)] by auto
  show "on_list ?h n []" by (simp add: on_list_def rt_list_remove_def Let_def)
  have "linked ?h l (us @ vs) l"
  proof (cases us rule: rev_cases)
    case Nil
    show ?thesis
    proof (cases vs)
      case Nil
      then show ?thesis using \<open>us = []\<close> d p by (simp add: rt_list_remove_def Let_def)
    next
      case (Cons v ws)
      have "linked ?h v ws l = linked h v ws l"
        using d p \<open>us = []\<close> Cons by (intro linked_cong) (auto simp: rt_list_remove_def Let_def)
      then show ?thesis using \<open>us = []\<close> Cons d p k by (auto simp: rt_list_remove_def Let_def)
    qed
  next
    case (snoc ts t)
    have t: "linked ?h l ts t = linked h l ts t"
      using d p snoc by (intro linked_cong) (auto simp: rt_list_remove_def Let_def hd_append split: list.splits)
    show ?thesis
    proof (cases vs)
      case Nil
      then show ?thesis using snoc d p k t by (auto simp: rt_list_remove_def Let_def)
    next
      case (Cons v ws)
      have "linked ?h v ws l = linked h v ws l"
        using d p snoc Cons by (intro linked_cong) (auto simp: rt_list_remove_def Let_def)
      then show ?thesis using snoc Cons d p k t by (auto simp: rt_list_remove_def Let_def)
    qed
  qed
  then show "on_list ?h l (us @ vs)" using d by (simp add: on_list_def)
qed

text \<open>The nodes an operation writes to.\<close>

lemma insert_before_other:
  "v \<noteq> l \<Longrightarrow> v \<noteq> n \<Longrightarrow> v \<noteq> prv h l \<Longrightarrow>
     nxt (rt_list_insert_before l n h) v = nxt h v \<and> prv (rt_list_insert_before l n h) v = prv h v"
  by (simp add: rt_list_insert_before_def Let_def)

lemma remove_other:
  "v \<noteq> n \<Longrightarrow> v \<noteq> prv h n \<Longrightarrow> v \<noteq> nxt h n \<Longrightarrow>
     nxt (rt_list_remove n h) v = nxt h v \<and> prv (rt_list_remove n h) v = prv h v"
  by (auto simp: rt_list_remove_def Let_def)

lemma ring_prv: "on_list h l ys \<Longrightarrow> prv h l \<in> set (l # ys)"
  using linked_last [of h l ys l] by (auto simp: on_list_def)

lemma ring_neighbours:
  assumes "on_list h l ys" "n \<in> set ys"
  shows "prv h n \<in> set (l # ys)" "nxt h n \<in> set (l # ys)"
proof -
  obtain us vs where "ys = us @ n # vs" using assms(2) by (meson split_list)
  then show "prv h n \<in> set (l # ys)" "nxt h n \<in> set (l # ys)"
    using assms(1) linked_last [of h l us n] linked_first [of h n vs l]
    by (auto simp: on_list_def hd_append split: if_splits)
qed

section \<open>Several lists in one store\<close>

text \<open>
  The users of the lists move nodes between them: a node is taken off its list and put at the end of
  another. \<open>lists_rep\<close> relates a store with the lists of the heads in \<open>hs\<close>, which share no node.
\<close>

definition lists_rep :: "nat list \<Rightarrow> (nat \<Rightarrow> nat list) \<Rightarrow> list_heap \<Rightarrow> bool" where
  "lists_rep hs a h \<longleftrightarrow> (\<forall>l \<in> set hs. on_list h l (a l))
     \<and> (\<forall>l \<in> set hs. \<forall>k \<in> set hs. l \<noteq> k \<longrightarrow> set (l # a l) \<inter> set (k # a k) = {})"

datatype list_move = Move nat nat nat

fun heap_move :: "list_move \<Rightarrow> list_heap \<Rightarrow> list_heap" where
  "heap_move (Move l n k) h = rt_list_insert_before k n (rt_list_remove n h)"

fun abs_move :: "list_move \<Rightarrow> (nat \<Rightarrow> nat list) \<Rightarrow> nat \<Rightarrow> nat list" where
  "abs_move (Move l n k) a = (let a = a(l := remove1 n (a l)) in a(k := a k @ [n]))"

fun move_ok :: "nat list \<Rightarrow> list_move \<Rightarrow> (nat \<Rightarrow> nat list) \<Rightarrow> bool" where
  "move_ok hs (Move l n k) a \<longleftrightarrow> l \<in> set hs \<and> k \<in> set hs \<and> n \<in> set (a l)"

fun moves_ok :: "nat list \<Rightarrow> list_move list \<Rightarrow> (nat \<Rightarrow> nat list) \<Rightarrow> bool" where
  "moves_ok hs [] a \<longleftrightarrow> True"
| "moves_ok hs (m # ms) a \<longleftrightarrow> move_ok hs m a \<and> moves_ok hs ms (abs_move m a)"

lemma lists_rep_upd:
  assumes rep: "lists_rep hs a h" and l: "l \<in> set hs" "on_list h' l ys"
    and o: "\<And>k. k \<in> set hs \<Longrightarrow> k \<noteq> l \<Longrightarrow> on_list h' k (a k) \<and> set ys \<inter> set (k # a k) = {}"
  shows "lists_rep hs (a(l := ys)) h'"
  unfolding lists_rep_def
proof (intro conjI ballI impI)
  fix k assume "k \<in> set hs"
  then show "on_list h' k ((a(l := ys)) k)" using l(2) o by (cases "k = l") simp_all
next
  fix j k assume jk: "j \<in> set hs" "k \<in> set hs" "j \<noteq> k"
  then have "set (j # a j) \<inter> set (k # a k) = {}" using rep by (simp add: lists_rep_def)
  then show "set (j # (a(l := ys)) j) \<inter> set (k # (a(l := ys)) k) = {}"
    using o [OF jk(1)] o [OF jk(2)] jk(3) by (cases "j = l"; cases "k = l") auto
qed

lemma remove_rep:
  assumes rep: "lists_rep hs a h" and l: "l \<in> set hs" "n \<in> set (a l)"
  shows "lists_rep hs (a(l := remove1 n (a l))) (rt_list_remove n h)"
    and "\<forall>k \<in> set hs. n \<notin> set (k # (a(l := remove1 n (a l))) k)"
proof -
  have on: "on_list h l (a l)" using rep l(1) by (simp add: lists_rep_def)
  obtain us vs where s: "a l = us @ n # vs" "n \<notin> set us" using l(2) by (meson split_list_first)
  then have r: "remove1 n (a l) = us @ vs" by (simp add: remove1_append)
  have d: "distinct (l # a l)" using on by (simp add: on_list_def)
  have dj: "set (l # a l) \<inter> set (k # a k) = {}" if "k \<in> set hs" "k \<noteq> l" for k
    using rep l(1) that unfolding lists_rep_def by fastforce
  have o: "on_list (rt_list_remove n h) k (a k)" if "k \<in> set hs" "k \<noteq> l" for k
  proof (rule on_list_frame)
    show "on_list h k (a k)" using rep that by (simp add: lists_rep_def)
    show "\<forall>v \<in> set (k # a k). nxt (rt_list_remove n h) v = nxt h v \<and> prv (rt_list_remove n h) v = prv h v"
      using ring_neighbours [OF on l(2)] l(2) dj [OF that] by (intro ballI remove_other) auto
  qed
  have "on_list (rt_list_remove n h) l (remove1 n (a l))" using remove_list(1) [of h l us n vs] on s r by simp
  moreover have "set (remove1 n (a l)) \<inter> set (k # a k) = {}" if "k \<in> set hs" "k \<noteq> l" for k
    using dj [OF that] set_remove1_subset [of n "a l"] by auto
  ultimately show "lists_rep hs (a(l := remove1 n (a l))) (rt_list_remove n h)"
    using o by (intro lists_rep_upd [OF rep l(1)]) simp_all
  show "\<forall>k \<in> set hs. n \<notin> set (k # (a(l := remove1 n (a l))) k)"
  proof
    fix k assume k: "k \<in> set hs"
    show "n \<notin> set (k # (a(l := remove1 n (a l))) k)"
      using dj [OF k] l(2) d s(1) r by (cases "k = l") auto
  qed
qed

lemma insert_rep:
  assumes rep: "lists_rep hs a h" and k: "k \<in> set hs" "\<forall>j \<in> set hs. n \<notin> set (j # a j)"
  shows "lists_rep hs (a(k := a k @ [n])) (rt_list_insert_before k n h)"
proof -
  have on: "on_list h k (a k)" using rep k(1) by (simp add: lists_rep_def)
  have dj: "set (k # a k) \<inter> set (j # a j) = {}" if "j \<in> set hs" "j \<noteq> k" for j
    using rep k(1) that unfolding lists_rep_def by fastforce
  have o: "on_list (rt_list_insert_before k n h) j (a j)" if "j \<in> set hs" "j \<noteq> k" for j
  proof (rule on_list_frame)
    show "on_list h j (a j)" using rep that by (simp add: lists_rep_def)
    show "\<forall>v \<in> set (j # a j). nxt (rt_list_insert_before k n h) v = nxt h v \<and> prv (rt_list_insert_before k n h) v = prv h v"
      using ring_prv [OF on] k(2) that(1) dj [OF that] by (intro ballI insert_before_other) auto
  qed
  have "on_list (rt_list_insert_before k n h) k (a k @ [n])" using insert_before_list [OF on] k by auto
  moreover have "set (a k @ [n]) \<inter> set (j # a j) = {}" if "j \<in> set hs" "j \<noteq> k" for j
    using dj [OF that] k(2) that(1) by auto
  ultimately show ?thesis using o by (intro lists_rep_upd [OF rep k(1)]) simp_all
qed

lemma move_rep:
  assumes "lists_rep hs a h" "move_ok hs m a"
  shows "lists_rep hs (abs_move m a) (heap_move m h)"
proof (cases m)
  case (Move l n k)
  then have l: "l \<in> set hs" "n \<in> set (a l)" "k \<in> set hs" using assms(2) by simp_all
  show ?thesis
    using insert_rep [OF remove_rep(1) [OF assms(1) l(1,2)] l(3) remove_rep(2) [OF assms(1) l(1,2)]]
    unfolding Move heap_move.simps abs_move.simps Let_def .
qed

text \<open>
  C34: the linked lists of the kernel are lists. From any store in which a set of heads have disjoint lists,
  after any sequence of moves of nodes from one list to the end of another, each head has exactly the list
  the moves give on the abstract side: \<open>rt_list_len\<close> ends and gives its length, \<open>rt_list_isempty\<close> tells
  whether it is empty, and the successor of the head is its first node.
\<close>

theorem rt_lists_are_lists:
  assumes "lists_rep hs a h" "moves_ok hs ms a"
  shows "let h' = fold heap_move ms h; a' = fold abs_move ms a
    in lists_rep hs a' h' \<and> list_all (\<lambda>l. rt_list_len l h' = Some (length (a' l))
        \<and> rt_list_isempty l h' = (a' l = []) \<and> (a' l = [] \<or> nxt h' l = hd (a' l))) hs"
proof -
  have "lists_rep hs (fold abs_move ms a) (fold heap_move ms h)"
    using assms
  proof (induction ms arbitrary: a h)
    case (Cons m ms)
    then show ?case using move_rep by simp
  qed simp
  moreover from this have "on_list (fold heap_move ms h) l (fold abs_move ms a l)" if "l \<in> set hs" for l
    using that by (simp add: lists_rep_def)
  moreover have "ys = [] \<or> nxt k l = hd ys" if "on_list k l ys" for k l ys
    using that first_list by (cases ys) auto
  ultimately show ?thesis
    unfolding Let_def list_all_iff using len_list isempty_list by blast
qed

definition two_lists :: list_heap where
  "two_lists = rt_list_insert_before 0 3 (rt_list_insert_before 0 2 (rt_list_init 1 (rt_list_init 0 \<lparr>nxt = id, prv = id\<rparr>)))"

theorem rt_lists_are_lists_witness:
  "lists_rep [0, 1] ((\<lambda>_. [])(0 := [2, 3])) two_lists \<and> moves_ok [0, 1] [Move 0 2 1, Move 0 3 1] ((\<lambda>_. [])(0 := [2, 3]))
   \<and> rt_list_len 1 (fold heap_move [Move 0 2 1, Move 0 3 1] two_lists) = Some 2"
proof -
  have r: "lists_rep [0, 1] ((\<lambda>_. [])(0 := [2, 3])) two_lists"
    by (simp add: lists_rep_def on_list_def two_lists_def rt_list_insert_before_def rt_list_init_def Let_def)
  have m: "moves_ok [0, 1] [Move 0 2 1, Move 0 3 1] ((\<lambda>_. [])(0 := [2, 3]))" by simp
  show ?thesis using rt_lists_are_lists [OF r m] r m by (simp add: Let_def del: heap_move.simps)
qed

end
