(* ===== verification/Rt_Ringbuffer.thy ===== *)
theory Rt_Ringbuffer
  imports Dvr_Prelude
begin

text \<open>
  The kernel's ring buffer (\<open>src/rt-thread/components/drivers/ipc/ringbuffer.c\<close>), which the serial
  driver puts between the interrupt and the application. Read and write index each have a mirror
  bit; equal indices mean empty in the same mirror and full in different ones.

  The memory behind \<open>buffer_ptr\<close> is a function from offset to byte. The indices are 31-bit fields;
  the invariant \<open>rb_ok\<close> keeps them below the size, which is a positive 32-bit integer. A pointer
  into the buffer that a function returns is its offset. Every operation is compared with a bounded
  queue.
\<close>

section \<open>Data\<close>

record rt_ringbuffer =
  buffer_ptr :: "nat \<Rightarrow> u8"
  read_mirror :: bool
  read_index :: nat
  write_mirror :: bool
  write_index :: nat
  buffer_size :: nat

datatype rt_ringbuffer_state = RT_RINGBUFFER_EMPTY | RT_RINGBUFFER_FULL | RT_RINGBUFFER_HALFFULL

definition RT_ALIGN_SIZE :: nat where [dvr_const]: "RT_ALIGN_SIZE = 8"

section \<open>Operations\<close>

definition rt_ringbuffer_status :: "rt_ringbuffer \<Rightarrow> rt_ringbuffer_state" where
  "rt_ringbuffer_status rb =
     (if read_index rb = write_index rb
      then if read_mirror rb = write_mirror rb then RT_RINGBUFFER_EMPTY else RT_RINGBUFFER_FULL
      else RT_RINGBUFFER_HALFFULL)"

definition rt_ringbuffer_data_len :: "rt_ringbuffer \<Rightarrow> nat" where
  "rt_ringbuffer_data_len rb =
     (case rt_ringbuffer_status rb of
        RT_RINGBUFFER_EMPTY \<Rightarrow> 0
      | RT_RINGBUFFER_FULL \<Rightarrow> buffer_size rb
      | RT_RINGBUFFER_HALFFULL \<Rightarrow>
          let wi = write_index rb; ri = read_index rb
          in if ri < wi then wi - ri else buffer_size rb - (ri - wi))"

definition rt_ringbuffer_space_len :: "rt_ringbuffer \<Rightarrow> nat" where
  "rt_ringbuffer_space_len rb = buffer_size rb - rt_ringbuffer_data_len rb"

definition rt_ringbuffer_get_size :: "rt_ringbuffer \<Rightarrow> nat" where
  "rt_ringbuffer_get_size rb = buffer_size rb"

definition rt_ringbuffer_init :: "(nat \<Rightarrow> u8) \<Rightarrow> nat \<Rightarrow> rt_ringbuffer" where
  "rt_ringbuffer_init pool size_n =
     \<lparr>buffer_ptr = pool, read_mirror = False, read_index = 0, write_mirror = False, write_index = 0,
      buffer_size = size_n div RT_ALIGN_SIZE * RT_ALIGN_SIZE\<rparr>"

definition rt_ringbuffer_reset :: "rt_ringbuffer \<Rightarrow> rt_ringbuffer" where
  "rt_ringbuffer_reset rb =
     rb\<lparr>read_mirror := False, read_index := 0, write_mirror := False, write_index := 0\<rparr>"

text \<open>The two ways of copying into the buffer, shared by the block functions.\<close>

definition put_block :: "bytes \<Rightarrow> rt_ringbuffer \<Rightarrow> rt_ringbuffer" where
  "put_block ptr rb =
     (if length ptr < buffer_size rb - write_index rb
      then rb\<lparr>buffer_ptr := upd_mem (write_index rb) ptr (buffer_ptr rb),
              write_index := write_index rb + length ptr\<rparr>
      else
        let n = buffer_size rb - write_index rb
        in rb\<lparr>buffer_ptr := upd_mem 0 (drop n ptr) (upd_mem (write_index rb) (take n ptr) (buffer_ptr rb)),
              write_mirror := \<not> write_mirror rb,
              write_index := length ptr - n\<rparr>)"

definition rt_ringbuffer_put :: "rt_ringbuffer \<Rightarrow> bytes \<Rightarrow> nat \<times> rt_ringbuffer" where
  "rt_ringbuffer_put rb ptr =
     (let size_n = rt_ringbuffer_space_len rb in
      if size_n = 0 then (0, rb)
      else
        let len = if size_n < length ptr then size_n else length ptr
        in (len, put_block (take len ptr) rb))"

definition rt_ringbuffer_put_force :: "rt_ringbuffer \<Rightarrow> bytes \<Rightarrow> nat \<times> rt_ringbuffer" where
  "rt_ringbuffer_put_force rb ptr =
     (let space_length = rt_ringbuffer_space_len rb;
          ptr = (if buffer_size rb < length ptr then drop (length ptr - buffer_size rb) ptr else ptr);
          rb' = put_block ptr rb
      in (length ptr,
          if length ptr < buffer_size rb - write_index rb
          then if space_length < length ptr then rb'\<lparr>read_index := write_index rb'\<rparr> else rb'
          else if space_length < length ptr
            then (if write_index rb' \<le> read_index rb' then rb'\<lparr>read_mirror := \<not> read_mirror rb'\<rparr> else rb')
                   \<lparr>read_index := write_index rb'\<rparr>
            else rb'))"

definition rt_ringbuffer_get :: "rt_ringbuffer \<Rightarrow> nat \<Rightarrow> bytes \<times> rt_ringbuffer" where
  "rt_ringbuffer_get rb len =
     (let size_n = rt_ringbuffer_data_len rb in
      if size_n = 0 then ([], rb)
      else
        let len = if size_n < len then size_n else len
        in if len < buffer_size rb - read_index rb
           then (map (buffer_ptr rb) [read_index rb ..< read_index rb + len],
                 rb\<lparr>read_index := read_index rb + len\<rparr>)
           else
             let n = buffer_size rb - read_index rb
             in (map (buffer_ptr rb) [read_index rb ..< buffer_size rb] @ map (buffer_ptr rb) [0..<len - n],
                 rb\<lparr>read_mirror := \<not> read_mirror rb, read_index := len - n\<rparr>))"

text \<open>The result is the offset the pointer is set to, if any, and the number of bytes behind it.\<close>

definition rt_ringbuffer_peek :: "rt_ringbuffer \<Rightarrow> nat option \<times> nat \<times> rt_ringbuffer" where
  "rt_ringbuffer_peek rb =
     (let size_n = rt_ringbuffer_data_len rb in
      if size_n = 0 then (None, 0, rb)
      else if size_n < buffer_size rb - read_index rb
      then (Some (read_index rb), size_n, rb\<lparr>read_index := read_index rb + size_n\<rparr>)
      else (Some (read_index rb), buffer_size rb - read_index rb,
            rb\<lparr>read_mirror := \<not> read_mirror rb, read_index := 0\<rparr>))"

definition rt_ringbuffer_putchar :: "rt_ringbuffer \<Rightarrow> u8 \<Rightarrow> bool \<times> rt_ringbuffer" where
  "rt_ringbuffer_putchar rb ch =
     (if rt_ringbuffer_space_len rb = 0 then (False, rb)
      else
        let rb = rb\<lparr>buffer_ptr := (buffer_ptr rb)(write_index rb := ch)\<rparr>
        in (True, if write_index rb = buffer_size rb - 1
                  then rb\<lparr>write_mirror := \<not> write_mirror rb, write_index := 0\<rparr>
                  else rb\<lparr>write_index := write_index rb + 1\<rparr>))"

definition rt_ringbuffer_putchar_force :: "rt_ringbuffer \<Rightarrow> u8 \<Rightarrow> rt_ringbuffer" where
  "rt_ringbuffer_putchar_force rb ch =
     (let old_state = rt_ringbuffer_status rb;
          rb = rb\<lparr>buffer_ptr := (buffer_ptr rb)(write_index rb := ch)\<rparr>
      in if write_index rb = buffer_size rb - 1
         then let rb = rb\<lparr>write_mirror := \<not> write_mirror rb, write_index := 0\<rparr>
              in if old_state = RT_RINGBUFFER_FULL
                 then rb\<lparr>read_mirror := \<not> read_mirror rb, read_index := write_index rb\<rparr> else rb
         else let rb = rb\<lparr>write_index := write_index rb + 1\<rparr>
              in if old_state = RT_RINGBUFFER_FULL then rb\<lparr>read_index := write_index rb\<rparr> else rb)"

definition rt_ringbuffer_getchar :: "rt_ringbuffer \<Rightarrow> (u8 \<times> rt_ringbuffer) option" where
  "rt_ringbuffer_getchar rb =
     (if rt_ringbuffer_data_len rb = 0 then None
      else Some (buffer_ptr rb (read_index rb),
                 if read_index rb = buffer_size rb - 1
                 then rb\<lparr>read_mirror := \<not> read_mirror rb, read_index := 0\<rparr>
                 else rb\<lparr>read_index := read_index rb + 1\<rparr>))"

text \<open>\<open>rt_ringbuffer_create\<close> with the answers of its two allocations.\<close>

definition rt_ringbuffer_create :: "bool \<Rightarrow> (nat \<Rightarrow> u8) option \<Rightarrow> nat \<Rightarrow> rt_ringbuffer option" where
  "rt_ringbuffer_create got_rb pool size_n =
     (let size_n = size_n div RT_ALIGN_SIZE * RT_ALIGN_SIZE
      in if \<not> got_rb then None
         else case pool of None \<Rightarrow> None | Some p \<Rightarrow> Some (rt_ringbuffer_init p size_n))"

section \<open>The queue it holds\<close>

lemma upd_mem_single: "f(a := c) = upd_mem a [c] f" "upd_mem a [] f = f"
  by (auto simp: upd_mem_def fun_eq_iff)

definition rb_ok :: "rt_ringbuffer \<Rightarrow> bool" where
  "rb_ok rb \<longleftrightarrow> 0 < buffer_size rb \<and> buffer_size rb < 2 ^ 31
     \<and> read_index rb < buffer_size rb \<and> write_index rb < buffer_size rb
     \<and> (if read_mirror rb = write_mirror rb then read_index rb \<le> write_index rb else write_index rb \<le> read_index rb)"

definition rb_queue :: "rt_ringbuffer \<Rightarrow> bytes" where
  "rb_queue rb = map (\<lambda>i. buffer_ptr rb ((read_index rb + i) mod buffer_size rb)) [0..<rt_ringbuffer_data_len rb]"

abbreviation rb_fits :: "nat \<Rightarrow> rt_ringbuffer \<Rightarrow> bool" where
  "rb_fits n rb \<equiv> rb_ok rb \<and> buffer_size rb = n"

lemma rb_len:
  "rb_ok rb \<Longrightarrow> rt_ringbuffer_data_len rb =
     (if read_mirror rb = write_mirror rb then write_index rb - read_index rb
      else buffer_size rb - (read_index rb - write_index rb))"
  by (auto simp: rb_ok_def rt_ringbuffer_data_len_def rt_ringbuffer_status_def Let_def split: if_splits)

lemma length_rb_queue [simp]: "length (rb_queue rb) = rt_ringbuffer_data_len rb"
  by (simp add: rb_queue_def)

lemma rb_len_le: "rb_ok rb \<Longrightarrow> rt_ringbuffer_data_len rb \<le> buffer_size rb"
  by (auto simp: rb_len rb_ok_def split: if_splits)

text \<open>A cell of the ring, and where the next byte goes.\<close>

lemma ring_cell:
  fixes r :: nat
  assumes "r < s" "i \<le> s"
  shows "(r + i) mod s = (if r + i < s then r + i else r + i - s)"
proof (cases "r + i < s")
  case False
  then have "(r + i) mod s = (r + i - s) mod s" by (simp add: le_mod_geq)
  also have "\<dots> = r + i - s" using assms False by (cases "r + i - s < s") auto
  finally show ?thesis using False by simp
qed simp

lemma write_cell:
  assumes "rb_ok rb"
  shows "write_index rb = (read_index rb + rt_ringbuffer_data_len rb) mod buffer_size rb"
    "(read_mirror rb = write_mirror rb) = (read_index rb + rt_ringbuffer_data_len rb < buffer_size rb)"
proof -
  have *: "read_index rb < buffer_size rb" using assms by (simp add: rb_ok_def)
  show "write_index rb = (read_index rb + rt_ringbuffer_data_len rb) mod buffer_size rb"
    "(read_mirror rb = write_mirror rb) = (read_index rb + rt_ringbuffer_data_len rb < buffer_size rb)"
    using assms by (auto simp: ring_cell [OF * rb_len_le [OF assms]] rb_len rb_ok_def split: if_splits)
qed

text \<open>
  Two indices and the number of queued bytes determine the invariant: the rule by which each operation
  is shown to keep it.
\<close>

lemma rb_okI:
  assumes "0 < s" "s < 2 ^ 31" "buffer_size rb = s" "read_index rb < s" "n \<le> s"
    "write_index rb = (read_index rb + n) mod s" "(read_mirror rb = write_mirror rb) = (read_index rb + n < s)"
  shows "rb_ok rb" "rt_ringbuffer_data_len rb = n"
proof -
  have w: "write_index rb = (if read_index rb + n < s then read_index rb + n else read_index rb + n - s)"
    unfolding assms(6) by (rule ring_cell [OF assms(4,5)])
  show ok: "rb_ok rb" using assms w by (auto simp: rb_ok_def split: if_splits)
  show "rt_ringbuffer_data_len rb = n" using assms w by (auto simp: rb_len [OF ok] split: if_splits)
qed

text \<open>How far the cell \<open>j\<close> is behind the write index.\<close>

definition cell_off :: "nat \<Rightarrow> nat \<Rightarrow> nat \<Rightarrow> nat" where
  "cell_off s w j = (if w \<le> j then j - w else j + s - w)"

lemma put_block_mem:
  assumes "w = write_index rb" "s = buffer_size rb" "w < s" "length xs \<le> s" "j < s"
  shows "buffer_ptr (put_block xs rb) j
    = (if cell_off s w j < length xs then xs ! cell_off s w j else buffer_ptr rb j)"
  using assms by (auto simp: put_block_def Let_def upd_mem_def cell_off_def nth_append add.commute)

lemma cell_off_queue:
  assumes "r < s" "l \<le> s" "i < s"
  shows "cell_off s ((r + l) mod s) ((r + i) mod s) = (if l \<le> i then i - l else i + s - l)"
proof -
  have i: "i \<le> s" using assms(3) by simp
  show ?thesis
    using assms unfolding ring_cell [OF assms(1,2)] ring_cell [OF assms(1) i] by (auto simp: cell_off_def)
qed

lemma put_block_index:
  assumes ok: "rb_ok rb" and n: "rt_ringbuffer_data_len rb + length xs \<le> buffer_size rb"
  shows "rb_ok (put_block xs rb)"
    "rt_ringbuffer_data_len (put_block xs rb) = rt_ringbuffer_data_len rb + length xs"
    "buffer_size (put_block xs rb) = buffer_size rb" "read_index (put_block xs rb) = read_index rb"
proof -
  let ?s = "buffer_size rb" and ?r = "read_index rb" and ?l = "rt_ringbuffer_data_len rb"
  have b: "0 < ?s" "?s < 2 ^ 31" "?r < ?s" "write_index rb < ?s" using ok by (auto simp: rb_ok_def)
  have w: "write_index rb = (if ?r + ?l < ?s then ?r + ?l else ?r + ?l - ?s)"
    using write_cell(1) [OF ok] ring_cell [OF b(3) rb_len_le [OF ok]] by simp
  show bs: "buffer_size (put_block xs rb) = ?s" "read_index (put_block xs rb) = ?r"
    by (simp_all add: put_block_def Let_def)
  have c: "(?r + (?l + length xs)) mod ?s
      = (if ?r + (?l + length xs) < ?s then ?r + (?l + length xs) else ?r + (?l + length xs) - ?s)"
    using n by (intro ring_cell b(3)) simp
  have wi: "write_index (put_block xs rb) = (read_index (put_block xs rb) + (?l + length xs)) mod ?s"
    using b n w unfolding bs c by (auto simp: put_block_def Let_def split: if_splits)
  have mi: "(read_mirror (put_block xs rb) = write_mirror (put_block xs rb))
      = (read_index (put_block xs rb) + (?l + length xs) < ?s)"
    using b n w write_cell(2) [OF ok] unfolding bs by (auto simp: put_block_def Let_def split: if_splits)
  show "rb_ok (put_block xs rb)" "rt_ringbuffer_data_len (put_block xs rb) = ?l + length xs"
    using rb_okI [OF b(1,2) bs(1) _ n wi mi] b(3) bs(2) by simp_all
qed

lemma put_block_queue:
  assumes ok: "rb_ok rb" and n: "rt_ringbuffer_data_len rb + length xs \<le> buffer_size rb"
  shows "rb_queue (put_block xs rb) = rb_queue rb @ xs"
proof (rule nth_equalityI)
  let ?s = "buffer_size rb" and ?r = "read_index rb" and ?l = "rt_ringbuffer_data_len rb"
  note ix = put_block_index [OF ok n]
  have b: "?r < ?s" "write_index rb < ?s" "?l \<le> ?s" using ok rb_len_le by (auto simp: rb_ok_def)
  show "length (rb_queue (put_block xs rb)) = length (rb_queue rb @ xs)" using ix by simp
  fix i assume "i < length (rb_queue (put_block xs rb))"
  then have i: "i < ?l + length xs" "i < ?s" using ix n by simp_all
  have o: "cell_off ?s (write_index rb) ((?r + i) mod ?s) = (if ?l \<le> i then i - ?l else i + ?s - ?l)"
    unfolding write_cell(1) [OF ok] by (rule cell_off_queue [OF b(1,3) i(2)])
  have m: "buffer_ptr (put_block xs rb) ((?r + i) mod ?s)
      = (if ?l \<le> i then xs ! (i - ?l) else buffer_ptr rb ((?r + i) mod ?s))"
    using put_block_mem [of _ rb _ xs "(?r + i) mod ?s", OF refl refl b(2)] b n i unfolding o by auto
  show "rb_queue (put_block xs rb) ! i = (rb_queue rb @ xs) ! i"
    using i ix m by (simp add: rb_queue_def nth_append)
qed

lemma rb_space: "rb_ok rb \<Longrightarrow> rt_ringbuffer_space_len rb = buffer_size rb - length (rb_queue rb)"
  by (simp add: rt_ringbuffer_space_len_def)

lemma put_spec:
  assumes "rb_ok rb"
  shows "\<exists>rb'. rt_ringbuffer_put rb xs = (min (length xs) (buffer_size rb - length (rb_queue rb)), rb')
    \<and> rb_fits (buffer_size rb) rb' \<and> rb_queue rb' = take (buffer_size rb) (rb_queue rb @ xs)"
proof (cases "rt_ringbuffer_space_len rb = 0")
  case True
  then show ?thesis
    using assms rb_len_le [OF assms] by (auto simp: rt_ringbuffer_put_def Let_def rt_ringbuffer_space_len_def)
next
  case False
  let ?n = "min (length xs) (buffer_size rb - length (rb_queue rb))"
  have n: "rt_ringbuffer_data_len rb + length (take ?n xs) \<le> buffer_size rb" using rb_len_le [OF assms] by auto
  have "rt_ringbuffer_put rb xs = (?n, put_block (take ?n xs) rb)"
    using False by (auto simp: rt_ringbuffer_put_def Let_def rb_space [OF assms] min_def)
  moreover have "take ?n xs = take (buffer_size rb - length (rb_queue rb)) xs" by (simp add: min_def)
  moreover have "rb_queue rb = take (buffer_size rb) (rb_queue rb)" using rb_len_le [OF assms] by simp
  ultimately show ?thesis
    using put_block_index [OF assms n] put_block_queue [OF assms n] by (simp add: take_append)
qed

text \<open>Taking bytes off the front.\<close>

definition skip_block :: "nat \<Rightarrow> rt_ringbuffer \<Rightarrow> rt_ringbuffer" where
  "skip_block n rb =
     (if n < buffer_size rb - read_index rb then rb\<lparr>read_index := read_index rb + n\<rparr>
      else rb\<lparr>read_mirror := \<not> read_mirror rb, read_index := n - (buffer_size rb - read_index rb)\<rparr>)"

lemma skip_block_spec:
  assumes ok: "rb_ok rb" and n: "n \<le> rt_ringbuffer_data_len rb"
  shows "rb_fits (buffer_size rb) (skip_block n rb)" "rb_queue (skip_block n rb) = drop n (rb_queue rb)"
proof -
  let ?s = "buffer_size rb" and ?r = "read_index rb" and ?l = "rt_ringbuffer_data_len rb"
  have b: "0 < ?s" "?s < 2 ^ 31" "?r < ?s" "?l \<le> ?s" using ok rb_len_le by (auto simp: rb_ok_def)
  have bs: "buffer_size (skip_block n rb) = ?s" "write_index (skip_block n rb) = write_index rb"
    "buffer_ptr (skip_block n rb) = buffer_ptr rb" by (simp_all add: skip_block_def)
  have r: "read_index (skip_block n rb) = (?r + n) mod ?s"
    using b n by (subst ring_cell) (auto simp: skip_block_def)
  have w: "write_index (skip_block n rb) = (read_index (skip_block n rb) + (?l - n)) mod ?s"
    using write_cell(1) [OF ok] n unfolding bs r mod_add_left_eq add.assoc by simp
  have m: "(read_mirror (skip_block n rb) = write_mirror (skip_block n rb)) = (read_index (skip_block n rb) + (?l - n) < ?s)"
    using write_cell(2) [OF ok] b n by (auto simp: skip_block_def)
  have ix: "rb_ok (skip_block n rb)" "rt_ringbuffer_data_len (skip_block n rb) = ?l - n"
    using rb_okI [OF b(1,2) bs(1) _ _ w m] b r n by simp_all
  then show "rb_fits ?s (skip_block n rb)" using bs by simp
  show "rb_queue (skip_block n rb) = drop n (rb_queue rb)"
  proof (rule nth_equalityI)
    fix i assume "i < length (rb_queue (skip_block n rb))"
    then have "i < ?l - n" "n + i < ?l" using ix n by simp_all
    then show "rb_queue (skip_block n rb) ! i = drop n (rb_queue rb) ! i"
      using n by (simp add: ix rb_queue_def bs r mod_simps add.assoc)
  qed (use ix n in simp)
qed

lemma block_read:
  assumes ok: "rb_ok rb" and n: "n \<le> rt_ringbuffer_data_len rb" "n \<le> buffer_size rb - read_index rb"
  shows "map (buffer_ptr rb) [read_index rb ..< read_index rb + n] = take n (rb_queue rb)"
proof (rule nth_equalityI)
  have b: "read_index rb < buffer_size rb" using ok by (simp add: rb_ok_def)
  fix i assume "i < length (map (buffer_ptr rb) [read_index rb ..< read_index rb + n])"
  then have i: "i < n" by simp
  then have "(read_index rb + i) mod buffer_size rb = read_index rb + i" using n b by simp
  then show "map (buffer_ptr rb) [read_index rb ..< read_index rb + n] ! i = take n (rb_queue rb) ! i"
    using i n by (simp add: rb_queue_def)
qed (use n in simp)

lemma get_spec:
  assumes ok: "rb_ok rb"
  shows "\<exists>rb'. rt_ringbuffer_get rb n = (take n (rb_queue rb), rb')
    \<and> rb_fits (buffer_size rb) rb' \<and> rb_queue rb' = drop n (rb_queue rb)"
proof (cases "rt_ringbuffer_data_len rb = 0")
  case True
  then have "rb_queue rb = []" by (metis length_0_conv length_rb_queue)
  then show ?thesis using True ok by (simp add: rt_ringbuffer_get_def)
next
  case False
  let ?l = "rt_ringbuffer_data_len rb" and ?s = "buffer_size rb" and ?r = "read_index rb"
  let ?n = "min n ?l"
  have n: "?n \<le> ?l" by simp
  have b: "?r < ?s" "?l \<le> ?s" using ok rb_len_le by (auto simp: rb_ok_def)
  have t: "take n (rb_queue rb) = take ?n (rb_queue rb)" "drop n (rb_queue rb) = drop ?n (rb_queue rb)"
    by (simp_all add: min_def)
  have "rt_ringbuffer_get rb n = (take ?n (rb_queue rb), skip_block ?n rb)"
  proof (cases "?n < ?s - ?r")
    case True
    then show ?thesis
      using False block_read [OF ok n] by (auto simp: rt_ringbuffer_get_def Let_def skip_block_def min_def)
  next
    case wrap: False
    let ?k = "?s - ?r"
    have k: "?k \<le> ?l" using wrap by simp
    have ok': "rb_ok (skip_block ?k rb)" "rb_queue (skip_block ?k rb) = drop ?k (rb_queue rb)"
      using skip_block_spec [OF ok k] by auto
    have z: "read_index (skip_block ?k rb) = 0" "buffer_size (skip_block ?k rb) = ?s"
      "buffer_ptr (skip_block ?k rb) = buffer_ptr rb" using b by (simp_all add: skip_block_def)
    have "rt_ringbuffer_data_len (skip_block ?k rb) = ?l - ?k" using arg_cong [OF ok'(2), of length] by simp
    then have two: "map (buffer_ptr rb) [0..<?n - ?k] = take (?n - ?k) (drop ?k (rb_queue rb))"
      using block_read [OF ok'(1), of "?n - ?k"] b unfolding z ok'(2) by simp
    have one: "map (buffer_ptr rb) [?r..<?s] = take ?k (rb_queue rb)"
      using block_read [OF ok k] b by simp
    have "map (buffer_ptr rb) [?r..<?s] @ map (buffer_ptr rb) [0..<?n - ?k] = take ?n (rb_queue rb)"
      unfolding one two take_add [symmetric] using wrap by (simp add: not_less)
    then show ?thesis
      using False wrap by (auto simp: rt_ringbuffer_get_def Let_def skip_block_def min_def)
  qed
  then show ?thesis unfolding t using skip_block_spec [OF ok n] by blast
qed

lemma getchar_spec:
  assumes ok: "rb_ok rb"
  shows "rt_ringbuffer_getchar rb = (case rb_queue rb of [] \<Rightarrow> None | x # xs \<Rightarrow> Some (x, skip_block 1 rb))"
proof (cases "rb_queue rb")
  case Nil
  then have "rt_ringbuffer_data_len rb = 0" by (metis length_rb_queue list.size(3))
  then show ?thesis using Nil by (simp add: rt_ringbuffer_getchar_def)
next
  case (Cons x xs)
  then have l: "0 < rt_ringbuffer_data_len rb" by (metis length_rb_queue length_greater_0_conv list.distinct(1))
  have b: "read_index rb < buffer_size rb" using ok by (simp add: rb_ok_def)
  have "map (buffer_ptr rb) [read_index rb ..< read_index rb + 1] = [x]"
    using block_read [OF ok, of 1] l b Cons by simp
  then show ?thesis using Cons l b by (auto simp: rt_ringbuffer_getchar_def skip_block_def)
qed

lemma peek_spec:
  assumes ok: "rb_ok rb"
  shows "case rt_ringbuffer_peek rb of (p, n, rb') \<Rightarrow>
    rb_fits (buffer_size rb) rb' \<and> rb_queue rb' = drop n (rb_queue rb) \<and> n \<le> length (rb_queue rb)
    \<and> (case p of None \<Rightarrow> rb_queue rb = [] | Some a \<Rightarrow> 0 < n \<and> map (buffer_ptr rb) [a..<a + n] = take n (rb_queue rb))"
proof (cases "rt_ringbuffer_data_len rb = 0")
  case True
  then have "rb_queue rb = []" by (metis length_0_conv length_rb_queue)
  then show ?thesis using True ok by (simp add: rt_ringbuffer_peek_def)
next
  case False
  let ?n = "min (rt_ringbuffer_data_len rb) (buffer_size rb - read_index rb)"
  have b: "read_index rb < buffer_size rb" using ok by (simp add: rb_ok_def)
  have n: "?n \<le> rt_ringbuffer_data_len rb" "?n \<le> buffer_size rb - read_index rb" "0 < ?n" using False b by auto
  have "rt_ringbuffer_peek rb = (Some (read_index rb), ?n, skip_block ?n rb)"
    using False b by (auto simp: rt_ringbuffer_peek_def Let_def skip_block_def min_def)
  then show ?thesis using skip_block_spec [OF ok n(1)] block_read [OF ok n(1,2)] n by simp
qed

lemma putchar_spec:
  assumes ok: "rb_ok rb"
  shows "rt_ringbuffer_putchar rb ch
    = (if length (rb_queue rb) = buffer_size rb then (False, rb) else (True, put_block [ch] rb))"
proof -
  have b: "write_index rb < buffer_size rb" "rt_ringbuffer_data_len rb \<le> buffer_size rb"
    using ok rb_len_le by (auto simp: rb_ok_def)
  show ?thesis
    using b by (auto simp: rt_ringbuffer_putchar_def rt_ringbuffer_space_len_def put_block_def Let_def upd_mem_single)
qed

text \<open>
  The forced functions drop old bytes: they first skip as many as do not fit.
\<close>

lemma put_block_skip:
  assumes "read_index rb < buffer_size rb" "write_index rb < buffer_size rb"
  shows "put_block xs (skip_block d rb)
    = (put_block xs rb)\<lparr>read_mirror := read_mirror (skip_block d rb), read_index := read_index (skip_block d rb)\<rparr>"
  using assms by (simp add: put_block_def skip_block_def Let_def)

lemma put_force_skip:
  fixes ptr :: bytes
  assumes ok: "rb_ok rb"
  defines "xs \<equiv> drop (length ptr - buffer_size rb) ptr"
  shows "rt_ringbuffer_put_force rb ptr
    = (length xs, put_block xs (skip_block (length xs - rt_ringbuffer_space_len rb) rb))"
proof -
  let ?s = "buffer_size rb" and ?r = "read_index rb" and ?w = "write_index rb" and ?sp = "rt_ringbuffer_space_len rb"
  have b: "?r < ?s" "?w < ?s" using ok by (auto simp: rb_ok_def)
  have x: "length xs \<le> ?s" "(if ?s < length ptr then drop (length ptr - ?s) ptr else ptr) = xs"
    by (auto simp: xs_def)
  have sp: "?sp = (if read_mirror rb = write_mirror rb then ?s - (?w - ?r) else ?r - ?w)"
    "if read_mirror rb = write_mirror rb then ?r \<le> ?w else ?w \<le> ?r"
    using ok b by (auto simp: rt_ringbuffer_space_len_def rb_len rb_ok_def split: if_splits)
  define d where "d = length xs - ?sp"
  have idx: "read_index (skip_block d rb) = write_index (put_block xs rb)"
    "read_mirror (skip_block d rb) = (if length xs < ?s - ?w \<or> read_index rb < write_index (put_block xs rb)
       then read_mirror rb else \<not> read_mirror rb)" if "?sp < length xs"
    using b x(1) sp that by (auto simp: put_block_def skip_block_def Let_def d_def split: if_splits)
  have f: "read_index (put_block xs rb) = ?r" "read_mirror (put_block xs rb) = read_mirror rb"
    by (simp_all add: put_block_def Let_def)
  show ?thesis
  proof (cases "?sp < length xs")
    case False
    then show ?thesis
      using b(1) unfolding rt_ringbuffer_put_force_def Let_def x(2) by (simp add: skip_block_def)
  next
    case True
    then show ?thesis
      using idx [OF True] f unfolding d_def rt_ringbuffer_put_force_def Let_def x(2) put_block_skip [OF b]
      by (simp add: not_less)
  qed
qed

lemma force_spec:
  assumes ok: "rb_ok rb" and xs: "length xs \<le> buffer_size rb"
  defines "d \<equiv> length xs - rt_ringbuffer_space_len rb"
  shows "rb_fits (buffer_size rb) (put_block xs (skip_block d rb))"
    "rb_queue (put_block xs (skip_block d rb)) = last_n (buffer_size rb) (rb_queue rb @ xs)"
proof -
  have l: "rt_ringbuffer_data_len rb \<le> buffer_size rb" by (rule rb_len_le [OF ok])
  then have d: "d \<le> rt_ringbuffer_data_len rb" using xs by (auto simp: d_def rt_ringbuffer_space_len_def)
  note sk = skip_block_spec [OF ok d]
  have sl: "rt_ringbuffer_data_len (skip_block d rb) = rt_ringbuffer_data_len rb - d"
    using arg_cong [OF sk(2), of length] by simp
  then have f: "rt_ringbuffer_data_len (skip_block d rb) + length xs \<le> buffer_size (skip_block d rb)"
    using sk(1) l xs by (auto simp: d_def rt_ringbuffer_space_len_def)
  have "length (rb_queue rb @ xs) - buffer_size rb = d" using l by (simp add: d_def rt_ringbuffer_space_len_def)
  then show "rb_fits (buffer_size rb) (put_block xs (skip_block d rb))"
    "rb_queue (put_block xs (skip_block d rb)) = last_n (buffer_size rb) (rb_queue rb @ xs)"
    using put_block_index [of "skip_block d rb" xs] put_block_queue [of "skip_block d rb" xs] sk f d
    by (simp_all add: last_n_def)
qed

lemma put_force_spec:
  assumes ok: "rb_ok rb"
  shows "\<exists>rb'. rt_ringbuffer_put_force rb xs = (min (length xs) (buffer_size rb), rb')
    \<and> rb_fits (buffer_size rb) rb' \<and> rb_queue rb' = last_n (buffer_size rb) (rb_queue rb @ xs)"
proof -
  let ?xs = "drop (length xs - buffer_size rb) xs"
  have l: "length ?xs = min (length xs) (buffer_size rb)" by simp
  have q: "last_n (buffer_size rb) (rb_queue rb @ ?xs) = last_n (buffer_size rb) (rb_queue rb @ xs)"
    by (cases "buffer_size rb \<le> length xs") (simp_all add: last_n_def)
  have "length ?xs \<le> buffer_size rb" by simp
  from force_spec [OF ok this] show ?thesis
    unfolding q by (intro exI conjI) (use put_force_skip [OF ok, of xs] l in \<open>simp_all only: prod.inject\<close>)
qed

lemma putchar_force_spec:
  assumes ok: "rb_ok rb"
  shows "rt_ringbuffer_putchar_force rb ch = put_block [ch] (skip_block (1 - rt_ringbuffer_space_len rb) rb)"
proof -
  have b: "read_index rb < buffer_size rb" "write_index rb < buffer_size rb" using ok by (auto simp: rb_ok_def)
  show ?thesis
  proof (cases "rt_ringbuffer_status rb = RT_RINGBUFFER_FULL")
    case True
    then have "read_index rb = write_index rb" "rt_ringbuffer_space_len rb = 0"
      by (auto simp: rt_ringbuffer_space_len_def rt_ringbuffer_data_len_def rt_ringbuffer_status_def split: if_splits)
    then show ?thesis
      using True b unfolding rt_ringbuffer_putchar_force_def Let_def put_block_skip [OF b]
      by (auto simp: put_block_def skip_block_def Let_def upd_mem_single)
  next
    case False
    then have "rt_ringbuffer_data_len rb < buffer_size rb"
      using ok by (auto simp: rb_len rb_ok_def rt_ringbuffer_status_def split: if_splits)
    then have "skip_block (1 - rt_ringbuffer_space_len rb) rb = rb"
      using b by (simp add: skip_block_def rt_ringbuffer_space_len_def)
    then show ?thesis
      using False b by (auto simp: rt_ringbuffer_putchar_force_def put_block_def Let_def upd_mem_single)
  qed
qed

lemma init_spec:
  assumes "8 \<le> n" "n < 2 ^ 31"
  shows "rb_fits (n div 8 * 8) (rt_ringbuffer_init pool n)" "rb_queue (rt_ringbuffer_init pool n) = []"
proof -
  have "n div 8 * 8 \<le> n" by simp
  then have "n div 8 * 8 < 2 ^ 31" using assms(2) by linarith
  moreover have "0 < n div 8" using assms(1) by simp
  ultimately show "rb_fits (n div 8 * 8) (rt_ringbuffer_init pool n)"
    by (simp add: rb_ok_def rt_ringbuffer_init_def dvr_const)
  show "rb_queue (rt_ringbuffer_init pool n) = []"
    by (simp add: rb_queue_def rt_ringbuffer_init_def rt_ringbuffer_data_len_def rt_ringbuffer_status_def)
qed

lemma reset_spec: "rb_ok rb \<Longrightarrow> rb_fits (buffer_size rb) (rt_ringbuffer_reset rb) \<and> rb_queue (rt_ringbuffer_reset rb) = []"
  by (auto simp: rb_ok_def rb_queue_def rt_ringbuffer_reset_def rt_ringbuffer_data_len_def rt_ringbuffer_status_def)

section \<open>The interface of a block queue\<close>

text \<open>
  What a client may assume that moves bytes in blocks: a block is appended as far as it fits and the
  number of bytes taken is reported; a read takes off the front. Byte-wise access follows.
\<close>

locale block_fifo =
  fixes put :: "'r \<Rightarrow> 'a list \<Rightarrow> nat \<times> 'r" and get :: "'r \<Rightarrow> nat \<Rightarrow> 'a list \<times> 'r"
    and queued :: "'r \<Rightarrow> 'a list" and ok :: "'r \<Rightarrow> bool" and cap :: nat
  assumes put_law: "ok r \<Longrightarrow> \<exists>r'. put r xs = (min (length xs) (cap - length (queued r)), r')
        \<and> ok r' \<and> queued r' = take cap (queued r @ xs)"
    and put_full: "ok r \<Longrightarrow> length (queued r) = cap \<Longrightarrow> put r xs = (0, r)"
    and get_law: "ok r \<Longrightarrow> \<exists>r'. get r n = (take n (queued r), r') \<and> ok r' \<and> queued r' = drop n (queued r)"
    and cap_law: "ok r \<Longrightarrow> length (queued r) \<le> cap"
begin

lemma put_fits:
  assumes "ok r" "length (queued r) + length xs \<le> cap"
  obtains r' where "put r xs = (length xs, r')" "ok r'" "queued r' = queued r @ xs"
proof -
  have "min (length xs) (cap - length (queued r)) = length xs" using assms(2) by simp
  then show thesis using put_law [OF assms(1), of xs] assms(2) that by auto
qed

lemma get_all:
  assumes "ok r" "length (queued r) \<le> n"
  obtains r' where "get r n = (queued r, r')" "ok r'" "queued r' = []"
  using get_law [OF assms(1), of n] assms(2) by auto

end

sublocale block_fifo \<subseteq> bytewise: bounded_fifo
  "\<lambda>r x. (0 < fst (put r [x]), snd (put r [x]))"
  "\<lambda>r. case get r 1 of ([], _) \<Rightarrow> None | (x # _, r') \<Rightarrow> Some (x, r')" queued ok cap
proof
  fix r x
  show "\<exists>r'. (0 < fst (put r [x]), snd (put r [x])) = (True, r') \<and> ok r' \<and> queued r' = queued r @ [x]"
    if "ok r" "length (queued r) < cap"
  proof -
    have "length (queued r) + length [x] \<le> cap" using that(2) by simp
    from put_fits [OF that(1) this] show ?thesis by (metis One_nat_def fst_conv length_Cons lessI list.size(3) snd_conv)
  qed
  show "(0 < fst (put r [x]), snd (put r [x])) = (False, r)" if "ok r" "length (queued r) = cap"
    using put_full [OF that] by simp
  show "length (queued r) \<le> cap" if "ok r" using cap_law [OF that] .
  show "(case get r 1 of ([], _) \<Rightarrow> None | (y # _, r') \<Rightarrow> Some (y, r')) = None" if "ok r" "queued r = []"
    using get_law [OF that(1), of 1] that(2) by auto
  show "\<exists>r'. (case get r 1 of ([], _) \<Rightarrow> None | (y # _, r') \<Rightarrow> Some (y, r')) = Some (x, r') \<and> ok r' \<and> queued r' = xs"
    if "ok r" "queued r = x # xs" for xs
    using get_law [OF that(1), of 1] that(2) by auto
qed

interpretation rb: block_fifo rt_ringbuffer_put rt_ringbuffer_get rb_queue "rb_fits s" s for s
proof
  fix rb xs n
  show "\<exists>r'. rt_ringbuffer_put rb xs = (min (length xs) (s - length (rb_queue rb)), r')
      \<and> rb_fits s r' \<and> rb_queue r' = take s (rb_queue rb @ xs)" if "rb_fits s rb"
    using put_spec [of rb xs] that by auto
  show "rt_ringbuffer_put rb xs = (0, rb)" if "rb_fits s rb" "length (rb_queue rb) = s"
    using that by (simp add: rt_ringbuffer_put_def rt_ringbuffer_space_len_def)
  show "\<exists>r'. rt_ringbuffer_get rb n = (take n (rb_queue rb), r') \<and> rb_fits s r' \<and> rb_queue r' = drop n (rb_queue rb)"
    if "rb_fits s rb" using get_spec [of rb n] that by auto
  show "length (rb_queue rb) \<le> s" if "rb_fits s rb" using rb_len_le [of rb] that by simp
qed

text \<open>The byte-wise functions are the block functions for one byte.\<close>

lemma putchar_put:
  "rb_ok rb \<Longrightarrow> rt_ringbuffer_putchar rb ch = (0 < fst (rt_ringbuffer_put rb [ch]), snd (rt_ringbuffer_put rb [ch]))"
  using rb_len_le [of rb]
  by (auto simp: putchar_spec rt_ringbuffer_put_def rt_ringbuffer_space_len_def Let_def)

lemma getchar_get:
  assumes "rb_ok rb"
  shows "rt_ringbuffer_getchar rb = (case rt_ringbuffer_get rb 1 of ([], _) \<Rightarrow> None | (x # _, r') \<Rightarrow> Some (x, r'))"
proof -
  have b: "read_index rb < buffer_size rb" using assms by (simp add: rb_ok_def)
  show ?thesis
    using b unfolding getchar_spec [OF assms, symmetric] rt_ringbuffer_getchar_def rt_ringbuffer_get_def Let_def
    by (auto simp: upt_rec)
qed

interpretation rbc: bounded_fifo rt_ringbuffer_putchar rt_ringbuffer_getchar rb_queue "rb_fits s" s for s
proof
  fix r x xs
  show "\<exists>r'. rt_ringbuffer_putchar r x = (True, r') \<and> rb_fits s r' \<and> rb_queue r' = rb_queue r @ [x]"
    if "rb_fits s r" "length (rb_queue r) < s" using rb.bytewise.push_room [OF that] that(1) by (simp add: putchar_put)
  show "rt_ringbuffer_putchar r x = (False, r)" if "rb_fits s r" "length (rb_queue r) = s"
    using rb.bytewise.push_full [OF that] that(1) by (simp add: putchar_put)
  show "length (rb_queue r) \<le> s" if "rb_fits s r" using rb.cap_law [OF that] .
  show "rt_ringbuffer_getchar r = None" if "rb_fits s r" "rb_queue r = []"
    using that by (simp add: getchar_spec)
  show "\<exists>r'. rt_ringbuffer_getchar r = Some (x, r') \<and> rb_fits s r' \<and> rb_queue r' = xs"
    if "rb_fits s r" "rb_queue r = x # xs" using rb.bytewise.pop_next [OF that] that(1) by (simp add: getchar_get)
qed

section \<open>Refinement\<close>

text \<open>The operations of a client, on the ring buffer and on a queue of at most \<open>cap\<close> bytes.\<close>

datatype rb_op = Put bytes | Put_force bytes | Get nat | Putchar u8 | Putchar_force u8 | Getchar | Reset

datatype rb_out = Taken nat | Read bytes | Nothing

fun rb_do :: "rb_op \<Rightarrow> rt_ringbuffer \<Rightarrow> rb_out \<times> rt_ringbuffer" where
  "rb_do (Put xs) rb = (let (n, rb) = rt_ringbuffer_put rb xs in (Taken n, rb))"
| "rb_do (Put_force xs) rb = (let (n, rb) = rt_ringbuffer_put_force rb xs in (Taken n, rb))"
| "rb_do (Get n) rb = (let (xs, rb) = rt_ringbuffer_get rb n in (Read xs, rb))"
| "rb_do (Putchar c) rb = (let (ok, rb) = rt_ringbuffer_putchar rb c in (Taken (of_bool ok), rb))"
| "rb_do (Putchar_force c) rb = (Taken 1, rt_ringbuffer_putchar_force rb c)"
| "rb_do Getchar rb = (case rt_ringbuffer_getchar rb of None \<Rightarrow> (Read [], rb) | Some (c, rb) \<Rightarrow> (Read [c], rb))"
| "rb_do Reset rb = (Nothing, rt_ringbuffer_reset rb)"

fun queue_do :: "nat \<Rightarrow> rb_op \<Rightarrow> bytes \<Rightarrow> rb_out \<times> bytes" where
  "queue_do cap (Put xs) q = (Taken (min (length xs) (cap - length q)), take cap (q @ xs))"
| "queue_do cap (Put_force xs) q = (Taken (min (length xs) cap), last_n cap (q @ xs))"
| "queue_do cap (Get n) q = (Read (take n q), drop n q)"
| "queue_do cap (Putchar c) q = (if length q < cap then (Taken 1, q @ [c]) else (Taken 0, q))"
| "queue_do cap (Putchar_force c) q = (Taken 1, last_n cap (q @ [c]))"
| "queue_do cap Getchar q = (Read (take 1 q), drop 1 q)"
| "queue_do cap Reset q = (Nothing, [])"

lemma rb_do_queue:
  assumes "rb_fits s rb"
  shows "\<exists>out rb'. rb_do p rb = (out, rb') \<and> queue_do s p (rb_queue rb) = (out, rb_queue rb') \<and> rb_fits s rb'"
proof -
  have ok: "rb_ok rb" and s: "s = buffer_size rb" using assms by auto
  have le: "length (rb_queue rb) \<le> s" by (rule rb.cap_law [OF assms])
  show ?thesis
  proof (cases p)
    case (Put xs)
    then show ?thesis using rb.put_law [OF assms, of xs] by auto
  next
    case (Put_force xs)
    then show ?thesis using put_force_spec [OF ok, of xs] unfolding s by auto
  next
    case (Get n)
    then show ?thesis using rb.get_law [OF assms, of n] by auto
  next
    case (Putchar c)
    then show ?thesis
      using rbc.push_room [OF assms, of c] rbc.push_full [OF assms, of c] le assms by (cases "length (rb_queue rb) < s") auto
  next
    case (Putchar_force c)
    have "length [c] \<le> buffer_size rb" using ok by (auto simp: rb_ok_def)
    then show ?thesis using Putchar_force force_spec [OF ok, of "[c]"] unfolding s by (simp add: putchar_force_spec [OF ok])
  next
    case Getchar
    show ?thesis
    proof (cases "rb_queue rb")
      case Nil
      then show ?thesis using Getchar rbc.pop_empty [OF assms Nil] assms by simp
    next
      case (Cons x xs)
      then show ?thesis using Getchar rbc.pop_next [OF assms Cons] by auto
    qed
  next
    case Reset
    then show ?thesis using reset_spec [OF ok] unfolding s by simp
  qed
qed

section \<open>Properties\<close>

text \<open>
  C33: the kernel's ring buffer is a bounded queue. After \<open>rt_ringbuffer_init\<close> on any memory, any
  sequence of puts, gets, their byte-wise and overwriting variants and resets gives exactly the results
  a queue of at most the aligned-down size gives: a put appends what fits and reports how much, an
  overwriting put keeps the newest bytes, a get takes the oldest.
\<close>

theorem ringbuffer_is_queue:
  assumes "8 \<le> n" "n < 2 ^ 31"
  shows "\<exists>outs rb. run_ops rb_do ops (rt_ringbuffer_init pool n) = (outs, rb)
    \<and> run_ops (queue_do (n div 8 * 8)) ops [] = (outs, rb_queue rb) \<and> rb_ok rb"
proof -
  note i = init_spec [OF assms, of pool]
  from run_ops_sim [where R = "rb_fits (n div 8 * 8)" and f = rb_do and h = rb_queue
      and g = "queue_do (n div 8 * 8)", OF rb_do_queue i(1), of ops]
  show ?thesis unfolding i(2) by blast
qed

theorem ringbuffer_is_queue_witness:
  "\<exists>outs rb. run_ops rb_do [Put [1, 2, 3], Get 2, Put_force [4, 5, 6, 7, 8, 9, 10, 11], Getchar] (rt_ringbuffer_init (\<lambda>_. 0) 9) = (outs, rb)
    \<and> outs = [Taken 3, Read [1, 2], Taken 8, Read [4]] \<and> rb_queue rb = [5, 6, 7, 8, 9, 10, 11]"
  using ringbuffer_is_queue [of 9 "[Put [1, 2, 3], Get 2, Put_force [4, 5, 6, 7, 8, 9, 10, 11], Getchar]" "\<lambda>_. 0"]
  by (auto simp: last_n_def)

end
