(* ===== verification/Rt_Serial.thy ===== *)
theory Rt_Serial
  imports Rt_Ringbuffer
begin

unbundle bit_operations_syntax

text \<open>
  The serial device behind the link to the application processor: the device layer of the kernel
  (\<open>src/rt-thread/components/drivers/core/device.c\<close>), the serial framework
  (\<open>src/rt-thread/components/drivers/serial/serial_v2.c\<close>) and the controller's driver
  (\<open>src/libraries/drivers/drv_uart_v2.c\<close>), as \<open>rtconfig.h\<close> configures them for \<open>uart3\<close>: reception by DMA
  with detection of the idle line, a receive buffer of 4096 bytes and no transmit buffer.

  The record \<open>rt_serial_device\<close> holds the fields of \<open>struct rt_device\<close>, \<open>struct rt_serial_device\<close> and
  \<open>struct hpm_uart\<close> that these functions use. Of the hardware it holds what the code reads or writes:
  the bytes left in the DMA transfer, the bytes waiting in the receiver, the idle flag, and the bytes
  sent on the line. The function pointers \<open>read\<close> and \<open>write\<close> are names of the functions they are set
  to, and the receive callback is a parameter of the interrupt functions. An allocation that fails
  stops the system at an assertion; the content of the allocated memory is a parameter. The transmit
  FIFOs, which exist only with a transmit buffer, are not modelled.
\<close>

section \<open>Data\<close>

record rt_serial_rx_fifo =
  rx_rb :: rt_ringbuffer
  rx_cpt :: bool
  rx_cpt_index :: nat

datatype serial_rx_fn = Serial_fifo_rx | Serial_poll_rx
datatype serial_tx_fn = Serial_poll_tx

record rt_serial_device =
  dev_flag :: u16
  open_flag :: u16
  ref_count :: u8
  dev_read :: "serial_rx_fn option"
  dev_write :: "serial_tx_fn option"
  rx_indicate :: bool
  rx_bufsz :: u16
  tx_bufsz :: u16
  serial_rx :: "rt_serial_rx_fifo option"
  dma_flags :: u16
  rx_resource_allocated :: bool
  rx_idle_tmp_buffer :: bytes
  hw_dma_remaining :: nat
  hw_dma_enabled :: bool
  hw_rx_ready :: bytes
  hw_rx_idle :: bool
  hw_tx_line :: bytes

definition RT_DEVICE_FLAG_RDWR :: u16 where [dvr_const]: "RT_DEVICE_FLAG_RDWR = 0x003"
definition RT_DEVICE_FLAG_STANDALONE :: u16 where [dvr_const]: "RT_DEVICE_FLAG_STANDALONE = 0x008"
definition RT_DEVICE_FLAG_ACTIVATED :: u16 where [dvr_const]: "RT_DEVICE_FLAG_ACTIVATED = 0x010"
definition RT_DEVICE_FLAG_STREAM :: u16 where [dvr_const]: "RT_DEVICE_FLAG_STREAM = 0x040"
definition RT_DEVICE_FLAG_DMA_RX :: u16 where [dvr_const]: "RT_DEVICE_FLAG_DMA_RX = 0x200"
definition RT_DEVICE_FLAG_DMA_TX :: u16 where [dvr_const]: "RT_DEVICE_FLAG_DMA_TX = 0x800"
definition RT_DEVICE_OFLAG_OPEN :: u16 where [dvr_const]: "RT_DEVICE_OFLAG_OPEN = 0x008"
definition RT_DEVICE_OFLAG_MASK :: u16 where [dvr_const]: "RT_DEVICE_OFLAG_MASK = 0xf0f"
definition RT_SERIAL_RX_BLOCKING :: u16 where [dvr_const]: "RT_SERIAL_RX_BLOCKING = 0x1000"
definition RT_SERIAL_RX_NON_BLOCKING :: u16 where [dvr_const]: "RT_SERIAL_RX_NON_BLOCKING = 0x2000"
definition RT_SERIAL_TX_BLOCKING :: u16 where [dvr_const]: "RT_SERIAL_TX_BLOCKING = 0x4000"
definition RT_SERIAL_TX_NON_BLOCKING :: u16 where [dvr_const]: "RT_SERIAL_TX_NON_BLOCKING = 0x8000"
definition RT_SERIAL_RX_MINBUFSZ :: u16 where [dvr_const]: "RT_SERIAL_RX_MINBUFSZ = 64"
definition BSP_UART3_RX_BUFSIZE :: u16 where [dvr_const]: "BSP_UART3_RX_BUFSIZE = 4096"
definition BSP_UART3_TX_BUFSIZE :: u16 where [dvr_const]: "BSP_UART3_TX_BUFSIZE = 0"

text \<open>\<open>sizeof(uart->rx_idle_tmp_buffer)\<close>\<close>

definition rx_idle_tmp_buffer_size :: nat where [dvr_const]: "rx_idle_tmp_buffer_size = 1024"

definition has_flag :: "u16 \<Rightarrow> u16 \<Rightarrow> bool" where
  "has_flag w f \<longleftrightarrow> w AND f \<noteq> 0"

section \<open>The driver\<close>

definition hpm_uart_putc :: "u8 \<Rightarrow> rt_serial_device \<Rightarrow> rt_serial_device" where
  "hpm_uart_putc ch s = s\<lparr>hw_tx_line := hw_tx_line s @ [ch]\<rparr>"

definition hpm_uart_getc :: "rt_serial_device \<Rightarrow> u8 option \<times> rt_serial_device" where
  "hpm_uart_getc s =
     (case hw_rx_ready s of [] \<Rightarrow> (None, s) | b # bs \<Rightarrow> (Some b, s\<lparr>hw_rx_ready := bs\<rparr>))"

definition hpm_uart_receive_dma_next :: "rt_serial_device \<Rightarrow> rt_serial_device" where
  "hpm_uart_receive_dma_next s = s\<lparr>hw_dma_remaining := rx_idle_tmp_buffer_size, hw_dma_enabled := True\<rparr>"

definition hpm_uart_dma_config_rx :: "rt_serial_device \<Rightarrow> rt_serial_device" where
  "hpm_uart_dma_config_rx s = s\<lparr>hw_dma_remaining := rx_idle_tmp_buffer_size, hw_dma_enabled := True\<rparr>"

definition hpm_uart_dma_rx_init :: "bool \<Rightarrow> rt_serial_device \<Rightarrow> bool \<times> rt_serial_device" where
  "hpm_uart_dma_rx_init granted s =
     (if rx_resource_allocated s \<or> \<not> granted then (False, s)
      else (True, s\<lparr>dma_flags := dma_flags s OR RT_DEVICE_FLAG_DMA_RX, rx_resource_allocated := True\<rparr>))"

text \<open>The part of \<open>hpm_uart_config\<close> for \<open>uart3\<close>; \<open>granted\<close> tells whether a DMA channel is free.\<close>

definition hpm_uart_config_uart3 :: "bool \<Rightarrow> bool \<Rightarrow> rt_serial_device \<Rightarrow> rt_err \<times> rt_serial_device" where
  "hpm_uart_config_uart3 granted_rx granted_tx s =
     (let s = s\<lparr>rx_bufsz := BSP_UART3_RX_BUFSIZE, tx_bufsz := BSP_UART3_TX_BUFSIZE, dma_flags := 0\<rparr>;
          (status, s) = hpm_uart_dma_rx_init granted_rx s
      in if \<not> status then (RT_ERROR, s)
         else if \<not> granted_tx then (RT_ERROR, s)
         else (RT_EOK, s\<lparr>dma_flags := dma_flags s OR RT_DEVICE_FLAG_DMA_TX\<rparr>))"

text \<open>
  \<open>hpm_uart_control\<close> with \<open>RT_DEVICE_CTRL_CONFIG\<close> for the receiver: a FIFO that is not aligned to the
  cache lines is allocated anew. \<open>misaligned\<close> tells whether the first allocation was, \<open>pool\<close> is the
  content of the new one and \<open>junk\<close> that of the two completion fields, which are not initialised again.
\<close>

definition hpm_uart_control_config_rx ::
  "bool \<Rightarrow> (nat \<Rightarrow> u8) \<Rightarrow> bool \<times> nat \<Rightarrow> rt_serial_device \<Rightarrow> rt_serial_device" where
  "hpm_uart_control_config_rx misaligned pool junk s =
     (let s = (case serial_rx s of
          None \<Rightarrow> s
        | Some f \<Rightarrow>
            if misaligned \<or> buffer_size (rx_rb f) mod 64 \<noteq> 0
            then s\<lparr>serial_rx := Some \<lparr>rx_rb = rt_ringbuffer_reset (rt_ringbuffer_init pool (unat (rx_bufsz s))),
                                      rx_cpt = fst junk, rx_cpt_index = snd junk\<rparr>\<rparr>
            else s)
      in if has_flag (dma_flags s) RT_DEVICE_FLAG_DMA_RX then hpm_uart_dma_config_rx s else s)"

section \<open>The framework\<close>

definition rt_serial_update_write_index :: "rt_ringbuffer \<Rightarrow> nat \<Rightarrow> nat \<times> rt_ringbuffer" where
  "rt_serial_update_write_index rb write_size =
     (let size_n = rt_ringbuffer_space_len rb mod 65536;
          write_size = write_size mod 65536;
          write_size = (if size_n < write_size then size_n else write_size)
      in if write_size < buffer_size rb - write_index rb
         then (write_size, rb\<lparr>write_index := write_index rb + write_size\<rparr>)
         else (write_size, rb\<lparr>write_mirror := \<not> write_mirror rb,
                              write_index := write_size - (buffer_size rb - write_index rb)\<rparr>))"

fun serial_poll_rx :: "nat \<Rightarrow> rt_serial_device \<Rightarrow> bytes \<times> rt_serial_device" where
  "serial_poll_rx 0 s = ([], s)"
| "serial_poll_rx (Suc n) s =
     (case hpm_uart_getc s of
        (None, s) \<Rightarrow> ([], s)
      | (Some b, s) \<Rightarrow>
          if has_flag (open_flag s) RT_DEVICE_FLAG_STREAM \<and> b = 10 then ([b], s)
          else let (bs, s) = serial_poll_rx n s in (b # bs, s))"

fun serial_poll_tx :: "bytes \<Rightarrow> rt_serial_device \<Rightarrow> rt_serial_device" where
  "serial_poll_tx [] s = s"
| "serial_poll_tx (b # bs) s =
     (let s = (if has_flag (open_flag s) RT_DEVICE_FLAG_STREAM \<and> b = 10 then hpm_uart_putc 13 s else s)
      in serial_poll_tx bs (hpm_uart_putc b s))"

text \<open>A blocking read may suspend the caller: \<open>Rx_wait\<close>.\<close>

datatype rx_result = Rx_done bytes rt_serial_device | Rx_wait rt_serial_device

definition fifo_get :: "nat \<Rightarrow> rt_serial_rx_fifo \<Rightarrow> rt_serial_device \<Rightarrow> rx_result" where
  "fifo_get size_n f s =
     (let (bs, rb) = rt_ringbuffer_get (rx_rb f) size_n
      in Rx_done bs (s\<lparr>serial_rx := Some (f\<lparr>rx_rb := rb\<rparr>)\<rparr>))"

definition serial_fifo_rx :: "nat \<Rightarrow> rt_serial_device \<Rightarrow> rx_result" where
  "serial_fifo_rx size_n s =
     (if size_n = 0 then Rx_done [] s
      else case serial_rx s of
        None \<Rightarrow> Rx_done [] s
      | Some f \<Rightarrow>
          if has_flag (open_flag s) RT_SERIAL_RX_BLOCKING
          then if unat (rx_bufsz s) < size_n then Rx_done [] s
               else if rt_ringbuffer_data_len (rx_rb f) < size_n
               then Rx_wait (s\<lparr>serial_rx := Some (f\<lparr>rx_cpt_index := size_n mod 65536\<rparr>)\<rparr>)
               else fifo_get size_n f s
          else fifo_get size_n f s)"

definition rt_serial_rx_enable ::
  "bool \<Rightarrow> (nat \<Rightarrow> u8) \<Rightarrow> (nat \<Rightarrow> u8) \<Rightarrow> bool \<times> nat \<Rightarrow> u16 \<Rightarrow> rt_serial_device \<Rightarrow> rt_err \<times> rt_serial_device" where
  "rt_serial_rx_enable misaligned pool pool' junk rx_oflag s =
     (if rx_bufsz s = 0
      then if rx_oflag = RT_SERIAL_RX_NON_BLOCKING then (RT_EINVAL, s)
           else (RT_EOK, s\<lparr>dev_read := Some Serial_poll_rx, open_flag := open_flag s OR RT_SERIAL_RX_BLOCKING\<rparr>)
      else
        let s = (if rx_bufsz s < RT_SERIAL_RX_MINBUFSZ then s\<lparr>rx_bufsz := RT_SERIAL_RX_MINBUFSZ\<rparr> else s);
            rb = rt_ringbuffer_init pool (unat (rx_bufsz s));
            s = s\<lparr>serial_rx := Some \<lparr>rx_rb = rb, rx_cpt = fst junk, rx_cpt_index = snd junk\<rparr>,
                  dev_read := Some Serial_fifo_rx\<rparr>
        in if rx_oflag = RT_SERIAL_RX_NON_BLOCKING
           then (RT_EOK, hpm_uart_control_config_rx misaligned pool' junk
                   (s\<lparr>open_flag := open_flag s OR RT_SERIAL_RX_NON_BLOCKING\<rparr>))
           else (RT_EOK, hpm_uart_control_config_rx misaligned pool' junk
                   (s\<lparr>serial_rx := Some \<lparr>rx_rb = rb, rx_cpt = False, rx_cpt_index = 0\<rparr>,
                      open_flag := open_flag s OR RT_SERIAL_RX_BLOCKING\<rparr>)))"

text \<open>The branch of \<open>rt_serial_tx_enable\<close> for a device without transmit buffer.\<close>

definition rt_serial_tx_enable :: "u16 \<Rightarrow> rt_serial_device \<Rightarrow> rt_err \<times> rt_serial_device" where
  "rt_serial_tx_enable tx_oflag s =
     (if tx_oflag = RT_SERIAL_TX_NON_BLOCKING then (RT_EINVAL, s)
      else (RT_EOK, s\<lparr>dev_write := Some Serial_poll_tx, open_flag := open_flag s OR RT_SERIAL_TX_BLOCKING\<rparr>))"

definition rt_serial_init :: "rt_err \<Rightarrow> rt_serial_device \<Rightarrow> rt_err \<times> rt_serial_device" where
  "rt_serial_init configured s = (configured, s\<lparr>serial_rx := None\<rparr>)"

definition rt_serial_open ::
  "bool \<Rightarrow> (nat \<Rightarrow> u8) \<Rightarrow> (nat \<Rightarrow> u8) \<Rightarrow> bool \<times> nat \<Rightarrow> u16 \<Rightarrow> rt_serial_device \<Rightarrow> rt_err \<times> rt_serial_device" where
  "rt_serial_open misaligned pool pool' junk oflag s =
     (if has_flag (open_flag s) 0xF000 then (RT_EOK, s)
      else
        let s = s\<lparr>open_flag := open_flag s OR
              (if oflag AND RT_SERIAL_RX_BLOCKING = RT_SERIAL_RX_BLOCKING then RT_SERIAL_RX_BLOCKING
               else RT_SERIAL_RX_NON_BLOCKING)\<rparr>;
            s = s\<lparr>open_flag := open_flag s OR
              (if oflag AND RT_SERIAL_TX_NON_BLOCKING = RT_SERIAL_TX_NON_BLOCKING then RT_SERIAL_TX_NON_BLOCKING
               else RT_SERIAL_TX_BLOCKING)\<rparr>;
            s = (if has_flag oflag RT_DEVICE_FLAG_STREAM \<or> has_flag (open_flag s) RT_DEVICE_FLAG_STREAM
                 then s\<lparr>open_flag := open_flag s OR RT_DEVICE_FLAG_STREAM\<rparr> else s);
            s = (if serial_rx s = None
                 then snd (rt_serial_rx_enable misaligned pool pool' junk
                        (open_flag s AND (RT_SERIAL_RX_BLOCKING OR RT_SERIAL_RX_NON_BLOCKING)) s) else s);
            s = snd (rt_serial_tx_enable (open_flag s AND (RT_SERIAL_TX_BLOCKING OR RT_SERIAL_TX_NON_BLOCKING)) s)
        in (RT_EOK, s))"

section \<open>The device layer\<close>

definition RT_EBUSY :: rt_err where "RT_EBUSY = RT_EOTHER 7"

definition rt_device_open_serial ::
  "rt_err \<Rightarrow> bool \<Rightarrow> (nat \<Rightarrow> u8) \<Rightarrow> (nat \<Rightarrow> u8) \<Rightarrow> bool \<times> nat \<Rightarrow> u16 \<Rightarrow> rt_serial_device \<Rightarrow> rt_err \<times> rt_serial_device" where
  "rt_device_open_serial configured misaligned pool pool' junk oflag s =
     (let (result, s) = (if has_flag (dev_flag s) RT_DEVICE_FLAG_ACTIVATED then (RT_EOK, s)
          else let (result, s) = rt_serial_init configured s
               in (result, if result = RT_EOK then s\<lparr>dev_flag := dev_flag s OR RT_DEVICE_FLAG_ACTIVATED\<rparr> else s))
      in if result \<noteq> RT_EOK then (result, s)
         else if has_flag (dev_flag s) RT_DEVICE_FLAG_STANDALONE \<and> has_flag (open_flag s) RT_DEVICE_OFLAG_OPEN
         then (RT_EBUSY, s)
         else
           let (result, s) = (if \<not> has_flag (open_flag s) RT_DEVICE_OFLAG_OPEN
                 \<or> open_flag s AND RT_DEVICE_OFLAG_MASK \<noteq> oflag AND RT_DEVICE_OFLAG_MASK
               then rt_serial_open misaligned pool pool' junk oflag s else (RT_EOK, s))
           in (result, if result = RT_EOK \<or> result = RT_ENOSYS
                       then s\<lparr>open_flag := open_flag s OR RT_DEVICE_OFLAG_OPEN, ref_count := ref_count s + 1\<rparr> else s))"

definition rt_device_read_serial :: "nat \<Rightarrow> rt_serial_device \<Rightarrow> rx_result" where
  "rt_device_read_serial size_n s =
     (if ref_count s = 0 then Rx_done [] s
      else case dev_read s of
        None \<Rightarrow> Rx_done [] s
      | Some Serial_fifo_rx \<Rightarrow> serial_fifo_rx size_n s
      | Some Serial_poll_rx \<Rightarrow> (case serial_poll_rx size_n s of (bs, s) \<Rightarrow> Rx_done bs s))"

definition rt_device_write_serial :: "bytes \<Rightarrow> rt_serial_device \<Rightarrow> nat \<times> rt_serial_device" where
  "rt_device_write_serial buf s =
     (if ref_count s = 0 then (0, s)
      else case dev_write s of None \<Rightarrow> (0, s) | Some Serial_poll_tx \<Rightarrow> (length buf, serial_poll_tx buf s))"

definition rt_device_set_rx_indicate_serial :: "bool \<Rightarrow> rt_serial_device \<Rightarrow> rt_err \<times> rt_serial_device" where
  "rt_device_set_rx_indicate_serial rx_ind s = (RT_EOK, s\<lparr>rx_indicate := rx_ind\<rparr>)"

section \<open>Interrupts\<close>

text \<open>
  \<open>ind\<close> is the callback: it is given the number of bytes and may change the device, by reading it, and
  the state \<open>'u\<close> of its module. \<open>rx_len\<close> is the length in the upper bits of the event.
\<close>

type_synonym 'u rx_callback = "nat \<Rightarrow> rt_serial_device \<times> 'u \<Rightarrow> rt_serial_device \<times> 'u"

definition rt_hw_serial_isr_rx :: "'u rx_callback \<Rightarrow> nat \<Rightarrow> rt_serial_device \<times> 'u \<Rightarrow> rt_serial_device \<times> 'u" where
  "rt_hw_serial_isr_rx ind rx_len x =
     (let (s, u) = x in
      case serial_rx s of
        None \<Rightarrow> x
      | Some f \<Rightarrow>
          let f = (if rx_len \<noteq> 0 then f\<lparr>rx_rb := snd (rt_serial_update_write_index (rx_rb f) rx_len)\<rparr> else f);
              n = rt_ringbuffer_data_len (rx_rb f)
          in if n = 0 then (s\<lparr>serial_rx := Some f\<rparr>, u)
             else
               let f = (if has_flag (open_flag s) RT_SERIAL_RX_BLOCKING \<and> rx_cpt_index f \<noteq> 0 \<and> rx_cpt_index f \<le> n
                        then f\<lparr>rx_cpt_index := 0, rx_cpt := True\<rparr> else f);
                   s = s\<lparr>serial_rx := Some f\<rparr>
               in if rx_indicate s then ind n (s, u) else (s, u))"

definition uart_rx_done :: "'u rx_callback \<Rightarrow> rt_serial_device \<times> 'u \<Rightarrow> rt_serial_device \<times> 'u" where
  "uart_rx_done ind x =
     (let (s, u) = x; uart_recv_data_count = rx_idle_tmp_buffer_size - hw_dma_remaining s in
      case serial_rx s of
        None \<Rightarrow> x
      | Some f \<Rightarrow>
          let rb = snd (rt_ringbuffer_put (rx_rb f) (take uart_recv_data_count (rx_idle_tmp_buffer s)));
              (s, u) = rt_hw_serial_isr_rx ind 0 (s\<lparr>serial_rx := Some (f\<lparr>rx_rb := rb\<rparr>)\<rparr>, u)
          in (hpm_uart_receive_dma_next s, u))"

text \<open>The end of the DMA transfer.\<close>

definition uart_dma_tc_callback :: "'u rx_callback \<Rightarrow> rt_serial_device \<times> 'u \<Rightarrow> rt_serial_device \<times> 'u" where
  "uart_dma_tc_callback ind x = uart_rx_done ind x"

text \<open>
  The interrupt of the UART. The causes are the ones of the receiver; that of the transmitter is only
  enabled with a transmit buffer.
\<close>

datatype uart_intr_id = uart_intr_id_modem_stat | uart_intr_id_rx_data_avail | uart_intr_id_rx_timeout

definition rx_to_ring :: "nat \<Rightarrow> rt_serial_device \<Rightarrow> rt_serial_device" where
  "rx_to_ring n s =
     (case serial_rx s of None \<Rightarrow> s
      | Some f \<Rightarrow> s\<lparr>serial_rx := Some (f\<lparr>rx_rb := fold (\<lambda>c rb. snd (rt_ringbuffer_putchar rb c)) (take n (hw_rx_ready s)) (rx_rb f)\<rparr>),
                     hw_rx_ready := drop n (hw_rx_ready s)\<rparr>)"

definition hpm_uart_isr :: "uart_intr_id \<Rightarrow> 'u rx_callback \<Rightarrow> rt_serial_device \<times> 'u \<Rightarrow> rt_serial_device \<times> 'u" where
  "hpm_uart_isr irq_id ind x =
     (let (s, u) = x;
          s = (if irq_id = uart_intr_id_rx_data_avail then rx_to_ring 13 s else s);
          (s, u) = (if irq_id = uart_intr_id_rx_timeout
                    then rt_hw_serial_isr_rx ind 0 (rx_to_ring (length (hw_rx_ready s)) s, u) else (s, u))
      in if hw_rx_idle s
         then let (s, u) = (if rx_resource_allocated s \<and> 0 < hw_dma_remaining s then uart_rx_done ind (s, u) else (s, u))
              in (s\<lparr>hw_rx_idle := False\<rparr>, u)
         else (s, u))"

section \<open>A device that has been opened\<close>

text \<open>
  The state between two interrupts, and the bytes in the receive buffer.
\<close>

definition serial_ok :: "rt_serial_device \<Rightarrow> bool" where
  "serial_ok s \<longleftrightarrow> ref_count s \<noteq> 0 \<and> dev_read s = Some Serial_fifo_rx \<and> dev_write s = Some Serial_poll_tx
     \<and> \<not> has_flag (open_flag s) RT_SERIAL_RX_BLOCKING \<and> \<not> has_flag (open_flag s) RT_DEVICE_FLAG_STREAM
     \<and> rx_resource_allocated s \<and> length (rx_idle_tmp_buffer s) = 1024 \<and> hw_dma_remaining s \<le> 1024
     \<and> (\<exists>f. serial_rx s = Some f \<and> rb_fits 4096 (rx_rb f))"

definition serial_queue :: "rt_serial_device \<Rightarrow> bytes" where
  "serial_queue s = (case serial_rx s of None \<Rightarrow> [] | Some f \<Rightarrow> rb_queue (rx_rb f))"

text \<open>\<open>uart3\<close> before the driver is initialised: static variables.\<close>

definition uart3_static :: rt_serial_device where
  "uart3_static = \<lparr>dev_flag = RT_DEVICE_FLAG_RDWR, open_flag = 0, ref_count = 0, dev_read = None, dev_write = None,
     rx_indicate = False, rx_bufsz = 0, tx_bufsz = 0, serial_rx = None, dma_flags = 0, rx_resource_allocated = False,
     rx_idle_tmp_buffer = replicate 1024 0, hw_dma_remaining = 0, hw_dma_enabled = False, hw_rx_ready = [],
     hw_rx_idle = False, hw_tx_line = []\<rparr>"

text \<open>How the application opens it.\<close>

definition uart3_open :: "bool \<Rightarrow> (nat \<Rightarrow> u8) \<Rightarrow> (nat \<Rightarrow> u8) \<Rightarrow> bool \<times> nat \<Rightarrow> rt_err \<times> rt_serial_device" where
  "uart3_open misaligned pool pool' junk =
     rt_device_open_serial RT_EOK misaligned pool pool' junk (RT_DEVICE_FLAG_DMA_RX OR RT_DEVICE_FLAG_RDWR)
       (snd (hpm_uart_config_uart3 True True uart3_static))"

lemma buffer_4096: "rb_fits 4096 (rt_ringbuffer_init pool 4096)" "rb_queue (rt_ringbuffer_init pool 4096) = []"
  using init_spec [of 4096 pool] by simp_all

lemma buffer_4096_reset:
  "rb_fits 4096 (rt_ringbuffer_reset (rt_ringbuffer_init pool 4096))"
  "rb_queue (rt_ringbuffer_reset (rt_ringbuffer_init pool 4096)) = []"
  using reset_spec [of "rt_ringbuffer_init pool 4096"] buffer_4096 [of pool] by simp_all

lemma uart3_opened:
  obtains s where "uart3_open misaligned pool pool' junk = (RT_EOK, s)" "serial_ok s" "serial_queue s = []"
    "hw_dma_remaining s = 1024" "hw_tx_line s = []"
proof -
  have "fst (uart3_open misaligned pool pool' junk) = RT_EOK"
    "serial_ok (snd (uart3_open misaligned pool pool' junk))"
    "serial_queue (snd (uart3_open misaligned pool pool' junk)) = []"
    "hw_dma_remaining (snd (uart3_open misaligned pool pool' junk)) = 1024"
    "hw_tx_line (snd (uart3_open misaligned pool pool' junk)) = []"
    using buffer_4096 [of pool] buffer_4096_reset [of pool']
    by (simp_all add: uart3_open_def uart3_static_def rt_device_open_serial_def hpm_uart_config_uart3_def hpm_uart_dma_rx_init_def
        rt_serial_init_def rt_serial_open_def rt_serial_rx_enable_def rt_serial_tx_enable_def
        hpm_uart_control_config_rx_def hpm_uart_dma_config_rx_def has_flag_def serial_ok_def serial_queue_def Let_def dvr_const)
  then show thesis using that by (metis prod.collapse)
qed

lemma serial_read:
  assumes "serial_ok s"
  shows "\<exists>s'. rt_device_read_serial n s = Rx_done (take n (serial_queue s)) s' \<and> serial_ok s'
    \<and> serial_queue s' = drop n (serial_queue s) \<and> rx_indicate s' = rx_indicate s
    \<and> hw_dma_remaining s' = hw_dma_remaining s \<and> rx_idle_tmp_buffer s' = rx_idle_tmp_buffer s"
proof -
  obtain f where f: "serial_rx s = Some f" "rb_fits 4096 (rx_rb f)" using assms by (auto simp: serial_ok_def)
  obtain rb' where g: "rt_ringbuffer_get (rx_rb f) n = (take n (rb_queue (rx_rb f)), rb')" "rb_fits 4096 rb'"
      "rb_queue rb' = drop n (rb_queue (rx_rb f))"
    using rb.get_law [OF f(2), of n] by auto
  show ?thesis
  proof (cases "n = 0")
    case True
    then show ?thesis using assms f by (auto simp: rt_device_read_serial_def serial_fifo_rx_def serial_ok_def)
  next
    case False
    then show ?thesis
      using assms f g by (auto simp: rt_device_read_serial_def serial_fifo_rx_def fifo_get_def serial_ok_def serial_queue_def)
  qed
qed

lemma serial_write:
  assumes "serial_ok s"
  shows "rt_device_write_serial buf s = (length buf, s\<lparr>hw_tx_line := hw_tx_line s @ buf\<rparr>)"
proof -
  have "\<not> has_flag (open_flag t) RT_DEVICE_FLAG_STREAM \<Longrightarrow> serial_poll_tx buf t = t\<lparr>hw_tx_line := hw_tx_line t @ buf\<rparr>" for t
    by (induction buf arbitrary: t) (simp_all add: hpm_uart_putc_def Let_def)
  then show ?thesis using assms by (simp add: rt_device_write_serial_def serial_ok_def)
qed

end
