(* ===== verification/Uart_Line.thy ===== *)
theory Uart_Line
  imports Uart_Cmd Rt_Serial
begin

text \<open>
  The serial link from the line to the handlers: the serial device of the kernel with its driver
  (\<open>Rt_Serial\<close>) under the module of the application (\<open>Uart_Cmd\<close>). The device satisfies what the module
  relies on (locale \<open>byte_source\<close>), and the composition loses and reorders nothing, however the DMA
  transfers, the interrupts and the receive thread interleave, as long as at most 4096 bytes wait.
\<close>

section \<open>The device under the module\<close>

text \<open>
  \<open>rt_device_read\<close> as the module calls it, in the callback; the device is opened for non-blocking reads,
  so that the read never waits (lemma \<open>serial_read\<close>).
\<close>

definition serial_rd :: "nat \<Rightarrow> rt_serial_device \<Rightarrow> bytes \<times> rt_serial_device" where
  "serial_rd n s = (case rt_device_read_serial n s of Rx_done bs s' \<Rightarrow> (bs, s') | Rx_wait s' \<Rightarrow> ([], s'))"

text \<open>The opened device with the callback registered, \<open>k\<close> bytes left in the DMA transfer into \<open>buf\<close>.\<close>

definition serial_at :: "nat \<Rightarrow> bytes \<Rightarrow> rt_serial_device \<Rightarrow> bool" where
  "serial_at k buf s \<longleftrightarrow> serial_ok s \<and> rx_indicate s \<and> hw_dma_remaining s = k \<and> rx_idle_tmp_buffer s = buf"

interpretation serial: byte_source serial_rd serial_queue "serial_at k buf" for k buf
proof
  fix d n assume "serial_at k buf d"
  then show "\<exists>d'. serial_rd n d = (take n (serial_queue d), d') \<and> serial_at k buf d'
      \<and> serial_queue d' = drop n (serial_queue d)"
    using serial_read [of d n] by (auto simp: serial_rd_def serial_at_def)
qed

abbreviation uart_callback :: "nat \<Rightarrow> rt_serial_device \<times> ('b, 'a) uart \<Rightarrow> rt_serial_device \<times> ('b, 'a) uart" where
  "uart_callback \<equiv> app_uart_cmd_rx_indicate serial_rd"

section \<open>Interrupts and the receive thread\<close>

text \<open>
  What can happen: the DMA stores bytes of the line (as many as are left in the transfer at most), the
  transfer is complete, the line has become idle, the receive thread runs.
\<close>

datatype line_event = Line_bytes bytes | Dma_complete | Line_idle | Rx_thread

definition dma_store :: "bytes \<Rightarrow> rt_serial_device \<Rightarrow> rt_serial_device" where
  "dma_store bs s =
     (let p = 1024 - hw_dma_remaining s
      in s\<lparr>rx_idle_tmp_buffer := take p (rx_idle_tmp_buffer s) @ bs @ drop (p + length bs) (rx_idle_tmp_buffer s),
           hw_dma_remaining := hw_dma_remaining s - length bs\<rparr>)"

fun line_step :: "'b i2c_ops \<Rightarrow> line_event \<Rightarrow> rt_serial_device \<times> ('b, 'a) uart \<Rightarrow> rt_serial_device \<times> ('b, 'a) uart" where
  "line_step ops (Line_bytes bs) (s, u) = (dma_store bs s, u)"
| "line_step ops Dma_complete (s, u) =
     (if hw_dma_remaining s = 0 then uart_dma_tc_callback uart_callback (s, u) else (s, u))"
| "line_step ops Line_idle (s, u) = hpm_uart_isr uart_intr_id_modem_stat uart_callback (s\<lparr>hw_rx_idle := True\<rparr>, u)"
| "line_step ops Rx_thread (s, u) = (s, case app_usart_cmd_thread_pass ops u of None \<Rightarrow> u | Some u' \<Rightarrow> u')"

definition line_run :: "'b i2c_ops \<Rightarrow> line_event list \<Rightarrow> rt_serial_device \<times> ('b, 'a) uart \<Rightarrow> rt_serial_device \<times> ('b, 'a) uart" where
  "line_run ops es x = fold (line_step ops) es x"

fun event_bytes :: "line_event \<Rightarrow> bytes" where
  "event_bytes (Line_bytes bs) = bs"
| "event_bytes _ = []"

text \<open>The bytes that have come in and are not handled yet, oldest first.\<close>

definition waiting :: "rt_serial_device \<times> ('b, 'a) uart \<Rightarrow> bytes" where
  "waiting x = (case x of (s, u) \<Rightarrow> ring_queue (g_uart_cmd_rx_ring u) @ serial_queue s
     @ take (1024 - hw_dma_remaining s) (rx_idle_tmp_buffer s))"

text \<open>
  Schedules that fit: with \<open>p\<close> bytes waiting, \<open>d\<close> of them in the DMA buffer, a transfer is not exceeded
  and at most 4096 bytes wait.
\<close>

fun fits :: "nat \<Rightarrow> nat \<Rightarrow> line_event list \<Rightarrow> bool" where
  "fits p d [] = True"
| "fits p d (Line_bytes bs # es) =
     (d + length bs \<le> 1024 \<and> p + length bs \<le> 4096 \<and> fits (p + length bs) (d + length bs) es)"
| "fits p d (Dma_complete # es) = fits p (if d = 1024 then 0 else d) es"
| "fits p d (Line_idle # es) = fits p (if d < 1024 then 0 else d) es"
| "fits p d (Rx_thread # es) = fits d d es"

section \<open>One event\<close>

text \<open>The states between events.\<close>

definition line_ok :: "nat \<Rightarrow> nat \<Rightarrow> rt_serial_device \<times> ('b, 'a) uart \<Rightarrow> bool" where
  "line_ok p d x = (case x of (s, u) \<Rightarrow>
     serial_ok s \<and> rx_indicate s \<and> hw_dma_remaining s + d = 1024 \<and> serial_queue s = []
     \<and> ring_ok (g_uart_cmd_rx_ring u) \<and> length (ring_queue (g_uart_cmd_rx_ring u)) + d = p \<and> p \<le> 4096
     \<and> (g_uart_cmd_rx_sem u = 0 \<longrightarrow> ring_queue (g_uart_cmd_rx_ring u) = []))"

lemma rx_done_drains:
  assumes "serial_at k buf s" "serial_queue s = []" "k \<le> 1024" "ring_ok (g_uart_cmd_rx_ring u)"
    "length (ring_queue (g_uart_cmd_rx_ring u)) + (1024 - k) \<le> 4096"
  shows "\<exists>s' r. uart_rx_done uart_callback (s, u) = (s', u\<lparr>g_uart_cmd_rx_ring := r,
        g_uart_cmd_rx_sem := (if k < 1024 then rt_sem_release (g_uart_cmd_rx_sem u) else g_uart_cmd_rx_sem u)\<rparr>)
    \<and> serial_at 1024 buf s' \<and> serial_queue s' = [] \<and> ring_ok r
    \<and> ring_queue r = ring_queue (g_uart_cmd_rx_ring u) @ take (1024 - k) buf"
proof -
  obtain f where f: "serial_rx s = Some f" "rb_fits 4096 (rx_rb f)" "rb_queue (rx_rb f) = []"
    using assms(1,2) by (auto simp: serial_at_def serial_ok_def serial_queue_def)
  have k: "hw_dma_remaining s = k" "rx_idle_tmp_buffer s = buf" "length buf = 1024" "rx_indicate s"
    "\<not> has_flag (open_flag s) RT_SERIAL_RX_BLOCKING"
    using assms(1) by (auto simp: serial_at_def serial_ok_def)
  let ?bs = "take (1024 - k) buf"
  have "length (rb_queue (rx_rb f)) + length ?bs \<le> 4096" using f(3) by simp
  from rb.put_fits [OF f(2) this] obtain rb' where
    rb': "rt_ringbuffer_put (rx_rb f) ?bs = (length ?bs, rb')" "rb_fits 4096 rb'" "rb_queue rb' = ?bs"
    using f(3) by auto
  let ?s = "s\<lparr>serial_rx := Some (f\<lparr>rx_rb := rb'\<rparr>)\<rparr>"
  have at: "serial_at k buf ?s" "serial_queue ?s = ?bs"
    using assms(1) rb' by (auto simp: serial_at_def serial_ok_def serial_queue_def)
  have len: "rt_ringbuffer_data_len rb' = length ?bs" using arg_cong [OF rb'(3), of length] by simp
  have dn: "uart_rx_done uart_callback (s, u)
      = (case rt_hw_serial_isr_rx uart_callback 0 (?s, u) of (s', u') \<Rightarrow> (hpm_uart_receive_dma_next s', u'))"
    using f(1) k rb'(1) by (simp add: uart_rx_done_def Let_def dvr_const)
  have at': "serial_at 1024 buf (hpm_uart_receive_dma_next s') \<and> serial_queue (hpm_uart_receive_dma_next s') = serial_queue s'"
    if "serial_at k buf s'" for s'
    using that by (auto simp: hpm_uart_receive_dma_next_def serial_at_def serial_ok_def serial_queue_def dvr_const)
  show ?thesis
  proof (cases "k = 1024")
    case True
    then have "rt_hw_serial_isr_rx uart_callback 0 (?s, u) = (?s, u)"
      using len by (simp add: rt_hw_serial_isr_rx_def Let_def)
    then show ?thesis
      using True at at' [OF at(1)] assms(4) by (intro exI [of _ "hpm_uart_receive_dma_next ?s"] exI [of _ "g_uart_cmd_rx_ring u"]) (simp add: dn)
  next
    case False
    have "rt_hw_serial_isr_rx uart_callback 0 (?s, u) = uart_callback (length (serial_queue ?s)) (?s, u)"
      using len k False assms(3) at(2) by (simp add: rt_hw_serial_isr_rx_def Let_def)
    moreover obtain s' r where "uart_callback (length (serial_queue ?s)) (?s, u)
        = (s', u\<lparr>g_uart_cmd_rx_ring := r, g_uart_cmd_rx_sem := (if serial_queue ?s \<noteq> [] then rt_sem_release (g_uart_cmd_rx_sem u) else g_uart_cmd_rx_sem u)\<rparr>)"
        "serial_at k buf s'" "serial_queue s' = []" "ring_ok r"
        "ring_queue r = ring_queue (g_uart_cmd_rx_ring u) @ serial_queue ?s"
      using serial.rx_indicate_drains [OF at(1) refl assms(4)] assms(5) k(3) at(2) by auto
    moreover have "buf \<noteq> []" using k(3) by auto
    ultimately show ?thesis
      using False assms(3) at(2) k(3) at' [of s'] by (intro exI [of _ "hpm_uart_receive_dma_next s'"] exI [of _ r]) (simp add: dn)
  qed
qed

text \<open>The state of the module without its ring and semaphore, after handling what is waiting.\<close>

definition strip :: "('b, 'a) uart \<Rightarrow> ('b, 'a) uart" where
  "strip u = u\<lparr>g_uart_cmd_rx_ring := ring_zero, g_uart_cmd_rx_sem := 0\<rparr>"

definition handled :: "'b i2c_ops \<Rightarrow> rt_serial_device \<times> ('b, 'a) uart \<Rightarrow> ('b, 'a) uart" where
  "handled ops x = strip (fold (uart_byte ops) (waiting x) (snd x))"

lemma strip_upd: "strip (u\<lparr>g_uart_cmd_rx_ring := r, g_uart_cmd_rx_sem := n\<rparr>) = strip u"
  by (simp add: strip_def)

lemma strip_fold: "strip (fold (uart_byte ops) bs u) = fold (uart_byte ops) bs (strip u)"
  by (simp add: strip_def fold_uart_byte_upd)

lemma event_bytes_step:
  assumes "line_ok p d (s, u)" "d + length bs \<le> 1024" "p + length bs \<le> 4096"
  shows "line_ok (p + length bs) (d + length bs) (line_step ops (Line_bytes bs) (s, u))"
    "waiting (line_step ops (Line_bytes bs) (s, u)) = waiting (s, u) @ bs"
    "snd (line_step ops (Line_bytes bs) (s, u)) = u"
proof -
  have d: "1024 - hw_dma_remaining s = d" "1024 - (hw_dma_remaining s - length bs) = d + length bs"
    "length (rx_idle_tmp_buffer s) = 1024"
    using assms by (auto simp: line_ok_def serial_ok_def)
  show "line_ok (p + length bs) (d + length bs) (line_step ops (Line_bytes bs) (s, u))"
    using assms by (auto simp: line_ok_def serial_ok_def serial_queue_def dma_store_def Let_def)
  have "serial_queue (dma_store bs s) = serial_queue s" by (simp add: serial_queue_def dma_store_def Let_def)
  then show "waiting (line_step ops (Line_bytes bs) (s, u)) = waiting (s, u) @ bs"
    using d assms(2) by (simp add: waiting_def dma_store_def Let_def)
qed simp

text \<open>An interrupt that ends the transfer moves the bytes of the DMA buffer to the ring of the module.\<close>

lemma transfer_done:
  assumes "line_ok p d (s, u)"
  shows "line_ok p 0 (uart_rx_done uart_callback (s, u))"
    "waiting (uart_rx_done uart_callback (s, u)) = waiting (s, u)"
    "strip (snd (uart_rx_done uart_callback (s, u))) = strip u"
proof -
  let ?b = "rx_idle_tmp_buffer s" and ?k = "hw_dma_remaining s"
  have d: "1024 - ?k = d" "?k \<le> 1024" "length ?b = 1024" using assms by (auto simp: line_ok_def serial_ok_def)
  have at: "serial_at ?k ?b s" "serial_queue s = []" "ring_ok (g_uart_cmd_rx_ring u)"
    "length (ring_queue (g_uart_cmd_rx_ring u)) + (1024 - ?k) \<le> 4096"
    using assms by (auto simp: line_ok_def serial_at_def)
  obtain s' r where r: "uart_rx_done uart_callback (s, u) = (s', u\<lparr>g_uart_cmd_rx_ring := r,
        g_uart_cmd_rx_sem := (if ?k < 1024 then rt_sem_release (g_uart_cmd_rx_sem u) else g_uart_cmd_rx_sem u)\<rparr>)"
      "serial_at 1024 ?b s'" "serial_queue s' = []" "ring_ok r" "ring_queue r = ring_queue (g_uart_cmd_rx_ring u) @ take d ?b"
    using rx_done_drains [OF at(1,2) d(2) at(3,4)] unfolding d(1) by blast
  have l: "rcount r = rcount (g_uart_cmd_rx_ring u) + d"
    using arg_cong [OF r(5), of length] d by simp
  show "line_ok p 0 (uart_rx_done uart_callback (s, u))"
    using assms r l d by (auto simp: line_ok_def serial_at_def)
  show "waiting (uart_rx_done uart_callback (s, u)) = waiting (s, u)"
    using r(2,3,5) at(2) d by (simp add: waiting_def r(1) serial_at_def)
  show "strip (snd (uart_rx_done uart_callback (s, u))) = strip u" by (simp add: r(1) strip_upd)
qed

lemma idle_flag [simp]:
  "line_ok p d (s\<lparr>hw_rx_idle := i\<rparr>, u) = line_ok p d (s, u)" "waiting (s\<lparr>hw_rx_idle := i\<rparr>, u) = waiting (s, u)"
  by (simp_all add: line_ok_def serial_ok_def serial_queue_def waiting_def)

lemma idle_step:
  assumes "line_ok p d (s, u)"
  shows "line_ok p (if d < 1024 then 0 else d) (line_step ops Line_idle (s, u))"
    "waiting (line_step ops Line_idle (s, u)) = waiting (s, u)" "strip (snd (line_step ops Line_idle (s, u))) = strip u"
proof -
  let ?s = "s\<lparr>hw_rx_idle := True\<rparr>"
  have ok: "line_ok p d (?s, u)" using assms by simp
  have a: "rx_resource_allocated ?s" "0 < hw_dma_remaining ?s \<longleftrightarrow> d < 1024"
    using assms by (auto simp: line_ok_def serial_ok_def)
  obtain s' u' where x: "uart_rx_done uart_callback (?s, u) = (s', u')" by fastforce
  have step: "line_step ops Line_idle (s, u) = (if d < 1024 then (s'\<lparr>hw_rx_idle := False\<rparr>, u') else (?s\<lparr>hw_rx_idle := False\<rparr>, u))"
    using a x by (simp add: hpm_uart_isr_def Let_def)
  show "line_ok p (if d < 1024 then 0 else d) (line_step ops Line_idle (s, u))"
    "waiting (line_step ops Line_idle (s, u)) = waiting (s, u)" "strip (snd (line_step ops Line_idle (s, u))) = strip u"
    using transfer_done [OF ok] ok unfolding x step by auto
qed

lemma complete_step:
  assumes "line_ok p d (s, u)"
  shows "line_ok p (if d = 1024 then 0 else d) (line_step ops Dma_complete (s, u))"
    "waiting (line_step ops Dma_complete (s, u)) = waiting (s, u)" "strip (snd (line_step ops Dma_complete (s, u))) = strip u"
proof -
  have "hw_dma_remaining s = 0 \<longleftrightarrow> d = 1024" using assms by (auto simp: line_ok_def)
  then show "line_ok p (if d = 1024 then 0 else d) (line_step ops Dma_complete (s, u))"
    "waiting (line_step ops Dma_complete (s, u)) = waiting (s, u)" "strip (snd (line_step ops Dma_complete (s, u))) = strip u"
    using transfer_done [OF assms] assms by (auto simp: uart_dma_tc_callback_def)
qed

lemma thread_step:
  assumes "line_ok p d (s, u)"
  shows "line_ok d d (line_step ops Rx_thread (s, u))" "handled ops (line_step ops Rx_thread (s, u)) = handled ops (s, u)"
proof -
  let ?q = "ring_queue (g_uart_cmd_rx_ring u)" and ?t = "take (1024 - hw_dma_remaining s) (rx_idle_tmp_buffer s)"
  have ok: "ring_ok (g_uart_cmd_rx_ring u)" "serial_queue s = []" "d \<le> 1024"
    "g_uart_cmd_rx_sem u = 0 \<longrightarrow> ?q = []" using assms by (auto simp: line_ok_def)
  have "line_ok d d (line_step ops Rx_thread (s, u)) \<and> handled ops (line_step ops Rx_thread (s, u)) = handled ops (s, u)"
  proof (cases "g_uart_cmd_rx_sem u = 0")
    case True
    then have "line_step ops Rx_thread (s, u) = (s, u)" "rcount (g_uart_cmd_rx_ring u) = 0"
      using ok(4) by (simp add: app_usart_cmd_thread_pass_def, metis length_ring_queue list.size(3))
    then show ?thesis using assms by (auto simp: line_ok_def)
  next
    case False
    then have "0 < g_uart_cmd_rx_sem u" by simp
    from thread_pass_handles [OF ok(1) this, of ops] obtain r where r: "app_usart_cmd_thread_pass ops u
        = Some ((fold (uart_byte ops) ?q u)\<lparr>g_uart_cmd_rx_ring := r, g_uart_cmd_rx_sem := g_uart_cmd_rx_sem u - 1\<rparr>)"
        "ring_ok r" "ring_queue r = []" by blast
    moreover have "rcount r = 0" using arg_cong [OF r(3), of length] by simp
    ultimately show ?thesis
      using assms ok(2,3) by (simp add: line_ok_def handled_def waiting_def strip_fold strip_upd)
  qed
  then show "line_ok d d (line_step ops Rx_thread (s, u))"
    "handled ops (line_step ops Rx_thread (s, u)) = handled ops (s, u)" by simp_all
qed

lemma line_run_handled:
  "line_ok p d x \<Longrightarrow> fits p d es \<Longrightarrow> \<exists>p' d'. line_ok p' d' (line_run ops es x)
     \<and> handled ops (line_run ops es x) = fold (uart_byte ops) (concat (map event_bytes es)) (handled ops x)"
proof (induction es arbitrary: p d x)
  case Nil
  then show ?case by (auto simp: line_run_def)
next
  case (Cons e es)
  obtain s u where x: "x = (s, u)" by fastforce
  note ok = Cons.prems(1) [unfolded x]
  have run: "line_run ops (e # es) x = line_run ops es (line_step ops e x)" for e by (simp add: line_run_def)
  have "\<exists>p' d'. line_ok p' d' (line_step ops e x) \<and> fits p' d' es
      \<and> handled ops (line_step ops e x) = fold (uart_byte ops) (event_bytes e) (handled ops x)"
  proof (cases e)
    case (Line_bytes bs)
    then show ?thesis
      using event_bytes_step [OF ok, of bs ops] Cons.prems(2) by (auto simp: x handled_def strip_fold)
  next
    case Dma_complete
    then show ?thesis using complete_step [OF ok, of ops] Cons.prems(2) unfolding x handled_def strip_fold
      by (intro exI [of _ p] exI [of _ "if d = 1024 then 0 else d"]) (simp del: line_step.simps)
  next
    case Line_idle
    then show ?thesis using idle_step [OF ok, of ops] Cons.prems(2) unfolding x handled_def strip_fold
      by (intro exI [of _ p] exI [of _ "if d < 1024 then 0 else d"]) (simp del: line_step.simps)
  next
    case Rx_thread
    then show ?thesis using thread_step [OF ok, of ops] Cons.prems(2) unfolding x
      by (intro exI [of _ d]) (simp del: line_step.simps)
  qed
  then obtain p' d' where e: "line_ok p' d' (line_step ops e x)" "fits p' d' es"
      "handled ops (line_step ops e x) = fold (uart_byte ops) (event_bytes e) (handled ops x)" by blast
  from Cons.IH [OF e(1,2)] show ?case unfolding run by (simp add: e(3))
qed

lemma quiet_nothing_waits:
  assumes "line_ok p d x" "d < 1024"
  shows "waiting (line_run ops [Line_idle, Rx_thread] x) = []"
proof -
  obtain s u where x: "x = (s, u)" by fastforce
  obtain s' u' where y: "line_step ops Line_idle (s, u) = (s', u')" by fastforce
  have "line_ok p 0 (s', u')" using idle_step(1) [of p d s u ops] assms unfolding x y by simp
  then have "line_ok 0 0 (line_step ops Rx_thread (s', u'))" by (rule thread_step(1))
  then show ?thesis
    by (auto simp: line_run_def x y line_ok_def waiting_def ring_queue_def simp del: line_step.simps split: prod.splits)
qed

section \<open>Properties\<close>

text \<open>
  C4: nothing is lost or reordered between the line and the handlers. On the device as the application
  opens it, whatever memory its buffers got, with any interleaving of bytes stored by the DMA, transfer-complete
  and idle-line interrupts and runs of the receive thread in which at most 4096 bytes wait: the handled
  bytes and the bytes still waiting, in this order, are the bytes of the line, the thread has its
  semaphore whenever the ring holds bytes, and once the line is idle and the thread has run nothing waits.
\<close>

theorem uart_line_to_handlers:
  assumes "uart3_open misaligned pool pool' junk = (RT_EOK, s)"
    and "ring_ok (g_uart_cmd_rx_ring u)" "ring_queue (g_uart_cmd_rx_ring u) = []" "fits 0 0 es"
  shows "case line_run ops es (snd (rt_device_set_rx_indicate_serial True s), u) of (s', u') \<Rightarrow>
    strip (fold (uart_byte ops) (waiting (s', u')) u') = strip (fold (uart_byte ops) (concat (map event_bytes es)) u)
    \<and> (g_uart_cmd_rx_sem u' = 0 \<longrightarrow> ring_queue (g_uart_cmd_rx_ring u') = [])
    \<and> (0 < hw_dma_remaining s' \<longrightarrow> waiting (line_run ops [Line_idle, Rx_thread] (s', u')) = [])"
proof -
  let ?s = "snd (rt_device_set_rx_indicate_serial True s)"
  have o: "serial_ok s" "serial_queue s = []" "hw_dma_remaining s = 1024"
    using uart3_opened [of misaligned pool pool' junk] assms(1) by (metis prod.inject)+
  moreover have "rcount (g_uart_cmd_rx_ring u) = 0" using assms(3) by (metis length_ring_queue list.size(3))
  ultimately have ok: "line_ok 0 0 (?s, u)"
    using assms(2,3)
    by (simp add: line_ok_def serial_ok_def serial_queue_def rt_device_set_rx_indicate_serial_def)
  have h: "handled ops (?s, u) = strip u"
    using o assms(3) by (simp add: handled_def waiting_def rt_device_set_rx_indicate_serial_def serial_queue_def)
  obtain p d s' u' where r: "line_run ops es (?s, u) = (s', u')" "line_ok p d (s', u')"
      "handled ops (s', u') = fold (uart_byte ops) (concat (map event_bytes es)) (strip u)"
    using line_run_handled [OF ok assms(4), of ops] unfolding h by (metis surj_pair)
  have "0 < hw_dma_remaining s' \<Longrightarrow> d < 1024" "g_uart_cmd_rx_sem u' = 0 \<Longrightarrow> ring_queue (g_uart_cmd_rx_ring u') = []"
    using r(2) by (auto simp: line_ok_def)
  then show ?thesis using r quiet_nothing_waits [OF r(2)] by (simp add: handled_def strip_fold)
qed

theorem uart_line_to_handlers_witness:
  "\<exists>s s' u'. uart3_open True (\<lambda>_. 0) (\<lambda>_. 255) (True, 7) = (RT_EOK, s)
    \<and> line_run at24_ops [Line_bytes [1, 0xAA], Line_idle, Line_bytes (replicate 1024 3), Rx_thread, Dma_complete]
        (snd (rt_device_set_rx_indicate_serial True s), uart_static storage_blank) = (s', u')
    \<and> strip (fold (uart_byte at24_ops) (waiting (s', u')) u')
      = strip (fold (uart_byte at24_ops) ([1, 0xAA] @ replicate 1024 3) (uart_static storage_blank))"
proof -
  obtain s where s: "uart3_open True (\<lambda>_. 0) (\<lambda>_. 255) (True, 7) = (RT_EOK, s)" by (rule uart3_opened)
  let ?es = "[Line_bytes [1, 0xAA], Line_idle, Line_bytes (replicate 1024 3), Rx_thread, Dma_complete]"
  have r: "ring_ok (g_uart_cmd_rx_ring (uart_static storage_blank))" "ring_queue (g_uart_cmd_rx_ring (uart_static storage_blank)) = []"
    by (simp_all add: uart_static_def ring_zero_ok)
  have f: "fits 0 0 ?es" by simp
  obtain s' u' where x: "line_run at24_ops ?es (snd (rt_device_set_rx_indicate_serial True s), uart_static storage_blank) = (s', u')"
    by fastforce
  from uart_line_to_handlers [OF s r f, of at24_ops] show ?thesis using s x by (auto simp: fold_append [symmetric] simp del: fold_append)
qed

section \<open>Transmission\<close>

text \<open>What the module writes goes out on the line unchanged.\<close>

theorem uart_tx_on_line:
  assumes "serial_ok s"
  shows "fold (\<lambda>f s. snd (rt_device_write_serial f s)) fs s = s\<lparr>hw_tx_line := hw_tx_line s @ concat fs\<rparr>"
proof -
  have "serial_ok (s\<lparr>hw_tx_line := l\<rparr>) = serial_ok s" for s l by (simp add: serial_ok_def)
  then show ?thesis using assms by (induction fs arbitrary: s) (simp_all add: serial_write)
qed

end
