(* ===== verification/Rt_Can.thy ===== *)
theory Rt_Can
  imports App_Can
begin

unbundle bit_operations_syntax

text \<open>
  The CAN devices under the application: the framework of the kernel
  (\<open>src/rt-thread/components/drivers/can/can.c\<close>) with its receive boxes, and the controller's driver
  (\<open>src/libraries/drivers/drv_mcan.c\<close>), in the configuration of \<open>rtconfig.h\<close> (\<open>RT_CAN_USING_HDR\<close>,
  \<open>RT_CAN_USING_CANFD\<close>).

  The receive boxes are a fixed array. A box is on the free or on the use list and, while it holds a
  message, on the list of the header it belongs to; the doubly linked lists are lists of box numbers
  (\<open>rt_list_insert_before\<close> on the head appends, \<open>rt_list_remove\<close> deletes). An assertion that fails stops
  the system: the interrupt gives \<open>None\<close>. The controller's receive FIFO is the list of frames in it.
  The allocations of \<open>rt_can_open\<close> succeed.
\<close>

section \<open>Data\<close>

record rt_can_rx_fifo =
  box_data :: "rt_can_msg list"
  box_owner :: "nat option list"
  freelist :: "nat list"
  uselist :: "nat list"
  freenumbers :: nat

record rt_can_hdr =
  connected :: bool
  msgs :: nat
  filter_ind :: bool
  hdr_list :: "nat list"

text \<open>A frame in the memory of the controller.\<close>

record mcan_frame =
  use_ext_id :: bool
  ext_id :: "29 word"
  std_id :: "11 word"
  frame_rtr :: bool
  dlc :: "4 word"
  data_8 :: bytes

datatype snd_result = RT_CAN_SND_RESULT_OK | RT_CAN_SND_RESULT_ERR | RT_CAN_SND_RESULT_WAIT

record rt_can_tx_fifo =
  snd_buffer :: "snd_result list"
  tx_sem :: nat
  tx_freelist :: "nat list"

record rt_can_device =
  can_open_flag :: u16
  can_ref_count :: u8
  can_rx_indicate :: bool
  msgboxsz :: nat
  maxhdr :: nat
  can_rx :: "rt_can_rx_fifo option"
  can_tx :: "rt_can_tx_fifo option"
  hdr :: "rt_can_hdr list option"
  sndboxnumber :: nat
  sndpkg :: u32
  dropedsndpkg :: u32
  rcvpkg :: u32
  dropedrcvpkg :: u32
  fifo_index :: nat
  hw_rxfifo0 :: "mcan_frame list"

definition RT_DEVICE_FLAG_INT_RX :: u16 where [dvr_const]: "RT_DEVICE_FLAG_INT_RX = 0x100"
definition RT_DEVICE_FLAG_INT_TX :: u16 where [dvr_const]: "RT_DEVICE_FLAG_INT_TX = 0x400"
definition CAN_SEND_WAIT_MS_MAX :: nat where [dvr_const]: "CAN_SEND_WAIT_MS_MAX = 1000"
definition RT_CANMSG_BOX_SZ :: nat where [dvr_const]: "RT_CANMSG_BOX_SZ = 16"

definition msg_zero :: rt_can_msg where
  "msg_zero = \<lparr>msg_id = 0, msg_ide = False, msg_rtr = False, msg_len = 0, msg_hdr_index = 0, msg_data = replicate 64 0\<rparr>"

definition hdr_zero :: rt_can_hdr where
  "hdr_zero = \<lparr>connected = False, msgs = 0, filter_ind = False, hdr_list = []\<rparr>"

section \<open>Frames\<close>

definition mcan_get_message_size_from_dlc :: "nat \<Rightarrow> nat" where
  "mcan_get_message_size_from_dlc d =
     (if d \<le> 8 then d else if d \<le> 12 then 8 + (d - 8) * 4 else 32 + (d - 13) * 16)"

text \<open>
  \<open>hpm_mcan_sendmsg\<close> up to the transfer to the controller; \<open>None\<close> when the assertion on the length fails.
  The application sends no CAN FD frames.
\<close>

definition mcan_tx_frame :: "rt_can_msg \<Rightarrow> mcan_frame option" where
  "mcan_tx_frame m =
     (if 8 < msg_len m then None
      else
        let n = mcan_get_message_size_from_dlc (unat (msg_len m))
        in Some \<lparr>use_ext_id = msg_ide m, ext_id = (if msg_ide m then msg_id m else 0),
                 std_id = (if msg_ide m then 0 else ucast (msg_id m)), frame_rtr = msg_rtr m,
                 dlc = ucast (msg_len m), data_8 = take n (msg_data m) @ replicate (64 - n) 0\<rparr>)"

text \<open>
  \<open>hpm_mcan_recvmsg\<close>: the result and the message as it is left in the buffer of the caller, which
  holds \<open>junk\<close> before. An empty FIFO is reported as \<open>-RT_EEMPTY\<close>, that is -4.
\<close>

definition mcan_rx_msg :: "nat \<Rightarrow> rt_can_msg \<Rightarrow> mcan_frame \<Rightarrow> rt_can_msg" where
  "mcan_rx_msg boxno junk f =
     (let n = mcan_get_message_size_from_dlc (unat (dlc f))
      in \<lparr>msg_id = (if use_ext_id f then ext_id f else ucast (std_id f)), msg_ide = use_ext_id f,
          msg_rtr = frame_rtr f, msg_len = ucast (dlc f), msg_hdr_index = of_nat boxno,
          msg_data = take n (data_8 f) @ drop n (msg_data junk)\<rparr>)"

definition upd_hdr :: "nat \<Rightarrow> (rt_can_hdr \<Rightarrow> rt_can_hdr) \<Rightarrow> rt_can_device \<Rightarrow> rt_can_device" where
  "upd_hdr i g can = can\<lparr>hdr := map_option (\<lambda>hs. hs[i := g (hs ! i)]) (hdr can)\<rparr>"

definition hpm_mcan_recvmsg :: "rt_can_msg \<Rightarrow> nat \<Rightarrow> rt_can_device \<Rightarrow> int \<times> rt_can_msg \<times> rt_can_device" where
  "hpm_mcan_recvmsg junk boxno can =
     (case hw_rxfifo0 can of
        [] \<Rightarrow> (-4, junk, can)
      | f # fs \<Rightarrow> (0, mcan_rx_msg boxno junk f,
                  upd_hdr boxno (\<lambda>h. h\<lparr>connected := True\<rparr>) (can\<lparr>hw_rxfifo0 := fs\<rparr>)))"

section \<open>The receive boxes\<close>

text \<open>
  The steps both sides share. Detaching a box takes it off the list of its header and counts it there;
  removing a node that is on no header list changes nothing.
\<close>

definition detach_box :: "nat \<Rightarrow> rt_can_rx_fifo \<Rightarrow> rt_can_device \<Rightarrow> rt_can_rx_fifo \<times> rt_can_device" where
  "detach_box b f can =
     (case box_owner f ! b of
        None \<Rightarrow> (f, can)
      | Some i \<Rightarrow> (f\<lparr>box_owner := (box_owner f)[b := None]\<rparr>,
                  upd_hdr i (\<lambda>h. h\<lparr>hdr_list := remove1 b (hdr_list h), msgs := msgs h - 1\<rparr>) can))"

definition free_box :: "nat \<Rightarrow> rt_can_rx_fifo \<Rightarrow> rt_can_device \<Rightarrow> rt_can_msg \<times> rt_can_device" where
  "free_box b f can =
     (box_data f ! b, can\<lparr>can_rx := Some (f\<lparr>freelist := freelist f @ [b], freenumbers := freenumbers f + 1\<rparr>)\<rparr>)"

text \<open>One turn of the loop of \<open>_can_int_rx\<close>; \<open>hdr_no\<close> is the \<open>hdr_index\<close> the caller put into the message.\<close>

definition hdr_first :: "int \<Rightarrow> rt_can_device \<Rightarrow> nat option" where
  "hdr_first hdr_no can =
     (case hdr can of
        None \<Rightarrow> None
      | Some hs \<Rightarrow> if 0 \<le> hdr_no \<and> hdr_no < int (maxhdr can) \<and> hdr_list (hs ! nat hdr_no) \<noteq> []
                  then Some (hd (hdr_list (hs ! nat hdr_no))) else None)"

definition can_int_rx_one :: "int \<Rightarrow> rt_can_device \<Rightarrow> (rt_can_msg \<times> rt_can_device) option" where
  "can_int_rx_one hdr_no can =
     (case can_rx can of
        None \<Rightarrow> None
      | Some f \<Rightarrow>
          (case hdr_first hdr_no can of
             Some b \<Rightarrow>
               let f = f\<lparr>uselist := remove1 b (uselist f), box_owner := (box_owner f)[b := None]\<rparr>;
                   can = upd_hdr (nat hdr_no) (\<lambda>h. h\<lparr>hdr_list := remove1 b (hdr_list h), msgs := msgs h - 1\<rparr>) can
               in Some (free_box b f can)
           | None \<Rightarrow>
               if hdr_no = -1 \<and> uselist f \<noteq> []
               then let b = hd (uselist f);
                        (f, can) = detach_box b (f\<lparr>uselist := tl (uselist f)\<rparr>) can
                    in Some (free_box b f can)
               else None))"

text \<open>The caller's array is given by the \<open>hdr_index\<close> of its messages; the result is what was read.\<close>

fun can_int_rx :: "int list \<Rightarrow> rt_can_device \<Rightarrow> rt_can_msg list \<times> rt_can_device" where
  "can_int_rx [] can = ([], can)"
| "can_int_rx (h # hs) can =
     (case can_int_rx_one h can of
        None \<Rightarrow> ([], can)
      | Some (m, can) \<Rightarrow> let (ms, can) = can_int_rx hs can in (m # ms, can))"

definition rt_can_read :: "int list \<Rightarrow> rt_can_device \<Rightarrow> rt_can_msg list \<times> rt_can_device" where
  "rt_can_read hs can =
     (if can_open_flag can AND RT_DEVICE_FLAG_INT_RX \<noteq> 0 \<and> 0 < can_ref_count can
      then can_int_rx hs can else ([], can))"

definition rt_can_open :: "u16 \<Rightarrow> rt_can_device \<Rightarrow> rt_err \<times> rt_can_device" where
  "rt_can_open oflag can =
     (let can = can\<lparr>can_open_flag := oflag AND 0xff\<rparr>;
          can = (if can_rx can = None \<and> oflag AND RT_DEVICE_FLAG_INT_RX \<noteq> 0
                 then can\<lparr>can_rx := Some \<lparr>box_data = replicate (msgboxsz can) msg_zero,
                              box_owner = replicate (msgboxsz can) None, freelist = [0..<msgboxsz can],
                              uselist = [], freenumbers = msgboxsz can\<rparr>,
                          can_open_flag := can_open_flag can OR RT_DEVICE_FLAG_INT_RX\<rparr>
                 else can);
          can = (if can_tx can = None \<and> oflag AND RT_DEVICE_FLAG_INT_TX \<noteq> 0
                 then can\<lparr>can_tx := Some \<lparr>snd_buffer = replicate (sndboxnumber can) RT_CAN_SND_RESULT_OK,
                              tx_sem = sndboxnumber can, tx_freelist = [0..<sndboxnumber can]\<rparr>,
                          can_open_flag := can_open_flag can OR RT_DEVICE_FLAG_INT_TX\<rparr>
                 else can);
          can = (if hdr can = None then can\<lparr>hdr := Some (replicate (maxhdr can) hdr_zero)\<rparr> else can)
      in (RT_EOK, can))"

text \<open>
  The box for a new message: a free one, or the oldest in use, which is dropped. The assertions that
  compare \<open>freenumbers\<close> with its bounds are not written out: \<open>boxes_ok\<close> below says that it is the length
  of the free list.
\<close>

definition take_box :: "rt_can_rx_fifo \<Rightarrow> rt_can_device \<Rightarrow> (nat \<times> rt_can_rx_fifo \<times> rt_can_device) option" where
  "take_box f can =
     (if freelist f \<noteq> []
      then let b = hd (freelist f);
               (f, can) = detach_box b (f\<lparr>freelist := tl (freelist f), freenumbers := freenumbers f - 1\<rparr>) can
           in Some (b, f, can)
      else if uselist f \<noteq> []
      then let b = hd (uselist f);
               (f, can) = detach_box b (f\<lparr>uselist := tl (uselist f)\<rparr>) (can\<lparr>dropedrcvpkg := dropedrcvpkg can + 1\<rparr>)
           in Some (b, f, can)
      else None)"

definition store_msg :: "nat \<Rightarrow> rt_can_msg \<Rightarrow> rt_can_rx_fifo \<Rightarrow> rt_can_device \<Rightarrow> rt_can_device option" where
  "store_msg b m f can =
     (let f = f\<lparr>box_data := (box_data f)[b := m], uselist := uselist f @ [b]\<rparr>;
          i = sint (msg_hdr_index m)
      in case hdr can of
           None \<Rightarrow> Some (can\<lparr>can_rx := Some f\<rparr>)
         | Some hs \<Rightarrow>
             if \<not> (0 \<le> i \<and> i < int (maxhdr can)) then None
             else if connected (hs ! nat i)
             then Some (upd_hdr (nat i) (\<lambda>h. h\<lparr>hdr_list := hdr_list h @ [b], msgs := msgs h + 1\<rparr>)
                    (can\<lparr>can_rx := Some (f\<lparr>box_owner := (box_owner f)[b := Some (nat i)]\<rparr>)\<rparr>))
             else Some (can\<lparr>can_rx := Some f\<rparr>))"

definition box_in :: "rt_can_rx_fifo \<Rightarrow> rt_can_msg \<Rightarrow> rt_can_device \<Rightarrow> rt_can_device option" where
  "box_in f m can =
     (case take_box f can of None \<Rightarrow> Some can | Some (b, f, can) \<Rightarrow> store_msg b m f can)"

text \<open>
  \<open>rt_hw_can_isr\<close> for a receive event: the device afterwards and whether the callback of the application
  is called. \<open>RXOF\<close> events count a drop first and fall through.
\<close>

definition rt_hw_can_isr_rx :: "bool \<Rightarrow> nat \<Rightarrow> rt_can_msg \<Rightarrow> rt_can_device \<Rightarrow> (bool \<times> rt_can_device) option" where
  "rt_hw_can_isr_rx rxof no junk can =
     (let can = (if rxof then can\<lparr>dropedrcvpkg := dropedrcvpkg can + 1\<rparr> else can) in
      case can_rx can of
        None \<Rightarrow> None
      | Some f \<Rightarrow>
          if can_open_flag can AND RT_DEVICE_FLAG_INT_RX = 0 then None
          else
            let (ch, tmpmsg, can) = hpm_mcan_recvmsg junk no can in
            if ch = -1 then Some (False, can)
            else
              let can = can\<lparr>rcvpkg := rcvpkg can + 1\<rparr>;
                  stored = box_in f tmpmsg can
              in case stored of
                   None \<Rightarrow> None
                 | Some can \<Rightarrow>
                     let i = nat (sint (msg_hdr_index tmpmsg));
                         own = (case hdr can of None \<Rightarrow> False | Some hs \<Rightarrow> connected (hs ! i) \<and> filter_ind (hs ! i));
                         n = (case can_rx can of None \<Rightarrow> 0 | Some f \<Rightarrow> length (uselist f))
                     in Some (\<not> own \<and> can_rx_indicate can \<and> 0 < n, can))"

text \<open>\<open>hpm_mcan_isr\<close> for a new message in FIFO 0, and for a full FIFO.\<close>

definition hpm_mcan_isr_rx :: "rt_can_msg \<Rightarrow> rt_can_device \<Rightarrow> (bool \<times> rt_can_device) option" where
  "hpm_mcan_isr_rx junk can = rt_hw_can_isr_rx False (fifo_index can) junk can"

definition hpm_mcan_isr_full :: "rt_can_msg \<Rightarrow> rt_can_device \<Rightarrow> (bool \<times> rt_can_device) option" where
  "hpm_mcan_isr_full junk can = rt_hw_can_isr_rx True (fifo_index can) junk can"

text \<open>The devices as \<open>rt_hw_mcan_init\<close> registers them; \<open>can0\<close> has the FIFO index 0 and \<open>can2\<close> has 2.\<close>

definition mcan_device :: "nat \<Rightarrow> rt_can_device" where
  "mcan_device i = \<lparr>can_open_flag = 0, can_ref_count = 0, can_rx_indicate = False, msgboxsz = RT_CANMSG_BOX_SZ, maxhdr = 32,
     can_rx = None, can_tx = None, hdr = None, sndboxnumber = 1, sndpkg = 0, dropedsndpkg = 0, rcvpkg = 0, dropedrcvpkg = 0, fifo_index = i, hw_rxfifo0 = []\<rparr>"

text \<open>
  The header side of \<open>RT_CAN_CMD_SET_FILTER\<close> with an active filter: each item names a header by its
  \<open>hdr_bank\<close>. Both items of the application have -1.
\<close>

definition connect_hdr :: "int \<Rightarrow> rt_can_device \<Rightarrow> rt_can_device" where
  "connect_hdr bank can =
     (if int (maxhdr can) \<le> bank \<or> bank < 0 then can
      else upd_hdr (nat bank) (\<lambda>h. if connected h then h else h\<lparr>connected := True, msgs := 0, hdr_list := []\<rparr>) can)"

definition rt_can_set_filter :: "int list \<Rightarrow> rt_can_device \<Rightarrow> rt_can_device" where
  "rt_can_set_filter banks can = (if hdr can = None then can else fold connect_hdr banks can)"

definition g_can_filter_banks :: "int list" where
  "g_can_filter_banks = [-1, -1]"

text \<open>The device after \<open>app_can_config_node\<close>; the flag 8 is the open flag set by \<open>rt_device_open\<close>.\<close>

definition can_opened :: "nat \<Rightarrow> rt_can_device" where
  "can_opened i =
     (let can = snd (rt_can_open 0x500 (mcan_device i));
          can = rt_can_set_filter g_can_filter_banks (can\<lparr>can_open_flag := can_open_flag can OR 8, can_ref_count := 1\<rparr>)
      in can\<lparr>can_rx_indicate := True\<rparr>)"

section \<open>Transmission\<close>

text \<open>
  What the controller does with one frame: whether its transmit FIFO is full at each poll, whether the
  transmit buffer takes the frame, and whether it ever reports the transmission complete. It does not
  when no other node acknowledges the frame.
\<close>

record mcan_tx_hw =
  mcan_is_txfifo_full :: "nat \<Rightarrow> bool"
  txbuf_success :: bool
  tx_completed :: bool

function wait_txfifo :: "(nat \<Rightarrow> bool) \<Rightarrow> nat \<Rightarrow> rt_err" where
  "wait_txfifo full delay_cnt =
     (if \<not> full delay_cnt then RT_EOK
      else if CAN_SEND_WAIT_MS_MAX \<le> delay_cnt + 1 then RT_EOTHER (-2)
      else wait_txfifo full (delay_cnt + 1))"
  by pat_completeness auto
termination by (relation "measure (\<lambda>(_, n). CAN_SEND_WAIT_MS_MAX - n)") auto

declare wait_txfifo.simps [simp del]

definition hpm_mcan_sendmsg :: "mcan_tx_hw \<Rightarrow> rt_can_msg \<Rightarrow> (rt_err \<times> mcan_frame option) option" where
  "hpm_mcan_sendmsg hw m =
     (case mcan_tx_frame m of
        None \<Rightarrow> None
      | Some fr \<Rightarrow>
          let r = wait_txfifo (mcan_is_txfifo_full hw) 0 in
          if r \<noteq> RT_EOK then Some (r, None)
          else if \<not> txbuf_success hw then Some (RT_EOTHER (-3), None)
          else Some (RT_EOK, Some fr))"

text \<open>\<open>rt_hw_can_isr\<close> for the events of a send box, and \<open>hpm_mcan_isr\<close> for a completed transmission.\<close>

definition rt_hw_can_isr_tx :: "bool \<Rightarrow> nat \<Rightarrow> rt_can_tx_fifo \<Rightarrow> rt_can_tx_fifo" where
  "rt_hw_can_isr_tx tx_done no t =
     t\<lparr>snd_buffer := (snd_buffer t)[no := (if tx_done then RT_CAN_SND_RESULT_OK else RT_CAN_SND_RESULT_ERR)]\<rparr>"

definition hpm_mcan_isr_tx :: "rt_can_tx_fifo \<Rightarrow> rt_can_tx_fifo" where
  "hpm_mcan_isr_tx t = rt_hw_can_isr_tx True 0 t"

text \<open>
  \<open>_can_int_tx\<close> for one message: the bytes accepted (72 is the size of a message), the device, and the
  frame on the bus. \<open>None\<close>: an assertion fails, or the call waits for ever, for a send box or for the completion.
\<close>

definition can_int_tx :: "mcan_tx_hw \<Rightarrow> rt_can_msg \<Rightarrow> rt_can_device \<Rightarrow> (int \<times> rt_can_device \<times> mcan_frame option) option" where
  "can_int_tx hw m can =
     (case can_tx can of
        None \<Rightarrow> None
      | Some t \<Rightarrow>
          if tx_sem t = 0 \<or> tx_freelist t = [] then None
          else
            let no = hd (tx_freelist t);
                t = t\<lparr>tx_sem := tx_sem t - 1, tx_freelist := tl (tx_freelist t),
                      snd_buffer := (snd_buffer t)[no := RT_CAN_SND_RESULT_WAIT]\<rparr>
            in case hpm_mcan_sendmsg hw m of
                 None \<Rightarrow> None
               | Some (r, bus) \<Rightarrow>
                   if r \<noteq> RT_EOK
                   then let t = t\<lparr>tx_freelist := tx_freelist t @ [no], tx_sem := tx_sem t + 1\<rparr>
                        in Some (0, can\<lparr>can_tx := Some t, dropedsndpkg := dropedsndpkg can + 1\<rparr>, bus)
                   else if \<not> tx_completed hw then None
                   else
                     let t = hpm_mcan_isr_tx t;
                         result = snd_buffer t ! no;
                         t = t\<lparr>tx_freelist := tx_freelist t @ [no], tx_sem := tx_sem t + 1\<rparr>
                     in if result = RT_CAN_SND_RESULT_OK
                        then Some (72, can\<lparr>can_tx := Some t, sndpkg := sndpkg can + 1\<rparr>, bus)
                        else Some (0, can\<lparr>can_tx := Some t, dropedsndpkg := dropedsndpkg can + 1\<rparr>, bus))"

definition rt_can_write :: "mcan_tx_hw \<Rightarrow> rt_can_msg \<Rightarrow> rt_can_device \<Rightarrow> (int \<times> rt_can_device \<times> mcan_frame option) option" where
  "rt_can_write hw m can =
     (if can_open_flag can AND RT_DEVICE_FLAG_INT_TX \<noteq> 0 \<and> 0 < can_ref_count can then can_int_tx hw m can
      else Some (0, can, None))"

section \<open>Invariant\<close>

text \<open>
  The state of a device with FIFO index \<open>k\<close>: free and used boxes partition the array, and the list of
  header \<open>k\<close> is the use list, because the driver gives every message the FIFO index as header.
\<close>

definition boxes_ok :: "nat \<Rightarrow> rt_can_rx_fifo \<Rightarrow> rt_can_hdr list \<Rightarrow> bool" where
  "boxes_ok k f hs \<longleftrightarrow> distinct (freelist f @ uselist f) \<and> set (freelist f @ uselist f) = {0..<16}
     \<and> length (box_data f) = 16 \<and> length (box_owner f) = 16 \<and> freenumbers f = length (freelist f)
     \<and> (\<forall>b < 16. box_owner f ! b = (if b \<in> set (uselist f) then Some k else None))
     \<and> length hs = 32 \<and> hdr_list (hs ! k) = uselist f \<and> msgs (hs ! k) = length (uselist f)
     \<and> (\<forall>i < 32. i \<noteq> k \<longrightarrow> hdr_list (hs ! i) = []) \<and> (\<forall>i < 32. \<not> filter_ind (hs ! i))"

definition can_ok :: "nat \<Rightarrow> rt_can_device \<Rightarrow> bool" where
  "can_ok k can \<longleftrightarrow> k < 32 \<and> fifo_index can = k \<and> msgboxsz can = 16 \<and> maxhdr can = 32
     \<and> can_open_flag can AND RT_DEVICE_FLAG_INT_RX \<noteq> 0 \<and> 0 < can_ref_count can \<and> can_rx_indicate can
     \<and> (\<exists>f hs. can_rx can = Some f \<and> hdr can = Some hs \<and> boxes_ok k f hs)"

text \<open>The messages in the boxes, oldest first.\<close>

definition boxed :: "rt_can_device \<Rightarrow> rt_can_msg list" where
  "boxed can = (case can_rx can of None \<Rightarrow> [] | Some f \<Rightarrow> map ((!) (box_data f)) (uselist f))"

lemma can_opened_ok:
  assumes "k < 32"
  shows "can_ok k (can_opened k)" "boxed (can_opened k) = []" "hw_rxfifo0 (can_opened k) = []"
  using assms
  by (auto simp: can_ok_def boxes_ok_def boxed_def can_opened_def mcan_device_def rt_can_open_def hdr_zero_def
      rt_can_set_filter_def g_can_filter_banks_def connect_hdr_def Let_def dvr_const)

lemma boxes_full:
  assumes "boxes_ok k f hs"
  shows "length (freelist f) + length (uselist f) = 16"
proof -
  have d: "distinct (freelist f @ uselist f)" and s: "set (freelist f @ uselist f) = {0..<16}"
    using assms by (simp_all only: boxes_ok_def)
  have "length (freelist f @ uselist f) = 16" using distinct_card [OF d] unfolding s by simp
  then show ?thesis by simp
qed

text \<open>A read through another header finds nothing.\<close>

lemma read_other:
  assumes "can_ok k can" "0 \<le> h" "h < 32" "h \<noteq> int k"
  shows "rt_can_read [h] can = ([], can)"
proof -
  obtain f hs where f: "can_rx can = Some f" "hdr can = Some hs" "boxes_ok k f hs" using assms(1) by (auto simp: can_ok_def)
  have "nat h < 32" "nat h \<noteq> k" using assms by auto
  then have "hdr_list (hs ! nat h) = []" using f(3) by (auto simp: boxes_ok_def)
  then show ?thesis using assms f by (simp add: rt_can_read_def can_int_rx_one_def hdr_first_def)
qed

text \<open>A read through the header of the device takes the oldest message.\<close>

lemma read_own:
  assumes ok: "can_ok k can"
  shows "case boxed can of
      [] \<Rightarrow> rt_can_read [int k] can = ([], can)
    | m # ms \<Rightarrow> \<exists>can'. rt_can_read [int k] can = ([m], can') \<and> can_ok k can' \<and> boxed can' = ms \<and> hw_rxfifo0 can' = hw_rxfifo0 can"
proof -
  obtain f hs where f: "can_rx can = Some f" "hdr can = Some hs" "boxes_ok k f hs" using ok by (auto simp: can_ok_def)
  have k: "k < 32" "length hs = 32" "maxhdr can = 32" "hdr_list (hs ! k) = uselist f" using ok f(3) by (auto simp: can_ok_def boxes_ok_def)
  show ?thesis
  proof (cases "uselist f")
    case Nil
    then show ?thesis using ok f k by (simp add: boxed_def rt_can_read_def can_int_rx_one_def hdr_first_def)
  next
    case (Cons b bs)
    have b: "b < 16" "b \<notin> set bs" "b \<notin> set (freelist f)" using f(3) Cons by (auto simp: boxes_ok_def)
    let ?f = "f\<lparr>uselist := bs, box_owner := (box_owner f)[b := None], freelist := freelist f @ [b], freenumbers := freenumbers f + 1\<rparr>"
    let ?hs = "hs[k := (hs ! k)\<lparr>hdr_list := bs, msgs := msgs (hs ! k) - 1\<rparr>]"
    let ?can = "can\<lparr>hdr := Some ?hs, can_rx := Some ?f\<rparr>"
    have "boxes_ok k ?f ?hs"
      using f(3) Cons b k unfolding boxes_ok_def by (auto simp: nth_list_update)
    then have ok': "can_ok k ?can" using ok by (simp add: can_ok_def)
    have "rt_can_read [int k] can = ([box_data f ! b], ?can)"
      using ok f k Cons by (simp add: can_ok_def rt_can_read_def can_int_rx_one_def hdr_first_def free_box_def upd_hdr_def Let_def)
    then show ?thesis using ok' Cons f(1) by (simp add: boxed_def)
  qed
qed

text \<open>
  The box for a new message: with the message stored, the boxes hold the newest sixteen.
\<close>

lemma take_box_free:
  assumes "boxes_ok k f hs" "freelist f = b # bs"
  shows "take_box f can = Some (b, f\<lparr>freelist := bs, freenumbers := freenumbers f - 1\<rparr>, can)"
proof -
  have "b < 16" "b \<notin> set (uselist f)" using assms by (auto simp: boxes_ok_def)
  then have "box_owner f ! b = None" using assms(1) by (auto simp: boxes_ok_def)
  then show ?thesis using assms(2) by (simp add: take_box_def detach_box_def)
qed

lemma take_box_full:
  assumes "boxes_ok k f hs" "freelist f = []" "hdr can = Some hs"
  obtains b bs where "uselist f = b # bs" "length bs = 15" "b \<notin> set bs" "b < 16" "set (uselist f) = {0..<16}"
    "take_box f can = Some (b, f\<lparr>uselist := bs, box_owner := (box_owner f)[b := None]\<rparr>,
       can\<lparr>dropedrcvpkg := dropedrcvpkg can + 1, hdr := Some (hs[k := (hs ! k)\<lparr>hdr_list := bs, msgs := 15\<rparr>])\<rparr>)"
proof -
  have l: "length (uselist f) = 16" using boxes_full [OF assms(1)] assms(2) by simp
  then obtain b bs where u: "uselist f = b # bs" by (cases "uselist f") auto
  have b: "b \<notin> set bs" "b < 16" "set (uselist f) = {0..<16}" "hdr_list (hs ! k) = b # bs" "msgs (hs ! k) = 16"
    using assms(1,2) u l by (auto simp: boxes_ok_def)
  then have "box_owner f ! b = Some k" using assms(1) u by (auto simp: boxes_ok_def)
  then have "take_box f can = Some (b, f\<lparr>uselist := bs, box_owner := (box_owner f)[b := None]\<rparr>,
       can\<lparr>dropedrcvpkg := dropedrcvpkg can + 1, hdr := Some (hs[k := (hs ! k)\<lparr>hdr_list := bs, msgs := 15\<rparr>])\<rparr>)"
    using assms(2,3) u b by (simp add: take_box_def detach_box_def upd_hdr_def)
  then show thesis using that u b l by simp
qed

definition box_taken :: "nat \<Rightarrow> nat \<Rightarrow> rt_can_rx_fifo \<Rightarrow> rt_can_hdr list \<Rightarrow> bool" where
  "box_taken k b f hs \<longleftrightarrow> b < 16 \<and> distinct (b # freelist f @ uselist f) \<and> set (b # freelist f @ uselist f) = {0..<16}
     \<and> length (box_data f) = 16 \<and> length (box_owner f) = 16 \<and> freenumbers f = length (freelist f)
     \<and> (\<forall>c < 16. box_owner f ! c = (if c \<in> set (uselist f) then Some k else None))
     \<and> length hs = 32 \<and> hdr_list (hs ! k) = uselist f \<and> msgs (hs ! k) = length (uselist f)
     \<and> (\<forall>i < 32. i \<noteq> k \<longrightarrow> hdr_list (hs ! i) = []) \<and> (\<forall>i < 32. \<not> filter_ind (hs ! i))"

lemma take_box_spec:
  assumes "boxes_ok k f hs" "hdr can = Some hs" "k < 32"
  shows "\<exists>b f' hs'. take_box f can = Some (b, f', can\<lparr>dropedrcvpkg := dropedrcvpkg can + of_bool (length (uselist f) = 16), hdr := Some hs'\<rparr>)
    \<and> box_taken k b f' hs' \<and> connected (hs' ! k) = connected (hs ! k)
    \<and> uselist f' = (if length (uselist f) = 16 then tl (uselist f) else uselist f) \<and> box_data f' = box_data f"
proof (cases "freelist f")
  case (Cons b bs)
  have l: "length (uselist f) \<noteq> 16" using boxes_full [OF assms(1)] Cons by simp
  have "box_taken k b (f\<lparr>freelist := bs, freenumbers := freenumbers f - 1\<rparr>) hs"
    using assms(1) Cons unfolding boxes_ok_def box_taken_def by auto
  moreover have "can\<lparr>hdr := Some hs\<rparr> = can" using assms(2) by simp
  ultimately show ?thesis
    using take_box_free [OF assms(1) Cons, of can] l by (intro exI [of _ b] exI [of _ "f\<lparr>freelist := bs, freenumbers := freenumbers f - 1\<rparr>"] exI [of _ hs]) simp
next
  case Nil
  from take_box_full [OF assms(1) Nil assms(2)] obtain b bs where
    u: "uselist f = b # bs" "length bs = 15" "b \<notin> set bs" "b < 16" "set (uselist f) = {0..<16}"
    "take_box f can = Some (b, f\<lparr>uselist := bs, box_owner := (box_owner f)[b := None]\<rparr>,
       can\<lparr>dropedrcvpkg := dropedrcvpkg can + 1, hdr := Some (hs[k := (hs ! k)\<lparr>hdr_list := bs, msgs := 15\<rparr>])\<rparr>)" by blast
  have "box_taken k b (f\<lparr>uselist := bs, box_owner := (box_owner f)[b := None]\<rparr>) (hs[k := (hs ! k)\<lparr>hdr_list := bs, msgs := 15\<rparr>])"
    using assms(1,3) Nil u unfolding boxes_ok_def box_taken_def by (auto simp: nth_list_update)
  then show ?thesis
    using u assms(1,3)
    by (intro exI [of _ b] exI [of _ "f\<lparr>uselist := bs, box_owner := (box_owner f)[b := None]\<rparr>"]
        exI [of _ "hs[k := (hs ! k)\<lparr>hdr_list := bs, msgs := 15\<rparr>]"]) (simp add: boxes_ok_def)
qed

lemma store_msg_spec:
  assumes t: "box_taken k b f hs" and h: "hdr can = Some hs" "maxhdr can = 32" "k < 32"
    and m: "msg_hdr_index m = of_nat k" "connected (hs ! k)"
  shows "\<exists>f' hs'. store_msg b m f can = Some (can\<lparr>can_rx := Some f', hdr := Some hs'\<rparr>) \<and> boxes_ok k f' hs'
    \<and> uselist f' = uselist f @ [b] \<and> box_data f' = (box_data f)[b := m]"
proof -
  have s: "sint (msg_hdr_index m) = int k"
    using h(3) unfolding m(1) by (simp add: signed_of_nat signed_take_bit_int_eq_self)
  let ?f = "f\<lparr>box_data := (box_data f)[b := m], uselist := uselist f @ [b], box_owner := (box_owner f)[b := Some k]\<rparr>"
  let ?hs = "hs[k := (hs ! k)\<lparr>hdr_list := hdr_list (hs ! k) @ [b], msgs := msgs (hs ! k) + 1\<rparr>]"
  have "boxes_ok k ?f ?hs"
    using t h(3) unfolding boxes_ok_def box_taken_def by (auto simp: nth_list_update)
  moreover have "store_msg b m f can = Some (can\<lparr>can_rx := Some ?f, hdr := Some ?hs\<rparr>)"
    using h m(2) s by (simp add: store_msg_def upd_hdr_def Let_def)
  ultimately show ?thesis by (intro exI [of _ ?f] exI [of _ ?hs]) simp
qed

text \<open>Storing a message: the oldest is dropped when all boxes are in use.\<close>

lemma box_msg:
  assumes ok: "can_ok k can" and f: "can_rx can = Some f" "hdr can = Some hs" and c: "connected (hs ! k)"
    and m: "msg_hdr_index m = of_nat k"
  obtains can' f' hs' where "box_in f m can = Some can'"
    "can_ok k can'" "boxed can' = last_n 16 (boxed can @ [m])" "hw_rxfifo0 can' = hw_rxfifo0 can" "rcvpkg can' = rcvpkg can"
    "dropedrcvpkg can' = dropedrcvpkg can + of_bool (length (boxed can) = 16)" "can_rx can' = Some f'" "uselist f' \<noteq> []"
    "hdr can' = Some hs'" "\<not> filter_ind (hs' ! nat (sint (msg_hdr_index m)))"
proof -
  have bo: "boxes_ok k f hs" using ok f by (auto simp: can_ok_def)
  have k: "k < 32" "maxhdr can = 32" "length (box_data f) = 16" "length (uselist f) \<le> 16"
    using ok bo boxes_full [OF bo] by (auto simp: can_ok_def boxes_ok_def)
  from take_box_spec [OF bo f(2) k(1)] c obtain b f' hs' where
    t: "take_box f can = Some (b, f', can\<lparr>dropedrcvpkg := dropedrcvpkg can + of_bool (length (uselist f) = 16), hdr := Some hs'\<rparr>)"
      "box_taken k b f' hs'" "connected (hs' ! k)" "uselist f' = (if length (uselist f) = 16 then tl (uselist f) else uselist f)"
      "box_data f' = box_data f" by auto
  let ?can = "can\<lparr>dropedrcvpkg := dropedrcvpkg can + of_bool (length (uselist f) = 16), hdr := Some hs'\<rparr>"
  from store_msg_spec [OF t(2), of ?can m] k(1,2) m t(3) obtain f'' hs'' where
    s: "store_msg b m f' ?can = Some (?can\<lparr>can_rx := Some f'', hdr := Some hs''\<rparr>)" "boxes_ok k f'' hs''"
      "uselist f'' = uselist f' @ [b]" "box_data f'' = (box_data f)[b := m]"
    using t(5) by auto
  let ?can' = "?can\<lparr>can_rx := Some f'', hdr := Some hs''\<rparr>"
  have "nat (sint (msg_hdr_index m)) = k"
    using k(1) unfolding m by (simp add: signed_of_nat signed_take_bit_int_eq_self)
  then have "\<not> filter_ind (hs'' ! nat (sint (msg_hdr_index m)))" using s(2) k(1) by (auto simp: boxes_ok_def)
  moreover have "can_ok k ?can'" using ok s(2) by (simp add: can_ok_def)
  moreover have "boxed ?can' = last_n 16 (boxed can @ [m])"
  proof -
    have b: "b < 16" "b \<notin> set (uselist f')" using t(2) by (auto simp: box_taken_def)
    have "map ((!) (box_data f'')) (uselist f'') = map ((!) (box_data f)) (uselist f') @ [m]"
      using b k(3) by (auto simp: s(3,4) intro!: nth_list_update_neq)
    moreover have "last_n 16 (map ((!) (box_data f)) (uselist f) @ [m]) = map ((!) (box_data f)) (uselist f') @ [m]"
      using k(4) by (cases "uselist f") (auto simp: t(4) last_n_def)
    ultimately show ?thesis by (simp add: boxed_def f(1))
  qed
  moreover have "length (boxed can) = length (uselist f)" by (simp add: boxed_def f(1))
  ultimately show thesis using t(1) s(1,3) by (intro that [of ?can' f'' hs'']) (simp_all add: box_in_def)
qed

text \<open>
  One receive interrupt on a device with a frame in its FIFO takes exactly that frame and calls the
  application back.
\<close>

lemma receive_interrupt:
  assumes ok: "can_ok k can" and hw: "hw_rxfifo0 can = fr # frs"
  obtains can' where "hpm_mcan_isr_rx junk can = Some (True, can')" "can_ok k can'"
    "boxed can' = last_n 16 (boxed can @ [mcan_rx_msg k junk fr])" "hw_rxfifo0 can' = frs"
    "dropedrcvpkg can' = dropedrcvpkg can + of_bool (length (boxed can) = 16)" "rcvpkg can' = rcvpkg can + 1"
proof -
  obtain f hs where f: "can_rx can = Some f" "hdr can = Some hs" "boxes_ok k f hs" using ok by (auto simp: can_ok_def)
  have k: "k < 32" "fifo_index can = k" "length hs = 32" using ok f(3) by (auto simp: can_ok_def boxes_ok_def)
  let ?m = "mcan_rx_msg k junk fr"
  let ?hs = "hs[k := (hs ! k)\<lparr>connected := True\<rparr>]"
  let ?can = "can\<lparr>hw_rxfifo0 := frs, hdr := Some ?hs, rcvpkg := rcvpkg can + 1\<rparr>"
  have "boxes_ok k f ?hs" using f(3) k(1,3) unfolding boxes_ok_def by (auto simp: nth_list_update)
  then have ok': "can_ok k ?can" using ok f(1) by (simp add: can_ok_def)
  have m: "msg_hdr_index ?m = of_nat k" by (simp add: mcan_rx_msg_def Let_def)
  have c: "connected (?hs ! k)" using k(1,3) by simp
  have b: "boxed ?can = boxed can" by (simp add: boxed_def)
  show thesis
  proof (rule box_msg [OF ok' _ _ c m])
    fix can' f' hs'
    assume s: "box_in f ?m ?can = Some can'"
      "can_ok k can'" "boxed can' = last_n 16 (boxed ?can @ [?m])" "hw_rxfifo0 can' = hw_rxfifo0 ?can" "rcvpkg can' = rcvpkg ?can"
      "dropedrcvpkg can' = dropedrcvpkg ?can + of_bool (length (boxed ?can) = 16)" "can_rx can' = Some f'" "uselist f' \<noteq> []"
      "hdr can' = Some hs'" "\<not> filter_ind (hs' ! nat (sint (msg_hdr_index ?m)))"
    have "hpm_mcan_isr_rx junk can = Some (True, can')"
      using ok s(1,2,7-10) f hw k
      by (simp add: hpm_mcan_isr_rx_def rt_hw_can_isr_rx_def can_ok_def hpm_mcan_recvmsg_def upd_hdr_def Let_def)
    then show thesis using that s(2-6) unfolding b by simp
  qed (use f k in simp_all)
qed

text \<open>
  An interrupt with an empty FIFO: \<open>rt_hw_can_isr\<close> compares the result of the driver with -1, but the
  driver gives \<open>-RT_EEMPTY\<close>. What is in the local message buffer is stored as a message.
\<close>

lemma empty_interrupt:
  assumes ok: "can_ok k can" and hw: "hw_rxfifo0 can = []"
    and junk: "msg_hdr_index junk = of_nat k" "\<forall>hs. hdr can = Some hs \<longrightarrow> connected (hs ! k)"
  obtains can' where "hpm_mcan_isr_rx junk can = Some (True, can')" "can_ok k can'"
    "boxed can' = last_n 16 (boxed can @ [junk])" "rcvpkg can' = rcvpkg can + 1"
proof -
  obtain f hs where f: "can_rx can = Some f" "hdr can = Some hs" "boxes_ok k f hs" using ok by (auto simp: can_ok_def)
  let ?can = "can\<lparr>rcvpkg := rcvpkg can + 1\<rparr>"
  have ok': "can_ok k ?can" using ok by (simp add: can_ok_def)
  have b: "boxed ?can = boxed can" by (simp add: boxed_def)
  show thesis
  proof (rule box_msg [OF ok' _ _ _ junk(1)])
    fix can' f' hs'
    assume s: "box_in f junk ?can = Some can'"
      "can_ok k can'" "boxed can' = last_n 16 (boxed ?can @ [junk])" "hw_rxfifo0 can' = hw_rxfifo0 ?can" "rcvpkg can' = rcvpkg ?can"
      "dropedrcvpkg can' = dropedrcvpkg ?can + of_bool (length (boxed ?can) = 16)" "can_rx can' = Some f'" "uselist f' \<noteq> []"
      "hdr can' = Some hs'" "\<not> filter_ind (hs' ! nat (sint (msg_hdr_index junk)))"
    have "hpm_mcan_isr_rx junk can = Some (True, can')"
      using ok s(1,2,7-10) f hw
      by (simp add: hpm_mcan_isr_rx_def rt_hw_can_isr_rx_def can_ok_def hpm_mcan_recvmsg_def Let_def)
    then show thesis using that s(2,3,5) unfolding b by simp
  qed (use f junk(2) in simp_all)
qed

section \<open>The device as a queue\<close>

text \<open>
  What the two sides do: a frame comes in from the bus and raises the interrupt, or a thread reads
  through the header of the device. The result is the message read, and for an interrupt whether the
  callback ran; \<open>None\<close> would be a failed assertion. The specification is the queue of the newest
  sixteen messages.
\<close>

datatype can_op = CanFrame rt_can_msg mcan_frame | CanRead

datatype can_out = CanCalled bool | CanGot "rt_can_msg list" | CanAssert

definition bus_frame :: "mcan_frame \<Rightarrow> rt_can_device \<Rightarrow> rt_can_device" where
  "bus_frame fr can = can\<lparr>hw_rxfifo0 := hw_rxfifo0 can @ [fr]\<rparr>"

fun can_dev_do :: "can_op \<Rightarrow> rt_can_device \<Rightarrow> can_out \<times> rt_can_device" where
  "can_dev_do (CanFrame junk fr) can =
     (case hpm_mcan_isr_rx junk (bus_frame fr can) of
        None \<Rightarrow> (CanAssert, can) | Some (cb, can) \<Rightarrow> (CanCalled cb, can))"
| "can_dev_do CanRead can = (let (ms, can) = rt_can_read [int (fifo_index can)] can in (CanGot ms, can))"

fun can_queue_do :: "nat \<Rightarrow> can_op \<Rightarrow> rt_can_msg list \<Rightarrow> can_out \<times> rt_can_msg list" where
  "can_queue_do k (CanFrame junk fr) q = (CanCalled True, last_n 16 (q @ [mcan_rx_msg k junk fr]))"
| "can_queue_do k CanRead q = (CanGot (take 1 q), drop 1 q)"

lemma bus_frame_ok [simp]:
  "can_ok k (bus_frame fr can) = can_ok k can" "boxed (bus_frame fr can) = boxed can"
  "hw_rxfifo0 (bus_frame fr can) = hw_rxfifo0 can @ [fr]" "dropedrcvpkg (bus_frame fr can) = dropedrcvpkg can"
  "rcvpkg (bus_frame fr can) = rcvpkg can"
  by (simp_all add: bus_frame_def can_ok_def boxed_def)

lemma can_dev_step:
  assumes "can_ok k can \<and> hw_rxfifo0 can = []"
  shows "\<exists>out can'. can_dev_do p can = (out, can') \<and> can_queue_do k p (boxed can) = (out, boxed can')
    \<and> can_ok k can' \<and> hw_rxfifo0 can' = []"
proof (cases p)
  case (CanFrame junk fr)
  have "can_ok k (bus_frame fr can)" "hw_rxfifo0 (bus_frame fr can) = fr # []" using assms by simp_all
  then obtain can' where "hpm_mcan_isr_rx junk (bus_frame fr can) = Some (True, can')" "can_ok k can'"
    "boxed can' = last_n 16 (boxed can @ [mcan_rx_msg k junk fr])" "hw_rxfifo0 can' = []"
    using receive_interrupt [of k "bus_frame fr can" fr "[]" junk] by auto
  then show ?thesis using CanFrame by simp
next
  case CanRead
  have "fifo_index can = k" using assms by (simp add: can_ok_def)
  then show ?thesis using CanRead assms read_own [of k can] by (auto split: list.splits)
qed


definition frame0 :: mcan_frame where
  "frame0 = \<lparr>use_ext_id = False, ext_id = 0, std_id = 0x605, frame_rtr = False, dlc = 2, data_8 = [7, 9] @ replicate 62 0\<rparr>"


text \<open>The only send box is free, and the device is open for sending.\<close>

definition tx_ready :: "rt_can_device \<Rightarrow> bool" where
  "tx_ready can \<longleftrightarrow> can_open_flag can AND RT_DEVICE_FLAG_INT_TX \<noteq> 0 \<and> 0 < can_ref_count can
     \<and> (\<exists>r. can_tx can = Some \<lparr>snd_buffer = [r], tx_sem = 1, tx_freelist = [0]\<rparr>)"

lemma can_opened_tx: "tx_ready (can_opened k)"
  by (simp add: tx_ready_def can_opened_def mcan_device_def rt_can_open_def rt_can_set_filter_def g_can_filter_banks_def
      connect_hdr_def Let_def dvr_const)

lemma can_write_ready:
  assumes "tx_ready can" "mcan_tx_frame m = Some fr"
  shows "case rt_can_write hw m can of
      None \<Rightarrow> wait_txfifo (mcan_is_txfifo_full hw) 0 = RT_EOK \<and> txbuf_success hw \<and> \<not> tx_completed hw
    | Some (n, can', bus) \<Rightarrow> tx_ready can' \<and> can_ok k can' = can_ok k can \<and>
        (if wait_txfifo (mcan_is_txfifo_full hw) 0 = RT_EOK \<and> txbuf_success hw
         then tx_completed hw \<and> n = 72 \<and> bus = Some fr else n = 0 \<and> bus = None)"
  using assms
  by (auto simp: tx_ready_def rt_can_write_def can_int_tx_def hpm_mcan_sendmsg_def hpm_mcan_isr_tx_def rt_hw_can_isr_tx_def
      can_ok_def Let_def)

text \<open>
  A message sent by the application and received by another controller: identifier, kind, length and
  data arrive as given, the rest of the data field is what the receiver had in its buffer.
\<close>

lemma frame_roundtrip:
  assumes "unat len \<le> 8" "unat len \<le> length bs"
  shows "\<exists>fr. mcan_tx_frame (can_tx_msg cid (Some bs) len) = Some fr
    \<and> (let m = mcan_rx_msg k junk fr in unat (msg_id m) = unat cid mod 2 ^ 29 \<and> msg_ide m = (0x7FF < unat cid)
        \<and> \<not> msg_rtr m \<and> msg_len m = len \<and> take (unat len) (msg_data m) = take (unat len) bs)"
proof -
  have l: "\<not> 8 < len" using assms(1) by (simp add: word_less_nat_alt)
  have d: "unat (ucast len :: 4 word) = unat len" using assms(1) by (simp add: unsigned_ucast_eq take_bit_nat_eq_self)
  have n: "mcan_get_message_size_from_dlc (unat len) = unat len" using assms(1) by (simp add: mcan_get_message_size_from_dlc_def)
  have le: "(ucast (ucast len :: 4 word) :: u8) = len"
    unfolding word_eq_iff_unsigned [where 'a = nat] unsigned_ucast_eq [of "ucast len :: 4 word"] d
    using assms(1) by (simp add: take_bit_nat_eq_self)
  have i: "unat (ucast cid :: 29 word) = unat cid mod 2 ^ 29" by (simp add: unsigned_ucast_eq take_bit_eq_mod)
  have e: "(0x7FF < cid) = (0x7FF < unat cid)" by (simp add: word_less_nat_alt)
  have sd: "unat (ucast (ucast (ucast cid :: 29 word) :: 11 word) :: 29 word) = unat cid mod 2 ^ 29" if "\<not> 0x7FF < unat cid"
  proof -
    have up: "unat (ucast y :: 29 word) = unat y mod 2 ^ 29" for y :: "11 word"
      by (simp add: unsigned_ucast_eq take_bit_eq_mod)
    have down: "unat (ucast z :: 11 word) = unat z mod 2 ^ 11" for z :: "29 word"
      by (simp add: unsigned_ucast_eq take_bit_eq_mod)
    show ?thesis using that unfolding up down i by simp
  qed
  have bs: "take (unat len) (msg_data (can_tx_msg cid (Some bs) len)) = take (unat len) bs"
    using assms(2) by (cases "len = 0") (simp_all add: can_tx_msg_def word_gt_0)
  have lm: "unat len \<le> length (msg_data (can_tx_msg cid (Some bs) len))"
    using assms by (simp add: can_tx_msg_def)
  have t: "msg_len (can_tx_msg cid (Some bs) len) = len" "msg_ide (can_tx_msg cid (Some bs) len) = (0x7FF < unat cid)"
    "msg_id (can_tx_msg cid (Some bs) len) = ucast cid" "\<not> msg_rtr (can_tx_msg cid (Some bs) len)"
    by (simp_all add: can_tx_msg_def e)
  show ?thesis
    using t l d n le i sd bs lm assms(2)
    by (cases "0x7FF < unat cid") (simp_all add: mcan_tx_frame_def mcan_rx_msg_def Let_def min_def)
qed

end
