(* ===== verification/Can_Line.thy ===== *)
theory Can_Line
  imports Rt_Can
begin

text \<open>
  The application's CAN nodes on the devices of the kernel: frames on the two buses, the receive
  interrupts with their callbacks, the receive threads and the monitor as one system. Node 0 is the
  device \<open>can0\<close> (FIFO index 0), node 1 is \<open>can2\<close> (FIFO index 2).
\<close>

section \<open>The system\<close>

record can_sys =
  can_devs :: "rt_can_device list"
  can_app :: can_state

text \<open>
  The inner loop of \<open>app_can_rx_thread\<close>: it reads with \<open>hdr_index\<close> 0 until nothing comes.
\<close>

partial_function (option) read_all :: "rt_can_device \<Rightarrow> (rt_can_msg list \<times> rt_can_device) option" where
  [code]: "read_all can =
     (case rt_can_read [0] can of
        ([], can) \<Rightarrow> Some ([], can)
      | (m # _, can) \<Rightarrow> Option.bind (read_all can) (\<lambda>(ms, can). Some (m # ms, can)))"

text \<open>
  Events: a frame on the bus of a node, which raises the interrupt; a round of the receive thread
  of a node; a monitor round. \<open>None\<close> would be a failed assertion or a loop that does not end.
\<close>

datatype sys_event = BusFrame nat rt_can_msg mcan_frame | RxRound nat tick | MonitorRound tick

fun sys_step :: "sys_event \<Rightarrow> can_sys \<Rightarrow> can_sys option" where
  "sys_step (BusFrame i junk fr) s =
     (case hpm_mcan_isr_rx junk (bus_frame fr (can_devs s ! i)) of
        None \<Rightarrow> None
      | Some (cb, can) \<Rightarrow> Some (s\<lparr>can_devs := (can_devs s)[i := can],
                                can_app := (if cb then app_can_rx_indicate i (can_app s) else can_app s)\<rparr>))"
| "sys_step (RxRound i now) s =
     (case rx_sem (g_can_nodes (can_app s) ! i) of
        Some (Suc c) \<Rightarrow>
          (case read_all (can_devs s ! i) of
             None \<Rightarrow> None
           | Some (ms, can) \<Rightarrow> Some (s\<lparr>can_devs := (can_devs s)[i := can],
                                     can_app := app_can_rx_thread (of_nat i) (map (Pair now) ms) (can_app s)\<rparr>))
      | _ \<Rightarrow> Some s)"
| "sys_step (MonitorRound now) s = Some (s\<lparr>can_app := app_can_monitor_thread now (can_app s)\<rparr>)"

fun sys_run :: "sys_event list \<Rightarrow> can_sys \<Rightarrow> can_sys option" where
  "sys_run [] s = Some s"
| "sys_run (e # es) s = (case sys_step e s of None \<Rightarrow> None | Some s \<Rightarrow> sys_run es s)"

definition can_sys_start :: "can_env \<Rightarrow> can_sys" where
  "can_sys_start env = \<lparr>can_devs = [can_opened 0, can_opened 2], can_app = can_running env\<rparr>"

text \<open>Sending: \<open>app_can_send_ex\<close> with the device of the node under \<open>rt_device_write\<close>.\<close>

definition send_on_bus ::
  "mcan_tx_hw \<Rightarrow> u8 \<Rightarrow> u32 \<Rightarrow> bytes option \<Rightarrow> u8 \<Rightarrow> can_state \<Rightarrow> rt_can_device
    \<Rightarrow> (rt_err \<times> rt_can_device \<times> mcan_frame option) option" where
  "send_on_bus hw i cid data len st can =
     (case app_can_send_ex (\<lambda>_ _. 0) i cid data len st of
        (r, None) \<Rightarrow> Some (r, can, None)
      | (_, Some (d, m)) \<Rightarrow>
          (case rt_can_write hw m can of
             None \<Rightarrow> None
           | Some (n, can, bus) \<Rightarrow> Some (fst (app_can_send_ex (\<lambda>_ _. n) i cid data len st), can, bus)))"

definition on_node :: "sys_event \<Rightarrow> bool" where
  "on_node e = (case e of BusFrame i _ _ \<Rightarrow> i < 2 | RxRound i _ \<Rightarrow> i < 2 | MonitorRound _ \<Rightarrow> True)"

section \<open>The receive loop\<close>

lemma read_all_own:
  "can_ok 0 can \<Longrightarrow> \<exists>can'. read_all can = Some (boxed can, can') \<and> can_ok 0 can' \<and> boxed can' = [] \<and> hw_rxfifo0 can' = hw_rxfifo0 can"
proof (induction "boxed can" arbitrary: can)
  case Nil
  then show ?case using read_own [of 0 can] by (subst read_all.simps) simp
next
  case (Cons m ms)
  then obtain can1 where 1: "rt_can_read [0] can = ([m], can1)" "can_ok 0 can1" "boxed can1 = ms" "hw_rxfifo0 can1 = hw_rxfifo0 can"
    using read_own [of 0 can] by (auto split: list.splits)
  from Cons.hyps(1) [OF 1(3) [symmetric] 1(2)] 1 Cons.hyps(2) show ?case by (subst read_all.simps) auto
qed

lemma read_all_other: "can_ok k can \<Longrightarrow> k \<noteq> 0 \<Longrightarrow> read_all can = Some ([], can)"
  using read_other [of k can 0] by (subst read_all.simps) simp

section \<open>The invariant of the system\<close>

definition sys_ok :: "can_sys \<Rightarrow> bool" where
  "sys_ok s \<longleftrightarrow> (\<exists>d0 d2. can_devs s = [d0, d2] \<and> can_ok 0 d0 \<and> can_ok 2 d2 \<and> hw_rxfifo0 d0 = [] \<and> hw_rxfifo0 d2 = [])
     \<and> length (g_can_nodes (can_app s)) = 3 \<and> \<not> online (g_can_nodes (can_app s) ! 1)"

lemma sys_start_ok: "sys_ok (can_sys_start env)"
  using can_quiet_running [of env] can_opened_ok [of 0] can_opened_ok [of 2]
  by (simp add: sys_ok_def can_sys_start_def can_quiet_def)

lemma nth_list_update_any: "(xs[i := x]) ! j = (if i = j \<and> j < length xs then x else xs ! j)"
  by (cases "i = j") (simp_all add: list_update_beyond)

lemma rx_fold_nodes:
  "length (g_can_nodes (fold (rx_one i) rs st)) = length (g_can_nodes st)
   \<and> (\<forall>j. j \<noteq> unat i \<longrightarrow> g_can_nodes (fold (rx_one i) rs st) ! j = g_can_nodes st ! j)
   \<and> (\<forall>j. rx_sem (g_can_nodes (fold (rx_one i) rs st) ! j) = rx_sem (g_can_nodes st ! j))"
proof (induction rs arbitrary: st)
  case (Cons r rs)
  have "rx_sem (g_can_nodes (rx_one i r st) ! j) = rx_sem (g_can_nodes st ! j)" for j
    by (cases r) (auto simp: rx_one_nodes nth_list_update_any)
  moreover have "length (g_can_nodes (rx_one i r st)) = length (g_can_nodes st)"
      "\<forall>j. j \<noteq> unat i \<longrightarrow> g_can_nodes (rx_one i r st) ! j = g_can_nodes st ! j"
    by (cases r, auto simp: rx_one_nodes)+
  ultimately show ?case using Cons.IH [of "rx_one i r st"] by simp
qed simp

lemma indicate_nodes:
  "length (g_can_nodes (app_can_rx_indicate i st)) = length (g_can_nodes st)
   \<and> online (g_can_nodes (app_can_rx_indicate i st) ! j) = online (g_can_nodes st ! j)
   \<and> (rx_sem (g_can_nodes (app_can_rx_indicate i st) ! j) = None \<longleftrightarrow> rx_sem (g_can_nodes st ! j) = None)"
  by (auto simp: app_can_rx_indicate_def nth_list_update_any split: option.splits)

definition can_rel :: "can_sys \<Rightarrow> can_sys \<Rightarrow> bool" where
  "can_rel s s' \<longleftrightarrow> sys_ok s' \<and>
     (rx_sem (g_can_nodes (can_app s') ! 0) = None \<longleftrightarrow> rx_sem (g_can_nodes (can_app s) ! 0) = None)"

lemma step_frame:
  assumes ok: "sys_ok s" and i: "i < 2"
  obtains can where "sys_step (BusFrame i junk fr) s = Some (s\<lparr>can_devs := (can_devs s)[i := can], can_app := app_can_rx_indicate i (can_app s)\<rparr>)"
    "boxed can = last_n 16 (boxed (can_devs s ! i) @ [mcan_rx_msg (if i = 0 then 0 else 2) junk fr])"
    "can_rel s (s\<lparr>can_devs := (can_devs s)[i := can], can_app := app_can_rx_indicate i (can_app s)\<rparr>)"
proof -
  let ?k = "if i = 0 then 0 else 2 :: nat"
  obtain d0 d2 where d: "can_devs s = [d0, d2]" "can_ok 0 d0" "can_ok 2 d2" "hw_rxfifo0 d0 = []" "hw_rxfifo0 d2 = []"
    using ok by (auto simp: sys_ok_def)
  have c: "can_ok ?k (can_devs s ! i)" "hw_rxfifo0 (can_devs s ! i) = []" using d i by (cases i; simp)+
  obtain can where "hpm_mcan_isr_rx junk (bus_frame fr (can_devs s ! i)) = Some (True, can)" "can_ok ?k can"
    "boxed can = last_n 16 (boxed (can_devs s ! i) @ [mcan_rx_msg ?k junk fr])" "hw_rxfifo0 can = []"
    using receive_interrupt [of ?k "bus_frame fr (can_devs s ! i)" fr "[]" junk] c by auto
  moreover from this(2,4) have "can_rel s (s\<lparr>can_devs := (can_devs s)[i := can], can_app := app_can_rx_indicate i (can_app s)\<rparr>)"
    using ok d i indicate_nodes [of i "can_app s"] by (cases i) (auto simp: can_rel_def sys_ok_def less_Suc_eq numeral_2_eq_2)
  ultimately show thesis using that by simp
qed

lemma step_ok:
  assumes ok: "sys_ok s" and e: "on_node e"
  shows "\<exists>s'. sys_step e s = Some s' \<and> can_rel s s'"
proof (cases e)
  case (BusFrame i junk fr)
  then show ?thesis using step_frame [OF ok, of i junk fr] e by (auto simp: on_node_def)
next
  case (MonitorRound now)
  then show ?thesis using ok by (auto simp: can_rel_def sys_ok_def monitor_nodes monitor_node_def)
next
  case (RxRound i now)
  obtain d0 d2 where d: "can_devs s = [d0, d2]" "can_ok 0 d0" "can_ok 2 d2" "hw_rxfifo0 d0 = []" "hw_rxfifo0 d2 = []"
    using ok by (auto simp: sys_ok_def)
  have i: "i = 0 \<or> i = 1" using e RxRound by (auto simp: on_node_def)
  show ?thesis
  proof (cases "\<exists>c. rx_sem (g_can_nodes (can_app s) ! i) = Some (Suc c)")
    case False
    then show ?thesis using RxRound ok by (auto simp: can_rel_def split: option.splits nat.splits)
  next
    case True
    then obtain c where c: "rx_sem (g_can_nodes (can_app s) ! i) = Some (Suc c)" by blast
    have n: "length (g_can_nodes (can_app s)) = 3" "\<not> online (g_can_nodes (can_app s) ! 1)" using ok by (simp_all add: sys_ok_def)
    obtain can' where r: "read_all d0 = Some (boxed d0, can')" "can_ok 0 can'" "hw_rxfifo0 can' = []"
      using read_all_own [OF d(2)] d(4) by auto
    have r2: "read_all d2 = Some ([], d2)" using read_all_other [OF d(3)] by simp
    from i show ?thesis
    proof
      assume "i = 0"
      let ?s = "upd_node 0 (\<lambda>n. n\<lparr>rx_sem := Some c\<rparr>) (can_app s)"
      show ?thesis
        using RxRound c d n r \<open>i = 0\<close> rx_fold_nodes [of 0 "map (Pair now) (boxed d0)" ?s]
        by (simp add: can_rel_def sys_ok_def app_can_rx_thread_def dvr_const)
    next
      assume "i = 1"
      then show ?thesis
        using RxRound c d n r2 by (simp add: can_rel_def sys_ok_def app_can_rx_thread_def dvr_const)
    qed
  qed
qed

lemma run_ok:
  "sys_ok s \<Longrightarrow> list_all on_node es \<Longrightarrow> \<exists>s'. sys_run es s = Some s' \<and> can_rel s s'"
proof (induction es arbitrary: s)
  case (Cons e es)
  from step_ok [OF Cons.prems(1), of e] Cons.prems(2) obtain s1 where 1: "sys_step e s = Some s1" "can_rel s s1" by auto
  then have "sys_ok s1" by (simp add: can_rel_def)
  then show ?case using Cons.IH [of s1] Cons.prems(2) 1 by (auto simp: can_rel_def)
qed (simp add: can_rel_def)

lemma run_append:
  "sys_run (es @ fs) s = (case sys_run es s of None \<Rightarrow> None | Some s \<Rightarrow> sys_run fs s)"
  by (induction es arbitrary: s) (simp_all split: option.splits)

section \<open>Properties\<close>


definition life_events :: "sys_event list" where
  "life_events = [BusFrame 1 msg_zero frame0, RxRound 1 10, BusFrame 0 msg_zero frame0, RxRound 0 20, MonitorRound 100]"


lemma last_n_snoc: "0 < n \<Longrightarrow> \<exists>ys. last_n n (xs @ [x]) = ys @ [x]"
  by (cases n) (auto simp: last_n_def)

lemma started_sem: "g_can_started (can_running env) \<Longrightarrow> rx_sem (g_can_nodes (can_running env) ! 0) \<noteq> None"
proof -
  assume "g_can_started (can_running env)"
  then have a: "list_all (\<lambda>n. rx_thread n \<and> rx_sem n = Some 0 \<and> dev n \<noteq> None) (take 2 (g_can_nodes (can_running env)))"
    using can_start_outcome [of env env] by blast
  have "length (g_can_nodes (can_running env)) = 3" using can_quiet_running [of env] by (simp add: can_quiet_def)
  then show ?thesis using a by (cases "g_can_nodes (can_running env)") auto
qed

lemma heard_data:
  assumes "dlc fr \<noteq> 0" "length (data_8 fr) = 64"
  shows "msg_data (mcan_rx_msg k junk fr) ! 0 = data_8 fr ! 0"
proof -
  have "0 < mcan_get_message_size_from_dlc (unat (dlc fr))"
    using assms(1) by (simp add: mcan_get_message_size_from_dlc_def unat_gt_0)
  then show ?thesis using assms(2) by (simp add: mcan_rx_msg_def Let_def nth_append)
qed



text \<open>
  C31: sending from the application to another controller. With a free send box the call either returns
  success, and then the frame is on the bus and every receiver gets the given identifier, length and
  bytes from it; or it returns an error, nothing is on the bus, and the controller did not take the
  frame within 1000 polls or refused it; or it does not return, because the controller took the frame
  and never reports it sent. After a return the send box is free again.
\<close>

theorem can_send_end_to_end:
  assumes "unat i < 3" "dev (g_can_nodes st ! unat i) = Some d" "unat len \<le> 8" "unat len \<le> length bs" "tx_ready can"
  shows "case send_on_bus hw i cid (Some bs) len st can of
      None \<Rightarrow> wait_txfifo (mcan_is_txfifo_full hw) 0 = RT_EOK \<and> txbuf_success hw \<and> \<not> tx_completed hw
    | Some (r, can', None) \<Rightarrow> tx_ready can' \<and> r = RT_ERROR
        \<and> \<not> (wait_txfifo (mcan_is_txfifo_full hw) 0 = RT_EOK \<and> txbuf_success hw)
    | Some (r, can', Some fr) \<Rightarrow> tx_ready can' \<and> r = RT_EOK
        \<and> (let m = mcan_rx_msg k junk fr in unat (msg_id m) = unat cid mod 2 ^ 29 \<and> msg_ide m = (0x7FF < unat cid)
            \<and> \<not> msg_rtr m \<and> msg_len m = len \<and> take (unat len) (msg_data m) = take (unat len) bs)"
proof -
  let ?m = "can_tx_msg cid (Some bs) len"
  obtain fr where fr: "mcan_tx_frame ?m = Some fr"
    "let m = mcan_rx_msg k junk fr in unat (msg_id m) = unat cid mod 2 ^ 29 \<and> msg_ide m = (0x7FF < unat cid)
        \<and> \<not> msg_rtr m \<and> msg_len m = len \<and> take (unat len) (msg_data m) = take (unat len) bs"
    using frame_roundtrip [OF assms(3,4), of cid k junk] by blast
  have s: "app_can_send_ex w i cid (Some bs) len st = (if w d ?m \<le> 0 then RT_ERROR else RT_EOK, Some (d, ?m))" for w
    using assms(1-3) by (simp add: app_can_send_ex_def dvr_const word_less_nat_alt Let_def)
  show ?thesis
    using can_write_ready [OF assms(5) fr(1), of hw 0] fr(2)
    by (simp add: send_on_bus_def s split: option.splits prod.splits if_splits)
qed

definition tx_hw_ok :: mcan_tx_hw where
  "tx_hw_ok = \<lparr>mcan_is_txfifo_full = (\<lambda>n. n < 3), txbuf_success = True, tx_completed = True\<rparr>"

theorem can_send_end_to_end_witness:
  "unat (0 :: u8) < 3 \<and> dev (g_can_nodes (can_running can_env_ok) ! unat (0 :: u8)) = Some 7 \<and> unat (2 :: u8) \<le> 8 \<and> tx_ready (can_opened 0)
   \<and> (case send_on_bus tx_hw_ok 0 0x605 (Some [7, 9]) 2 (can_running can_env_ok) (can_opened 0) of
      None \<Rightarrow> wait_txfifo (mcan_is_txfifo_full tx_hw_ok) 0 = RT_EOK \<and> txbuf_success tx_hw_ok \<and> \<not> tx_completed tx_hw_ok
    | Some (r, can', None) \<Rightarrow> tx_ready can' \<and> r = RT_ERROR
        \<and> \<not> (wait_txfifo (mcan_is_txfifo_full tx_hw_ok) 0 = RT_EOK \<and> txbuf_success tx_hw_ok)
    | Some (r, can', Some fr) \<Rightarrow> tx_ready can' \<and> r = RT_EOK
        \<and> (let m = mcan_rx_msg 2 msg_zero fr in unat (msg_id m) = unat (0x605 :: u32) mod 2 ^ 29 \<and> msg_ide m = (0x7FF < unat (0x605 :: u32))
            \<and> \<not> msg_rtr m \<and> msg_len m = 2 \<and> take (unat (2 :: u8)) (msg_data m) = take (unat (2 :: u8)) [7, 9]))"
proof -
  have d: "dev (g_can_nodes (can_running can_env_ok) ! unat (0 :: u8)) = Some 7" by code_simp
  have n: "unat (0 :: u8) < 3" "unat (2 :: u8) \<le> 8" "unat (2 :: u8) \<le> length [7, 9 :: u8]" by simp_all
  show ?thesis
    using can_send_end_to_end [OF n(1) d n(2,3) can_opened_tx, where hw = tx_hw_ok and cid = "0x605" and k = 2
        and junk = msg_zero] d n can_opened_tx by blast
qed

end
