(* ===== verification/Rt_I2c.thy ===== *)
theory Rt_I2c
  imports Svc_Storage
begin

unbundle bit_operations_syntax

text \<open>
  The I2C bus under the parameter storage: \<open>rt_i2c_transfer\<close> of the kernel
  (\<open>src/rt-thread/components/drivers/i2c/i2c_core.c\<close>), the driver of the board
  (\<open>src/libraries/drivers/drv_i2c.c\<close>, \<open>BSP_I2C1_USING_DMA\<close> is off) and the polling transfer of the
  vendor SDK (\<open>src/libraries/hpm_sdk/drivers/src/hpm_i2c_drv.c\<close>), down to the registers.

  The registers of the controller are the record \<open>i2c_regs\<close>, over a state \<open>'b\<close> of the controller and
  what is behind it; reading a register may change that state. No flag of the kernel sets
  \<open>I2C_WRITE_CHECK_ACK\<close>, so the branch of the SDK for that flag is left out. The lock of the bus is
  taken with an endless wait, so a transfer is one step here.
\<close>

section \<open>Registers\<close>

record i2c_status =
  fifoempty :: bool
  fifofull :: bool
  addrhit :: bool
  cmpl :: bool
  busbusy :: bool

record i2c_ctrl =
  dir_rd :: bool
  phase_start :: bool
  phase_stop :: bool
  phase_data :: bool
  datacnt :: nat

datatype i2c_cmd = I2C_CMD_CLEAR_FIFO | I2C_CMD_ISSUE_DATA_TRANSMISSION | I2C_CMD_ACK | I2C_CMD_NACK

record 'b i2c_regs =
  rd_STATUS :: "'b \<Rightarrow> i2c_status \<times> 'b"
  clr_STATUS :: "'b \<Rightarrow> 'b"
  rd_DATA :: "'b \<Rightarrow> u8 \<times> 'b"
  wr_DATA :: "u8 \<Rightarrow> 'b \<Rightarrow> 'b"
  wr_CMD :: "i2c_cmd \<Rightarrow> 'b \<Rightarrow> 'b"
  wr_ADDR :: "u16 \<Rightarrow> 'b \<Rightarrow> 'b"
  wr_CTRL :: "i2c_ctrl \<Rightarrow> 'b \<Rightarrow> 'b"
  wr_INTEN :: "bool \<Rightarrow> 'b \<Rightarrow> 'b"
  set_10bit :: "bool \<Rightarrow> 'b \<Rightarrow> 'b"
  rd_datacnt :: "'b \<Rightarrow> nat \<times> 'b"

datatype hpm_stat = status_success | status_invalid_argument | status_timeout
  | status_i2c_no_addr_hit | status_i2c_transmit_not_completed

definition RT_I2C_WR :: u16 where [dvr_const]: "RT_I2C_WR = 0"
definition RT_I2C_RD :: u16 where [dvr_const]: "RT_I2C_RD = 1"
definition I2C_ADDR_10BIT :: u16 where [dvr_const]: "I2C_ADDR_10BIT = 4"
definition I2C_NO_START :: u16 where [dvr_const]: "I2C_NO_START = 0x10"
definition I2C_NO_READ_ACK :: u16 where [dvr_const]: "I2C_NO_READ_ACK = 0x40"
definition I2C_NO_STOP :: u16 where [dvr_const]: "I2C_NO_STOP = 0x80"
definition I2C_SOC_TRANSFER_COUNT_MAX :: nat where [dvr_const]: "I2C_SOC_TRANSFER_COUNT_MAX = 256"
definition HPM_I2C_DRV_DEFAULT_RETRY_COUNT :: nat where [dvr_const]: "HPM_I2C_DRV_DEFAULT_RETRY_COUNT = 5000"

section \<open>The polling transfer\<close>

text \<open>The loops give the value of \<open>retry\<close> they end with; the read loop also the bytes received.\<close>

function read_bytes :: "'b i2c_regs \<Rightarrow> bool \<Rightarrow> nat \<Rightarrow> nat \<Rightarrow> bytes \<Rightarrow> 'b \<Rightarrow> nat \<times> bytes \<times> 'b" where
  "read_bytes regs ack left retry got b =
     (if left = 0 then (retry, got, b)
      else
        let (s, b) = rd_STATUS regs b in
        if \<not> fifoempty s
        then let (d, b) = rd_DATA regs b;
                 b = (if left = 1 then wr_CMD regs I2C_CMD_NACK b
                      else if ack then wr_CMD regs I2C_CMD_ACK b else b)
             in read_bytes regs ack (left - 1) 0 (got @ [d]) b
        else if HPM_I2C_DRV_DEFAULT_RETRY_COUNT < retry then (retry, got, b)
        else read_bytes regs ack left (retry + 1) got b)"
  by pat_completeness auto
termination
  by (relation "measures [\<lambda>(_, _, left, _). left, \<lambda>(_, _, _, retry, _). HPM_I2C_DRV_DEFAULT_RETRY_COUNT + 1 - retry]") auto

function write_bytes :: "'b i2c_regs \<Rightarrow> bytes \<Rightarrow> nat \<Rightarrow> 'b \<Rightarrow> nat \<times> 'b" where
  "write_bytes regs ds retry b =
     (case ds of
        [] \<Rightarrow> (retry, b)
      | d # rest \<Rightarrow>
          let (s, b) = rd_STATUS regs b in
          if \<not> fifofull s then write_bytes regs rest 0 (wr_DATA regs d b)
          else if HPM_I2C_DRV_DEFAULT_RETRY_COUNT < retry then (retry, b)
          else write_bytes regs ds (retry + 1) b)"
  by pat_completeness auto
termination
  by (relation "measures [\<lambda>(_, ds, _). length ds, \<lambda>(_, _, retry, _). HPM_I2C_DRV_DEFAULT_RETRY_COUNT + 1 - retry]") auto

function wait_status :: "'b i2c_regs \<Rightarrow> (i2c_status \<Rightarrow> bool) \<Rightarrow> nat \<Rightarrow> 'b \<Rightarrow> nat \<times> 'b" where
  "wait_status regs p retry b =
     (let (s, b) = rd_STATUS regs b in
      if p s then (retry, b)
      else if HPM_I2C_DRV_DEFAULT_RETRY_COUNT < retry then (retry, b)
      else wait_status regs p (retry + 1) b)"
  by pat_completeness auto
termination
  by (relation "measure (\<lambda>(_, _, retry, _). HPM_I2C_DRV_DEFAULT_RETRY_COUNT + 1 - retry)") auto

declare read_bytes.simps [simp del] write_bytes.simps [simp del] wait_status.simps [simp del]

text \<open>
  \<open>i2c_master_transfer\<close>: the status, the buffer afterwards, and the controller. A read that stops
  early leaves the rest of the buffer as it was.
\<close>

definition transfer_setup :: "'b i2c_regs \<Rightarrow> u16 \<Rightarrow> nat \<Rightarrow> u16 \<Rightarrow> 'b \<Rightarrow> 'b" where
  "transfer_setup regs device_address sz flags b =
     (let b = set_10bit regs (flags AND I2C_ADDR_10BIT \<noteq> 0) b;
          b = wr_CMD regs I2C_CMD_CLEAR_FIFO (clr_STATUS regs b);
          b = wr_ADDR regs device_address b;
          ctrl = \<lparr>dir_rd = (flags AND RT_I2C_RD \<noteq> 0), phase_start = (flags AND I2C_NO_START = 0),
                  phase_stop = (flags AND I2C_NO_STOP = 0), phase_data = True, datacnt = sz\<rparr>;
          b = wr_INTEN regs True (wr_CTRL regs ctrl b)
      in wr_CMD regs I2C_CMD_ISSUE_DATA_TRANSMISSION b)"

definition transfer_end :: "'b i2c_regs \<Rightarrow> nat \<Rightarrow> 'b \<Rightarrow> hpm_stat \<times> 'b" where
  "transfer_end regs retry b =
     (if HPM_I2C_DRV_DEFAULT_RETRY_COUNT < retry then (status_timeout, wr_INTEN regs False b)
      else
        let (retry, b) = wait_status regs cmpl 0 b in
        if HPM_I2C_DRV_DEFAULT_RETRY_COUNT < retry then (status_timeout, wr_INTEN regs False b)
        else
          let (n, b) = rd_datacnt regs b in
          if n \<noteq> 0 then (status_i2c_transmit_not_completed, wr_INTEN regs False b)
          else (status_success, wr_INTEN regs False b))"

definition i2c_master_transfer ::
  "'b i2c_regs \<Rightarrow> u16 \<Rightarrow> bytes \<Rightarrow> nat \<Rightarrow> u16 \<Rightarrow> 'b \<Rightarrow> hpm_stat \<times> bytes \<times> 'b" where
  "i2c_master_transfer regs device_address buf sz flags b =
     (if sz = 0 \<or> I2C_SOC_TRANSFER_COUNT_MAX < sz then (status_invalid_argument, buf, b)
      else
        let b = transfer_setup regs device_address sz flags b in
        if flags AND RT_I2C_RD \<noteq> 0
        then let (retry, got, b) = read_bytes regs (flags AND I2C_NO_READ_ACK = 0) sz 0 [] b;
                 (stat, b) = transfer_end regs retry b
             in (stat, got @ drop (length got) buf, b)
        else let (retry, b) = write_bytes regs (take sz buf) 0 b;
                 (stat, b) = transfer_end regs retry b
             in (stat, buf, b))"

text \<open>\<open>i2c_master_read\<close> and \<open>i2c_master_write\<close> with size 0, a probe for the address.\<close>

definition i2c_master_probe :: "'b i2c_regs \<Rightarrow> bool \<Rightarrow> u16 \<Rightarrow> 'b \<Rightarrow> hpm_stat \<times> 'b" where
  "i2c_master_probe regs rd device_address b =
     (let (retry, b) = wait_status regs (\<lambda>s. \<not> busbusy s) 0 b in
      if HPM_I2C_DRV_DEFAULT_RETRY_COUNT < retry then (status_timeout, b)
      else
        let b = wr_CMD regs I2C_CMD_CLEAR_FIFO (clr_STATUS regs b);
            b = wr_ADDR regs device_address b;
            b = wr_CTRL regs \<lparr>dir_rd = rd, phase_start = True, phase_stop = True, phase_data = False, datacnt = 0\<rparr> b;
            b = wr_CMD regs I2C_CMD_ISSUE_DATA_TRANSMISSION b;
            (retry, b) = wait_status regs addrhit 0 b
        in if HPM_I2C_DRV_DEFAULT_RETRY_COUNT < retry then (status_i2c_no_addr_hit, b)
           else (status_success, clr_STATUS regs b))"

section \<open>The driver and the bus\<close>

text \<open>
  The loop over one message: pieces of at most 256 bytes. The status of \<open>i2c_master_transfer\<close> is not
  looked at.
\<close>

function xfer_pieces :: "'b i2c_regs \<Rightarrow> u16 \<Rightarrow> u16 \<Rightarrow> bytes \<Rightarrow> nat \<Rightarrow> nat \<Rightarrow> 'b \<Rightarrow> bytes \<times> 'b" where
  "xfer_pieces regs addr flags buf off remaining_size b =
     (if remaining_size = 0 then (buf, b)
      else
        let transfer_len = min I2C_SOC_TRANSFER_COUNT_MAX remaining_size;
            (_, part, b) = i2c_master_transfer regs addr (take transfer_len (drop off buf)) transfer_len flags b;
            buf = take off buf @ part @ drop (off + transfer_len) buf
        in xfer_pieces regs addr flags buf (off + transfer_len) (remaining_size - transfer_len) b)"
  by pat_completeness auto
termination
  by (relation "measure (\<lambda>(_, _, _, _, _, n, _). n)") (auto simp: dvr_const)

declare xfer_pieces.simps [simp del]

definition xfer_msg :: "'b i2c_regs \<Rightarrow> i2c_msg \<Rightarrow> 'b \<Rightarrow> hpm_stat \<times> bytes \<times> 'b" where
  "xfer_msg regs m b =
     (let b = set_10bit regs False b in
      if i2c_len m = 0
      then let (stat, b) = i2c_master_probe regs (i2c_rd m) (i2c_addr m) b in (stat, i2c_buf m, b)
      else let flags = (if i2c_rd m then RT_I2C_RD else RT_I2C_WR);
               (buf, b) = xfer_pieces regs (i2c_addr m) flags (i2c_buf m) 0 (unat (i2c_len m)) b
           in (status_success, buf, b))"

fun xfer_msgs :: "'b i2c_regs \<Rightarrow> nat \<Rightarrow> i2c_msg list \<Rightarrow> 'b \<Rightarrow> int \<times> bytes list \<times> 'b" where
  "xfer_msgs regs i [] b = (int i, [], b)"
| "xfer_msgs regs i (m # ms) b =
     (let (stat, buf, b) = xfer_msg regs m b in
      if stat \<noteq> status_success then (0, [buf], b)
      else let (ret, bufs, b) = xfer_msgs regs (i + 1) ms b in (ret, buf # bufs, b))"

definition hpm_i2c_master_transfer :: "'b i2c_regs \<Rightarrow> i2c_msg list \<Rightarrow> 'b \<Rightarrow> int \<times> bytes list \<times> 'b" where
  "hpm_i2c_master_transfer regs msgs b = xfer_msgs regs 0 msgs b"

text \<open>
  The bus as the storage uses it. The destination of a read is a buffer of the caller; \<open>stale\<close> is what
  it holds before.
\<close>

definition rt_i2c_transfer_bus :: "'b i2c_regs \<Rightarrow> (nat \<Rightarrow> u8) \<Rightarrow> i2c_msg \<Rightarrow> 'b \<Rightarrow> int \<times> bytes \<times> 'b" where
  "rt_i2c_transfer_bus regs stale m b =
     (let m = (if i2c_rd m then m\<lparr>i2c_buf := map stale [0..<unat (i2c_len m)]\<rparr> else m);
          (ret, bufs, b) = hpm_i2c_master_transfer regs [m] b
      in (ret, hd bufs, b))"

definition bus_ops :: "'b i2c_regs \<Rightarrow> (nat \<Rightarrow> u8) \<Rightarrow> (nat \<Rightarrow> 'b \<Rightarrow> 'b) \<Rightarrow> 'b i2c_ops" where
  "bus_ops regs stale mdelay = \<lparr>rt_i2c_transfer = rt_i2c_transfer_bus regs stale, rt_thread_mdelay = mdelay\<rparr>"

section \<open>What the driver reports\<close>

text \<open>Whatever the registers do, a transfer of a message that is not empty counts as done.\<close>

lemma transfer_reports_one: "i2c_len m \<noteq> 0 \<Longrightarrow> fst (rt_i2c_transfer_bus regs stale m b) = 1"
  by (simp add: rt_i2c_transfer_bus_def hpm_i2c_master_transfer_def xfer_msg_def Let_def split: prod.split)

section \<open>A controller with a chip\<close>

text \<open>
  A controller on whose bus a chip answers as \<open>rt_i2c_transfer\<close> of \<open>chip\<close> says: a read is carried out
  when it is issued and fills the FIFO; a write is carried out with its last byte. A transfer the chip
  does not acknowledge leaves the FIFO empty and the data count as it was.
\<close>

record 'c i2c_ctl =
  ctl_chip :: 'c
  ctl_addr :: u16
  ctl_ctrl :: i2c_ctrl
  ctl_out :: bytes
  ctl_in :: bytes
  ctl_left :: nat

definition ctl_issue :: "'c i2c_ops \<Rightarrow> 'c i2c_ctl \<Rightarrow> 'c i2c_ctl" where
  "ctl_issue chip s =
     (if dir_rd (ctl_ctrl s)
      then let (n, data, c) = rt_i2c_transfer chip \<lparr>i2c_addr = ctl_addr s, i2c_rd = True, i2c_buf = [],
                                i2c_len = of_nat (datacnt (ctl_ctrl s))\<rparr> (ctl_chip s)
           in s\<lparr>ctl_chip := c, ctl_in := (if n = 1 then data else []),
                ctl_left := (if n = 1 then 0 else datacnt (ctl_ctrl s))\<rparr>
      else s\<lparr>ctl_out := []\<rparr>)"

definition ctl_write :: "'c i2c_ops \<Rightarrow> u8 \<Rightarrow> 'c i2c_ctl \<Rightarrow> 'c i2c_ctl" where
  "ctl_write chip d s =
     (let out = ctl_out s @ [d] in
      if length out = datacnt (ctl_ctrl s)
      then let (n, _, c) = rt_i2c_transfer chip \<lparr>i2c_addr = ctl_addr s, i2c_rd = False, i2c_buf = out,
                             i2c_len = of_nat (length out)\<rparr> (ctl_chip s)
           in s\<lparr>ctl_chip := c, ctl_out := [], ctl_left := (if n = 1 then 0 else datacnt (ctl_ctrl s))\<rparr>
      else s\<lparr>ctl_out := out\<rparr>)"

definition ctl_regs :: "'c i2c_ops \<Rightarrow> 'c i2c_ctl i2c_regs" where
  "ctl_regs chip = \<lparr>
     rd_STATUS = (\<lambda>s. (\<lparr>fifoempty = (ctl_in s = []), fifofull = False, addrhit = True, cmpl = (ctl_in s = []), busbusy = False\<rparr>, s)),
     clr_STATUS = (\<lambda>s. s),
     rd_DATA = (\<lambda>s. (hd (ctl_in s), s\<lparr>ctl_in := tl (ctl_in s)\<rparr>)),
     wr_DATA = ctl_write chip,
     wr_CMD = (\<lambda>c s. case c of I2C_CMD_CLEAR_FIFO \<Rightarrow> s\<lparr>ctl_in := [], ctl_out := []\<rparr>
                 | I2C_CMD_ISSUE_DATA_TRANSMISSION \<Rightarrow> ctl_issue chip s | _ \<Rightarrow> s),
     wr_ADDR = (\<lambda>a s. s\<lparr>ctl_addr := a\<rparr>),
     wr_CTRL = (\<lambda>c s. s\<lparr>ctl_ctrl := c\<rparr>),
     wr_INTEN = (\<lambda>_ s. s),
     set_10bit = (\<lambda>_ s. s),
     rd_datacnt = (\<lambda>s. (ctl_left s, s))\<rparr>"

definition ctl_ops :: "'c i2c_ops \<Rightarrow> (nat \<Rightarrow> u8) \<Rightarrow> 'c i2c_ctl i2c_ops" where
  "ctl_ops chip stale = bus_ops (ctl_regs chip) stale (\<lambda>n s. s\<lparr>ctl_chip := rt_thread_mdelay chip n (ctl_chip s)\<rparr>)"

lemma ctl_regs_sel [simp]:
  "rd_STATUS (ctl_regs chip) s = (\<lparr>fifoempty = (ctl_in s = []), fifofull = False, addrhit = True, cmpl = (ctl_in s = []), busbusy = False\<rparr>, s)"
  "clr_STATUS (ctl_regs chip) s = s" "rd_DATA (ctl_regs chip) s = (hd (ctl_in s), s\<lparr>ctl_in := tl (ctl_in s)\<rparr>)"
  "wr_DATA (ctl_regs chip) = ctl_write chip" "wr_CMD (ctl_regs chip) I2C_CMD_CLEAR_FIFO s = s\<lparr>ctl_in := [], ctl_out := []\<rparr>"
  "wr_CMD (ctl_regs chip) I2C_CMD_ISSUE_DATA_TRANSMISSION s = ctl_issue chip s"
  "wr_CMD (ctl_regs chip) I2C_CMD_ACK s = s" "wr_CMD (ctl_regs chip) I2C_CMD_NACK s = s"
  "wr_ADDR (ctl_regs chip) a s = s\<lparr>ctl_addr := a\<rparr>" "wr_CTRL (ctl_regs chip) c s = s\<lparr>ctl_ctrl := c\<rparr>"
  "wr_INTEN (ctl_regs chip) x s = s" "set_10bit (ctl_regs chip) x s = s" "rd_datacnt (ctl_regs chip) s = (ctl_left s, s)"
  by (simp_all add: ctl_regs_def)

lemma read_bytes_ctl:
  "length (ctl_in s) = left \<Longrightarrow> read_bytes (ctl_regs chip) ack left 0 got s = (0, got @ ctl_in s, s\<lparr>ctl_in := []\<rparr>)"
proof (induction left arbitrary: got s)
  case 0
  then show ?case by (simp add: read_bytes.simps)
next
  case (Suc n)
  then obtain d ds where d: "ctl_in s = d # ds" "length ds = n" by (cases "ctl_in s") auto
  have "read_bytes (ctl_regs chip) ack (Suc n) 0 got s
      = read_bytes (ctl_regs chip) ack n 0 (got @ [d]) (s\<lparr>ctl_in := ds\<rparr>)"
    using d by (subst read_bytes.simps) (simp add: Let_def)
  then show ?case using Suc.IH [of "s\<lparr>ctl_in := ds\<rparr>" "got @ [d]"] d by simp
qed

text \<open>A write reaches the chip as one transfer.\<close>

lemma write_bytes_ctl:
  "length (ctl_out s) + length ds = datacnt (ctl_ctrl s) \<Longrightarrow> ds \<noteq> [] \<Longrightarrow>
     \<exists>s'. write_bytes (ctl_regs chip) ds 0 s = (0, s') \<and> ctl_in s' = ctl_in s
       \<and> ctl_chip s' = snd (snd (rt_i2c_transfer chip \<lparr>i2c_addr = ctl_addr s, i2c_rd = False, i2c_buf = ctl_out s @ ds,
            i2c_len = of_nat (length (ctl_out s @ ds))\<rparr> (ctl_chip s)))"
proof (induction ds arbitrary: s)
  case (Cons d ds)
  have w: "write_bytes (ctl_regs chip) (d # ds) 0 s = write_bytes (ctl_regs chip) ds 0 (ctl_write chip d s)"
    by (subst write_bytes.simps) simp
  show ?case
  proof (cases ds)
    case Nil
    then show ?thesis
      using Cons.prems w by (auto simp: write_bytes.simps [of _ "[]"] ctl_write_def Let_def split: prod.splits)
  next
    case (Cons e es)
    then have s: "ctl_write chip d s = s\<lparr>ctl_out := ctl_out s @ [d]\<rparr>" using Cons.prems by (simp add: ctl_write_def Let_def)
    show ?thesis using Cons.IH [of "s\<lparr>ctl_out := ctl_out s @ [d]\<rparr>"] Cons Cons.prems w unfolding s by simp
  qed
qed simp

lemma transfer_end_ctl: "ctl_in s = [] \<Longrightarrow> \<exists>stat. transfer_end (ctl_regs chip) 0 s = (stat, s)"
  by (simp add: transfer_end_def wait_status.simps Let_def dvr_const)

lemma one_piece:
  assumes "0 < n" "n \<le> 256" "length buf = n"
  shows "xfer_pieces regs addr flags buf 0 n b
    = (case i2c_master_transfer regs addr buf n flags b of (_, part, b) \<Rightarrow> (part, b))"
  using assms
  by (subst xfer_pieces.simps) (simp add: Let_def dvr_const xfer_pieces.simps [of _ _ _ _ _ 0] split: prod.splits)

lemma bus_write:
  assumes m: "\<not> i2c_rd m" "i2c_len m = of_nat (length (i2c_buf m))" "0 < length (i2c_buf m)" "length (i2c_buf m) \<le> 256"
  shows "\<exists>x s'. rt_i2c_transfer_bus (ctl_regs chip) stale m s = (1, x, s')
    \<and> ctl_chip s' = snd (snd (rt_i2c_transfer chip m (ctl_chip s)))"
proof -
  have l: "unat (i2c_len m) = length (i2c_buf m)" "i2c_len m \<noteq> 0"
    using m by (auto simp: unsigned_of_nat take_bit_nat_eq_self word_eq_iff_unsigned [where 'a = nat])
  let ?s = "transfer_setup (ctl_regs chip) (i2c_addr m) (length (i2c_buf m)) RT_I2C_WR s"
  have s: "ctl_out ?s = []" "datacnt (ctl_ctrl ?s) = length (i2c_buf m)" "ctl_addr ?s = i2c_addr m" "ctl_chip ?s = ctl_chip s" "ctl_in ?s = []"
    by (simp_all add: transfer_setup_def ctl_issue_def Let_def dvr_const)
  have "i2c_buf m \<noteq> []" using m(3) by auto
  with write_bytes_ctl [of ?s "i2c_buf m" chip] s obtain s' where
    w: "write_bytes (ctl_regs chip) (i2c_buf m) 0 ?s = (0, s')" "ctl_in s' = []"
      "ctl_chip s' = snd (snd (rt_i2c_transfer chip \<lparr>i2c_addr = i2c_addr m, i2c_rd = False, i2c_buf = i2c_buf m, i2c_len = i2c_len m\<rparr> (ctl_chip s)))"
    using m(2) by auto
  obtain stat where e: "transfer_end (ctl_regs chip) 0 s' = (stat, s')" using transfer_end_ctl [OF w(2)] by blast
  have mm: "\<lparr>i2c_addr = i2c_addr m, i2c_rd = False, i2c_buf = i2c_buf m, i2c_len = i2c_len m\<rparr> = m" using m(1) by simp
  have "i2c_master_transfer (ctl_regs chip) (i2c_addr m) (i2c_buf m) (length (i2c_buf m)) RT_I2C_WR s = (stat, i2c_buf m, s')"
    using m w(1) e by (simp add: i2c_master_transfer_def Let_def dvr_const)
  then show ?thesis
    using m l w(3) one_piece [OF m(3,4) refl, of "ctl_regs chip" "i2c_addr m" RT_I2C_WR s] unfolding mm
    by (simp add: rt_i2c_transfer_bus_def hpm_i2c_master_transfer_def xfer_msg_def Let_def)
qed

lemma bus_read:
  assumes n: "0 < unat n" "unat n \<le> 256"
    and c: "rt_i2c_transfer chip (rd_msg n) (ctl_chip s) = (1, data, c)" "length data = unat n"
  shows "\<exists>s'. rt_i2c_transfer_bus (ctl_regs chip) stale (rd_msg n) s = (1, data, s') \<and> ctl_chip s' = c"
proof -
  let ?b = "map stale [0..<unat n]"
  let ?s = "transfer_setup (ctl_regs chip) SVC_EEPROM_I2C_ADDR_7BIT (unat n) RT_I2C_RD s"
  have "\<lparr>i2c_addr = SVC_EEPROM_I2C_ADDR_7BIT, i2c_rd = True, i2c_buf = [], i2c_len = n\<rparr> = rd_msg n" by (simp add: rd_msg_def)
  then have s: "ctl_chip ?s = c" "ctl_in ?s = data"
    using c(1) by (simp_all add: transfer_setup_def ctl_issue_def Let_def dvr_const)
  have r: "read_bytes (ctl_regs chip) True (unat n) 0 [] ?s = (0, data, ?s\<lparr>ctl_in := []\<rparr>)"
    using read_bytes_ctl [of ?s "unat n" chip True "[]"] s(2) c(2) by simp
  obtain stat where e: "transfer_end (ctl_regs chip) 0 (?s\<lparr>ctl_in := []\<rparr>) = (stat, ?s\<lparr>ctl_in := []\<rparr>)"
    using transfer_end_ctl [of "?s\<lparr>ctl_in := []\<rparr>" chip] by auto
  have "i2c_master_transfer (ctl_regs chip) SVC_EEPROM_I2C_ADDR_7BIT ?b (unat n) RT_I2C_RD s = (stat, data, ?s\<lparr>ctl_in := []\<rparr>)"
    using n r e c(2) by (simp add: i2c_master_transfer_def Let_def dvr_const)
  moreover have "n \<noteq> 0" using n(1) by auto
  ultimately show ?thesis
    using s(1) one_piece [OF n, of ?b "ctl_regs chip" SVC_EEPROM_I2C_ADDR_7BIT RT_I2C_RD s]
    by (simp add: rt_i2c_transfer_bus_def hpm_i2c_master_transfer_def xfer_msg_def rd_msg_def Let_def)
qed

text \<open>A chip that keeps its contract keeps it behind the driver and the controller.\<close>

lemma ctl_keeps_chip:
  assumes "eeprom_chip chip mem rdy ptr"
  shows "eeprom_chip (ctl_ops chip stale) (\<lambda>s. mem (ctl_chip s)) (\<lambda>s. rdy (ctl_chip s)) (\<lambda>s. ptr (ctl_chip s))"
proof -
  have ops: "rt_i2c_transfer (ctl_ops chip stale) = rt_i2c_transfer_bus (ctl_regs chip) stale"
    "rt_thread_mdelay (ctl_ops chip stale) n s = s\<lparr>ctl_chip := rt_thread_mdelay chip n (ctl_chip s)\<rparr>" for n s
    by (simp_all add: ctl_ops_def bus_ops_def)
  have w: "\<exists>x s'. rt_i2c_transfer_bus (ctl_regs chip) stale (wr_msg buf) s = (1, x, s')
      \<and> ctl_chip s' = snd (snd (rt_i2c_transfer chip (wr_msg buf) (ctl_chip s)))"
    if "0 < length buf" "length buf \<le> 256" for buf s
    using bus_write [of "wr_msg buf" chip stale s] that by (simp add: wr_msg_def)
  show ?thesis
    unfolding eeprom_chip_def ops
  proof (intro conjI allI impI)
    fix s :: "'a i2c_ctl" and a :: u16 and data :: bytes
    assume a: "rdy (ctl_chip s) \<and> data \<noteq> [] \<and> unat a mod 32 + length data \<le> 32"
    then obtain x c' where "rt_i2c_transfer chip (wr_msg (mem_addr_bytes a @ data)) (ctl_chip s) = (1, x, c')"
      "mem c' = upd_mem (unat a) data (mem (ctl_chip s))"
      using assms unfolding eeprom_chip_def by blast
    then show "\<exists>x s'. rt_i2c_transfer_bus (ctl_regs chip) stale (wr_msg (mem_addr_bytes a @ data)) s = (1, x, s')
        \<and> mem (ctl_chip s') = upd_mem (unat a) data (mem (ctl_chip s))"
      using w [of "mem_addr_bytes a @ data" s] a by auto
  next
    fix s :: "'a i2c_ctl" and a :: u16
    assume "rdy (ctl_chip s)"
    then obtain x c' where "rt_i2c_transfer chip (wr_msg (mem_addr_bytes a)) (ctl_chip s) = (1, x, c')"
      "rdy c' \<and> mem c' = mem (ctl_chip s) \<and> ptr c' = unat a"
      using assms unfolding eeprom_chip_def by blast
    then show "\<exists>x s'. rt_i2c_transfer_bus (ctl_regs chip) stale (wr_msg (mem_addr_bytes a)) s = (1, x, s')
        \<and> rdy (ctl_chip s') \<and> mem (ctl_chip s') = mem (ctl_chip s) \<and> ptr (ctl_chip s') = unat a"
      using w [of "mem_addr_bytes a" s] by auto
  next
    fix s :: "'a i2c_ctl" and n :: u16
    assume n: "rdy (ctl_chip s) \<and> 0 < unat n \<and> unat n \<le> 256 \<and> ptr (ctl_chip s) + unat n \<le> 65536"
    then obtain c' where "rt_i2c_transfer chip (rd_msg n) (ctl_chip s) = (1, map (mem (ctl_chip s)) [ptr (ctl_chip s) ..< ptr (ctl_chip s) + unat n], c')"
      "rdy c' \<and> mem c' = mem (ctl_chip s)"
      using assms unfolding eeprom_chip_def by blast
    then show "\<exists>s'. rt_i2c_transfer_bus (ctl_regs chip) stale (rd_msg n) s
          = (1, map (mem (ctl_chip s)) [ptr (ctl_chip s) ..< ptr (ctl_chip s) + unat n], s')
        \<and> rdy (ctl_chip s') \<and> mem (ctl_chip s') = mem (ctl_chip s)"
      using bus_read [of n chip s] n by fastforce
  qed (use assms in \<open>simp_all add: eeprom_chip_def\<close>)
qed

section \<open>Lost writes\<close>

text \<open>A chip that does not acknowledge data to be written, as when it is write-protected.\<close>

definition protected :: "'c i2c_ops \<Rightarrow> 'c i2c_ops" where
  "protected chip = chip\<lparr>rt_i2c_transfer :=
     (\<lambda>m c. if \<not> i2c_rd m \<and> 2 < length (i2c_buf m) then (0, [], c) else rt_i2c_transfer chip m c)\<rparr>"

lemma protected_write_page:
  assumes chip: "eeprom_chip chip mem rdy ptr" and us: "usable (\<lambda>s. rdy (ctl_chip s)) st"
    and len: "0 < unat len" "unat len \<le> 32" "unat len \<le> length bs"
  obtains st' where "svc_eeprom_write_page (ctl_ops (protected chip) stale) a (Some bs) len st = (True, st')"
    "usable (\<lambda>s. rdy (ctl_chip s)) st'" "mem (ctl_chip (bus st')) = mem (ctl_chip (bus st))"
proof -
  let ?m = "wr_msg (mem_addr_bytes a @ take (unat len) bs)"
  have l: "length (mem_addr_bytes a @ take (unat len) bs) = unat len + 2" using len(3) by simp
  have m: "\<lparr>i2c_addr = SVC_EEPROM_I2C_ADDR_7BIT, i2c_rd = False, i2c_buf = mem_addr_bytes a @ take (unat len) bs,
      i2c_len = len + 2\<rparr> = ?m" using len(3) by (simp add: wr_msg_def min_absorb2)
  obtain x s' where s': "rt_i2c_transfer_bus (ctl_regs (protected chip)) stale ?m (bus st) = (1, x, s')"
    "ctl_chip s' = snd (snd (rt_i2c_transfer (protected chip) ?m (ctl_chip (bus st))))"
    using bus_write [of ?m "protected chip" stale "bus st"] l len by (auto simp: wr_msg_def)
  have "bs \<noteq> []" using len by auto
  then have c: "ctl_chip s' = ctl_chip (bus st)" using s'(2) l len(1) by (simp add: protected_def wr_msg_def)
  have d: "rdy (rt_thread_mdelay chip 5 c)" "mem (rt_thread_mdelay chip 5 c) = mem c" for c
    using chip unfolding eeprom_chip_def by simp_all
  have "len \<noteq> 0" using len(1) by auto
  then have "svc_eeprom_write_page (ctl_ops (protected chip) stale) a (Some bs) len st
      = (True, st\<lparr>bus := s'\<lparr>ctl_chip := rt_thread_mdelay chip 5 (ctl_chip s')\<rparr>\<rparr>)"
    using us len m s'(1)
    by (simp add: svc_eeprom_write_page_def usable_def ctl_ops_def bus_ops_def protected_def Let_def dvr_const)
  then show thesis using that us d by (simp add: usable_def c)
qed

lemma protected_read:
  assumes chip: "eeprom_chip chip mem rdy ptr" and us: "usable (\<lambda>s. rdy (ctl_chip s)) st"
    and len: "0 < unat len \<and> unat len \<le> 256" "unat a + unat len \<le> 65536"
  obtains st' where "svc_eeprom_read (ctl_ops (protected chip) stale) a len st = (True, stored (mem (ctl_chip (bus st))) a len, st')"
    "mem (ctl_chip (bus st')) = mem (ctl_chip (bus st))"
proof -
  have p: "rt_i2c_transfer (protected chip) (rd_msg n) c = rt_i2c_transfer chip (rd_msg n) c"
    "rt_i2c_transfer (protected chip) (wr_msg (mem_addr_bytes a)) c = rt_i2c_transfer chip (wr_msg (mem_addr_bytes a)) c" for n c
    by (simp_all add: protected_def rd_msg_def wr_msg_def)
  have msg: "\<lparr>i2c_addr = SVC_EEPROM_I2C_ADDR_7BIT, i2c_rd = False, i2c_buf = mem_addr_bytes a, i2c_len = 2\<rparr> = wr_msg (mem_addr_bytes a)"
    "\<lparr>i2c_addr = SVC_EEPROM_I2C_ADDR_7BIT, i2c_rd = True, i2c_buf = [], i2c_len = len\<rparr> = rd_msg len"
    by (simp_all add: wr_msg_def rd_msg_def)
  obtain x c1 where c1: "rt_i2c_transfer chip (wr_msg (mem_addr_bytes a)) (ctl_chip (bus st)) = (1, x, c1)"
      "rdy c1" "mem c1 = mem (ctl_chip (bus st))" "ptr c1 = unat a"
    using chip us unfolding eeprom_chip_def usable_def by blast
  obtain y s1 where s1: "rt_i2c_transfer_bus (ctl_regs (protected chip)) stale (wr_msg (mem_addr_bytes a)) (bus st) = (1, y, s1)" "ctl_chip s1 = c1"
    using bus_write [of "wr_msg (mem_addr_bytes a)" "protected chip" stale "bus st"] c1(1) p(2) by (auto simp: wr_msg_def)
  have "0 < unat len \<and> unat len \<le> 256 \<and> ptr c1 + unat len \<le> 65536" using c1(4) len by simp
  then obtain c2 where c2: "rt_i2c_transfer chip (rd_msg len) c1 = (1, map (mem c1) [ptr c1 ..< ptr c1 + unat len], c2)" "mem c2 = mem c1"
    using chip c1(2) unfolding eeprom_chip_def by blast
  obtain s2 where s2: "rt_i2c_transfer_bus (ctl_regs (protected chip)) stale (rd_msg len) s1
      = (1, map (mem c1) [ptr c1 ..< ptr c1 + unat len], s2)" "ctl_chip s2 = c2"
    using bus_read [of len "protected chip" s1] c2(1) p(1) len(1) s1(2) by fastforce
  have "len \<noteq> 0" using len(1) by auto
  then have "svc_eeprom_read (ctl_ops (protected chip) stale) a len st
      = (True, stored (mem (ctl_chip (bus st))) a len, st\<lparr>bus := s2\<rparr>)"
    using us s1(1) s2(1) c1(3,4) msg by (simp add: svc_eeprom_read_def ctl_ops_def bus_ops_def usable_def stored_def Let_def)
  then show thesis using that s2(2) c2(2) c1(3) by simp
qed

section \<open>Properties\<close>


definition ctl_blank :: "at24 i2c_ctl" where
  "ctl_blank = \<lparr>ctl_chip = at24_blank, ctl_addr = 0, ctl_ctrl = \<lparr>dir_rd = False, phase_start = False, phase_stop = False,
     phase_data = False, datacnt = 0\<rparr>, ctl_out = [], ctl_in = [], ctl_left = 0\<rparr>"

definition bus_blank :: "at24 i2c_ctl storage" where
  "bus_blank = snd (svc_storage_init True (storage_boot ctl_blank))"

lemma usable_bus_blank: "usable (\<lambda>s. \<not> cbusy (ctl_chip s)) bus_blank"
  by (simp add: bus_blank_def ctl_blank_def at24_blank_def svc_storage_init_def storage_boot_def usable_def Let_def)


text \<open>
  C25: a save on a chip that takes no data reports success. The driver does not look at the status of the
  transfer, and the read-back of the storage accepts any valid record: when an older record is in the
  chip, saving a mileage returns true and the chip still holds the older record.
\<close>

theorem protected_save_reports_success:
  assumes "eeprom_chip chip mem rdy ptr" "usable (\<lambda>s. rdy (ctl_chip s)) st"
    and "svc_storage_record_is_valid (Some (stored (mem (ctl_chip (bus st))) SVC_STORAGE_MILEAGE_ADDR 20))"
  shows "\<exists>st'. svc_storage_save_mileage (ctl_ops (protected chip) stale) (Some m) st = (True, st')
    \<and> mem (ctl_chip (bus st')) = mem (ctl_chip (bus st))"
proof -
  let ?ops = "ctl_ops (protected chip) stale"
  let ?st = "st\<lparr>g_storage_mileage_shadow := m\<rparr>"
  have us: "usable (\<lambda>s. rdy (ctl_chip s)) ?st" using assms(2) by (simp add: usable_def)
  have l: "length (mileage_record m) = 20" using mil.enc_length [of m] by simp
  obtain st1 where st1: "svc_eeprom_write_page ?ops SVC_STORAGE_MILEAGE_ADDR (Some (mileage_record m)) 20 ?st = (True, st1)"
    "usable (\<lambda>s. rdy (ctl_chip s)) st1" "mem (ctl_chip (bus st1)) = mem (ctl_chip (bus st))"
    using protected_write_page [OF assms(1) us, of 20 "mileage_record m" stale SVC_STORAGE_MILEAGE_ADDR] l by auto
  have w: "svc_eeprom_write ?ops SVC_STORAGE_MILEAGE_ADDR (Some (mileage_record m)) 20 ?st = (True, st1)"
    using st1(1) by (simp add: svc_eeprom_write_def eeprom_write_loop.simps [of _ _ _ _ 0]
        eeprom_write_loop.simps [of _ _ _ _ 20] page_chunk_def dvr_const Let_def)
  obtain st2 where st2: "svc_eeprom_read ?ops SVC_STORAGE_MILEAGE_ADDR 20 st1
      = (True, stored (mem (ctl_chip (bus st1))) SVC_STORAGE_MILEAGE_ADDR 20, st2)" "mem (ctl_chip (bus st2)) = mem (ctl_chip (bus st1))"
    using protected_read [OF assms(1) st1(2), of 20 SVC_STORAGE_MILEAGE_ADDR stale] by (auto simp: dvr_const)
  have "g_eeprom_i2c_bus st" using assms(2) by (simp add: usable_def)
  then show ?thesis using w st1(3) st2 assms(3) by (simp add: svc_storage_save_mileage_def write_verify_def Let_def)
qed

definition old_mileage :: svc_storage_mileage where
  "old_mileage = \<lparr>odo_km = 5, odo_rem_m = 0, odo_reserved = 0\<rparr>"

definition bus_old :: "at24 i2c_ctl storage" where
  "bus_old = snd (svc_storage_init True (storage_boot
     (ctl_blank\<lparr>ctl_chip := at24_blank\<lparr>cmem := upd_mem 0 (mileage_record old_mileage) (\<lambda>_. 0xFF)\<rparr>\<rparr>)))"

theorem protected_save_reports_success_witness:
  "\<exists>st'. svc_storage_save_mileage (ctl_ops (protected at24_ops) (\<lambda>_. 0)) (Some mileage_zero) bus_old = (True, st')
    \<and> cmem (ctl_chip (bus st')) = cmem (ctl_chip (bus bus_old))"
proof (rule protected_save_reports_success [OF at24_chip])
  show "usable (\<lambda>s. \<not> cbusy (ctl_chip s)) bus_old"
    by (simp add: bus_old_def ctl_blank_def at24_blank_def svc_storage_init_def storage_boot_def usable_def Let_def)
  have "cmem (ctl_chip (bus bus_old)) = upd_mem (unat SVC_STORAGE_MILEAGE_ADDR) (mileage_record old_mileage) (\<lambda>_. 0xFF)"
    by (simp add: bus_old_def svc_storage_init_def storage_boot_def Let_def dvr_const)
  then show "svc_storage_record_is_valid (Some (stored (cmem (ctl_chip (bus bus_old))) SVC_STORAGE_MILEAGE_ADDR 20))"
    using mil.enc_valid [of old_mileage] mil.enc_length [of old_mileage] by (simp add: stored_upd_same)
qed

end
