(* ===== verification/Spec2Isabelle.thy ===== *)
theory Spec2Isabelle
  imports Lcd_Graphics Svc_Lcd_Fresh Rt_List Uart_Line Can_Line Rt_I2c
begin

text \<open>
  \<^bold>\<open>The program.\<close> The firmware of the microcontroller of a vehicle recorder (\<open>src/applications\<close>, C on
  RT-Thread). The controller supervises the supply of the board, samples keys, voltages and vehicle
  inputs, watches three CAN nodes, keeps settings and the odometer in an EEPROM, talks to the
  application processor (SOC) over a serial line, and runs the display with its menus and editors.
  Every service is an initialisation, a thread and some getters and setters over file variables.
  Under it are the devices of the kernel (\<open>src/rt-thread/components/drivers\<close>) and the drivers of the board
  (\<open>src/libraries/drivers\<close>); those of the serial line, the CAN buses and the I2C bus are modelled too.

  \<^bold>\<open>How the parts interact.\<close> The ADC thread samples voltages and the key ladder; the display thread
  consumes its key events, the power and input services read its snapshot. The serial interrupt
  fills a ring which the serial thread empties: status frames of the SOC update the displayed data and
  the odometer, text frames are put together and displayed; a second thread sends the status frame, which reports the inputs and the stored configuration through a
  cache. The editors of the display save to the store and refresh that cache. The power service ends
  with the release of the board's own supply, or restarts the controller.

  \<^bold>\<open>The theories.\<close> The names of definitions are those of the C code; file variables are the fields of a
  record per module, a handler is a function from the state (and the answers of the devices) to the
  state, a thread is given by one pass of its loop, early returns and error codes are branches.

  \<^item> \<open>Dvr_Prelude\<close>: word types, error codes, byte layout, semaphore counts, shared facts.
  \<^item> \<open>Svc_Adc\<close> (\<open>svc_adc.c\<close>): conversion, key decoding and debouncing, one-shot key events, one
    sampling pass. The debouncer is compared with a specification on sample sequences, and a held key
    fires once (locale \<open>one_shot_event\<close>, interpreted for the four keys).
  \<^item> \<open>Svc_Vehicle_Io\<close> (\<open>svc_vehicle_io.c\<close>): inputs with their polarity, the packed switch word.
  \<^item> \<open>Svc_Power\<close> (\<open>svc_power.c\<close>): the stage machine, its confirmation counters and the staged shutdown;
    reachability as the inductive \<open>power_reach\<close>, an invariant on the outputs, the order and the earliest
    time of the final cut, the exact condition of a restart, and that a lost supply is cut in the end.
  \<^item> \<open>App_Can\<close> (\<open>app_can.c\<close>, \<open>svc_can.c\<close>): start sequence with all error returns, receive and monitor
    threads, sending; a node is on line exactly by the definition in terms of life frames and rounds.
    \<open>Rt_Can\<close> (\<open>can.c\<close>, \<open>drv_mcan.c\<close>): the devices, whose receive boxes are a queue of the newest sixteen
    messages; \<open>Can_Line\<close>: buses, interrupts and threads as one system.
  \<^item> \<open>Svc_Storage\<close> (\<open>svc_storage.c\<close>): page writes and reads on the I2C bus, five records with header and
    checksum. The locale \<open>nv_record\<close> states what a record type promises and is interpreted for the five
    records; together they refine a store of five independent variables. \<open>Rt_I2c\<close> (\<open>i2c_core.c\<close>,
    \<open>drv_i2c.c\<close>, \<open>hpm_i2c_drv.c\<close>): the bus down to the registers of the controller; a chip that keeps its
    contract keeps it behind the driver.
  \<^item> \<open>Uart_Ring\<close>, \<open>Uart_Crc\<close>, \<open>Uart_Parser\<close>, \<open>Uart_Frames\<close>, \<open>Uart_Text\<close>, \<open>Uart_Mileage\<close>, \<open>Uart_Cmd\<close>
    (\<open>app_usart_cmd.c\<close>): the receive ring (locale \<open>bounded_fifo\<close>), the table CRC against a bitwise
    reference, the frame parser with its resynchronisation, the messages, text assembly, the odometer
    in units of 1/36 m, and the module as a whole from the interrupt to the handlers.
  \<^item> \<open>Rt_List\<close> (\<open>rtservice.h\<close>): the linked lists of the kernel on a store of nodes. \<open>Rt_Ringbuffer\<close>
    (\<open>ringbuffer.c\<close>): the ring buffer of the kernel with its mirror bits (locale \<open>block_fifo\<close>, a \<open>bounded_fifo\<close>
    again). \<open>Rt_Serial\<close> (\<open>device.c\<close>, \<open>serial_v2.c\<close>, \<open>drv_uart_v2.c\<close>): the serial device with DMA reception.
    \<open>Uart_Line\<close>: the device under the module of the application (locale \<open>byte_source\<close> of \<open>Uart_Cmd\<close>,
    interpreted on the device), from the line to the handlers.
  \<^item> \<open>Lcd_Drv\<close> (\<open>LCD/lcd_drv.c\<close>), \<open>Lcd_Graphics\<close> (\<open>LCD/lcd_graphics.c\<close>, \<open>u8g2_port.c\<close>): the driver as pin
    writes with a receiver and a controller at the other end, the frame buffer, the way of a pixel from
    the buffer of u8g2 to the memory of the panel.
  \<^item> \<open>Lcd_Ui\<close>, \<open>Lcd_Time\<close> (\<open>LCD/lcd_ui.c\<close>): the shared display data, page navigation over a registered
    table (locales \<open>lcd_hook\<close>, \<open>lcd_nav\<close>, \<open>page_tree\<close>), the calendar against the Gregorian rules.
  \<^item> \<open>Svc_Lcd_Data\<close>, \<open>Svc_Lcd_Edit\<close>, \<open>Svc_Lcd_Pages\<close>, \<open>Svc_Lcd_Thread\<close>, \<open>Svc_Lcd_Home\<close> (\<open>svc_lcd.c\<close>): the
    update functions and text pages, the five editors with loading and saving, the page table (the
    three locales above are interpreted on it), key handlers and event loop (locale \<open>ui_kept\<close>: what the
    elementary changes keep, a pass keeps), the way back to the home page (locale \<open>exit_path\<close>, interpreted
    for the five editors).
  \<^item> \<open>Svc_Lcd_Draw\<close>, \<open>Svc_Lcd_Screens\<close> (\<open>svc_lcd.c\<close>, \<open>LCD/lcd_ui.c\<close>): the renderer of every page as a
    program of the state monad that records its calls to u8g2, the label tables, and the rules
    \<open>paints\<close> by which each renderer is shown to be free of faulty reads, inside the panel, and to mark
    exactly the focus.
  \<^item> \<open>App_Task\<close> (\<open>main.c\<close>, \<open>app_init.c\<close>, \<open>app_task.c\<close>, \<open>svc_led.c\<close>, the light of \<open>board/rtt_board.c\<close>): start
    of the system and the interleaving of all threads and interrupts, \<open>dvr_step\<close> and \<open>dvr_reach\<close>. The
    locales \<open>ui_updated\<close> (what the serial link keeps of the display), \<open>ui_started\<close> and \<open>ui_shared\<close> (what
    every thread keeps) extend \<open>ui_kept\<close> to the whole system; they are interpreted for the invariants of
    navigation, editors, drawing, the confirmation page and the card number.
  \<^item> \<open>Svc_Lcd_Shown\<close>, \<open>Svc_Lcd_Fresh\<close>: the properties of the display over the whole system: drawing is
    safe and shows the focus in every reachable state, the home pages lose no digit of their data, and
    the panel is never stale except on three named pages.

  \<^bold>\<open>The properties\<close> are the theorems marked C1 to C40, each behind a text that states it. They are, by
  component: storage C1, C24, C25, C29, C30; power C2, C3; serial link C4 to C11, C14, C33, C35; CAN C12,
  C13, C31, C32, C37; settings and navigation C15 to C17, C23, C26; display C18 to C22, C27, C36, C40;
  start C28; keys and inputs C38, C39; kernel lists C34. C12 and C25 show defects: what they state is what the
  code does. A theorem with hypotheses has a witness beside it, named
  after it, that applies it to a concrete state or input.

  \<^bold>\<open>Loops.\<close> Loops over arrays are recursions over index lists. The reading loops of the serial module end
  because the ring or the device's buffer gets shorter, the page loop of the EEPROM because bytes are
  written, the text loops because characters are consumed; these have termination proofs. The walk
  to the root of the page tree has no bound of its own in the code and is a partial function; it is
  proved to return for every page of the table, at depth five at most. The loops of the CAN receive thread
  and of the length of a linked list are partial functions as well, with proofs that they return. The polling
  loops of the I2C transfer end by their retry counter. No definition has fuel. The
  bound of 14 key presses of C16 is at most ten to leave an editor and four to climb to the home page.

  \<^bold>\<open>Parameters.\<close> What a theory does not model is an argument of the definitions that use it, with what is
  relied on as a named hypothesis: the I2C bus with the chip (\<open>i2c_ops\<close>, \<open>eeprom_chip\<close>, instantiated by
  an AT24 model and by the driver with such a chip), the registers of the I2C controller (\<open>i2c_regs\<close>, any
  behaviour, or \<open>ctl_regs\<close>), the kernel calls of the start
  (\<open>can_env\<close>, \<open>uart_env\<close>, \<open>boot_env\<close>), the ADC and the pins (arbitrary functions, no hypothesis), the
  display controller (\<open>st7567\<close>, instantiated), and the glyph widths of u8g2 (\<open>u8g2_lib\<close>, \<open>fonts_fit\<close>: no
  glyph is wider than 12 pixels and the width is the advance; instantiated by a fixed-width font). The
  tick counter is an argument wherever it is read, so that time is arbitrary.

  \<^bold>\<open>Not modelled\<close>, and why:
  \<^item> the pixels u8g2 draws for a call (third-party code that is not in the repository; the model ends at
    the calls and resumes at the buffer), and the font tables (generated);
  \<^item> interference inside a pass: a pass of a thread and an interrupt are atomic steps, so races between the
    interrupt and the serial thread on the counter of the ring are outside the model;
  \<^item> pad routing, delays and console output (no state of the program);
  \<^item> \<open>lcd_home_ui_test_update_every_second\<close> and \<open>u8g2_port_test_draw\<close>, which nothing calls; \<open>test.c\<close> holds only
    commented-out code;
  \<^item> of the devices: closing, the transmit FIFOs of the serial device (it has no transmit buffer), the CAN error
    counters, the DMA path of the I2C driver (switched off), and the register writes that configure the controllers;
  \<^item> the scheduler, memory and timers of RT-Thread, the rest of the vendor's SDK and the board files, which are
    vendored or generated; of the C library and the kernel's string and tick functions the model has what the
    application calls.
\<close>

end
